(* ===== verification/Prelude.thy ===== *)
theory Prelude
  imports Main "HOL-Library.Word" "HOL-Library.List_Lexorder" "HOL-Library.Char_ord"
    "HOL-Library.AList"
begin

text \<open>
  Shared vocabulary of the development: the machine types of the Go source, the result of a
  Go call (a value, a returned error, or a run-time panic), the pieces of the Go language and
  standard library the modelled code uses (slicing, \<^verbatim>\<open>copy\<close>, \<^verbatim>\<open>math/big\<close> narrowing,
  big-endian integers), and the generic lemmas on lists, association lists and words that the
  component theories share.
\<close>

section \<open>Machine types\<close>

type_synonym byte = "8 word"
type_synonym bytes = "byte list"
type_synonym u32 = "32 word"
type_synonym u64 = "64 word"

text \<open>
  \<^verbatim>\<open>common.Address\<close> is \<^verbatim>\<open>[20]byte\<close> and \<^verbatim>\<open>common.Hash\<close> is \<^verbatim>\<open>[32]byte\<close>. Both are byte lists
  here; the order on them is the lexicographic order of \<^verbatim>\<open>bytes.Compare\<close>.
\<close>

type_synonym address = bytes
type_synonym hash = bytes

named_theorems go_defs "definitions that unfold a Go language construct"
named_theorems len_simps "lengths of encoded and sliced byte strings"

section \<open>Results of Go calls\<close>

text \<open>A call returns a value, returns a non-nil error, or panics.\<close>

datatype ('e, 'a) result = Ok 'a | Err 'e | Panic

fun rbind :: "('e, 'a) result \<Rightarrow> ('a \<Rightarrow> ('e, 'b) result) \<Rightarrow> ('e, 'b) result" where
  "rbind (Ok x) f = f x"
| "rbind (Err e) f = Err e"
| "rbind Panic f = Panic"

fun is_ok :: "('e, 'a) result \<Rightarrow> bool" where
  "is_ok (Ok _) = True"
| "is_ok _ = False"

text \<open>Dereferencing a pointer panics when it is nil.\<close>

definition deref :: "'a option \<Rightarrow> ('e, 'a) result" where [go_defs]:
  "deref p = (case p of None \<Rightarrow> Panic | Some x \<Rightarrow> Ok x)"

lemma rbind_Ok_iff [simp]: "rbind m f = Ok y \<longleftrightarrow> (\<exists>x. m = Ok x \<and> f x = Ok y)"
  by (cases m) auto

lemma rbind_Err_iff:
  "rbind m f = Err e \<longleftrightarrow> m = Err e \<or> (\<exists>x. m = Ok x \<and> f x = Err e)"
  by (cases m) auto

lemma rbind_Panic_iff:
  "rbind m f = Panic \<longleftrightarrow> m = Panic \<or> (\<exists>x. m = Ok x \<and> f x = Panic)"
  by (cases m) auto

text \<open>An early return: the guard failed, and the rest of the function ran.\<close>

lemma guard_Ok [simp]:
  "(if c then Err e else r) = Ok x \<longleftrightarrow> \<not> c \<and> r = Ok x"
  "(if c then Panic else r) = Ok x \<longleftrightarrow> \<not> c \<and> r = Ok x"
  by simp_all

lemma rbind_assoc: "rbind (rbind m f) g = rbind m (\<lambda>x. rbind (f x) g)"
  by (cases m) auto

lemma rbind_Ok_right [simp]: "rbind m Ok = m"
  by (cases m) auto

lemma rbind_cong [fundef_cong]:
  "m = m' \<Longrightarrow> (\<And>x. m' = Ok x \<Longrightarrow> f x = f' x) \<Longrightarrow> rbind m f = rbind m' f'"
  by (cases m') auto

lemma is_ok_iff: "is_ok r \<longleftrightarrow> (\<exists>x. r = Ok x)"
  by (cases r) auto

lemma deref_simps [simp]:
  "deref (Some x) = Ok x" "deref None = Panic" "deref p = Ok y \<longleftrightarrow> p = Some y"
  "deref p = Err e \<longleftrightarrow> False" "deref p = Panic \<longleftrightarrow> p = None"
  by (auto simp: deref_def split: option.splits)

text \<open>Running a fallible step over a list, stopping at the first error or panic.\<close>

fun rfold :: "('s \<Rightarrow> 'a \<Rightarrow> ('e, 's) result) \<Rightarrow> 's \<Rightarrow> 'a list \<Rightarrow> ('e, 's) result" where
  "rfold f s [] = Ok s"
| "rfold f s (x # xs) = rbind (f s x) (\<lambda>s'. rfold f s' xs)"

lemma rfold_append: "rfold f s (xs @ ys) = rbind (rfold f s xs) (\<lambda>s'. rfold f s' ys)"
  by (induction xs arbitrary: s) (auto simp: rbind_assoc)

lemma rfold_invariant:
  assumes "P s" and "rfold f s xs = Ok t"
    and "\<And>s x s'. P s \<Longrightarrow> x \<in> set xs \<Longrightarrow> f s x = Ok s' \<Longrightarrow> P s'"
  shows "P t"
  using assms
proof (induction xs arbitrary: s)
  case Nil
  then show ?case by simp
next
  case (Cons x xs)
  from Cons.prems(2) obtain s' where "f s x = Ok s'" and rest: "rfold f s' xs = Ok t"
    by auto
  with Cons.prems(1,3) have "P s'" by (meson list.set_intros(1))
  then show ?case using rest Cons.prems(3) by (intro Cons.IH) auto
qed

section \<open>Slices, copy, big integers and byte order\<close>

text \<open>\<^verbatim>\<open>xs[lo:hi]\<close>: a panic unless \<open>0 \<le> lo \<le> hi \<le> len(xs)\<close>.\<close>

definition slice :: "int \<Rightarrow> int \<Rightarrow> 'a list \<Rightarrow> ('e, 'a list) result" where [go_defs]:
  "slice lo hi xs =
     (if 0 \<le> lo \<and> lo \<le> hi \<and> hi \<le> int (length xs)
      then Ok (take (nat (hi - lo)) (drop (nat lo) xs)) else Panic)"

text \<open>\<^verbatim>\<open>var a [n]byte; copy(a[:], src)\<close>: the first \<open>n\<close> bytes, zero-padded.\<close>

definition copy_fixed :: "nat \<Rightarrow> bytes \<Rightarrow> bytes" where [go_defs]:
  "copy_fixed n src = take n src @ replicate (n - length src) 0"

text \<open>\<^verbatim>\<open>copy(dst, src)\<close> on two slices: \<open>min\<close> of the lengths is overwritten.\<close>

definition copy_over :: "bytes \<Rightarrow> bytes \<Rightarrow> bytes" where [go_defs]:
  "copy_over dst src = take (length dst) src @ drop (length src) dst"

lemma length_copy_fixed [simp, len_simps]: "length (copy_fixed n src) = n"
  by (simp add: copy_fixed_def)

lemma copy_fixed_same [simp]: "length src = n \<Longrightarrow> copy_fixed n src = src"
  by (simp add: copy_fixed_def)

lemma copy_fixed_append [simp]: "length xs = n \<Longrightarrow> copy_fixed n (xs @ ys) = xs"
  by (simp add: copy_fixed_def)

lemma length_copy_over [simp, len_simps]: "length (copy_over dst src) = length dst"
  by (simp add: copy_over_def)

lemma copy_over_same [simp]: "length src = length dst \<Longrightarrow> copy_over dst src = src"
  by (simp add: copy_over_def)

text \<open>
  \<^verbatim>\<open>(*big.Int).Uint64\<close> returns the low 64 bits of the magnitude, \<^verbatim>\<open>Int64\<close> the same bits
  negated for a negative number and read as two's complement.
\<close>

definition Uint64 :: "int \<Rightarrow> u64" where
  "Uint64 x = word_of_int \<bar>x\<bar>"

definition Int64 :: "int \<Rightarrow> int" where
  "Int64 x = sint (if x < 0 then - Uint64 x else Uint64 x)"

lemma unat_Uint64: "unat (Uint64 x) = nat \<bar>x\<bar> mod 2 ^ 64"
proof -
  have "int (unat (Uint64 x)) = int (nat \<bar>x\<bar> mod 2 ^ 64)"
    by (simp only: uint_nat [symmetric] zmod_int) (simp add: Uint64_def uint_word_of_int)
  then show ?thesis by (simp only: of_nat_eq_iff)
qed

lemma Uint64_small: "0 \<le> x \<Longrightarrow> x < 2 ^ 64 \<Longrightarrow> uint (Uint64 x) = x"
  by (simp add: Uint64_def uint_word_of_int)

lemma sint_small:
  fixes w :: u64
  assumes "unat w < 2 ^ 63"
  shows "sint w = int (unat w)"
proof -
  have "n < 2 ^ 63 \<Longrightarrow> signed_take_bit 63 (int n) = int n" for n :: nat
    by (intro signed_take_bit_int_eq_self) simp_all
  from this [OF assms] show ?thesis by (simp only: sint_uint uint_nat) simp
qed

text \<open>\<^verbatim>\<open>binary.BigEndian\<close>: reading and writing fixed-width integers.\<close>

definition be_nat :: "bytes \<Rightarrow> nat" where
  "be_nat bs = foldl (\<lambda>a b. a * 256 + unat b) 0 bs"

definition be_uint64 :: "bytes \<Rightarrow> u64" where
  "be_uint64 bs = word_of_nat (be_nat (take 8 bs))"

definition be_uint32 :: "bytes \<Rightarrow> u32" where
  "be_uint32 bs = word_of_nat (be_nat (take 4 bs))"

definition be_put32 :: "u32 \<Rightarrow> bytes" where
  "be_put32 w = map (\<lambda>k. word_of_nat (unat w div 256 ^ k)) [3, 2, 1, 0]"

lemma length_be_put32 [simp, len_simps]: "length (be_put32 w) = 4"
  by (simp add: be_put32_def)

lemma be_digits:
  fixes n :: nat
  assumes "n < 4294967296"
  shows "(((n div 16777216 mod 256) * 256 + n div 65536 mod 256) * 256 + n div 256 mod 256) * 256
           + n mod 256 = n"
proof -
  define q where "q = n div 256"
  define r where "r = q div 256"
  have "n div 65536 = r" and "n div 16777216 = r div 256"
    by (simp_all add: r_def q_def div_mult2_eq [symmetric])
  moreover have "r div 256 < 256"
    using assms by (simp add: r_def q_def div_mult2_eq [symmetric] less_mult_imp_div_less)
  moreover have "n = q * 256 + n mod 256" and "q = r * 256 + q mod 256"
      and "r = (r div 256) * 256 + r mod 256"
    by (simp_all add: q_def r_def)
  ultimately show ?thesis by (simp add: q_def [symmetric])
qed

lemma be_uint32_put32 [simp]: "be_uint32 (be_put32 w @ rest) = w"
proof -
  have lt: "unat w < 4294967296" using unsigned_less [of w] by simp
  have byte: "unat (word_of_nat m :: byte) = m mod 256" for m
    by (simp add: unat_of_nat)
  have top: "unat w div 16777216 mod 256 = unat w div 16777216"
    using lt by (simp add: less_mult_imp_div_less)
  have "be_nat (be_put32 w) = unat w"
    unfolding be_nat_def be_put32_def using be_digits [OF lt, unfolded top]
    by (simp only: list.map foldl_Cons foldl_Nil byte) (simp add: top)
  then show ?thesis by (simp add: be_uint32_def)
qed

lemma be_put32_take:
  assumes "4 \<le> length bs"
  shows "be_put32 (be_uint32 bs) = take 4 bs"
proof -
  from assms obtain a b c d rest where bs: "bs = a # b # c # d # rest"
    by (auto simp: numeral_eq_Suc Suc_le_length_iff)
  let ?n = "((unat a * 256 + unat b) * 256 + unat c) * 256 + unat d"
  have lt: "unat a < 256" "unat b < 256" "unat c < 256" "unat d < 256"
    using unsigned_less [of a] unsigned_less [of b] unsigned_less [of c] unsigned_less [of d] by simp_all
  have "be_nat (take 4 bs) = ?n" by (simp add: bs be_nat_def)
  moreover have "?n < 2 ^ 32" using lt by simp
  moreover have "unat (word_of_nat m :: u32) = m" if "m < 2 ^ 32" for m
    using that by (simp add: unat_of_nat)
  ultimately have n: "unat (be_uint32 bs) = ?n" by (simp only: be_uint32_def)
  have d1: "?n div 256 = (unat a * 256 + unat b) * 256 + unat c" using lt by simp
  have d2: "?n div 65536 = unat a * 256 + unat b"
    using lt div_mult2_eq [of ?n 256 256] by (simp add: d1)
  have d3: "?n div 16777216 = unat a"
    using lt div_mult2_eq [of ?n 65536 256] by (simp add: d2)
  have b: "(word_of_nat (m * 256 + unat x) :: byte) = x" for m x
  proof -
    have "unat x < 256" using unsigned_less [of x] by simp
    moreover have "(k + m * 256) mod 256 = k mod 256" for k :: nat by simp
    ultimately have "(m * 256 + unat x) mod 2 ^ 8 = unat x" by (simp add: add.commute)
    then show ?thesis by (simp only: word_unat_eq_iff unat_of_nat len_num1 len_bit0 len_num0 mult_1_right mult_1) simp
  qed
  have "word_of_nat (?n div 16777216) = a" "word_of_nat (?n div 65536) = b" "word_of_nat (?n div 256) = c"
    "word_of_nat ?n = d" using b [of _ d] by (simp_all only: d1 d2 d3 b) simp
  then have "map (\<lambda>m. word_of_nat (?n div m)) [16777216, 65536, 256, 1] = [a, b, c, d]"
    by (simp only: list.map div_by_1)
  moreover have "take 4 bs = [a, b, c, d]" by (simp add: bs)
  ultimately show ?thesis unfolding be_put32_def n by (simp only: list.map) simp
qed

text \<open>Code equations on binary integers, for the evaluation of witnesses.\<close>

lemma be_nat_int: "int (be_nat bs) = foldl (\<lambda>a b. a * 256 + uint b) 0 bs"
proof -
  have "int (foldl (\<lambda>a b. a * 256 + unat b) n bs) = foldl (\<lambda>a b. a * 256 + uint b) (int n) bs" for n
    by (induction bs arbitrary: n) simp_all
  from this [of 0] show ?thesis by (simp add: be_nat_def)
qed

lemma be_uint_code [code]:
  "be_uint64 bs = word_of_int (foldl (\<lambda>a b. a * 256 + uint b) 0 (take 8 bs))"
  "be_uint32 bs = word_of_int (foldl (\<lambda>a b. a * 256 + uint b) 0 (take 4 bs))"
  by (simp_all add: be_uint64_def be_uint32_def be_nat_int [symmetric])

lemma be_put32_code [code]:
  "be_put32 w = map (\<lambda>d. word_of_int (uint w div d)) [16777216, 65536, 256, 1]"
proof -
  have "word_of_nat (unat w div n) = (word_of_int (uint w div int n) :: byte)" for n
  proof -
    have "word_of_int (int (unat w div n)) = (word_of_int (uint w div int n) :: byte)" by (simp only: zdiv_int uint_nat)
    then show ?thesis by simp
  qed
  from this [of 16777216] this [of 65536] this [of 256] this [of 1] show ?thesis by (simp add: be_put32_def)
qed

section \<open>Lists and association lists\<close>

text \<open>
  A Go map that the source iterates over is an association list with distinct keys, updated
  by \<^const>\<open>AList.update\<close> and \<^const>\<open>AList.delete\<close>.
\<close>

lemma set_alist_update:
  "distinct (map fst m) \<Longrightarrow> set (AList.update k v m) = insert (k, v) {p \<in> set m. fst p \<noteq> k}"
  by (induction m) (auto simp: image_iff)

lemma set_alist_delete: "set (AList.delete k m) = {p \<in> set m. fst p \<noteq> k}"
  by (induction m) auto

lemma distinct_fst_update: "distinct (map fst m) \<Longrightarrow> distinct (map fst (AList.update k v m))"
  by (rule AList.distinct_update)

lemma distinct_fst_delete: "distinct (map fst m) \<Longrightarrow> distinct (map fst (AList.delete k m))"
  by (rule AList.distinct_delete)

lemma length_eq_card_fst: "distinct (map fst m) \<Longrightarrow> length m = card (fst ` set m)"
  by (metis distinct_card length_map set_map)

lemma distinct_map_filter_pred: "distinct (map f xs) \<Longrightarrow> distinct (map f (filter P xs))"
  by (simp add: distinct_map_filter)

lemma sorted_list_of_set_nth_unique:
  "finite A \<Longrightarrow> i < card A \<Longrightarrow> j < card A \<Longrightarrow>
   sorted_list_of_set A ! i = sorted_list_of_set A ! j \<Longrightarrow> i = j"
  by (simp add: nth_eq_iff_index_eq)

end
