(* ===== verification/Geth.thy ===== *)
theory Geth
  imports Prelude
begin

text \<open>
  The go-ethereum vocabulary the client is written against. The block header is the struct of
  \<^verbatim>\<open>core/types\<close> with the fields the client reads or writes. The functions of go-ethereum
  (hashing, signatures, RLP) are not part of the program: they are parameters, collected in
  the record \<open>geth\<close> and in one \<open>codec\<close> per RLP-encoded type, and every definition that calls
  them takes them as arguments. What the program relies on is stated as named predicates on
  the parameters (\<open>ecdsa_ok\<close>, \<open>codec_ok\<close>), which properties assume where they need them.
\<close>

section \<open>Block headers\<close>

text \<open>
  \<^verbatim>\<open>*big.Int\<close> fields are optional integers (nil is \<^const>\<open>None\<close>). \<open>PostMerge\<close> stands for the
  optional fields of later forks, which the client never reads but which the header hash covers.
\<close>

record header =
  ParentHash :: hash
  UncleHash :: hash
  Coinbase :: address
  Root :: hash
  TxHash :: hash
  ReceiptHash :: hash
  Bloom :: bytes
  Difficulty :: "int option"
  Number :: "int option"
  GasLimit :: u64
  GasUsed :: u64
  Time :: u64
  Extra :: bytes
  MixDigest :: hash
  Nonce :: bytes
  BaseFee :: "int option"
  PostMerge :: bytes

definition zeroAddress :: address where
  "zeroAddress = replicate 20 0"

definition zeroHash :: hash where
  "zeroHash = replicate 32 0"

definition AddressLength :: nat where "AddressLength = 20"

text \<open>\<^verbatim>\<open>header.Number.Uint64()\<close>: a panic on a nil number.\<close>

definition hnum :: "header \<Rightarrow> u64 option" where
  "hnum h = map_option Uint64 (Number h)"

definition number_of :: "header \<Rightarrow> ('e, u64) result" where
  "number_of h = deref (hnum h)"

lemma number_of_simps [simp]:
  "number_of h = Ok n \<longleftrightarrow> hnum h = Some n"
  "number_of h = Err e \<longleftrightarrow> False"
  "number_of h = Panic \<longleftrightarrow> Number h = None"
  by (auto simp: number_of_def hnum_def)

lemma hnum_Some [simp]: "Number h = Some n \<Longrightarrow> hnum h = Some (Uint64 n)"
  by (simp add: hnum_def)

lemma number_of_hnum: "hnum h = Some n \<Longrightarrow> number_of h = Ok n"
  by simp

section \<open>Parameters\<close>

type_synonym privkey = bytes

text \<open>The elements of the \<^verbatim>\<open>[]interface{}\<close> lists the client RLP-encodes before hashing.\<close>

datatype rlp_item = RBytes bytes | RBig "int option" | RUint u64

text \<open>The header fields both mechanisms hash, with the given extra data in place of the header's.\<close>

definition sigFields :: "header \<Rightarrow> bytes \<Rightarrow> rlp_item list" where
  "sigFields h extra =
     [RBytes (ParentHash h), RBytes (UncleHash h), RBytes (Coinbase h), RBytes (Root h),
      RBytes (TxHash h), RBytes (ReceiptHash h), RBytes (Bloom h), RBig (Difficulty h),
      RBig (Number h), RUint (GasLimit h), RUint (GasUsed h), RUint (Time h),
      RBytes extra, RBytes (MixDigest h), RBytes (Nonce h)]
     @ (case BaseFee h of None \<Rightarrow> [] | Some b \<Rightarrow> [RBig (Some b)])"

record geth =
  hdrHash :: "header \<Rightarrow> hash"                      \<comment> \<open>\<^verbatim>\<open>(*types.Header).Hash\<close>\<close>
  emptyUncleHash :: hash                           \<comment> \<open>\<^verbatim>\<open>types.CalcUncleHash(nil)\<close>\<close>
  Keccak256 :: "bytes \<Rightarrow> bytes"                     \<comment> \<open>\<^verbatim>\<open>crypto.Keccak256\<close>\<close>
  Ecrecover :: "bytes \<Rightarrow> bytes \<Rightarrow> bytes option"     \<comment> \<open>\<^verbatim>\<open>crypto.Ecrecover\<close>, \<^const>\<open>None\<close> on error\<close>
  Sign :: "bytes \<Rightarrow> privkey \<Rightarrow> bytes option"        \<comment> \<open>\<^verbatim>\<open>crypto.Sign\<close>, \<^const>\<open>None\<close> on error\<close>
  Pubkey :: "privkey \<Rightarrow> bytes"                      \<comment> \<open>\<^verbatim>\<open>crypto.FromECDSAPub(&key.PublicKey)\<close>\<close>
  rlpList :: "rlp_item list \<Rightarrow> bytes option"        \<comment> \<open>\<^verbatim>\<open>rlp.EncodeToBytes\<close> of a list\<close>
  addrHex :: "address \<Rightarrow> string"                    \<comment> \<open>\<^verbatim>\<open>(common.Address).Hex\<close>\<close>

text \<open>\<^verbatim>\<open>rlp.EncodeToBytes\<close> and \<^verbatim>\<open>rlp.DecodeBytes\<close> at one type.\<close>

record 'a codec =
  enc :: "'a \<Rightarrow> bytes option"
  dec :: "bytes \<Rightarrow> 'a option"

text \<open>
  Documented behaviour the client relies on. Decoding inverts encoding on the values of \<open>A\<close>;
  \<^verbatim>\<open>crypto.Sign\<close> produces a 65-byte signature from which \<^verbatim>\<open>crypto.Ecrecover\<close> recovers the
  signer's uncompressed public key, which starts with the byte 4.
\<close>

definition codec_ok :: "'a codec \<Rightarrow> 'a set \<Rightarrow> bool" where
  "codec_ok C A \<longleftrightarrow> (\<forall>x \<in> A. \<exists>b. enc C x = Some b \<and> dec C b = Some x)"

definition ecdsa_ok :: "geth \<Rightarrow> privkey \<Rightarrow> bool" where
  "ecdsa_ok G k \<longleftrightarrow>
     (\<exists>body. Pubkey G k = 4 # body) \<and>
     (\<forall>d sig. Sign G d k = Some sig \<longrightarrow> length sig = 65 \<and> Ecrecover G d sig = Some (Pubkey G k))"

lemma codec_okD: "codec_ok C A \<Longrightarrow> x \<in> A \<Longrightarrow> enc C x = Some b \<Longrightarrow> dec C b = Some x"
  by (auto simp: codec_ok_def)

lemma codec_ok_enc: "codec_ok C A \<Longrightarrow> x \<in> A \<Longrightarrow> \<exists>b. enc C x = Some b \<and> dec C b = Some x"
  by (auto simp: codec_ok_def)

text \<open>
  The last 20 bytes of the hash of an uncompressed public key, as the client computes it in
  three places (\<^verbatim>\<open>copy(addr[:], crypto.Keccak256(pubkey[1:])[12:])\<close>).
\<close>

definition pubkey_address :: "geth \<Rightarrow> bytes \<Rightarrow> address" where
  "pubkey_address G pub = copy_fixed 20 (drop 12 (Keccak256 G (drop 1 pub)))"

definition key_address :: "geth \<Rightarrow> privkey \<Rightarrow> address" where
  "key_address G k = pubkey_address G (Pubkey G k)"

lemma length_pubkey_address [simp, len_simps]: "length (pubkey_address G p) = 20"
  by (simp add: pubkey_address_def)

lemma length_key_address [simp, len_simps]: "length (key_address G k) = 20"
  by (simp add: key_address_def)

section \<open>Packed address lists\<close>

text \<open>Reading a byte string as consecutive 20-byte addresses, the last one zero-padded.\<close>

function addrs_of :: "bytes \<Rightarrow> address list" where
  "addrs_of data = (if data = [] then [] else copy_fixed 20 data # addrs_of (drop 20 data))"
  by pat_completeness auto
termination by (relation "measure length") auto

declare addrs_of.simps [simp del]

lemma addrs_of_Nil [simp]: "addrs_of [] = []"
  by (simp add: addrs_of.simps)

lemma addrs_of_concat:
  "\<forall>a \<in> set as. length a = 20 \<Longrightarrow> addrs_of (concat as) = as"
proof (induction as)
  case Nil
  show ?case by simp
next
  case (Cons a as)
  then have "a \<noteq> []" and "length a = 20" by auto
  then have "addrs_of (a @ concat as) = a # addrs_of (concat as)"
    by (subst addrs_of.simps) simp
  with Cons show ?case by simp
qed

lemma length_concat_addrs:
  "\<forall>a \<in> set as. length a = n \<Longrightarrow> length (concat as) = n * length as"
  by (induction as) auto

text \<open>The indexed loop over a whole number of addresses reads the same list.\<close>

lemma addrs_of_indexed:
  "length data = 20 * n \<Longrightarrow> map (\<lambda>i. copy_fixed 20 (drop (i * 20) data)) [0..<n] = addrs_of data"
proof (induction n arbitrary: data)
  case 0
  then show ?case by simp
next
  case (Suc n)
  then have "data \<noteq> []" by auto
  then have unfold: "addrs_of data = copy_fixed 20 data # addrs_of (drop 20 data)"
    by (subst addrs_of.simps) simp
  from Suc.prems have "length (drop 20 data) = 20 * n" by simp
  note IH = Suc.IH [OF this]
  have "map (\<lambda>i. copy_fixed 20 (drop (i * 20) data)) [0..<Suc n] =
        copy_fixed 20 data # map (\<lambda>i. copy_fixed 20 (drop (Suc i * 20) data)) [0..<n]"
    by (simp only: upt_conv_Cons [OF zero_less_Suc] map_Suc_upt [symmetric] list.map map_map o_def)
       simp
  also have "\<dots> = copy_fixed 20 data # addrs_of (drop 20 data)"
    using IH by (simp add: drop_drop add.commute)
  finally show ?case using unfold by simp
qed

section \<open>A concrete instance\<close>

text \<open>
  An executable instance of the parameters, on which witnesses evaluate: the hash is the
  identity, a signature is the key's address padded to 65 bytes, and recovery reads it back.
\<close>

definition demoGeth :: geth where
  "demoGeth =
     \<lparr>hdrHash = (\<lambda>h. TxHash h @ Extra h), emptyUncleHash = [1], Keccak256 = (\<lambda>x. x),
      Ecrecover = (\<lambda>d sig. if length sig = 65 then Some (4 # replicate 12 0 @ take 20 sig) else None),
      Sign = (\<lambda>d k. Some (copy_fixed 20 k @ replicate 45 0)),
      Pubkey = (\<lambda>k. 4 # replicate 12 0 @ copy_fixed 20 k),
      rlpList = (\<lambda>_. Some []),
      addrHex = map (\<lambda>b. char_of (unat b))\<rparr>"

definition demoAddr :: "byte \<Rightarrow> address" where
  "demoAddr b = replicate 19 0 @ [b]"

definition demoHeader :: header where
  "demoHeader =
     \<lparr>ParentHash = [], UncleHash = [1], Coinbase = zeroAddress, Root = [], TxHash = [], ReceiptHash = [],
      Bloom = [], Difficulty = Some 1, Number = Some 0, GasLimit = 0, GasUsed = 0, Time = 0, Extra = [],
      MixDigest = zeroHash, Nonce = replicate 8 0, BaseFee = None, PostMerge = []\<rparr>"

lemma demo_ecdsa_ok: "ecdsa_ok demoGeth k"
  by (simp add: ecdsa_ok_def demoGeth_def)

lemma demo_key_address [simp]: "key_address demoGeth k = copy_fixed 20 k"
  by (simp add: key_address_def pubkey_address_def demoGeth_def)

end
