(* ===== verification/Consensus.thy ===== *)
theory Consensus
  imports Geth
begin

text \<open>
  The interfaces of \<^verbatim>\<open>internal/consensus/consensus.go\<close> through which the node uses a consensus
  mechanism. \<open>consensus_snapshot\<close> is the contract of the Go interface \<^verbatim>\<open>Snapshot\<close>: a signer list
  without duplicates that agrees with \<^verbatim>\<open>IsAuthorized\<close>, and in-turn assignment by position.
  \<open>consensus_engine\<close> adds the contract of \<^verbatim>\<open>Engine.Apply\<close> that the node's snapshot cache rests on.
  Both Clique and QBFT interpret them. \<open>bft_engine\<close> is the contract of the extension \<^verbatim>\<open>BFTEngine\<close>, which QBFT interprets.
\<close>

record VoteRecord =
  vrSigner :: address
  vrAddress :: address
  vrAuthorize :: bool
  vrBlock :: u64

section \<open>Snapshots\<close>

locale consensus_snapshot =
  fixes wf :: "'s \<Rightarrow> bool"
    and IsAuthorized :: "'s \<Rightarrow> address \<Rightarrow> bool"
    and SignerList :: "'s \<Rightarrow> address list"
    and InTurn :: "'s \<Rightarrow> u64 \<Rightarrow> address \<Rightarrow> bool"
  assumes signer_list_set: "wf s \<Longrightarrow> set (SignerList s) = {a. IsAuthorized s a}"
    and signer_list_distinct: "wf s \<Longrightarrow> distinct (SignerList s)"
    and in_turn_position: "wf s \<Longrightarrow> InTurn s n a \<longleftrightarrow>
          SignerList s \<noteq> [] \<and> SignerList s ! (unat n mod length (SignerList s)) = a"
begin

text \<open>At every height exactly one authorized signer is in turn.\<close>

lemma in_turn_ex1:
  assumes "wf s" and "IsAuthorized s b"
  shows "\<exists>!a. IsAuthorized s a \<and> InTurn s n a"
proof -
  let ?l = "SignerList s" and ?i = "unat n mod length (SignerList s)"
  from assms have ne: "?l \<noteq> []" using signer_list_set by fastforce
  then have "?l ! ?i \<in> set ?l" by simp
  with assms(1) have "IsAuthorized s (?l ! ?i)" using signer_list_set by auto
  then show ?thesis using assms(1) ne by (auto simp: in_turn_position)
qed

text \<open>Only authorized signers are ever in turn.\<close>

lemma in_turn_authorized:
  assumes "wf s" and "InTurn s n a"
  shows "IsAuthorized s a"
proof -
  from assms have "SignerList s \<noteq> []" and "SignerList s ! (unat n mod length (SignerList s)) = a"
    by (auto simp: in_turn_position)
  then have "a \<in> set (SignerList s)" by (metis length_greater_0_conv mod_less_divisor nth_mem)
  with assms(1) show ?thesis by (simp add: signer_list_set)
qed

text \<open>Turns rotate: two heights less than a full round apart have different in-turn signers.\<close>

lemma in_turn_rotates:
  assumes "wf s" and "InTurn s m a" and "InTurn s n a"
    and "unat m < unat n" and "unat n < unat m + length (SignerList s)"
  shows False
proof -
  let ?l = "SignerList s"
  from assms have ne: "?l \<noteq> []" and eq: "?l ! (unat m mod length ?l) = ?l ! (unat n mod length ?l)"
    by (auto simp: in_turn_position)
  from ne have "unat m mod length ?l < length ?l" "unat n mod length ?l < length ?l" by simp_all
  with eq assms(1) have "unat m mod length ?l = unat n mod length ?l"
    using signer_list_distinct nth_eq_iff_index_eq by blast
  then have "length ?l dvd unat n - unat m" using assms(4) by (metis less_imp_le mod_eq_dvd_iff_nat)
  with assms(4,5) show False by (auto dest!: dvd_imp_le)
qed

text \<open>Every authorized signer gets a turn within any full round of heights.\<close>

lemma in_turn_every_round:
  assumes "wf s" and "IsAuthorized s a" and "unat m + length (SignerList s) < 2 ^ 64"
  shows "\<exists>n. unat m \<le> unat n \<and> unat n < unat m + length (SignerList s) \<and> InTurn s n a"
proof -
  let ?l = "SignerList s" and ?N = "length (SignerList s)"
  from assms have "a \<in> set ?l" by (simp add: signer_list_set)
  then obtain i where i: "i < ?N" "?l ! i = a" by (auto simp: in_set_conv_nth)
  then have N: "0 < ?N" by linarith
  define k where "k = unat m + (i + ?N - unat m mod ?N) mod ?N"
  have kN: "unat m \<le> k" "k < unat m + ?N" using N by (auto simp: k_def)
  have "k mod ?N = (unat m mod ?N + (i + ?N - unat m mod ?N)) mod ?N"
    unfolding k_def by (simp add: mod_simps)
  also have "\<dots> = (i + ?N) mod ?N"
    using mod_less_divisor [OF N, of "unat m"] by simp
  finally have ki: "k mod ?N = i" using i by simp
  have uk: "unat (word_of_nat k :: u64) = k"
    using kN(2) assms(3) by (simp add: unat_of_nat)
  have "InTurn s (word_of_nat k) a"
    using i ki uk assms(1) N by (auto simp: in_turn_position)
  with kN uk show ?thesis by metis
qed

end

section \<open>Engines\<close>

text \<open>
  The node replays headers in batches of different sizes (one header on the fast path, a whole
  epoch on the general path). What makes the results agree is that \<^verbatim>\<open>Apply\<close> composes, and that
  the snapshot it returns is the one of the last header.
\<close>

locale consensus_engine =
  fixes Apply :: "'s \<Rightarrow> header list \<Rightarrow> ('e, 's) result"
    and BlockNumber :: "'s \<Rightarrow> u64"
    and BlockHash :: "'s \<Rightarrow> hash"
    and hashOf :: "header \<Rightarrow> hash"
  assumes apply_nil: "Apply s [] = Ok s"
    and apply_append: "Apply s (xs @ ys) = Ok u \<longleftrightarrow> (\<exists>t. Apply s xs = Ok t \<and> Apply t ys = Ok u)"
    and apply_last: "Apply s (xs @ [h]) = Ok t \<Longrightarrow> hnum h = Some (BlockNumber t) \<and> BlockHash t = hashOf h"
begin

text \<open>Replaying a segment header by header gives the snapshot of the batch.\<close>

lemma apply_incremental: "Apply s hs = Ok t \<longleftrightarrow> rfold (\<lambda>s h. Apply s [h]) s hs = Ok t"
proof (induction hs arbitrary: s)
  case Nil
  show ?case by (simp add: apply_nil)
next
  case (Cons h hs)
  have "Apply s (h # hs) = Ok t \<longleftrightarrow> (\<exists>u. Apply s [h] = Ok u \<and> Apply u hs = Ok t)"
    using apply_append [of s "[h]" hs t] by simp
  then show ?case using Cons.IH by simp
qed

text \<open>The snapshot reached does not depend on how the segment is cut.\<close>

lemma apply_cut:
  assumes "Apply s xs = Ok t"
  shows "Apply s (xs @ ys) = Ok u \<longleftrightarrow> Apply t ys = Ok u"
  using assms by (simp add: apply_append)

lemma apply_position:
  assumes "Apply s hs = Ok t" and "hs \<noteq> []"
  shows "hnum (last hs) = Some (BlockNumber t) \<and> BlockHash t = hashOf (last hs)"
  using assms apply_last [of s "butlast hs" "last hs" t] by simp

end

section \<open>Engines with finality\<close>

text \<open>
  The interface \<^verbatim>\<open>BFTEngine\<close>. The laws: a final header is a valid proposal sealed by a quorum of members, seals of a quorum
  turn a valid proposal into a final header, a quorum has more than two thirds of the members and can be formed
  without a third of them.
\<close>

locale bft_engine =
  fixes VerifyHeader :: "'s \<Rightarrow> header \<Rightarrow> header option \<Rightarrow> ('e, unit) result"
    and Quorum :: "nat \<Rightarrow> nat"
    and VerifyProposal :: "'s \<Rightarrow> header \<Rightarrow> header option \<Rightarrow> ('e, unit) result"
    and CommitBlock :: "header \<Rightarrow> bytes list \<Rightarrow> ('f, header) result"
    and members :: "'s \<Rightarrow> address set"
    and sealers :: "header \<Rightarrow> address set"
    and sealOver :: "header \<Rightarrow> address \<Rightarrow> bytes \<Rightarrow> bool"
  assumes quorum_large: "2 * n < 3 * Quorum n"
    and quorum_reachable: "0 < n \<Longrightarrow> Quorum n \<le> n - (n - 1) div 3"
    and final_proposal: "VerifyHeader s h p = Ok () \<Longrightarrow> VerifyProposal s h p = Ok ()"
    and final_sealed: "VerifyHeader s h p = Ok () \<Longrightarrow> finite (members s) \<Longrightarrow>
          sealers h \<subseteq> members s \<and> Quorum (card (members s)) \<le> card (sealers h)"
    and commit_final: "VerifyProposal s h p = Ok () \<Longrightarrow> list_all2 (sealOver h) as seals \<Longrightarrow> distinct as \<Longrightarrow>
          set as \<subseteq> members s \<Longrightarrow> Quorum (card (members s)) \<le> length as \<Longrightarrow>
          \<exists>h'. CommitBlock h seals = Ok h' \<and> VerifyHeader s h' p = Ok ()"
begin

text \<open>Two final headers at one snapshot share more than a third of the members.\<close>

lemma final_share:
  assumes "VerifyHeader s h1 p1 = Ok ()" and "VerifyHeader s h2 p2 = Ok ()" and "finite (members s)"
  shows "card (members s) < 3 * card (sealers h1 \<inter> sealers h2)"
proof -
  let ?V = "members s"
  from final_sealed [OF assms(1,3)] final_sealed [OF assms(2,3)] have q:
    "sealers h1 \<subseteq> ?V" "Quorum (card ?V) \<le> card (sealers h1)" "sealers h2 \<subseteq> ?V" "Quorum (card ?V) \<le> card (sealers h2)" by auto
  have "card (sealers h1) + card (sealers h2) = card (sealers h1 \<union> sealers h2) + card (sealers h1 \<inter> sealers h2)"
    using q assms(3) by (intro card_Un_Int) (auto intro: finite_subset)
  moreover have "card (sealers h1 \<union> sealers h2) \<le> card ?V" using q assms(3) by (intro card_mono) auto
  ultimately show ?thesis using quorum_large [of "card ?V"] q by linarith
qed

text \<open>The seals of all members outside a minority of less than a third finalize a valid proposal.\<close>

lemma commit_without_third:
  assumes "VerifyProposal s h p = Ok ()" and "finite (members s)" and "list_all2 (sealOver h) as seals" and "distinct as"
    and "set as = members s - B" and "B \<subseteq> members s" and "3 * card B < card (members s)"
  shows "\<exists>h'. CommitBlock h seals = Ok h' \<and> VerifyHeader s h' p = Ok ()"
proof -
  have "length as = card (members s) - card B"
    using assms(2,4-6) by (metis card_Diff_subset distinct_card finite_subset)
  moreover have "Quorum (card (members s)) \<le> card (members s) - (card (members s) - 1) div 3"
    using assms(7) by (intro quorum_reachable) simp
  moreover have "card B \<le> (card (members s) - 1) div 3" using assms(7) by simp
  ultimately have "Quorum (card (members s)) \<le> length as" by linarith
  then show ?thesis using commit_final [OF assms(1,3,4)] assms(5) by blast
qed

end

end
