(* ===== verification/Clique_Snapshot.thy ===== *)
theory Clique_Snapshot
  imports Consensus "HOL-Library.Multiset"
begin

text \<open>
  The Clique authorization snapshot: \<^verbatim>\<open>clique/snapshot.go\<close>, \<^verbatim>\<open>clique/vote.go\<close>,
  \<^verbatim>\<open>clique/seal.go\<close> and the constants and errors of \<^verbatim>\<open>clique/clique.go\<close>. The Go maps
  \<^verbatim>\<open>Signers\<close> and \<^verbatim>\<open>Tally\<close> are a set and a partial function, \<^verbatim>\<open>Recents\<close>, which the code
  ranges over, is an association list. The deep copy at the start of \<^verbatim>\<open>apply\<close> is the identity
  on these values; that it makes snapshots behave as values is shown in \<open>Clique_Heap\<close>.
\<close>

section \<open>Constants and errors\<close>

definition extraVanity :: nat where "extraVanity = 32"
definition extraSeal :: nat where "extraSeal = 65"

definition diffInTurn :: int where "diffInTurn = 2"
definition diffNoTurn :: int where "diffNoTurn = 1"

definition nonceAuthUint64 :: u64 where "nonceAuthUint64 = 0xffffffffffffffff"
definition nonceDropUint64 :: u64 where "nonceDropUint64 = 0"

definition nonceAuth :: bytes where "nonceAuth = replicate 8 0xff"
definition nonceNull :: bytes where "nonceNull = replicate 8 0"

lemmas clique_consts = extraVanity_def extraSeal_def AddressLength_def diffInTurn_def diffNoTurn_def

datatype clique_error =
    ErrUnauthorizedSigner
  | ErrRecentlySigned
  | ErrInvalidExtraData
  | ErrInvalidNonce
  | ErrInvalidVoteAddress
  | ErrInvalidDifficulty
  | ErrWrongDifficulty
  | ErrInvalidMixDigest
  | ErrInvalidUncleHash
  | ErrInvalidTimestamp
  | ErrExtraTooShort        \<comment> \<open>\<^verbatim>\<open>extra data too short\<close> in seal.go and snapshot.go\<close>
  | ErrEcrecover            \<comment> \<open>\<^verbatim>\<open>ecrecover: ...\<close>\<close>
  | ErrInvalidPubkey        \<comment> \<open>\<^verbatim>\<open>invalid uncompressed public key recovered\<close>\<close>
  | ErrSign                 \<comment> \<open>\<^verbatim>\<open>sign header hash: ...\<close>\<close>
  | ErrNoSigners            \<comment> \<open>\<^verbatim>\<open>genesis extra data contains no signers\<close>\<close>
  | ErrSignerDataLength     \<comment> \<open>\<^verbatim>\<open>genesis signer data length ...\<close>\<close>
  | ErrNotNext              \<comment> \<open>\<^verbatim>\<open>header ... does not follow snapshot\<close>\<close>
  | ErrNonContiguous        \<comment> \<open>\<^verbatim>\<open>non-contiguous headers\<close>\<close>

section \<open>Data\<close>

record Vote =
  Signer :: address
  Block :: u64
  Address :: address
  Authorize :: bool

record Tally =
  tAuthorize :: bool
  tVotes :: nat

record Snapshot =
  snNumber :: u64
  snHash :: hash
  Signers :: "address set"
  Recents :: "(u64 \<times> address) list"
  Votes :: "Vote list"
  TallyOf :: "address \<rightharpoonup> Tally"

section \<open>Sealing and signer recovery\<close>

text \<open>
  \<^verbatim>\<open>sigHash\<close>: slicing off the seal panics when \<^verbatim>\<open>Extra\<close> is shorter than the seal, and the
  explicit \<^verbatim>\<open>panic\<close> is taken when the RLP encoder fails.
\<close>

definition sigHash :: "geth \<Rightarrow> header \<Rightarrow> (clique_error, hash) result" where
  "sigHash G h =
     rbind (slice 0 (int (length (Extra h)) - int extraSeal) (Extra h)) (\<lambda>stripped.
       case rlpList G (sigFields h stripped) of
         None \<Rightarrow> Panic
       | Some encoded \<Rightarrow> Ok (Keccak256 G encoded))"

definition SignerFromHeader :: "geth \<Rightarrow> header \<Rightarrow> (clique_error, address) result" where
  "SignerFromHeader G h =
     (if length (Extra h) < extraSeal then Err ErrExtraTooShort
      else let sig = drop (length (Extra h) - extraSeal) (Extra h) in
        rbind (sigHash G h) (\<lambda>hash.
          case Ecrecover G hash sig of
            None \<Rightarrow> Err ErrEcrecover
          | Some pubkey \<Rightarrow>
              if length pubkey = 0 \<or> pubkey ! 0 \<noteq> 4 then Err ErrInvalidPubkey
              else Ok (pubkey_address G pubkey)))"

definition SealHeader :: "geth \<Rightarrow> header \<Rightarrow> privkey \<Rightarrow> (clique_error, header) result" where
  "SealHeader G h key =
     (if length (Extra h) < extraVanity + extraSeal then Err ErrExtraTooShort
      else rbind (sigHash G h) (\<lambda>hash.
        case Sign G hash key of
          None \<Rightarrow> Err ErrSign
        | Some sig \<Rightarrow>
            let n = length (Extra h) - extraSeal in
            Ok (h\<lparr>Extra := take n (Extra h) @ copy_over (drop n (Extra h)) sig\<rparr>)))"

section \<open>Creating snapshots\<close>

definition newSnapshot :: "u64 \<Rightarrow> hash \<Rightarrow> address list \<Rightarrow> Snapshot" where
  "newSnapshot number hash signers =
     \<lparr>snNumber = number, snHash = hash, Signers = set signers, Recents = [], Votes = [],
      TallyOf = Map.empty\<rparr>"

definition NewGenesisSnapshot :: "geth \<Rightarrow> header \<Rightarrow> (clique_error, Snapshot) result" where
  "NewGenesisSnapshot G genesis =
     (let extra = Extra genesis in
      if length extra < extraVanity + extraSeal then Err ErrExtraTooShort
      else let signerData = drop extraVanity (take (length extra - extraSeal) extra) in
        if length signerData = 0 then Err ErrNoSigners
        else if length signerData mod AddressLength \<noteq> 0 then Err ErrSignerDataLength
        else
          let count = length signerData div AddressLength;
              signers = map (\<lambda>i. copy_fixed AddressLength (drop (i * AddressLength) signerData)) [0..<count]
          in rbind (number_of genesis) (\<lambda>n. Ok (newSnapshot n (hdrHash G genesis) signers)))"

definition NewCheckpointSnapshot :: "geth \<Rightarrow> header \<Rightarrow> (clique_error, Snapshot) result" where
  "NewCheckpointSnapshot G h = NewGenesisSnapshot G h"

section \<open>Queries\<close>

definition SignerList :: "Snapshot \<Rightarrow> address list" where
  "SignerList s = sorted_list_of_set (Signers s)"

definition IsAuthorized :: "Snapshot \<Rightarrow> address \<Rightarrow> bool" where
  "IsAuthorized s a \<longleftrightarrow> a \<in> Signers s"

text \<open>The loop of \<^verbatim>\<open>InTurn\<close>: \<open>i\<close> is the index of the head of the remaining list.\<close>

fun inTurnFrom :: "nat \<Rightarrow> nat \<Rightarrow> address list \<Rightarrow> u64 \<Rightarrow> address \<Rightarrow> bool" where
  "inTurnFrom len i [] number signer = False"
| "inTurnFrom len i (a # as) number signer =
     (if a = signer then (of_nat i :: u64) = number mod of_nat len
      else inTurnFrom len (Suc i) as number signer)"

definition InTurn :: "Snapshot \<Rightarrow> u64 \<Rightarrow> address \<Rightarrow> bool" where
  "InTurn s number signer =
     (let list = SignerList s in inTurnFrom (length list) 0 list number signer)"

definition limitOf :: "Snapshot \<Rightarrow> u64" where
  "limitOf s = of_nat (card (Signers s) div 2 + 1)"

definition HasRecentlySigned :: "Snapshot \<Rightarrow> u64 \<Rightarrow> address \<Rightarrow> bool" where
  "HasRecentlySigned s number signer =
     list_ex (\<lambda>(blockNum, addr). addr = signer \<and> blockNum + limitOf s > number) (Recents s)"

definition PendingVotes :: "Snapshot \<Rightarrow> VoteRecord list" where
  "PendingVotes s = map (\<lambda>v. \<lparr>vrSigner = Signer v, vrAddress = Address v,
     vrAuthorize = Authorize v, vrBlock = Block v\<rparr>) (Votes s)"

section \<open>Voting\<close>

definition validVote :: "Snapshot \<Rightarrow> address \<Rightarrow> bool \<Rightarrow> bool" where
  "validVote s address authorize =
     (let isSigner = address \<in> Signers s in (authorize \<and> \<not> isSigner) \<or> (\<not> authorize \<and> isSigner))"

definition cast :: "Snapshot \<Rightarrow> address \<Rightarrow> bool \<Rightarrow> Snapshot" where
  "cast s address authorize =
     (case TallyOf s address of
        None \<Rightarrow> s\<lparr>TallyOf := (TallyOf s)(address \<mapsto> \<lparr>tAuthorize = authorize, tVotes = 1\<rparr>)\<rparr>
      | Some t \<Rightarrow>
          if tAuthorize t \<noteq> authorize
          then s\<lparr>TallyOf := (TallyOf s)(address \<mapsto> \<lparr>tAuthorize = authorize, tVotes = 1\<rparr>)\<rparr>
          else s\<lparr>TallyOf := (TallyOf s)(address \<mapsto> \<lparr>tAuthorize = authorize, tVotes = tVotes t + 1\<rparr>)\<rparr>)"

definition uncast :: "Snapshot \<Rightarrow> address \<Rightarrow> bool \<Rightarrow> Snapshot" where
  "uncast s address authorize =
     (case TallyOf s address of
        None \<Rightarrow> s
      | Some t \<Rightarrow>
          if tAuthorize t \<noteq> authorize then s
          else if tVotes t > 1
          then s\<lparr>TallyOf := (TallyOf s)(address \<mapsto> \<lparr>tAuthorize = authorize, tVotes = tVotes t - 1\<rparr>)\<rparr>
          else s\<lparr>TallyOf := (TallyOf s)(address := None)\<rparr>)"

text \<open>
  The first vote loop of \<^verbatim>\<open>apply\<close>: the first vote of \<open>signer\<close> on \<open>candidate\<close> is uncast and
  removed, and the loop breaks. \<open>passed\<close> holds the votes already passed.
\<close>

fun dropPrevious :: "Snapshot \<Rightarrow> address \<Rightarrow> address \<Rightarrow> Vote list \<Rightarrow> Vote list \<Rightarrow> Snapshot" where
  "dropPrevious s signer candidate passed [] = s"
| "dropPrevious s signer candidate passed (v # vs) =
     (if Signer v = signer \<and> Address v = candidate
      then (uncast s candidate (Authorize v))\<lparr>Votes := rev passed @ vs\<rparr>
      else dropPrevious s signer candidate (v # passed) vs)"

text \<open>The loop that discards, and uncasts, every vote cast by a removed signer.\<close>

fun dropVotesBy :: "Snapshot \<Rightarrow> address \<Rightarrow> Vote list \<Rightarrow> Vote list \<Rightarrow> Snapshot" where
  "dropVotesBy s candidate passed [] = s\<lparr>Votes := rev passed\<rparr>"
| "dropVotesBy s candidate passed (v # vs) =
     (if Signer v = candidate
      then dropVotesBy (uncast s (Address v) (Authorize v)) candidate passed vs
      else dropVotesBy s candidate (v # passed) vs)"

text \<open>The loop that discards every vote on the candidate; the tally entry goes with them.\<close>

definition dropVotesFor :: "Snapshot \<Rightarrow> address \<Rightarrow> Snapshot" where
  "dropVotesFor s candidate =
     s\<lparr>Votes := filter (\<lambda>v. Address v \<noteq> candidate) (Votes s),
       TallyOf := (TallyOf s)(candidate := None)\<rparr>"

text \<open>The branch taken when a candidate's tally passes half of the signers.\<close>

definition resolveVote :: "Snapshot \<Rightarrow> address \<Rightarrow> bool \<Rightarrow> Snapshot" where
  "resolveVote s candidate authorize =
     dropVotesFor
       (if authorize then s\<lparr>Signers := insert candidate (Signers s)\<rparr>
        else let s1 = s\<lparr>Signers := Signers s - {candidate},
                        Recents := filter (\<lambda>(blk, addr). addr \<noteq> candidate) (Recents s)\<rparr>
             in dropVotesBy s1 candidate [] (Votes s1))
       candidate"

text \<open>The vote-processing part of \<^verbatim>\<open>apply\<close> for one header.\<close>

definition castVote :: "Snapshot \<Rightarrow> address \<Rightarrow> u64 \<Rightarrow> address \<Rightarrow> bool \<Rightarrow> Snapshot" where
  "castVote s signer number candidate authorize =
     (let s1 = dropPrevious s signer candidate [] (Votes s) in
      if validVote s1 candidate authorize then
        let s2 = cast (s1\<lparr>Votes := Votes s1 @ [\<lparr>Signer = signer, Block = number, Address = candidate,
                                                Authorize = authorize\<rparr>]\<rparr>) candidate authorize;
            tallied = (case TallyOf s2 candidate of None \<Rightarrow> 0 | Some t \<Rightarrow> tVotes t)
        in if tallied > card (Signers s2) div 2 then resolveVote s2 candidate authorize else s2
      else s1)"

section \<open>Replaying headers\<close>

text \<open>At an epoch boundary the signer list is read from \<^verbatim>\<open>Extra\<close> and the votes are discarded.\<close>

definition epochReset :: "Snapshot \<Rightarrow> header \<Rightarrow> (clique_error, Snapshot) result" where
  "epochReset s h =
     rbind (slice (int extraVanity) (int (length (Extra h)) - int extraSeal) (Extra h)) (\<lambda>signerData.
       Ok (s\<lparr>Signers := set (addrs_of signerData), Votes := [], TallyOf := Map.empty\<rparr>))"

definition evictRecent :: "Snapshot \<Rightarrow> u64 \<Rightarrow> Snapshot" where
  "evictRecent s number =
     (let limit = limitOf s in
      if number \<ge> limit then s\<lparr>Recents := AList.delete (number - limit) (Recents s)\<rparr> else s)"

text \<open>
  The vote embedded in a header: a non-zero beneficiary, one of the two magic nonces, and not an
  epoch boundary. The direction is authorize exactly for the all-ones nonce.
\<close>

definition headerVote :: "u64 \<Rightarrow> u64 \<Rightarrow> header \<Rightarrow> (address \<times> bool) option" where
  "headerVote epoch number h =
     (let nonce = be_uint64 (Nonce h); candidate = Coinbase h;
          isVote = candidate \<noteq> zeroAddress \<and>
                   (nonce = nonceAuthUint64 \<or> nonce = nonceDropUint64) \<and> number mod epoch \<noteq> 0
      in if isVote then Some (candidate, nonce = nonceAuthUint64) else None)"

text \<open>
  The body of the header loop. A zero epoch makes \<^verbatim>\<open>number % epoch\<close> panic; a nil number makes
  \<^verbatim>\<open>header.Number.Uint64()\<close> panic.
\<close>

definition applyHeader :: "geth \<Rightarrow> u64 \<Rightarrow> Snapshot \<Rightarrow> header \<Rightarrow> (clique_error, Snapshot) result" where
  "applyHeader G epoch s h =
     rbind (number_of h) (\<lambda>number.
       if epoch = 0 then Panic
       else rbind (if number mod epoch = 0 then epochReset s h else Ok s) (\<lambda>s1.
         let s2 = evictRecent s1 number in
         rbind (SignerFromHeader G h) (\<lambda>signer.
           if \<not> IsAuthorized s2 signer then Err ErrUnauthorizedSigner
           else if list_ex (\<lambda>(_, recent). recent = signer) (Recents s2) then Err ErrRecentlySigned
           else
             let s3 = s2\<lparr>Recents := AList.update number signer (Recents s2)\<rparr>;
                 s4 = (case headerVote epoch number h of
                         None \<Rightarrow> s3
                       | Some (candidate, authorize) \<Rightarrow> castVote s3 signer number candidate authorize)
             in Ok (s4\<lparr>snNumber := number, snHash := hdrHash G h\<rparr>))))"

text \<open>The contiguity loop: header \<open>i\<close> must be numbered one above header \<open>i - 1\<close>.\<close>

fun contiguous :: "u64 \<Rightarrow> header list \<Rightarrow> (clique_error, unit) result" where
  "contiguous prev [] = Ok ()"
| "contiguous prev (h # hs) =
     rbind (number_of h) (\<lambda>n. if n \<noteq> prev + 1 then Err ErrNonContiguous else contiguous n hs)"

definition apply_snapshot ::
    "geth \<Rightarrow> u64 \<Rightarrow> Snapshot \<Rightarrow> header list \<Rightarrow> (clique_error, Snapshot) result" where
  "apply_snapshot G epoch s headers =
     (case headers of
        [] \<Rightarrow> Ok s
      | h # hs \<Rightarrow>
          rbind (number_of h) (\<lambda>n0.
            if n0 \<noteq> snNumber s + 1 then Err ErrNotNext
            else rbind (contiguous n0 hs) (\<lambda>_. rfold (applyHeader G epoch) s headers)))"

section \<open>The snapshot invariant\<close>

text \<open>
  The reference definition of the tally: recount the pending votes. A candidate without votes
  has no entry; otherwise the direction is decided by whether it is a signer already.
\<close>

definition tallyMap :: "address set \<Rightarrow> Vote list \<Rightarrow> address \<rightharpoonup> Tally" where
  "tallyMap S vs c =
     (let n = length (filter (\<lambda>v. Address v = c) vs)
      in if n = 0 then None else Some \<lparr>tAuthorize = (c \<notin> S), tVotes = n\<rparr>)"

text \<open>
  Each pending vote was cast by a current signer, in the only meaningful direction, and no signer
  has two votes on one candidate.
\<close>

definition votes_ok :: "address set \<Rightarrow> Vote list \<Rightarrow> bool" where
  "votes_ok S vs \<longleftrightarrow>
     distinct (map (\<lambda>v. (Signer v, Address v)) vs) \<and>
     (\<forall>v \<in> set vs. Signer v \<in> S \<and> (Authorize v \<longleftrightarrow> Address v \<notin> S))"

definition recents_ok :: "(u64 \<times> address) list \<Rightarrow> bool" where
  "recents_ok rs \<longleftrightarrow> distinct (map fst rs) \<and> distinct (map snd rs)"

definition snap_inv :: "Snapshot \<Rightarrow> bool" where
  "snap_inv s \<longleftrightarrow>
     finite (Signers s) \<and> votes_ok (Signers s) (Votes s) \<and>
     TallyOf s = tallyMap (Signers s) (Votes s) \<and> recents_ok (Recents s)"

lemmas snap_invI = snap_inv_def [THEN iffD2, OF conjI [OF _ conjI [OF _ conjI]]]

lemma tallyMap_perm: "mset vs = mset ws \<Longrightarrow> tallyMap S vs = tallyMap S ws"
  by (rule ext) (metis (no_types, lifting) mset_filter size_mset tallyMap_def)

lemma tallyMap_Nil [simp]: "tallyMap S [] = Map.empty"
  by (simp add: tallyMap_def fun_eq_iff)

lemma tallyMap_append_one:
  "tallyMap S (vs @ [v]) = (tallyMap S vs)(Address v \<mapsto>
     \<lparr>tAuthorize = (Address v \<notin> S), tVotes = length (filter (\<lambda>w. Address w = Address v) vs) + 1\<rparr>)"
  by (rule ext) (simp add: tallyMap_def)

lemma tallyMap_remove_candidate:
  "(tallyMap S vs)(c := None) = tallyMap S' (filter (\<lambda>v. Address v \<noteq> c) vs)"
  if "\<And>d. d \<noteq> c \<Longrightarrow> d \<in> S \<longleftrightarrow> d \<in> S'"
proof (rule ext)
  fix d
  have "length (filter (\<lambda>v. Address v \<noteq> c \<and> Address v = c) vs) = 0" by simp
  moreover have "d \<noteq> c \<Longrightarrow> filter (\<lambda>v. Address v \<noteq> c \<and> Address v = d) vs = filter (\<lambda>v. Address v = d) vs"
    by (rule filter_cong) auto
  ultimately show "((tallyMap S vs)(c := None)) d = tallyMap S' (filter (\<lambda>v. Address v \<noteq> c) vs) d"
    using that [of d] by (cases "d = c") (simp_all add: tallyMap_def conj_commute)
qed

subsection \<open>Frame facts\<close>

lemma cast_frame [simp]:
  "Signers (cast s c a) = Signers s" "Votes (cast s c a) = Votes s" "Recents (cast s c a) = Recents s"
  "snNumber (cast s c a) = snNumber s"
  by (simp_all add: cast_def split: option.splits)

lemma uncast_frame [simp]:
  "Signers (uncast s c a) = Signers s" "Votes (uncast s c a) = Votes s"
  "Recents (uncast s c a) = Recents s" "snNumber (uncast s c a) = snNumber s"
  by (simp_all add: uncast_def split: option.splits)

lemma dropPrevious_frame [simp]:
  "Signers (dropPrevious s g c passed vs) = Signers s"
  "Recents (dropPrevious s g c passed vs) = Recents s"
  by (induction s g c passed vs rule: dropPrevious.induct) simp_all

lemma dropVotesBy_frame [simp]:
  "Signers (dropVotesBy s c passed vs) = Signers s"
  "Recents (dropVotesBy s c passed vs) = Recents s"
  by (induction s c passed vs rule: dropVotesBy.induct) simp_all

lemma evictRecent_frame [simp]:
  "Signers (evictRecent s n) = Signers s" "Votes (evictRecent s n) = Votes s"
  "TallyOf (evictRecent s n) = TallyOf s"
  by (simp_all add: evictRecent_def Let_def)

subsection \<open>The incremental tally is the recount\<close>

lemma cast_tally:
  assumes "TallyOf s = tallyMap S vs" and "Address v = c" and "a \<longleftrightarrow> c \<notin> S"
  shows "TallyOf (cast s c a) = tallyMap S (vs @ [v])"
proof (cases "filter (\<lambda>w. Address w = c) vs = []")
  case True
  then have "tallyMap S vs c = None" by (simp add: tallyMap_def)
  with assms True show ?thesis by (simp add: cast_def tallyMap_append_one)
next
  case False
  then have "tallyMap S vs c = Some \<lparr>tAuthorize = (c \<notin> S), tVotes = length (filter (\<lambda>w. Address w = c) vs)\<rparr>"
    by (simp add: tallyMap_def Let_def del: filter_empty_conv)
  with assms show ?thesis by (auto simp: cast_def tallyMap_append_one)
qed

lemma uncast_tally:
  assumes T: "TallyOf s = tallyMap S (v # vs)" and "Authorize v \<longleftrightarrow> Address v \<notin> S"
  shows "TallyOf (uncast s (Address v) (Authorize v)) = tallyMap S vs"
proof -
  let ?n = "length (filter (\<lambda>w. Address w = Address v) vs)"
  have "TallyOf s (Address v) = Some \<lparr>tAuthorize = (Address v \<notin> S), tVotes = Suc ?n\<rparr>"
    by (simp add: T tallyMap_def)
  moreover have "d \<noteq> Address v \<Longrightarrow> TallyOf s d = tallyMap S vs d" for d
    by (simp add: T tallyMap_def)
  ultimately show ?thesis
    using assms(2) by (auto simp: uncast_def tallyMap_def fun_eq_iff)
qed

lemma dropPrevious_tally:
  assumes "TallyOf s = tallyMap S (rev passed @ vs)" and "Votes s = rev passed @ vs"
    and "\<forall>v \<in> set vs. Authorize v \<longleftrightarrow> Address v \<notin> S"
    and "distinct (map (\<lambda>v. (Signer v, Address v)) vs)"
  shows "TallyOf (dropPrevious s g c passed vs) =
           tallyMap S (rev passed @ filter (\<lambda>v. \<not> (Signer v = g \<and> Address v = c)) vs) \<and>
         Votes (dropPrevious s g c passed vs) =
           rev passed @ filter (\<lambda>v. \<not> (Signer v = g \<and> Address v = c)) vs"
  using assms
proof (induction s g c passed vs rule: dropPrevious.induct)
  case (1 s signer candidate passed)
  then show ?case by simp
next
  case (2 s signer candidate passed v vs)
  show ?case
  proof (cases "Signer v = signer \<and> Address v = candidate")
    case True
    with "2.prems"(4) have keep: "filter (\<lambda>w. \<not> (Signer w = signer \<and> Address w = candidate)) vs = vs"
      by (force simp: filter_id_conv image_iff)
    have "TallyOf s = tallyMap S (v # (rev passed @ vs))"
      using "2.prems"(1) tallyMap_perm [of "rev passed @ v # vs" "v # (rev passed @ vs)" S] by simp
    then have "TallyOf (uncast s (Address v) (Authorize v)) = tallyMap S (rev passed @ vs)"
      using "2.prems"(3) by (intro uncast_tally) auto
    with True keep show ?thesis by simp
  next
    case False
    with "2.IH" [OF False] "2.prems" show ?thesis by auto
  qed
qed

lemma dropVotesBy_tally:
  assumes "TallyOf s = tallyMap S (rev passed @ vs)"
    and "\<forall>v \<in> set vs. Authorize v \<longleftrightarrow> Address v \<notin> S"
  shows "TallyOf (dropVotesBy s c passed vs) = tallyMap S (rev passed @ filter (\<lambda>v. Signer v \<noteq> c) vs) \<and>
         Votes (dropVotesBy s c passed vs) = rev passed @ filter (\<lambda>v. Signer v \<noteq> c) vs"
  using assms
proof (induction s c passed vs rule: dropVotesBy.induct)
  case (1 s candidate passed)
  then show ?case by simp
next
  case (2 s candidate passed v vs)
  show ?case
  proof (cases "Signer v = candidate")
    case True
    have "TallyOf s = tallyMap S (v # (rev passed @ vs))"
      using "2.prems"(1) tallyMap_perm [of "rev passed @ v # vs" "v # (rev passed @ vs)" S] by simp
    then have "TallyOf (uncast s (Address v) (Authorize v)) = tallyMap S (rev passed @ vs)"
      using "2.prems"(2) by (intro uncast_tally) auto
    with True "2.IH"(1) "2.prems"(2) show ?thesis by simp
  next
    case False
    with "2.IH"(2) "2.prems" show ?thesis by simp
  qed
qed

subsection \<open>Every operation keeps the invariant\<close>

lemma votes_okD:
  assumes "votes_ok S vs"
  shows "distinct (map (\<lambda>v. (Signer v, Address v)) vs)"
    and "\<forall>v \<in> set vs. Authorize v \<longleftrightarrow> Address v \<notin> S" and "\<forall>v \<in> set vs. Signer v \<in> S"
  using assms by (auto simp: votes_ok_def)

lemma votes_ok_Nil [simp]: "votes_ok S []"
  by (simp add: votes_ok_def)

lemma votes_ok_filter: "votes_ok S vs \<Longrightarrow> votes_ok S (filter P vs)"
  by (auto simp: votes_ok_def distinct_map_filter_pred)

lemma votes_ok_append_one:
  "votes_ok S (vs @ [v]) \<longleftrightarrow>
     votes_ok S vs \<and> Signer v \<in> S \<and> (Authorize v \<longleftrightarrow> Address v \<notin> S) \<and>
     (Signer v, Address v) \<notin> (\<lambda>v. (Signer v, Address v)) ` set vs"
  by (auto simp: votes_ok_def)

lemma recents_ok_filter: "recents_ok rs \<Longrightarrow> recents_ok (filter P rs)"
  by (simp add: recents_ok_def distinct_map_filter_pred)

lemma recents_ok_delete: "recents_ok rs \<Longrightarrow> recents_ok (AList.delete k rs)"
  by (simp add: AList.delete_eq recents_ok_filter)

lemma snd_alist_update_subset: "snd ` set (AList.update k v rs) \<subseteq> insert v (snd ` set rs)"
  by (induction rs) auto

lemma distinct_snd_update:
  "distinct (map snd rs) \<Longrightarrow> v \<notin> snd ` set rs \<Longrightarrow> distinct (map snd (AList.update k v rs))"
proof (induction rs)
  case Nil
  show ?case by simp
next
  case (Cons p rs)
  then show ?case using snd_alist_update_subset [of k v rs] by (cases p) auto
qed

lemma recents_ok_update: "recents_ok rs \<Longrightarrow> v \<notin> snd ` set rs \<Longrightarrow> recents_ok (AList.update k v rs)"
  by (simp add: recents_ok_def distinct_fst_update distinct_snd_update)

lemma evictRecent_inv: "snap_inv s \<Longrightarrow> snap_inv (evictRecent s n)"
  by (simp add: snap_inv_def evictRecent_def Let_def recents_ok_delete)

lemma addRecent_inv:
  "snap_inv s \<Longrightarrow> g \<notin> snd ` set (Recents s) \<Longrightarrow>
   snap_inv (s\<lparr>Recents := AList.update n g (Recents s)\<rparr>)"
  by (simp add: snap_inv_def recents_ok_update)

lemma epochReset_inv: "snap_inv s \<Longrightarrow> epochReset s h = Ok t \<Longrightarrow> snap_inv t"
  by (auto simp: epochReset_def snap_inv_def)

text \<open>What the first vote loop leaves: the votes without the pair, and their recount.\<close>

lemma dropPrevious_spec:
  assumes "snap_inv s"
  shows "Votes (dropPrevious s g c [] (Votes s)) = filter (\<lambda>v. \<not> (Signer v = g \<and> Address v = c)) (Votes s)"
    and "TallyOf (dropPrevious s g c [] (Votes s)) =
           tallyMap (Signers s) (filter (\<lambda>v. \<not> (Signer v = g \<and> Address v = c)) (Votes s))"
  using dropPrevious_tally [of s "Signers s" "[]" "Votes s" g c] assms
  by (auto simp: snap_inv_def votes_ok_def)

lemma dropPrevious_inv: "snap_inv s \<Longrightarrow> snap_inv (dropPrevious s g c [] (Votes s))"
  using dropPrevious_spec [of s g c] by (simp add: snap_inv_def votes_ok_filter)

lemma resolveVote_add_inv:
  assumes "snap_inv s"
  shows "snap_inv (resolveVote s c True)"
proof -
  have "(tallyMap (Signers s) (Votes s))(c := None) =
        tallyMap (insert c (Signers s)) (filter (\<lambda>v. Address v \<noteq> c) (Votes s))"
    by (rule tallyMap_remove_candidate) simp
  moreover have "votes_ok (insert c (Signers s)) (filter (\<lambda>v. Address v \<noteq> c) (Votes s))"
    using assms by (auto simp: snap_inv_def votes_ok_def distinct_map_filter_pred)
  ultimately show ?thesis
    using assms by (simp add: snap_inv_def resolveVote_def dropVotesFor_def)
qed

lemma resolveVote_remove_spec:
  assumes "snap_inv s"
  shows "Votes (resolveVote s c False) = filter (\<lambda>v. Address v \<noteq> c) (filter (\<lambda>v. Signer v \<noteq> c) (Votes s))"
    and "TallyOf (resolveVote s c False) =
         (tallyMap (Signers s) (filter (\<lambda>v. Signer v \<noteq> c) (Votes s)))(c := None)"
    and "Signers (resolveVote s c False) = Signers s - {c}"
    and "Recents (resolveVote s c False) = filter (\<lambda>(blk, addr). addr \<noteq> c) (Recents s)"
proof -
  let ?s1 = "s\<lparr>Signers := Signers s - {c}, Recents := filter (\<lambda>(blk, addr). addr \<noteq> c) (Recents s)\<rparr>"
  have "TallyOf (dropVotesBy ?s1 c [] (Votes s)) = tallyMap (Signers s) (filter (\<lambda>v. Signer v \<noteq> c) (Votes s)) \<and>
        Votes (dropVotesBy ?s1 c [] (Votes s)) = filter (\<lambda>v. Signer v \<noteq> c) (Votes s)"
    using dropVotesBy_tally [of ?s1 "Signers s" "[]" "Votes s" c] assms
    by (auto simp: snap_inv_def votes_ok_def)
  then show "Votes (resolveVote s c False) = filter (\<lambda>v. Address v \<noteq> c) (filter (\<lambda>v. Signer v \<noteq> c) (Votes s))"
    and "TallyOf (resolveVote s c False) =
         (tallyMap (Signers s) (filter (\<lambda>v. Signer v \<noteq> c) (Votes s)))(c := None)"
    and "Signers (resolveVote s c False) = Signers s - {c}"
    and "Recents (resolveVote s c False) = filter (\<lambda>(blk, addr). addr \<noteq> c) (Recents s)"
    by (simp_all add: resolveVote_def dropVotesFor_def Let_def)
qed

lemma resolveVote_remove_inv:
  assumes "snap_inv s"
  shows "snap_inv (resolveVote s c False)"
proof -
  let ?ws = "filter (\<lambda>v. Signer v \<noteq> c) (Votes s)"
  have "(tallyMap (Signers s) ?ws)(c := None) = tallyMap (Signers s - {c}) (filter (\<lambda>v. Address v \<noteq> c) ?ws)"
    by (rule tallyMap_remove_candidate) simp
  moreover have "votes_ok (Signers s - {c}) (filter (\<lambda>v. Address v \<noteq> c) ?ws)"
    using assms by (auto simp: snap_inv_def votes_ok_def distinct_map_filter_pred)
  ultimately show ?thesis
    using assms by (simp add: snap_inv_def resolveVote_remove_spec recents_ok_filter)
qed

lemma resolveVote_inv: "snap_inv s \<Longrightarrow> snap_inv (resolveVote s c a)"
  by (cases a) (simp_all add: resolveVote_add_inv resolveVote_remove_inv)

text \<open>Recording a valid vote, before the majority check.\<close>

definition recordVote :: "Snapshot \<Rightarrow> address \<Rightarrow> u64 \<Rightarrow> address \<Rightarrow> bool \<Rightarrow> Snapshot" where
  "recordVote s g n c a =
     (let s1 = dropPrevious s g c [] (Votes s) in
      cast (s1\<lparr>Votes := Votes s1 @ [\<lparr>Signer = g, Block = n, Address = c, Authorize = a\<rparr>]\<rparr>) c a)"

lemma castVote_eq:
  "castVote s g n c a =
     (if validVote s c a then
        let s2 = recordVote s g n c a;
            tallied = (case TallyOf s2 c of None \<Rightarrow> 0 | Some t \<Rightarrow> tVotes t)
        in if tallied > card (Signers s) div 2 then resolveVote s2 c a else s2
      else dropPrevious s g c [] (Votes s))"
  by (simp add: castVote_def recordVote_def Let_def validVote_def)

lemma validVote_iff: "validVote s c a \<longleftrightarrow> (a \<longleftrightarrow> c \<notin> Signers s)"
  by (auto simp: validVote_def Let_def)

lemma recordVote_frame [simp]:
  "Signers (recordVote s g n c a) = Signers s" "Recents (recordVote s g n c a) = Recents s"
  by (simp_all add: recordVote_def Let_def)

lemma recordVote_inv:
  assumes inv: "snap_inv s" and g: "g \<in> Signers s" and valid: "validVote s c a"
  shows "snap_inv (recordVote s g n c a)"
proof -
  let ?s1 = "dropPrevious s g c [] (Votes s)"
  let ?v = "\<lparr>Signer = g, Block = n, Address = c, Authorize = a\<rparr>"
  have inv1: "snap_inv ?s1" using inv by (rule dropPrevious_inv)
  have a: "a \<longleftrightarrow> c \<notin> Signers s" using valid by (simp add: validVote_iff)
  have "votes_ok (Signers s) (Votes ?s1 @ [?v])"
    using inv1 g a dropPrevious_spec(1) [OF inv, of g c]
    by (auto simp: votes_ok_append_one snap_inv_def)
  moreover have "TallyOf (cast (?s1\<lparr>Votes := Votes ?s1 @ [?v]\<rparr>) c a) = tallyMap (Signers s) (Votes ?s1 @ [?v])"
    using inv1 a by (intro cast_tally) (auto simp: snap_inv_def)
  ultimately show ?thesis
    using inv1 by (simp add: snap_inv_def recordVote_def Let_def)
qed

lemma castVote_inv:
  "snap_inv s \<Longrightarrow> g \<in> Signers s \<Longrightarrow> snap_inv (castVote s g n c a)"
  by (simp add: castVote_eq Let_def recordVote_inv resolveVote_inv dropPrevious_inv)

lemma newSnapshot_inv: "snap_inv (newSnapshot n h as)"
  by (simp add: snap_inv_def newSnapshot_def recents_ok_def)

lemma snap_inv_position [simp]: "snap_inv (s\<lparr>snNumber := n, snHash := h\<rparr>) = snap_inv s"
  by (simp add: snap_inv_def)

text \<open>The steps of one header, once it is accepted.\<close>

definition afterEpoch :: "u64 \<Rightarrow> Snapshot \<Rightarrow> header \<Rightarrow> u64 \<Rightarrow> (clique_error, Snapshot) result" where
  "afterEpoch epoch s h n = (if n mod epoch = 0 then epochReset s h else Ok s)"

definition addRecent :: "Snapshot \<Rightarrow> u64 \<Rightarrow> address \<Rightarrow> Snapshot" where
  "addRecent s n g = s\<lparr>Recents := AList.update n g (Recents s)\<rparr>"

definition processVote :: "Snapshot \<Rightarrow> address \<Rightarrow> u64 \<Rightarrow> (address \<times> bool) option \<Rightarrow> Snapshot" where
  "processVote s g n vote = (case vote of None \<Rightarrow> s | Some (c, a) \<Rightarrow> castVote s g n c a)"

lemma applyHeader_eq:
  "applyHeader G epoch s h =
     rbind (number_of h) (\<lambda>n.
       if epoch = 0 then Panic
       else rbind (afterEpoch epoch s h n) (\<lambda>s1.
         rbind (SignerFromHeader G h) (\<lambda>g.
           if g \<notin> Signers s1 then Err ErrUnauthorizedSigner
           else if g \<in> snd ` set (Recents (evictRecent s1 n)) then Err ErrRecentlySigned
           else Ok ((processVote (addRecent (evictRecent s1 n) n g) g n (headerVote epoch n h))
                      \<lparr>snNumber := n, snHash := hdrHash G h\<rparr>))))"
proof -
  have ex: "list_ex (\<lambda>(_, recent). recent = g) rs \<longleftrightarrow> g \<in> snd ` set rs" for g and rs :: "(u64 \<times> address) list"
    by (force simp: list_ex_iff)
  show ?thesis
    by (simp add: applyHeader_def afterEpoch_def addRecent_def processVote_def Let_def IsAuthorized_def ex
        cong: if_cong)
qed

lemma applyHeader_Ok_iff:
  "applyHeader G epoch s h = Ok t \<longleftrightarrow>
     (\<exists>n s1 g. hnum h = Some n \<and> epoch \<noteq> 0 \<and> afterEpoch epoch s h n = Ok s1 \<and>
        SignerFromHeader G h = Ok g \<and> g \<in> Signers s1 \<and> g \<notin> snd ` set (Recents (evictRecent s1 n)) \<and>
        t = (processVote (addRecent (evictRecent s1 n) n g) g n (headerVote epoch n h))
              \<lparr>snNumber := n, snHash := hdrHash G h\<rparr>)"
  unfolding applyHeader_eq by (auto split: if_splits)

lemma processVote_inv: "snap_inv s \<Longrightarrow> g \<in> Signers s \<Longrightarrow> snap_inv (processVote s g n vote)"
  by (auto simp: processVote_def castVote_inv split: option.splits)

lemma afterEpoch_inv: "snap_inv s \<Longrightarrow> afterEpoch epoch s h n = Ok t \<Longrightarrow> snap_inv t"
  by (auto simp: afterEpoch_def epochReset_inv split: if_splits)

lemma addRecent_Signers [simp]: "Signers (addRecent s n g) = Signers s"
  by (simp add: addRecent_def)

lemma applyHeader_inv:
  assumes "snap_inv s" and "applyHeader G epoch s h = Ok t"
  shows "snap_inv t"
proof -
  from assms(2) obtain n s1 g where s1: "afterEpoch epoch s h n = Ok s1" and g: "g \<in> Signers s1"
    and fresh: "g \<notin> snd ` set (Recents (evictRecent s1 n))"
    and t: "t = (processVote (addRecent (evictRecent s1 n) n g) g n (headerVote epoch n h))
              \<lparr>snNumber := n, snHash := hdrHash G h\<rparr>"
    unfolding applyHeader_Ok_iff by blast
  have "snap_inv s1" using assms(1) s1 by (rule afterEpoch_inv)
  then have "snap_inv (addRecent (evictRecent s1 n) n g)"
    unfolding addRecent_def using fresh by (rule addRecent_inv [OF evictRecent_inv])
  with g show ?thesis by (simp add: t processVote_inv)
qed

lemma apply_snapshot_Ok_iff:
  "apply_snapshot G epoch s hs = Ok t \<longleftrightarrow>
     contiguous (snNumber s) hs = Ok () \<and> rfold (applyHeader G epoch) s hs = Ok t"
  by (cases hs) (auto simp: apply_snapshot_def split: if_splits)

section \<open>The interfaces of \<^verbatim>\<open>consensus.go\<close>\<close>

text \<open>A Go map never holds \<open>2 ^ 63\<close> entries, so positions fit a \<^verbatim>\<open>uint64\<close>.\<close>

definition clique_wf :: "Snapshot \<Rightarrow> bool" where
  "clique_wf s \<longleftrightarrow> finite (Signers s) \<and> card (Signers s) < 2 ^ 63"

lemma inTurnFrom_iff:
  assumes "distinct as" and "0 < len" and "i + length as \<le> len" and "len < 2 ^ 63"
  shows "inTurnFrom len i as number signer \<longleftrightarrow>
           (\<exists>j < length as. as ! j = signer \<and> i + j = unat number mod len)"
  using assms
proof (induction as arbitrary: i)
  case Nil
  then show ?case by simp
next
  case (Cons a as)
  have len: "unat (of_nat len :: u64) = len" using Cons.prems(4) by (simp add: unat_of_nat)
  have i: "unat (of_nat i :: u64) = i" using Cons.prems by (simp add: unat_of_nat)
  have here: "(of_nat i :: u64) = number mod of_nat len \<longleftrightarrow> i = unat number mod len"
    by (metis i len unat_mod_distrib word_unat_eq_iff)
  show ?case
  proof (cases "a = signer")
    case True
    with Cons.prems(1) have pos: "j < length (a # as) \<Longrightarrow> (a # as) ! j = signer \<longleftrightarrow> j = 0" for j
      by (cases j) (auto simp: in_set_conv_nth)
    have "(\<exists>j < length (a # as). (a # as) ! j = signer \<and> i + j = unat number mod len) \<longleftrightarrow>
          i = unat number mod len"
      using pos by (metis add.right_neutral length_greater_0_conv list.discI)
    with True here show ?thesis by simp
  next
    case False
    have "inTurnFrom len i (a # as) number signer \<longleftrightarrow>
          (\<exists>j < length as. as ! j = signer \<and> Suc i + j = unat number mod len)"
      using False Cons.IH [of "Suc i"] Cons.prems by simp
    also have "\<dots> \<longleftrightarrow> (\<exists>j < length (a # as). (a # as) ! j = signer \<and> i + j = unat number mod len)"
      using False by (auto simp: nth_Cons less_Suc_eq_0_disj)
    finally show ?thesis .
  qed
qed

interpretation clq: consensus_snapshot clique_wf IsAuthorized SignerList InTurn
proof (unfold_locales, goal_cases)
  case (1 s)
  then show ?case by (simp add: clique_wf_def SignerList_def IsAuthorized_def)
next
  case (2 s)
  then show ?case by (simp add: SignerList_def)
next
  case (3 s n a)
  let ?l = "SignerList s"
  have len: "length ?l < 2 ^ 63" and d: "distinct ?l" using 3 by (simp_all add: clique_wf_def SignerList_def)
  show ?case
  proof (cases "?l = []")
    case True
    then show ?thesis by (simp add: InTurn_def)
  next
    case False
    then have "0 < length ?l" by simp
    then have "InTurn s n a \<longleftrightarrow> (\<exists>j < length ?l. ?l ! j = a \<and> j = unat n mod length ?l)"
      using inTurnFrom_iff [OF d, of "length ?l" 0 n a] len by (simp add: InTurn_def Let_def)
    with False \<open>0 < length ?l\<close> show ?thesis by auto
  qed
qed

lemma contiguous_append:
  "contiguous n (xs @ ys) = Ok () \<longleftrightarrow>
     contiguous n xs = Ok () \<and> contiguous (if xs = [] then n else the (hnum (last xs))) ys = Ok ()"
  by (induction xs arbitrary: n) (auto split: if_splits)

lemma applyHeader_position:
  "applyHeader G epoch s h = Ok t \<Longrightarrow> hnum h = Some (snNumber t) \<and> snHash t = hdrHash G h"
  by (auto simp: applyHeader_Ok_iff)

lemma rfold_position:
  "rfold (applyHeader G epoch) s (xs @ [h]) = Ok t \<Longrightarrow> hnum h = Some (snNumber t) \<and> snHash t = hdrHash G h"
  by (auto simp: rfold_append dest: applyHeader_position)

lemma rfold_number:
  assumes "rfold (applyHeader G epoch) s xs = Ok t"
  shows "snNumber t = (if xs = [] then snNumber s else the (hnum (last xs)))"
proof (cases xs rule: rev_cases)
  case Nil
  with assms show ?thesis by simp
next
  case (snoc ys y)
  with assms have "hnum y = Some (snNumber t)" by (auto dest: rfold_position)
  with snoc show ?thesis by simp
qed

interpretation clqe: consensus_engine "apply_snapshot G epoch" snNumber snHash "hdrHash G"
  for G :: geth and epoch :: u64
proof (unfold_locales, goal_cases)
  case (1 s)
  show ?case by (simp add: apply_snapshot_def)
next
  case (2 s xs ys u)
  show ?case
    by (auto simp: apply_snapshot_Ok_iff rfold_append contiguous_append rfold_number)
next
  case (3 s xs h t)
  then show ?case by (auto simp: apply_snapshot_Ok_iff dest: rfold_position)
qed

end
