(* ===== verification/Clique_Engine.thy ===== *)
theory Clique_Engine
  imports Clique_Snapshot
begin

text \<open>
  The Clique engine: \<^verbatim>\<open>clique/clique.go\<close> and \<^verbatim>\<open>clique/api.go\<close>. Header verification with its
  checks in the order of the source, difficulty, sealing, and the extra-data layout, and the
  lemmas that tie them to the snapshot: sealed headers name their sealer, produced headers
  verify, and a verified header is accepted by the snapshot replay.
\<close>

section \<open>Operations\<close>

record Engine =
  clPeriod :: u64
  clEpoch :: u64

definition New :: "u64 \<Rightarrow> u64 \<Rightarrow> Engine" where
  "New period epoch = \<lparr>clPeriod = period, clEpoch = epoch\<rparr>"

definition CalcDifficulty :: "Snapshot \<Rightarrow> u64 \<Rightarrow> address \<Rightarrow> int" where
  "CalcDifficulty s number signer = (if InTurn s number signer then diffInTurn else diffNoTurn)"

definition Apply :: "geth \<Rightarrow> Engine \<Rightarrow> Snapshot \<Rightarrow> header list \<Rightarrow> (clique_error, Snapshot) result" where
  "Apply G e s headers = apply_snapshot G (clEpoch e) s headers"

text \<open>Check 1: the length of \<^verbatim>\<open>Extra\<close>, on epoch blocks and on the others.\<close>

definition badExtra :: "bool \<Rightarrow> nat \<Rightarrow> bool" where
  "badExtra isEpoch signerBytes =
     (if isEpoch then signerBytes = 0 \<or> signerBytes mod AddressLength \<noteq> 0 else signerBytes \<noteq> 0)"

definition VerifyHeader ::
    "geth \<Rightarrow> Engine \<Rightarrow> Snapshot \<Rightarrow> header \<Rightarrow> header option \<Rightarrow> (clique_error, unit) result" where
  "VerifyHeader G e snap h parent =
     rbind (number_of h) (\<lambda>number.
       if length (Extra h) < extraVanity + extraSeal then Err ErrInvalidExtraData
       else if clEpoch e = 0 then Panic
       else if badExtra (number mod clEpoch e = 0) (length (Extra h) - extraVanity - extraSeal)
         then Err ErrInvalidExtraData
       else if UncleHash h \<noteq> emptyUncleHash G then Err ErrInvalidUncleHash
       else if Nonce h \<noteq> nonceAuth \<and> Nonce h \<noteq> nonceNull then Err ErrInvalidNonce
       else if Nonce h = nonceAuth \<and> Coinbase h = zeroAddress then Err ErrInvalidVoteAddress
       else if MixDigest h \<noteq> zeroHash then Err ErrInvalidMixDigest
       else (case Difficulty h of
           None \<Rightarrow> Err ErrInvalidDifficulty
         | Some difficulty \<Rightarrow>
             if Int64 difficulty \<noteq> diffInTurn \<and> Int64 difficulty \<noteq> diffNoTurn then Err ErrInvalidDifficulty
             else if (case parent of None \<Rightarrow> False | Some p \<Rightarrow> Time h < Time p + clPeriod e)
               then Err ErrInvalidTimestamp
             else rbind (SignerFromHeader G h) (\<lambda>signer.
               if \<not> IsAuthorized snap signer then Err ErrUnauthorizedSigner
               else if HasRecentlySigned snap number signer then Err ErrRecentlySigned
               else if difficulty \<noteq> CalcDifficulty snap number signer then Err ErrWrongDifficulty
               else Ok ())))"

text \<open>
  \<^verbatim>\<open>BuildExtra\<close>: vanity, the signer list on epoch blocks, and a zeroed seal. A zero epoch panics.
\<close>

definition BuildExtra :: "Engine \<Rightarrow> Snapshot \<Rightarrow> u64 \<Rightarrow> (clique_error, bytes) result" where
  "BuildExtra e snap number =
     (if clEpoch e = 0 then Panic
      else Ok (replicate extraVanity 0
               @ (if number mod clEpoch e = 0 then concat (SignerList snap) else [])
               @ replicate extraSeal 0))"

lemma Apply_inv: "snap_inv s \<Longrightarrow> Apply G e s hs = Ok t \<Longrightarrow> snap_inv t"
  unfolding Apply_def apply_snapshot_Ok_iff
  by (rule rfold_invariant [where P = snap_inv, of s "applyHeader G (clEpoch e)" hs t])
     (simp_all add: applyHeader_inv)

lemma NewGenesisSnapshot_inv: "NewGenesisSnapshot G h = Ok s \<Longrightarrow> snap_inv s"
  by (auto simp: NewGenesisSnapshot_def Let_def newSnapshot_inv)

section \<open>Header verification\<close>

text \<open>
  What an accepted header is: the shape of its extra data, the constant fields, the vote encoding,
  the minimum period, and a signer that is authorized, outside the recent window, and paid the
  difficulty of its turn.
\<close>

definition valid_header :: "geth \<Rightarrow> Engine \<Rightarrow> Snapshot \<Rightarrow> header \<Rightarrow> header option \<Rightarrow> u64 \<Rightarrow> address \<Rightarrow> bool" where
  "valid_header G e snap h parent n g \<longleftrightarrow>
     clEpoch e \<noteq> 0 \<and>
     (if n mod clEpoch e = 0
      then \<exists>k > 0. length (Extra h) = 32 + 20 * k + 65
      else length (Extra h) = 97) \<and>
     UncleHash h = emptyUncleHash G \<and> MixDigest h = zeroHash \<and>
     (Nonce h = nonceNull \<or> Nonce h = nonceAuth \<and> Coinbase h \<noteq> zeroAddress) \<and>
     (\<forall>p. parent = Some p \<longrightarrow> Time p + clPeriod e \<le> Time h) \<and>
     SignerFromHeader G h = Ok g \<and> g \<in> Signers snap \<and> \<not> HasRecentlySigned snap n g \<and>
     Difficulty h = Some (if InTurn snap n g then 2 else 1)"

lemma Int64_small [simp]: "Int64 1 = 1" "Int64 2 = 2"
  by (simp_all add: Int64_def Uint64_def)

lemma badExtra_iff:
  assumes "97 \<le> n"
  shows "\<not> badExtra b (n - extraVanity - extraSeal) \<longleftrightarrow>
         (if b then \<exists>k > 0. n = 32 + 20 * k + 65 else n = 97)"
proof (cases b)
  case True
  have "(n - 97 \<noteq> 0 \<and> (n - 97) mod 20 = 0) \<longleftrightarrow> (\<exists>k > 0. n = 32 + 20 * k + 65)"
  proof
    assume a: "n - 97 \<noteq> 0 \<and> (n - 97) mod 20 = 0"
    then have "n - 97 = 20 * ((n - 97) div 20)" by auto
    with a show "\<exists>k > 0. n = 32 + 20 * k + 65"
      by (intro exI [of _ "(n - 97) div 20"]) (use assms in linarith)
  next
    assume "\<exists>k > 0. n = 32 + 20 * k + 65"
    then show "n - 97 \<noteq> 0 \<and> (n - 97) mod 20 = 0" by auto
  qed
  with True show ?thesis by (simp add: badExtra_def clique_consts)
next
  case False
  with assms show ?thesis by (auto simp: badExtra_def clique_consts)
qed

lemma nonces_distinct [simp]: "nonceAuth \<noteq> nonceNull" "nonceNull \<noteq> nonceAuth"
  by (simp_all add: nonceAuth_def nonceNull_def)

lemma CalcDifficulty_eq: "CalcDifficulty s n g = (if InTurn s n g then 2 else 1)"
  by (simp add: CalcDifficulty_def clique_consts)

lemma VerifyHeader_Ok_iff:
  "VerifyHeader G e snap h parent = Ok () \<longleftrightarrow>
     (\<exists>n g. hnum h = Some n \<and> valid_header G e snap h parent n g)"
proof (cases "97 \<le> length (Extra h)")
  case False
  then have "\<not> valid_header G e snap h parent n g" for n g
    by (auto simp: valid_header_def split: if_splits)
  with False show ?thesis by (auto simp: VerifyHeader_def clique_consts)
next
  case True
  have chk: "(case parent of None \<Rightarrow> False | Some p \<Rightarrow> Time h < Time p + clPeriod e) \<longleftrightarrow>
             \<not> (\<forall>p. parent = Some p \<longrightarrow> Time p + clPeriod e \<le> Time h)"
    by (auto simp: not_less split: option.splits)
  have len: "\<not> length (Extra h) < extraVanity + extraSeal" using True by (simp add: clique_consts)
  show ?thesis
  proof (cases "Difficulty h")
    case None
    then show ?thesis
      by (simp add: VerifyHeader_def valid_header_def)
  next
    case (Some d)
    have dd: "d = (if b then 2 else 1) \<Longrightarrow> Int64 d = diffInTurn \<or> Int64 d = diffNoTurn" for b
      by (simp add: clique_consts split: if_splits)
    have nn: "\<not> (Nonce h \<noteq> nonceAuth \<and> Nonce h \<noteq> nonceNull) \<and> \<not> (Nonce h = nonceAuth \<and> Coinbase h = zeroAddress) \<longleftrightarrow>
              Nonce h = nonceNull \<or> Nonce h = nonceAuth \<and> Coinbase h \<noteq> zeroAddress"
      by auto
    have "VerifyHeader G e snap h parent = Ok () \<longleftrightarrow>
      (\<exists>n. hnum h = Some n \<and> clEpoch e \<noteq> 0 \<and>
       (if n mod clEpoch e = 0 then \<exists>k > 0. length (Extra h) = 32 + 20 * k + 65 else length (Extra h) = 97) \<and>
       UncleHash h = emptyUncleHash G \<and> \<not> (Nonce h \<noteq> nonceAuth \<and> Nonce h \<noteq> nonceNull) \<and>
       \<not> (Nonce h = nonceAuth \<and> Coinbase h = zeroAddress) \<and> MixDigest h = zeroHash \<and>
       \<not> (Int64 d \<noteq> diffInTurn \<and> Int64 d \<noteq> diffNoTurn) \<and>
       (\<forall>p. parent = Some p \<longrightarrow> Time p + clPeriod e \<le> Time h) \<and>
       (\<exists>g. SignerFromHeader G h = Ok g \<and> g \<in> Signers snap \<and> \<not> HasRecentlySigned snap n g \<and>
          \<not> d \<noteq> (if InTurn snap n g then 2 else 1)))"
      unfolding VerifyHeader_def chk Some option.case rbind_Ok_iff guard_Ok badExtra_iff [OF True]
        number_of_simps CalcDifficulty_eq IsAuthorized_def not_not
      using len by (simp only: simp_thms)
    also have "\<dots> \<longleftrightarrow> (\<exists>n g. hnum h = Some n \<and> valid_header G e snap h parent n g)"
      unfolding valid_header_def Some option.inject using dd nn by blast
    finally show ?thesis .
  qed
qed

section \<open>Sealing\<close>

text \<open>The signed hash does not cover the seal: replacing the last 65 bytes leaves it unchanged.\<close>

lemma sigHash_reseal:
  assumes "65 \<le> length (Extra h)" and "length seal = 65"
  shows "sigHash G (h\<lparr>Extra := take (length (Extra h) - 65) (Extra h) @ seal\<rparr>) = sigHash G h"
  using assms by (simp add: sigHash_def slice_def clique_consts sigFields_def nat_diff_distrib)

lemma SealHeader_shape:
  assumes "SealHeader G h k = Ok h'" and "ecdsa_ok G k"
  shows "\<exists>hash sig. sigHash G h = Ok hash \<and> Sign G hash k = Some sig \<and> length sig = 65 \<and>
           97 \<le> length (Extra h) \<and> h' = h\<lparr>Extra := take (length (Extra h) - 65) (Extra h) @ sig\<rparr>"
proof -
  from assms(1) obtain hash sig where 1: "97 \<le> length (Extra h)" "sigHash G h = Ok hash" "Sign G hash k = Some sig"
    and h': "h' = h\<lparr>Extra := take (length (Extra h) - 65) (Extra h)
                      @ copy_over (drop (length (Extra h) - 65) (Extra h)) sig\<rparr>"
    by (auto simp: SealHeader_def clique_consts Let_def split: option.splits)
  from 1(3) assms(2) have "length sig = 65" by (simp add: ecdsa_ok_def)
  with 1 h' show ?thesis by simp
qed

lemma SealHeader_signer:
  assumes "SealHeader G h k = Ok h'" and "ecdsa_ok G k"
  shows "SignerFromHeader G h' = Ok (key_address G k)"
proof -
  from SealHeader_shape [OF assms] obtain hash sig where
    s: "sigHash G h = Ok hash" "Sign G hash k = Some sig" "length sig = 65" "97 \<le> length (Extra h)"
    and h': "h' = h\<lparr>Extra := take (length (Extra h) - 65) (Extra h) @ sig\<rparr>" by blast
  have "sigHash G h' = Ok hash" using s h' sigHash_reseal [of h sig G] by simp
  moreover have "Ecrecover G hash sig = Some (Pubkey G k)" and "\<exists>b. Pubkey G k = 4 # b"
    using s assms(2) by (auto simp: ecdsa_ok_def)
  ultimately show ?thesis
    using s h' by (auto simp: SignerFromHeader_def clique_consts Let_def key_address_def)
qed

lemma SealHeader_frame:
  assumes "SealHeader G h k = Ok h'" and "ecdsa_ok G k"
  shows "length (Extra h') = length (Extra h)" and "UncleHash h' = UncleHash h" and "Nonce h' = Nonce h"
    and "Coinbase h' = Coinbase h" and "MixDigest h' = MixDigest h" and "Difficulty h' = Difficulty h"
    and "Time h' = Time h" and "hnum h' = hnum h" and "Number h' = Number h"
    and "take (length (Extra h) - 65) (Extra h') = take (length (Extra h) - 65) (Extra h)"
  using SealHeader_shape [OF assms] by (auto simp: hnum_def)

section \<open>Extra data\<close>

definition addresses_ok :: "Snapshot \<Rightarrow> bool" where
  "addresses_ok s \<longleftrightarrow> finite (Signers s) \<and> (\<forall>a \<in> Signers s. length a = 20)"

lemma length_BuildExtra:
  assumes "BuildExtra e s n = Ok x" and "addresses_ok s"
  shows "length x = (if n mod clEpoch e = 0 then 32 + 20 * card (Signers s) + 65 else 97)"
proof -
  have "length (concat (SignerList s)) = 20 * card (Signers s)"
    using assms(2) length_concat_addrs [of "SignerList s" 20] by (simp add: SignerList_def addresses_ok_def)
  with assms(1) show ?thesis
    unfolding BuildExtra_def guard_Ok result.inject
    by (cases "n mod clEpoch e = 0") (simp_all only: if_True if_False simp_thms, auto simp: clique_consts)
qed

text \<open>The signer list of an epoch block is read back as it was written, whatever the seal.\<close>

lemma signer_section_BuildExtra:
  assumes "BuildExtra e s n = Ok x" and "n mod clEpoch e = 0"
  shows "drop 32 (take (length x - 65) x) = concat (SignerList s)"
  using assms by (auto simp: BuildExtra_def clique_consts)

lemma addrs_of_SignerList: "addresses_ok s \<Longrightarrow> addrs_of (concat (SignerList s)) = SignerList s"
  by (rule addrs_of_concat) (simp add: SignerList_def addresses_ok_def)

lemma set_SignerList [simp]: "finite (Signers s) \<Longrightarrow> set (SignerList s) = Signers s"
  by (simp add: SignerList_def)

lemma NewGenesisSnapshot_eq:
  assumes "97 \<le> length (Extra h)" and "hnum h = Some n"
    and data: "drop 32 (take (length (Extra h) - 65) (Extra h)) = data"
    and "data \<noteq> []" and "length data = 20 * k"
  shows "NewGenesisSnapshot G h = Ok (newSnapshot n (hdrHash G h) (addrs_of data))"
proof -
  have "map (\<lambda>i. copy_fixed 20 (drop (i * 20) data)) [0..<length data div 20] = addrs_of data"
    using assms(5) by (simp add: addrs_of_indexed)
  with assms show ?thesis
    by (simp add: NewGenesisSnapshot_def Let_def clique_consts number_of_hnum)
qed

lemma checkpoint_of_sealed:
  assumes "addresses_ok s" and "Signers s \<noteq> {}" and "BuildExtra e s n = Ok (Extra h)"
    and "n mod clEpoch e = 0" and "hnum h = Some n" and "SealHeader G h k = Ok h'" and "ecdsa_ok G k"
  shows "NewCheckpointSnapshot G h' = Ok (newSnapshot n (hdrHash G h') (SignerList s))"
proof -
  let ?x = "Extra h"
  note f = SealHeader_frame [OF assms(6,7)]
  have len: "length ?x = 97 + 20 * card (Signers s)"
    using length_BuildExtra [OF assms(3,1)] assms(4) by simp
  have sec: "drop 32 (take (length (Extra h') - 65) (Extra h')) = concat (SignerList s)"
    using f(1,10) signer_section_BuildExtra [OF assms(3,4)] by simp
  have lc: "length (concat (SignerList s)) = 20 * card (Signers s)"
    using assms(1) length_concat_addrs [of "SignerList s" 20] by (simp add: SignerList_def addresses_ok_def)
  have "0 < card (Signers s)" using assms(1,2) by (simp add: addresses_ok_def card_gt_0_iff)
  with lc have "concat (SignerList s) \<noteq> []" by (metis length_0_conv mult_is_0 not_gr0 numeral_eq_iff zero_neq_numeral)
  then show ?thesis
    using NewGenesisSnapshot_eq [OF _ _ sec _ lc, of n G] f len assms(1,5)
    by (simp add: NewCheckpointSnapshot_def addrs_of_SignerList)
qed

section \<open>Produced headers verify\<close>

lemma produced_verifies:
  assumes x: "BuildExtra e s n = Ok (Extra h)" and ad: "addresses_ok s"
    and g: "key_address G k \<in> Signers s" "\<not> HasRecentlySigned s n (key_address G k)"
    and n: "hnum h = Some n" and fixed: "UncleHash h = emptyUncleHash G" "MixDigest h = zeroHash"
    and vote: "Nonce h = nonceNull \<or> Nonce h = nonceAuth \<and> Coinbase h \<noteq> zeroAddress"
    and diff: "Difficulty h = Some (CalcDifficulty s n (key_address G k))"
    and time: "\<forall>p. parent = Some p \<longrightarrow> Time p + clPeriod e \<le> Time h"
    and seal: "SealHeader G h k = Ok h'" and ec: "ecdsa_ok G k"
  shows "VerifyHeader G e s h' parent = Ok ()"
proof -
  note f = SealHeader_frame [OF seal ec]
  have "0 < card (Signers s)" using g(1) ad by (auto simp: addresses_ok_def card_gt_0_iff)
  then have "if n mod clEpoch e = 0 then \<exists>k > 0. length (Extra h') = 32 + 20 * k + 65
        else length (Extra h') = 97"
    using length_BuildExtra [OF x ad] f(1) by auto
  moreover have "clEpoch e \<noteq> 0" using x by (simp add: BuildExtra_def)
  ultimately have "valid_header G e s h' parent n (key_address G k)"
    unfolding valid_header_def using f g fixed vote diff time SealHeader_signer [OF seal ec]
    by (simp add: CalcDifficulty_eq)
  with f(8) n show ?thesis by (auto simp: VerifyHeader_Ok_iff)
qed

section \<open>Verification and replay agree\<close>

text \<open>
  \<^verbatim>\<open>VerifyHeader\<close> asks \<^verbatim>\<open>HasRecentlySigned\<close>, which compares block numbers; \<^verbatim>\<open>apply\<close> evicts one
  entry per block and then rejects any signer still listed. The two agree while every listed
  entry is inside the window of the current signer count.
\<close>

definition recents_tight :: "Snapshot \<Rightarrow> bool" where
  "recents_tight s \<longleftrightarrow>
     (\<forall>(b, a) \<in> set (Recents s).
        unat b \<le> unat (snNumber s) \<and> unat (snNumber s) < unat b + (card (Signers s) div 2 + 1))"

text \<open>Block numbers stay a window away from the end of \<^verbatim>\<open>uint64\<close>.\<close>

definition roomy :: "Snapshot \<Rightarrow> bool" where
  "roomy s \<longleftrightarrow> unat (snNumber s) + 1 + (card (Signers s) div 2 + 1) < 2 ^ 64"

lemma roomy_unat:
  assumes "roomy s"
  shows "unat (snNumber s + 1) = unat (snNumber s) + 1" and "unat (limitOf s) = card (Signers s) div 2 + 1"
  using assms by (simp_all add: roomy_def limitOf_def unat_word_ariths unat_of_nat)

lemma evict_keeps:
  assumes "roomy s" and "recents_tight s" and "(b, a) \<in> set (Recents s)"
  shows "(b, a) \<in> set (Recents (evictRecent s (snNumber s + 1))) \<longleftrightarrow>
           unat (snNumber s) + 1 < unat b + (card (Signers s) div 2 + 1)"
proof -
  let ?m = "snNumber s + 1" and ?L = "card (Signers s) div 2 + 1"
  from assms(2,3) have b: "unat b \<le> unat (snNumber s)" "unat (snNumber s) < unat b + ?L"
    by (auto simp: recents_tight_def)
  note u = roomy_unat [OF assms(1)]
  show ?thesis
  proof (cases "limitOf s \<le> ?m")
    case True
    then have "unat (?m - limitOf s) = unat (snNumber s) + 1 - ?L"
      using u by (simp add: unat_sub word_le_nat_alt)
    then have "b = ?m - limitOf s \<longleftrightarrow> unat b + ?L = unat (snNumber s) + 1"
      using True u b by (auto simp: word_unat_eq_iff word_le_nat_alt)
    with True b assms(3) show ?thesis by (auto simp: evictRecent_def Let_def set_alist_delete)
  next
    case False
    then have "unat (snNumber s) + 1 < ?L" using u by (simp add: word_le_nat_alt)
    with False assms(3) show ?thesis by (simp add: evictRecent_def Let_def)
  qed
qed

lemma evict_subset: "set (Recents (evictRecent s m)) \<subseteq> set (Recents s)"
  by (auto simp: evictRecent_def Let_def set_alist_delete)

lemma recently_signed_iff:
  assumes "roomy s" and "recents_tight s"
  shows "HasRecentlySigned s (snNumber s + 1) g \<longleftrightarrow>
           g \<in> snd ` set (Recents (evictRecent s (snNumber s + 1)))"
proof -
  let ?m = "snNumber s + 1"
  have "(b, a) \<in> set (Recents s) \<Longrightarrow> ?m < b + limitOf s \<longleftrightarrow> (b, a) \<in> set (Recents (evictRecent s ?m))" for b a
  proof -
    assume ba: "(b, a) \<in> set (Recents s)"
    then have "unat b \<le> unat (snNumber s)" using assms(2) by (auto simp: recents_tight_def)
    then have "unat (b + limitOf s) = unat b + (card (Signers s) div 2 + 1)"
      using assms(1) roomy_unat(2) [OF assms(1)] by (simp add: roomy_def unat_word_ariths)
    then show ?thesis
      using evict_keeps [OF assms ba] roomy_unat(1) [OF assms(1)] by (simp add: word_less_nat_alt)
  qed
  then show ?thesis using evict_subset [of s ?m] by (force simp: HasRecentlySigned_def list_ex_iff)
qed

lemma verified_applies:
  assumes "VerifyHeader G e s h parent = Ok ()" and "hnum h = Some (snNumber s + 1)"
    and "(snNumber s + 1) mod clEpoch e \<noteq> 0" and "roomy s" and "recents_tight s"
  shows "\<exists>t. Apply G e s [h] = Ok t"
proof -
  let ?m = "snNumber s + 1"
  from assms(1,2) obtain g where v: "valid_header G e s h parent ?m g"
    by (auto simp: VerifyHeader_Ok_iff)
  then have "clEpoch e \<noteq> 0" "SignerFromHeader G h = Ok g" "g \<in> Signers s" "\<not> HasRecentlySigned s ?m g"
    by (auto simp: valid_header_def)
  then have "\<exists>t. applyHeader G (clEpoch e) s h = Ok t"
    using assms recently_signed_iff [of s g] by (simp add: applyHeader_Ok_iff afterEpoch_def)
  then show ?thesis using assms(2) by (auto simp: Apply_def apply_snapshot_Ok_iff)
qed

lemma castVote_Recents: "set (Recents (castVote s g n c a)) \<subseteq> set (Recents s)"
proof (cases a)
  case True
  then show ?thesis by (simp add: castVote_eq Let_def resolveVote_def dropVotesFor_def)
next
  case False
  then show ?thesis by (auto simp: castVote_eq Let_def resolveVote_def dropVotesFor_def)
qed

lemma processVote_Recents: "set (Recents (processVote s g n v)) \<subseteq> set (Recents s)"
  using castVote_Recents by (force simp: processVote_def split: option.splits)

lemma set_update_subset: "set (AList.update k v m) \<subseteq> insert (k, v) (set m)"
  by (induction m) auto

text \<open>The window stays tight as long as the signer set does not shrink.\<close>

lemma applyHeader_tight:
  assumes ap: "applyHeader G epoch s h = Ok t" and n: "hnum h = Some (snNumber s + 1)"
    and ep: "(snNumber s + 1) mod epoch \<noteq> 0" and r: "roomy s" and tight: "recents_tight s"
    and grow: "card (Signers s) \<le> card (Signers t)"
  shows "recents_tight t"
proof -
  let ?m = "snNumber s + 1" and ?L = "card (Signers s) div 2 + 1"
  from ap n ep obtain g where t: "t = (processVote (addRecent (evictRecent s ?m) ?m g) g ?m (headerVote epoch ?m h))
      \<lparr>snNumber := ?m, snHash := hdrHash G h\<rparr>"
    unfolding applyHeader_Ok_iff afterEpoch_def by auto
  have sub: "set (Recents t) \<subseteq> insert (?m, g) (set (Recents (evictRecent s ?m)))"
    using processVote_Recents [of "addRecent (evictRecent s ?m) ?m g" g ?m "headerVote epoch ?m h"]
      set_update_subset [of ?m g "Recents (evictRecent s ?m)"]
    by (auto simp: t addRecent_def)
  have "unat b \<le> unat (snNumber t) \<and> unat (snNumber t) < unat b + (card (Signers t) div 2 + 1)"
    if "(b, a) \<in> set (Recents t)" for b a
  proof -
    have num: "unat (snNumber t) = unat (snNumber s) + 1" using roomy_unat(1) [OF r] by (simp add: t)
    have L: "?L \<le> card (Signers t) div 2 + 1" using grow by (simp add: div_le_mono)
    from that sub consider "b = ?m" | "(b, a) \<in> set (Recents (evictRecent s ?m))" by auto
    then show ?thesis
    proof cases
      case 1
      with num roomy_unat(1) [OF r] show ?thesis by simp
    next
      case 2
      then have "(b, a) \<in> set (Recents s)" using evict_subset by auto
      then have "unat (snNumber s) + 1 < unat b + ?L" "unat b \<le> unat (snNumber s)"
        using evict_keeps [OF r tight] 2 tight by (auto simp: recents_tight_def)
      with num L show ?thesis by simp
    qed
  qed
  then show ?thesis by (auto simp: recents_tight_def)
qed

section \<open>Signer-set changes need a majority\<close>

definition votersFor :: "Snapshot \<Rightarrow> address \<Rightarrow> address set" where
  "votersFor s c = Signer ` {v \<in> set (Votes s). Address v = c}"

lemma length_votes_for:
  assumes "votes_ok S vs"
  shows "length (filter (\<lambda>v. Address v = c) vs) = card (Signer ` {v \<in> set vs. Address v = c})"
proof -
  let ?ws = "filter (\<lambda>v. Address v = c) vs"
  have "distinct (map (\<lambda>v. (Signer v, Address v)) ?ws)"
    using assms by (simp add: votes_ok_def distinct_map_filter_pred)
  then have "inj_on (\<lambda>v. (Signer v, Address v)) (set ?ws)" and d: "distinct ?ws"
    by (auto simp: distinct_map)
  then have "inj_on Signer (set ?ws)" by (auto simp: inj_on_def)
  with d have "distinct (map Signer ?ws)" by (simp add: distinct_map)
  then show ?thesis using distinct_card [of "map Signer ?ws"] by simp
qed

lemma recordVote_tally:
  assumes inv: "snap_inv s" and "g \<in> Signers s" and "validVote s c a"
  shows "(case TallyOf (recordVote s g n c a) c of None \<Rightarrow> 0 | Some t \<Rightarrow> tVotes t) =
           card (insert g (votersFor s c))"
proof -
  let ?s2 = "recordVote s g n c a"
  have inv2: "snap_inv ?s2" using assms by (rule recordVote_inv)
  have votes: "Votes ?s2 = filter (\<lambda>v. \<not> (Signer v = g \<and> Address v = c)) (Votes s)
      @ [\<lparr>Signer = g, Block = n, Address = c, Authorize = a\<rparr>]"
    using dropPrevious_spec(1) [OF inv, of g c] by (simp add: recordVote_def Let_def)
  have "{v \<in> set (Votes ?s2). Address v = c} =
        insert \<lparr>Signer = g, Block = n, Address = c, Authorize = a\<rparr>
          {v \<in> set (Votes s). Address v = c \<and> Signer v \<noteq> g}"
    unfolding votes by auto
  moreover have "Signer ` {v \<in> set (Votes s). Address v = c \<and> Signer v \<noteq> g} = votersFor s c - {g}"
    by (auto simp: votersFor_def)
  ultimately have "Signer ` {v \<in> set (Votes ?s2). Address v = c} = insert g (votersFor s c)"
    by simp
  moreover have "length (filter (\<lambda>v. Address v = c) (Votes ?s2)) = card (Signer ` {v \<in> set (Votes ?s2). Address v = c})"
    using inv2 length_votes_for by (auto simp: snap_inv_def)
  moreover have "TallyOf ?s2 = tallyMap (Signers s) (Votes ?s2)" using inv2 by (simp add: snap_inv_def)
  ultimately show ?thesis by (simp add: tallyMap_def Let_def)
qed

lemma resolveVote_Signers:
  assumes "snap_inv s"
  shows "Signers (resolveVote s c a) = (if a then insert c (Signers s) else Signers s - {c})"
  using resolveVote_remove_spec(3) [OF assms, of c]
  by (cases a) (simp_all add: resolveVote_def dropVotesFor_def)

lemma castVote_majority:
  assumes inv: "snap_inv s" and g: "g \<in> Signers s" and change: "Signers (castVote s g n c a) \<noteq> Signers s"
  shows "card (Signers s) div 2 < card (insert g (votersFor s c))"
    and "a \<longleftrightarrow> c \<notin> Signers s"
    and "Signers (castVote s g n c a) = (if a then insert c (Signers s) else Signers s - {c})"
proof -
  from change have valid: "validVote s c a" by (auto simp: castVote_eq split: if_splits)
  note tally = recordVote_tally [OF inv g valid, of n]
  show maj: "card (Signers s) div 2 < card (insert g (votersFor s c))"
    using change valid tally by (auto simp: castVote_eq Let_def split: if_splits)
  show "a \<longleftrightarrow> c \<notin> Signers s" using valid by (simp add: validVote_iff)
  show "Signers (castVote s g n c a) = (if a then insert c (Signers s) else Signers s - {c})"
    using valid tally maj resolveVote_Signers [OF recordVote_inv [OF inv g valid]]
    by (simp add: castVote_eq Let_def)
qed

lemma voters_are_signers: "snap_inv s \<Longrightarrow> votersFor s c \<subseteq> Signers s"
  by (auto simp: snap_inv_def votes_ok_def votersFor_def)

text \<open>The fields that decide a vote are untouched by the recent-signer bookkeeping.\<close>

lemma addRecent_evict_frame [simp]:
  "votersFor (addRecent (evictRecent s n) m g) c = votersFor s c"
  by (simp add: votersFor_def addRecent_def)

lemma applyHeader_majority:
  assumes inv: "snap_inv s" and ap: "applyHeader G epoch s h = Ok t" and n: "hnum h = Some n"
    and ep: "n mod epoch \<noteq> 0" and change: "Signers t \<noteq> Signers s"
  shows "\<exists>g voters. SignerFromHeader G h = Ok g \<and> voters = insert g (votersFor s (Coinbase h)) \<and>
           voters \<subseteq> Signers s \<and> card (Signers s) < 2 * card voters \<and>
           Signers t = (if Coinbase h \<in> Signers s then Signers s - {Coinbase h} else insert (Coinbase h) (Signers s))"
proof -
  from ap n ep obtain g where sg: "SignerFromHeader G h = Ok g" and g: "g \<in> Signers s"
    and fresh: "g \<notin> snd ` set (Recents (evictRecent s n))"
    and t: "t = (processVote (addRecent (evictRecent s n) n g) g n (headerVote epoch n h))
              \<lparr>snNumber := n, snHash := hdrHash G h\<rparr>"
    unfolding applyHeader_Ok_iff afterEpoch_def by auto
  let ?s3 = "addRecent (evictRecent s n) n g"
  have inv3: "snap_inv ?s3"
    unfolding addRecent_def using inv fresh by (rule addRecent_inv [OF evictRecent_inv])
  from change t obtain a where "headerVote epoch n h = Some (Coinbase h, a)"
    by (auto simp: processVote_def headerVote_def Let_def split: option.splits if_splits)
  then have ch: "Signers (castVote ?s3 g n (Coinbase h) a) \<noteq> Signers ?s3"
    and St: "Signers t = Signers (castVote ?s3 g n (Coinbase h) a)"
    using change t by (simp_all add: processVote_def)
  from g have g3: "g \<in> Signers ?s3" by simp
  note m = castVote_majority [OF inv3 g3 ch]
  have "card (Signers s) < 2 * card (insert g (votersFor s (Coinbase h)))"
    using m(1) by simp
  moreover have "insert g (votersFor s (Coinbase h)) \<subseteq> Signers s"
    using g voters_are_signers [OF inv] by simp
  ultimately show ?thesis using sg m(2,3) St by auto
qed

section \<open>Signers take turns\<close>

text \<open>A segment of headers that is accepted one by one and leaves the signer set as it is.\<close>

fun steady :: "geth \<Rightarrow> u64 \<Rightarrow> Snapshot \<Rightarrow> header list \<Rightarrow> bool" where
  "steady G epoch s [] = True"
| "steady G epoch s (h # hs) =
     (case applyHeader G epoch s h of
        Ok t \<Rightarrow> Signers t = Signers s \<and> steady G epoch t hs
      | _ \<Rightarrow> False)"

lemma steady_append:
  "steady G epoch s (xs @ ys) \<longleftrightarrow>
     steady G epoch s xs \<and> (\<exists>t. rfold (applyHeader G epoch) s xs = Ok t \<and> Signers t = Signers s \<and> steady G epoch t ys)"
  by (induction xs arbitrary: s) (auto split: result.splits)

lemma castVote_steady:
  assumes "snap_inv s" and "g \<in> Signers s" and "Signers (castVote s g n c a) = Signers s"
  shows "Recents (castVote s g n c a) = Recents s"
proof (cases "validVote s c a")
  case False
  then show ?thesis by (simp add: castVote_eq)
next
  case True
  then have "Signers (resolveVote (recordVote s g n c a) c a) \<noteq> Signers s"
    using resolveVote_Signers [OF recordVote_inv [OF assms(1,2) True]] by (auto simp: validVote_iff)
  with True assms(3) show ?thesis by (auto simp: castVote_eq Let_def split: if_splits)
qed

lemma processVote_steady:
  "snap_inv s \<Longrightarrow> g \<in> Signers s \<Longrightarrow> Signers (processVote s g n v) = Signers s \<Longrightarrow>
   Recents (processVote s g n v) = Recents s"
  by (auto simp: processVote_def castVote_steady split: option.splits)

lemma afterEpoch_Recents: "afterEpoch epoch s h n = Ok s1 \<Longrightarrow> Recents s1 = Recents s"
  by (auto simp: afterEpoch_def epochReset_def split: if_splits)

text \<open>An accepted header that keeps the signer set: eviction, the freshness check, one new entry.\<close>

lemma applyHeader_steady:
  assumes inv: "snap_inv s" and ap: "applyHeader G epoch s h = Ok t" and st: "Signers t = Signers s"
    and n: "hnum h = Some n"
  shows "\<exists>g. SignerFromHeader G h = Ok g \<and> g \<notin> snd ` set (Recents (evictRecent s n)) \<and>
           Recents t = AList.update n g (Recents (evictRecent s n))"
proof -
  from ap n obtain s1 g where s1: "afterEpoch epoch s h n = Ok s1" and sg: "SignerFromHeader G h = Ok g"
    and g: "g \<in> Signers s1" and fresh: "g \<notin> snd ` set (Recents (evictRecent s1 n))"
    and t: "t = (processVote (addRecent (evictRecent s1 n) n g) g n (headerVote epoch n h))
              \<lparr>snNumber := n, snHash := hdrHash G h\<rparr>"
    unfolding applyHeader_Ok_iff by auto
  let ?s3 = "addRecent (evictRecent s1 n) n g"
  have "snap_inv ?s3"
    unfolding addRecent_def using afterEpoch_inv [OF inv s1] fresh by (rule addRecent_inv [OF evictRecent_inv])
  moreover have S1: "Signers s1 = Signers s"
  proof (cases "n mod epoch = 0")
    case True
    then have "headerVote epoch n h = None" by (simp add: headerVote_def Let_def)
    with t st show ?thesis by (simp add: processVote_def)
  next
    case False
    with s1 show ?thesis by (simp add: afterEpoch_def)
  qed
  ultimately have "Recents t = Recents ?s3"
    using processVote_steady [of ?s3 g n "headerVote epoch n h"] g st by (simp add: t)
  moreover have "Recents (evictRecent s1 n) = Recents (evictRecent s n)"
    using afterEpoch_Recents [OF s1] S1 by (simp add: evictRecent_def Let_def limitOf_def)
  ultimately show ?thesis using sg fresh by (auto simp: addRecent_def)
qed

lemma evict_keeps_entry:
  assumes "(b, a) \<in> set (Recents s)" and "unat n < unat b + (card (Signers s) div 2 + 1)"
    and "card (Signers s) div 2 + 1 < 2 ^ 64"
  shows "(b, a) \<in> set (Recents (evictRecent s n))"
proof -
  have u: "unat (limitOf s) = card (Signers s) div 2 + 1" using assms(3) by (simp add: limitOf_def unat_of_nat unat_word_ariths)
  have "limitOf s \<le> n \<Longrightarrow> b \<noteq> n - limitOf s"
    using assms(2) u by (auto simp: word_le_nat_alt unat_sub)
  with assms(1) show ?thesis by (auto simp: evictRecent_def Let_def set_alist_delete)
qed

lemma contiguous_Cons_iff:
  "contiguous n (h # hs) = Ok () \<longleftrightarrow> hnum h = Some (n + 1) \<and> contiguous (n + 1) hs = Ok ()"
  by auto

lemma recent_entry_persists:
  assumes "snap_inv s" and "(b, a) \<in> set (Recents s)" and "steady G epoch s hs"
    and "contiguous (snNumber s) hs = Ok ()" and "rfold (applyHeader G epoch) s hs = Ok t"
    and "unat b \<le> unat (snNumber s)" and "unat (snNumber s) + length hs < unat b + (card (Signers s) div 2 + 1)"
    and "unat (snNumber s) + length hs < 2 ^ 64" and "card (Signers s) div 2 + 1 < 2 ^ 64"
  shows "(b, a) \<in> set (Recents t) \<and> snap_inv t \<and> unat (snNumber t) = unat (snNumber s) + length hs"
  using assms
proof (induction hs arbitrary: s)
  case Nil
  then show ?case by simp
next
  case (Cons h hs)
  let ?n = "snNumber s + 1"
  from Cons.prems(3,5) obtain u where u: "applyHeader G epoch s h = Ok u" "Signers u = Signers s"
    and rest: "steady G epoch u hs" "rfold (applyHeader G epoch) u hs = Ok t"
    by (auto split: result.splits)
  from Cons.prems(4) have n: "hnum h = Some ?n" and c: "contiguous ?n hs = Ok ()"
    unfolding contiguous_Cons_iff by auto
  have un: "snNumber u = ?n" using applyHeader_position [OF u(1)] n by simp
  have unat_n: "unat ?n = unat (snNumber s) + 1"
    using Cons.prems(8) by (simp add: unat_word_ariths)
  obtain g where g: "Recents u = AList.update ?n g (Recents (evictRecent s ?n))"
    using applyHeader_steady [OF Cons.prems(1) u n] by blast
  have "(b, a) \<in> set (Recents (evictRecent s ?n))"
    using Cons.prems(7,9) unat_n by (intro evict_keeps_entry [OF Cons.prems(2)]) auto
  moreover have "b \<noteq> ?n" using Cons.prems(6) unat_n by auto
  moreover have "distinct (map fst (Recents (evictRecent s ?n)))"
    using evictRecent_inv [OF Cons.prems(1)] by (simp add: snap_inv_def recents_ok_def)
  ultimately have "(b, a) \<in> set (Recents u)" by (simp add: g set_alist_update)
  then show ?case
    using Cons.IH [of u] rest c un u(2) unat_n Cons.prems applyHeader_inv [OF Cons.prems(1) u(1)]
    by simp
qed

lemma contiguous_last:
  "contiguous n hs = Ok () \<Longrightarrow> hs \<noteq> [] \<Longrightarrow> hnum (last hs) = Some (n + word_of_nat (length hs))"
proof (induction hs arbitrary: n)
  case Nil
  then show ?case by simp
next
  case (Cons h hs)
  then show ?case by (cases "hs = []") (auto simp: contiguous_Cons_iff add_ac)
qed

lemma unat_number_le:
  assumes "contiguous (snNumber s) hs = Ok ()" and "rfold (applyHeader G epoch) s hs = Ok u"
  shows "unat (snNumber u) \<le> unat (snNumber s) + length hs"
proof -
  have "snNumber u = snNumber s + word_of_nat (length hs)"
    using rfold_number [OF assms(2)] contiguous_last [OF assms(1)] assms(2) by (cases "hs = []") auto
  moreover have "(unat (snNumber s) + length hs mod 18446744073709551616) mod 18446744073709551616
      \<le> unat (snNumber s) + length hs"
    by (meson add_left_mono le_trans mod_less_eq_dividend)
  ultimately show ?thesis by (simp add: unat_word_ariths unat_of_nat mod_add_right_eq)
qed

lemma nth_split2:
  assumes "i < j" and "j < length hs"
  shows "hs = take i hs @ hs ! i # take (j - i - 1) (drop (Suc i) hs) @ hs ! j # drop (Suc j) hs"
proof -
  have "drop (Suc i) hs = take (j - i - 1) (drop (Suc i) hs) @ drop (j - i - 1) (drop (Suc i) hs)"
    by (simp only: append_take_drop_id)
  also have "drop (j - i - 1) (drop (Suc i) hs) = drop j hs" using assms by simp
  also have "\<dots> = hs ! j # drop (Suc j) hs" using assms(2) by (simp add: Cons_nth_drop_Suc)
  finally show ?thesis using id_take_nth_drop [of i hs] assms by simp
qed

lemma steady_signers_differ:
  assumes inv: "snap_inv s" and st: "steady G epoch s (h # mid @ [k])"
    and c: "contiguous (snNumber s) (h # mid @ [k]) = Ok ()"
    and room: "unat (snNumber s) + length mid + 2 < 2 ^ 64"
    and win: "length mid + 1 < card (Signers s) div 2 + 1" and small: "card (Signers s) div 2 + 1 < 2 ^ 64"
  shows "SignerFromHeader G h \<noteq> SignerFromHeader G k"
proof -
  let ?n = "snNumber s + 1"
  from st obtain s1 where s1: "applyHeader G epoch s h = Ok s1" "Signers s1 = Signers s"
    and st1: "steady G epoch s1 (mid @ [k])" by (auto split: result.splits)
  from c have n: "hnum h = Some ?n" and c1: "contiguous ?n (mid @ [k]) = Ok ()"
    unfolding contiguous_Cons_iff by auto
  have sn1: "snNumber s1 = ?n" using applyHeader_position [OF s1(1)] n by simp
  have un: "unat ?n = unat (snNumber s) + 1" using room by (simp add: unat_word_ariths)
  from applyHeader_steady [OF inv s1 n] obtain g where sg: "SignerFromHeader G h = Ok g"
    and rec1: "Recents s1 = AList.update ?n g (Recents (evictRecent s ?n))" by blast
  have inv1: "snap_inv s1" using inv s1(1) by (rule applyHeader_inv)
  have dist: "distinct (map fst (Recents (evictRecent s ?n)))"
    using evictRecent_inv [OF inv] by (simp add: snap_inv_def recents_ok_def)
  have ent: "(?n, g) \<in> set (Recents s1)" by (simp add: rec1 set_alist_update [OF dist])
  from st1 obtain u where u: "rfold (applyHeader G epoch) s1 mid = Ok u" "Signers u = Signers s1"
    and stm: "steady G epoch s1 mid" and stk: "steady G epoch u [k]" by (auto simp: steady_append)
  from c1 have cm: "contiguous (snNumber s1) mid = Ok ()" and ck: "contiguous (snNumber u) [k] = Ok ()"
    using sn1 rfold_number [OF u(1)] by (auto simp: contiguous_append)
  have P: "(?n, g) \<in> set (Recents u) \<and> snap_inv u \<and> unat (snNumber u) = unat (snNumber s1) + length mid"
    using ent stm cm u(1) s1(2) win room small sn1 un by (intro recent_entry_persists [OF inv1]) auto
  let ?m = "snNumber u + 1"
  from ck have m: "hnum k = Some ?m" unfolding contiguous_Cons_iff by auto
  from stk obtain v where v: "applyHeader G epoch u k = Ok v" "Signers v = Signers u" by (auto split: result.splits)
  from P have "snap_inv u" by simp
  from applyHeader_steady [OF this v m] obtain g' where sk: "SignerFromHeader G k = Ok g'"
    and fresh: "g' \<notin> snd ` set (Recents (evictRecent u ?m))" by blast
  have "unat ?m = unat (snNumber u) + 1" using P sn1 un room by (simp add: unat_word_ariths)
  then have "(?n, g) \<in> set (Recents (evictRecent u ?m))"
    using P u(2) s1(2) win small sn1 by (intro evict_keeps_entry) auto
  with fresh have "g \<noteq> g'" by force
  with sg sk show ?thesis by simp
qed

section \<open>Epoch headers\<close>

text \<open>
  The signer list of an epoch header is not compared with the snapshot: whatever well-formed list an
  authorized signer writes there (and that names it) is verified, and becomes the signer set.
\<close>

lemma epochReset_Signers:
  assumes "take (length (Extra h) - 65) (Extra h) = replicate 32 0 @ concat as"
    and "97 \<le> length (Extra h)" and "\<forall>a \<in> set as. length a = 20"
  shows "\<exists>s1. epochReset s h = Ok s1 \<and> Signers s1 = set as \<and> Recents s1 = Recents s"
proof -
  have "take (length (Extra h) - 97) (drop 32 (Extra h)) = drop 32 (take (length (Extra h) - 65) (Extra h))"
    using assms(2) by (simp add: drop_take)
  also have "\<dots> = concat as" using assms(1) by simp
  finally have "slice 32 (int (length (Extra h)) - 65) (Extra h) = Ok (concat as)"
    using assms(2) by (simp add: slice_def nat_diff_distrib)
  then show ?thesis using assms(3) by (auto simp: epochReset_def clique_consts addrs_of_concat)
qed

lemma epoch_takeover:
  assumes n: "hnum h = Some (snNumber s + 1)" "clEpoch e \<noteq> 0" "(snNumber s + 1) mod clEpoch e = 0"
    and x: "Extra h = replicate 32 0 @ concat as @ replicate 65 0"
    and as: "as \<noteq> []" "\<forall>a \<in> set as. length a = 20" "key_address G k \<in> set as"
    and g: "key_address G k \<in> Signers s" "key_address G k \<notin> snd ` set (Recents s)"
    and fixed: "UncleHash h = emptyUncleHash G" "MixDigest h = zeroHash" "Nonce h = nonceNull"
    and diff: "Difficulty h = Some (CalcDifficulty s (snNumber s + 1) (key_address G k))"
    and time: "Time p + clPeriod e \<le> Time h"
    and seal: "SealHeader G h k = Ok h'" and ec: "ecdsa_ok G k"
  shows "VerifyHeader G e s h' (Some p) = Ok () \<and> (\<exists>t. Apply G e s [h'] = Ok t \<and> Signers t = set as)"
proof
  let ?n = "snNumber s + 1" and ?g = "key_address G k"
  note f = SealHeader_frame [OF seal ec] and sg = SealHeader_signer [OF seal ec]
  have len: "length (Extra h') = 32 + 20 * length as + 65"
    using f(1) x length_concat_addrs [OF as(2)] by simp
  have nr: "\<not> HasRecentlySigned s ?n ?g" using g(2) by (force simp: HasRecentlySigned_def list_ex_iff)
  have "\<exists>k > 0. length (Extra h') = 32 + 20 * k + 65" using len as(1) by blast
  then have "valid_header G e s h' (Some p) ?n ?g"
    unfolding valid_header_def using f fixed g(1) nr diff time sg n(2,3) by (simp add: CalcDifficulty_eq)
  with f(8) n(1) show "VerifyHeader G e s h' (Some p) = Ok ()" by (auto simp: VerifyHeader_Ok_iff)
  have "take (length (Extra h') - 65) (Extra h') = replicate 32 0 @ concat as"
    using f(1,10) x by simp
  then obtain s1 where s1: "epochReset s h' = Ok s1" "Signers s1 = set as" "Recents s1 = Recents s"
    using epochReset_Signers [of h' as s] as(2) len by auto
  have "?g \<notin> snd ` set (Recents (evictRecent s1 ?n))"
    using g(2) s1(3) evict_subset [of s1 ?n] by auto
  moreover have "headerVote (clEpoch e) ?n h' = None" using n(3) by (simp add: headerVote_def Let_def)
  ultimately have "applyHeader G (clEpoch e) s h' =
      Ok ((addRecent (evictRecent s1 ?n) ?n ?g)\<lparr>snNumber := ?n, snHash := hdrHash G h'\<rparr>)"
    unfolding applyHeader_Ok_iff using f(8) n s1 as(3) sg by (simp add: afterEpoch_def processVote_def)
  then show "\<exists>t. Apply G e s [h'] = Ok t \<and> Signers t = set as"
    using f(8) n(1) s1(2) by (simp add: Apply_def apply_snapshot_Ok_iff)
qed

text \<open>A header that verified cannot make the replay panic.\<close>

lemma verified_no_panic:
  assumes "VerifyHeader G e s h parent = Ok ()"
  shows "Apply G e s [h] \<noteq> Panic"
proof -
  from assms obtain n g where n: "hnum h = Some n" and v: "valid_header G e s h parent n g"
    by (auto simp: VerifyHeader_Ok_iff)
  from n have hn: "number_of h = Ok n" and nn: "Number h \<noteq> None" by (auto simp: hnum_def)
  have len: "97 \<le> length (Extra h)" using v by (auto simp: valid_header_def split: if_splits)
  then have "slice 32 (int (length (Extra h)) - 65) (Extra h) \<noteq> Panic" by (simp add: slice_def)
  then have "afterEpoch (clEpoch e) s h n \<noteq> Panic"
    by (auto simp: afterEpoch_def epochReset_def clique_consts rbind_Panic_iff)
  then have "applyHeader G (clEpoch e) s h \<noteq> Panic"
    using v n nn unfolding applyHeader_eq by (auto simp: rbind_Panic_iff valid_header_def split: if_splits)
  then show ?thesis using n nn by (auto simp: Apply_def apply_snapshot_def rbind_Panic_iff hn split: if_splits)
qed

end
