(* ===== verification/Clique_Properties.thy ===== *)
theory Clique_Properties
  imports Clique_Engine
begin

text \<open>
  The properties of the Clique component, each with a witness on the concrete parameters
  \<^const>\<open>demoGeth\<close> where it has hypotheses. The first section holds the demonstration chain.
\<close>

section \<open>A demonstration chain\<close>

definition demoBlock :: "int \<Rightarrow> byte \<Rightarrow> address \<Rightarrow> header" where
  "demoBlock n g c = demoHeader\<lparr>Number := Some n, Coinbase := c,
     Extra := replicate 32 0 @ demoAddr g @ replicate 45 0\<rparr>"

definition demoGenesis :: header where
  "demoGenesis = demoHeader\<lparr>Extra := replicate 32 0 @ concat (map demoAddr [1, 2, 3, 4]) @ replicate 65 0\<rparr>"

definition demoEngine :: Engine where
  "demoEngine = New 0 30000"

text \<open>Signers 1, 2 and 3 vote signer 4 out; block 4 is signed by 2.\<close>

definition dropRun :: "header list" where
  "dropRun = [demoBlock 1 1 (demoAddr 4), demoBlock 2 2 (demoAddr 4), demoBlock 3 3 (demoAddr 4)]"

definition demoSnap :: Snapshot where
  "demoSnap = newSnapshot 0 [] (map demoAddr [1, 2, 3, 4])"

lemma demoSnap_inv: "snap_inv demoSnap"
  by (simp add: demoSnap_def newSnapshot_inv)

lemma demoSnap_card: "card (Signers demoSnap) = 4"
proof -
  have "distinct (map demoAddr [1, 2, 3, 4])" by code_simp
  from distinct_card [OF this] show ?thesis
    by (simp only: demoSnap_def newSnapshot_def Snapshot.simps length_map) simp
qed

lemma demoSnap_roomy: "roomy demoSnap"
  using demoSnap_card by (simp add: roomy_def) (simp add: demoSnap_def newSnapshot_def)

lemma demoSnap_addresses: "addresses_ok demoSnap"
  by (simp add: addresses_ok_def demoSnap_def newSnapshot_def demoAddr_def)

lemma ex_Ok: "is_ok r \<Longrightarrow> \<exists>x. r = Ok x"
  by (simp add: is_ok_iff)

section \<open>Properties\<close>

text \<open>
  C9. Every snapshot the client can reach by replaying headers from a genesis snapshot is
  well-formed: each pending vote was cast by a current signer in the only meaningful direction,
  no signer has two pending votes on one candidate, the incrementally maintained tally is the
  recount of the pending votes, and no block number and no signer occurs twice in the
  recent-signer list.
\<close>

theorem clique_replay_invariant:
  assumes "NewGenesisSnapshot G genesis = Ok s" and "Apply G e s hs = Ok t"
  shows "snap_inv t"
  using NewGenesisSnapshot_inv [OF assms(1)] assms(2) by (rule Apply_inv)

theorem clique_replay_invariant_witness:
  "\<exists>s t. NewGenesisSnapshot demoGeth demoGenesis = Ok s \<and> Apply demoGeth demoEngine s dropRun = Ok t \<and> snap_inv t"
proof -
  have "is_ok (rbind (NewGenesisSnapshot demoGeth demoGenesis) (\<lambda>s. Apply demoGeth demoEngine s dropRun))"
    by code_simp
  then obtain s t where "NewGenesisSnapshot demoGeth demoGenesis = Ok s" "Apply demoGeth demoEngine s dropRun = Ok t"
    by (auto simp: is_ok_iff)
  then show ?thesis using clique_replay_invariant [of demoGeth demoGenesis s demoEngine dropRun t] by blast
qed

text \<open>
  C3. Outside epoch boundaries the signer set changes only by a majority: the candidate is the
  header's beneficiary, it is added if it was no signer and removed if it was one, and the set of
  distinct current signers with a vote on it (the pending ones and the header's own signer) is more
  than half of the signer set.
\<close>

theorem clique_majority_rule:
  assumes "snap_inv s" and "Apply G e s [h] = Ok t" and "hnum h = Some n" and "n mod clEpoch e \<noteq> 0"
    and "Signers t \<noteq> Signers s"
  shows "\<exists>g. SignerFromHeader G h = Ok g \<and> insert g (votersFor s (Coinbase h)) \<subseteq> Signers s \<and>
           card (Signers s) < 2 * card (insert g (votersFor s (Coinbase h))) \<and>
           Signers t = (if Coinbase h \<in> Signers s then Signers s - {Coinbase h}
                        else insert (Coinbase h) (Signers s))"
proof -
  from assms(2) have "applyHeader G (clEpoch e) s h = Ok t"
    by (simp add: Apply_def apply_snapshot_Ok_iff)
  from applyHeader_majority [OF assms(1) this assms(3,4,5)] show ?thesis by blast
qed

theorem clique_majority_rule_witness:
  "\<exists>s t. Apply demoGeth demoEngine demoSnap (take 2 dropRun) = Ok s \<and>
     Apply demoGeth demoEngine s [dropRun ! 2] = Ok t \<and>
     card (Signers s) < 2 * card (insert (demoAddr 3) (votersFor s (demoAddr 4))) \<and>
     Signers t = Signers s - {demoAddr 4}"
proof -
  have run: "(case rbind (Apply demoGeth demoEngine demoSnap (take 2 dropRun)) (\<lambda>s.
      rbind (Apply demoGeth demoEngine s [dropRun ! 2]) (\<lambda>t. Ok (s, t))) of
      Ok (s, t) \<Rightarrow> Signers t \<noteq> Signers s \<and> demoAddr 4 \<in> Signers s | _ \<Rightarrow> False)"
    by code_simp
  then obtain s t where s: "Apply demoGeth demoEngine demoSnap (take 2 dropRun) = Ok s"
    and t: "Apply demoGeth demoEngine s [dropRun ! 2] = Ok t"
    and ch: "Signers t \<noteq> Signers s" "demoAddr 4 \<in> Signers s"
    by (auto split: result.splits)
  have inv: "snap_inv s" using demoSnap_inv s by (rule Apply_inv)
  have n: "hnum (dropRun ! 2) = Some 3" and ep: "(3 :: u64) mod clEpoch demoEngine \<noteq> 0"
    and c: "Coinbase (dropRun ! 2) = demoAddr 4" and g: "SignerFromHeader demoGeth (dropRun ! 2) = Ok (demoAddr 3)"
    by code_simp+
  show ?thesis using clique_majority_rule [OF inv t n ep ch(1)] s t ch c g by auto
qed

text \<open>
  C17. \<^verbatim>\<open>VerifyHeader\<close> accepts exactly the valid headers: epoch headers carry a non-empty whole
  number of addresses and others exactly vanity and seal, uncle hash and mix digest are the constant
  ones, the nonce is a vote encoding, the period has passed, and the recovered signer is authorized,
  is outside the recent window, and the difficulty is 2 in turn and 1 out of turn.
\<close>

theorem clique_verify_header_exact:
  "VerifyHeader G e snap h parent = Ok () \<longleftrightarrow>
     (\<exists>n g. hnum h = Some n \<and> valid_header G e snap h parent n g)"
  by (rule VerifyHeader_Ok_iff)

text \<open>
  Sealing and recovery are inverse: the signer recovered from a sealed header is the address of
  the sealing key.
\<close>

theorem clique_seal_roundtrip:
  assumes "ecdsa_ok G k" and "SealHeader G h k = Ok h'"
  shows "SignerFromHeader G h' = Ok (key_address G k)"
  using assms(2,1) by (rule SealHeader_signer)

theorem clique_seal_roundtrip_witness:
  "ecdsa_ok demoGeth (demoAddr 7) \<and>
   (\<exists>h'. SealHeader demoGeth (demoBlock 1 0 zeroAddress) (demoAddr 7) = Ok h' \<and>
         SignerFromHeader demoGeth h' = Ok (key_address demoGeth (demoAddr 7)))"
proof -
  have "is_ok (SealHeader demoGeth (demoBlock 1 0 zeroAddress) (demoAddr 7))" by code_simp
  then obtain h' where "SealHeader demoGeth (demoBlock 1 0 zeroAddress) (demoAddr 7) = Ok h'"
    by (auto dest: ex_Ok)
  with clique_seal_roundtrip [OF demo_ecdsa_ok this] demo_ecdsa_ok show ?thesis by blast
qed

text \<open>
  What an honest signer produces is accepted by everyone: a header with the extra data of
  \<^verbatim>\<open>BuildExtra\<close>, the difficulty of \<^verbatim>\<open>CalcDifficulty\<close>, the constant fields, a vote encoding and a
  timestamp no earlier than the parent's plus the period, sealed with the key of an authorized signer
  that has not signed recently, passes \<^verbatim>\<open>VerifyHeader\<close> against the same snapshot.
\<close>

theorem clique_produced_header_verifies:
  assumes "BuildExtra e s n = Ok (Extra h)" and "addresses_ok s"
    and "key_address G k \<in> Signers s" and "\<not> HasRecentlySigned s n (key_address G k)"
    and "hnum h = Some n" and "UncleHash h = emptyUncleHash G" and "MixDigest h = zeroHash"
    and "Nonce h = nonceNull \<or> Nonce h = nonceAuth \<and> Coinbase h \<noteq> zeroAddress"
    and "Difficulty h = Some (CalcDifficulty s n (key_address G k))"
    and "Time parent + clPeriod e \<le> Time h"
    and "SealHeader G h k = Ok h'" and "ecdsa_ok G k"
  shows "VerifyHeader G e s h' (Some parent) = Ok ()"
  by (rule produced_verifies [OF assms(1-9) _ assms(11,12)]) (simp add: assms(10))

theorem clique_produced_header_verifies_witness:
  "\<exists>h'. SealHeader demoGeth (demoHeader\<lparr>Number := Some 1, Difficulty := Some 2, Extra := replicate 97 0\<rparr>)
          (demoAddr 2) = Ok h' \<and>
        VerifyHeader demoGeth demoEngine demoSnap h' (Some demoGenesis) = Ok ()"
proof -
  let ?h = "demoHeader\<lparr>Number := Some 1, Difficulty := Some 2, Extra := replicate 97 0\<rparr>"
  have "is_ok (SealHeader demoGeth ?h (demoAddr 2))" by code_simp
  then obtain h' where h': "SealHeader demoGeth ?h (demoAddr 2) = Ok h'" by (auto dest: ex_Ok)
  have "BuildExtra demoEngine demoSnap 1 = Ok (Extra ?h)" by code_simp
  moreover have "key_address demoGeth (demoAddr 2) \<in> Signers demoSnap" by code_simp
  moreover have "\<not> HasRecentlySigned demoSnap 1 (key_address demoGeth (demoAddr 2))" by code_simp
  moreover have "hnum ?h = Some 1" "UncleHash ?h = emptyUncleHash demoGeth" "MixDigest ?h = zeroHash"
    by code_simp+
  moreover have "Nonce ?h = nonceNull \<or> Nonce ?h = nonceAuth \<and> Coinbase ?h \<noteq> zeroAddress" by code_simp
  moreover have "Difficulty ?h = Some (CalcDifficulty demoSnap 1 (key_address demoGeth (demoAddr 2)))"
    by code_simp
  moreover have "Time demoGenesis + clPeriod demoEngine \<le> Time ?h" by code_simp
  ultimately show ?thesis
    using clique_produced_header_verifies [OF _ demoSnap_addresses _ _ _ _ _ _ _ _ h' demo_ecdsa_ok] h' by blast
qed

text \<open>
  Epoch checkpoints carry the signer set: the checkpoint snapshot read from a sealed epoch header
  built by \<^verbatim>\<open>BuildExtra\<close> has exactly the signers of the snapshot it was built from.
\<close>

theorem clique_checkpoint_roundtrip:
  assumes "addresses_ok s" and "Signers s \<noteq> {}" and "BuildExtra e s n = Ok (Extra h)"
    and "n mod clEpoch e = 0" and "hnum h = Some n" and "SealHeader G h k = Ok h'" and "ecdsa_ok G k"
  shows "\<exists>t. NewCheckpointSnapshot G h' = Ok t \<and> Signers t = Signers s \<and> snNumber t = n \<and> snHash t = hdrHash G h'"
  using checkpoint_of_sealed [OF assms] assms(1)
  by (simp add: newSnapshot_def addresses_ok_def)

theorem clique_checkpoint_roundtrip_witness:
  "\<exists>h' t. SealHeader demoGeth (demoHeader\<lparr>Number := Some 30000,
        Extra := replicate 32 0 @ concat (map demoAddr [1, 2, 3, 4]) @ replicate 65 0\<rparr>) (demoAddr 2) = Ok h' \<and>
     NewCheckpointSnapshot demoGeth h' = Ok t \<and> Signers t = Signers demoSnap"
proof -
  let ?h = "demoHeader\<lparr>Number := Some 30000,
        Extra := replicate 32 0 @ concat (map demoAddr [1, 2, 3, 4]) @ replicate 65 0\<rparr>"
  have "is_ok (SealHeader demoGeth ?h (demoAddr 2))" by code_simp
  then obtain h' where h': "SealHeader demoGeth ?h (demoAddr 2) = Ok h'" by (auto dest: ex_Ok)
  have ne: "Signers demoSnap \<noteq> {}" by (simp add: demoSnap_def newSnapshot_def)
  have b: "BuildExtra demoEngine demoSnap 30000 = Ok (Extra ?h)"
    and "(30000 :: u64) mod clEpoch demoEngine = 0" and "hnum ?h = Some 30000" by code_simp+
  from clique_checkpoint_roundtrip [OF demoSnap_addresses ne this h' demo_ecdsa_ok] h' show ?thesis by auto
qed

text \<open>
  Verification and replay agree away from epoch boundaries: while every entry of the
  recent-signer list is inside the window of the current signer count, a header that
  \<^verbatim>\<open>VerifyHeader\<close> accepts at the next height is accepted by \<^verbatim>\<open>Apply\<close>, and the list stays inside the
  window if the signer set did not shrink.
\<close>

theorem clique_verified_header_applies:
  assumes "VerifyHeader G e s h parent = Ok ()" and "hnum h = Some (snNumber s + 1)"
    and "(snNumber s + 1) mod clEpoch e \<noteq> 0" and "roomy s" and "recents_tight s"
  shows "\<exists>t. Apply G e s [h] = Ok t \<and> (card (Signers s) \<le> card (Signers t) \<longrightarrow> recents_tight t)"
proof -
  from verified_applies [OF assms] obtain t where t: "Apply G e s [h] = Ok t" by blast
  then have "applyHeader G (clEpoch e) s h = Ok t" by (simp add: Apply_def apply_snapshot_Ok_iff)
  from applyHeader_tight [OF this assms(2-5)] t show ?thesis by blast
qed

theorem clique_verified_header_applies_witness:
  "VerifyHeader demoGeth demoEngine demoSnap (demoBlock 1 1 (demoAddr 4)) (Some demoGenesis) = Ok () \<and>
   (\<exists>t. Apply demoGeth demoEngine demoSnap [demoBlock 1 1 (demoAddr 4)] = Ok t)"
proof -
  let ?h = "demoBlock 1 1 (demoAddr 4)"
  have v: "VerifyHeader demoGeth demoEngine demoSnap ?h (Some demoGenesis) = Ok ()" by code_simp
  have n: "hnum ?h = Some (snNumber demoSnap + 1)" "(snNumber demoSnap + 1) mod clEpoch demoEngine \<noteq> 0"
    by code_simp+
  have "recents_tight demoSnap" by (simp add: recents_tight_def demoSnap_def newSnapshot_def)
  from clique_verified_header_applies [OF v n demoSnap_roomy this] v show ?thesis by blast
qed

text \<open>
  A recent entry is stale when it has left the window that \<^verbatim>\<open>VerifyHeader\<close> looks at, at the number of the snapshot itself, so
  the eviction of the next block passes it by.
\<close>

definition stale :: "Snapshot \<Rightarrow> u64 \<Rightarrow> address \<Rightarrow> bool" where
  "stale s b a \<longleftrightarrow> (b, a) \<in> set (Recents s) \<and> unat b + (card (Signers s) div 2 + 1) \<le> unat (snNumber s)"

lemma castVote_keeps: "(b, a) \<in> set (Recents s) \<Longrightarrow> a \<in> Signers (castVote s g n c au) \<Longrightarrow> (b, a) \<in> set (Recents (castVote s g n c au))"
  by (cases au) (auto simp: castVote_eq Let_def resolveVote_def dropVotesFor_def split: if_splits)

lemma set_update_keeps: "(b, a) \<in> set m \<Longrightarrow> b \<noteq> k \<Longrightarrow> (b, a) \<in> set (AList.update k v m)"
  by (induction m) auto

lemma apply_keeps_entry:
  assumes "Apply G e s [h] = Ok t" and "hnum h = Some (snNumber s + 1)" and "(snNumber s + 1) mod clEpoch e \<noteq> 0" and "roomy s"
    and "(b, a) \<in> set (Recents s)" and "a \<in> Signers t" and "unat b \<le> unat (snNumber s)"
    and "unat b + (card (Signers s) div 2 + 1) \<noteq> unat (snNumber s) + 1"
  shows "(b, a) \<in> set (Recents t)" and "snNumber t = snNumber s + 1"
proof -
  let ?m = "snNumber s + 1" and ?L = "card (Signers s) div 2 + 1"
  note u = roomy_unat [OF assms(4)]
  have "applyHeader G (clEpoch e) s h = Ok t" using assms(1) by (simp add: Apply_def apply_snapshot_Ok_iff)
  then obtain g where t: "t = (processVote (addRecent (evictRecent s ?m) ?m g) g ?m (headerVote (clEpoch e) ?m h))\<lparr>snNumber := ?m, snHash := hdrHash G h\<rparr>"
    using assms(2,3) unfolding applyHeader_Ok_iff afterEpoch_def by auto
  have "limitOf s \<le> ?m \<Longrightarrow> unat (?m - limitOf s) = unat (snNumber s) + 1 - ?L" using u by (simp add: unat_sub word_le_nat_alt)
  then have "limitOf s \<le> ?m \<Longrightarrow> b \<noteq> ?m - limitOf s" using assms(8) u by (auto simp: word_le_nat_alt)
  then have "(b, a) \<in> set (Recents (evictRecent s ?m))" using assms(5) by (auto simp: evictRecent_def Let_def set_alist_delete)
  moreover have "b \<noteq> ?m" using assms(7) u by auto
  ultimately have "(b, a) \<in> set (Recents (addRecent (evictRecent s ?m) ?m g))" by (simp add: addRecent_def set_update_keeps)
  then show "(b, a) \<in> set (Recents t)" using assms(6) castVote_keeps by (auto simp: t processVote_def split: option.splits)
  show "snNumber t = ?m" by (simp add: t)
qed

lemma stale_rejected:
  assumes "stale s b a" and "roomy s" and "VerifyHeader G e s h parent = Ok ()" and "hnum h = Some (snNumber s + 1)"
    and "(snNumber s + 1) mod clEpoch e \<noteq> 0" and "SignerFromHeader G h = Ok a"
  shows "Apply G e s [h] = Err ErrRecentlySigned"
proof -
  let ?m = "snNumber s + 1" and ?L = "card (Signers s) div 2 + 1"
  note u = roomy_unat [OF assms(2)]
  from assms(3,4,6) have v: "clEpoch e \<noteq> 0" "a \<in> Signers s" by (auto simp: VerifyHeader_Ok_iff valid_header_def)
  have "limitOf s \<le> ?m \<Longrightarrow> unat (?m - limitOf s) = unat (snNumber s) + 1 - ?L" using u by (simp add: unat_sub word_le_nat_alt)
  then have "limitOf s \<le> ?m \<Longrightarrow> b \<noteq> ?m - limitOf s" using assms(1) u by (auto simp: stale_def word_le_nat_alt)
  then have "(b, a) \<in> set (Recents (evictRecent s ?m))"
    using assms(1) by (auto simp: stale_def evictRecent_def Let_def set_alist_delete)
  then have "a \<in> snd ` set (Recents (evictRecent s ?m))" by force
  then have "applyHeader G (clEpoch e) s h = Err ErrRecentlySigned"
    using v assms(4-6) by (simp add: applyHeader_eq afterEpoch_def number_of_hnum del: number_of_simps)
  then show ?thesis using assms(4) by (simp add: Apply_def apply_snapshot_def number_of_hnum del: number_of_simps)
qed

text \<open>
  C36. When a vote shrinks the signer set, replay and verification come apart. If a block away from an epoch boundary
  lowers the limit of recent signers, the oldest entry still in the list (of a signer who stays) becomes stale. A
  stale entry stays stale from block to block while the limit does not grow and its signer is not removed. And while it is
  there, every header of that signer that \<^verbatim>\<open>VerifyHeader\<close> accepts as the next block is rejected by \<^verbatim>\<open>Apply\<close>: the
  signer is locked out.
\<close>

theorem clique_stale_recent_lockout:
  assumes "roomy s" and "hnum h = Some (snNumber s + 1)" and "(snNumber s + 1) mod clEpoch e \<noteq> 0"
  shows "(\<forall>t b a. Apply G e s [h] = Ok t \<and> (b, a) \<in> set (Recents s) \<and> a \<in> Signers t \<and>
             unat b \<le> unat (snNumber s) \<and> unat b + (card (Signers s) div 2 + 1) = unat (snNumber s) + 2 \<and>
             card (Signers t) div 2 < card (Signers s) div 2 \<longrightarrow> stale t b a) \<and>
         (\<forall>t b a. Apply G e s [h] = Ok t \<and> stale s b a \<and> a \<in> Signers t \<and> card (Signers t) div 2 \<le> card (Signers s) div 2 \<longrightarrow> stale t b a) \<and>
         (\<forall>b a parent. stale s b a \<and> SignerFromHeader G h = Ok a \<and> VerifyHeader G e s h parent = Ok () \<longrightarrow>
             Apply G e s [h] = Err ErrRecentlySigned)"
proof (intro conjI allI impI; elim conjE)
  fix t b a
  assume ap: "Apply G e s [h] = Ok t" and ba: "(b, a) \<in> set (Recents s)" "a \<in> Signers t" "unat b \<le> unat (snNumber s)"
    and b: "unat b + (card (Signers s) div 2 + 1) = unat (snNumber s) + 2" and less: "card (Signers t) div 2 < card (Signers s) div 2"
  have "unat b + (card (Signers s) div 2 + 1) \<noteq> unat (snNumber s) + 1" using b by simp
  from apply_keeps_entry [OF ap assms(2,3,1) ba this] b less show "stale t b a"
    using roomy_unat(1) [OF assms(1)] by (simp add: stale_def)
next
  fix t b a
  assume ap: "Apply G e s [h] = Ok t" and st: "stale s b a" and a: "a \<in> Signers t" and le: "card (Signers t) div 2 \<le> card (Signers s) div 2"
  have ba: "(b, a) \<in> set (Recents s)" "unat b \<le> unat (snNumber s)" "unat b + (card (Signers s) div 2 + 1) \<noteq> unat (snNumber s) + 1"
    using st by (auto simp: stale_def)
  from apply_keeps_entry [OF ap assms(2,3,1) ba(1) a ba(2,3)] st le show "stale t b a"
    using roomy_unat(1) [OF assms(1)] by (simp add: stale_def)
next
  fix b a parent
  assume "stale s b a" "SignerFromHeader G h = Ok a" "VerifyHeader G e s h parent = Ok ()"
  then show "Apply G e s [h] = Err ErrRecentlySigned" using stale_rejected [OF _ assms(1) _ assms(2,3)] by blast
qed

text \<open>Signers 1, 2 and 3 vote signer 4 out at blocks 1 to 3, signer 2 signs block 4, and then block 5 of signer 1 is locked out.\<close>

definition lockedSnap :: Snapshot where
  "lockedSnap = (case rbind (NewGenesisSnapshot demoGeth demoGenesis)
      (\<lambda>s. Apply demoGeth demoEngine s (dropRun @ [demoBlock 4 2 zeroAddress])) of Ok t \<Rightarrow> t | _ \<Rightarrow> demoSnap)"

theorem clique_stale_recent_lockout_witness:
  "VerifyHeader demoGeth demoEngine lockedSnap (demoBlock 5 1 zeroAddress) (Some (demoBlock 4 2 zeroAddress)) = Ok () \<and>
   Apply demoGeth demoEngine lockedSnap [demoBlock 5 1 zeroAddress] = Err ErrRecentlySigned"
proof -
  let ?h = "demoBlock 5 1 zeroAddress"
  have s: "snNumber lockedSnap = 4" "Signers lockedSnap = {demoAddr 1, demoAddr 2, demoAddr 3}" "(1, demoAddr 1) \<in> set (Recents lockedSnap)"
    by code_simp+
  have c: "card (Signers lockedSnap) = 3" unfolding s(2) by code_simp
  have v: "VerifyHeader demoGeth demoEngine lockedSnap ?h (Some (demoBlock 4 2 zeroAddress)) = Ok ()" by code_simp
  have n: "hnum ?h = Some (snNumber lockedSnap + 1)" "(snNumber lockedSnap + 1) mod clEpoch demoEngine \<noteq> 0"
    unfolding s(1) by code_simp+
  have "SignerFromHeader demoGeth ?h = Ok (demoAddr 1)" by code_simp
  moreover have "stale lockedSnap 1 (demoAddr 1)" using s c by (simp add: stale_def)
  moreover have "roomy lockedSnap" using s(1) c by (simp add: roomy_def)
  ultimately show ?thesis using clique_stale_recent_lockout [OF _ n, of demoGeth] v by blast
qed

text \<open>
  C37. An epoch header can replace the signer set single-handedly: any non-empty list of addresses
  that names the sealing signer, put into an epoch header by one authorized signer that is not in the
  recent list, passes \<^verbatim>\<open>VerifyHeader\<close> and becomes the signer set. No vote is involved.
\<close>

theorem clique_epoch_takeover:
  assumes "hnum h = Some (snNumber s + 1)" and "clEpoch e \<noteq> 0" and "(snNumber s + 1) mod clEpoch e = 0"
    and "Extra h = replicate 32 0 @ concat as @ replicate 65 0"
    and "as \<noteq> []" and "\<forall>a \<in> set as. length a = 20" and "key_address G k \<in> set as"
    and "key_address G k \<in> Signers s" and "key_address G k \<notin> snd ` set (Recents s)"
    and "UncleHash h = emptyUncleHash G" and "MixDigest h = zeroHash" and "Nonce h = nonceNull"
    and "Difficulty h = Some (CalcDifficulty s (snNumber s + 1) (key_address G k))"
    and "Time p + clPeriod e \<le> Time h"
    and "SealHeader G h k = Ok h'" and "ecdsa_ok G k"
  shows "VerifyHeader G e s h' (Some p) = Ok () \<and> (\<exists>t. Apply G e s [h'] = Ok t \<and> Signers t = set as)"
  by (rule epoch_takeover [OF assms])

theorem clique_epoch_takeover_witness:
  "\<exists>h' t. SealHeader demoGeth (demoHeader\<lparr>Number := Some 1, Difficulty := Some 2,
        Extra := replicate 32 0 @ concat [demoAddr 2] @ replicate 65 0\<rparr>) (demoAddr 2) = Ok h' \<and>
     Apply demoGeth (New 0 1) demoSnap [h'] = Ok t \<and> Signers t = {demoAddr 2}"
proof -
  let ?h = "demoHeader\<lparr>Number := Some 1, Difficulty := Some 2,
        Extra := replicate 32 0 @ concat [demoAddr 2] @ replicate 65 0\<rparr>"
  have "is_ok (SealHeader demoGeth ?h (demoAddr 2))" by code_simp
  then obtain h' where h': "SealHeader demoGeth ?h (demoAddr 2) = Ok h'" by (auto dest: ex_Ok)
  have a: "hnum ?h = Some (snNumber demoSnap + 1)" "clEpoch (New 0 1) \<noteq> 0"
    "(snNumber demoSnap + 1) mod clEpoch (New 0 1) = 0" by code_simp+
  have b: "Extra ?h = replicate 32 0 @ concat [demoAddr 2] @ replicate 65 0" "[demoAddr 2] \<noteq> []"
    "\<forall>a \<in> set [demoAddr 2]. length a = 20" "key_address demoGeth (demoAddr 2) \<in> set [demoAddr 2]"
    by (simp_all add: demoAddr_def)
  have c: "key_address demoGeth (demoAddr 2) \<in> Signers demoSnap"
    "key_address demoGeth (demoAddr 2) \<notin> snd ` set (Recents demoSnap)"
    "UncleHash ?h = emptyUncleHash demoGeth" "MixDigest ?h = zeroHash" "Nonce ?h = nonceNull"
    "Difficulty ?h = Some (CalcDifficulty demoSnap (snNumber demoSnap + 1) (key_address demoGeth (demoAddr 2)))"
    "Time demoGenesis + clPeriod (New 0 1) \<le> Time ?h" by code_simp+
  show ?thesis using clique_epoch_takeover [OF a b c h' demo_ecdsa_ok] h' by auto
qed

text \<open>
  C18. No signer signs twice within the window: in a replayed segment during which the signer set of
  \<open>N\<close> signers does not change, any two headers fewer than \<open>N div 2 + 1\<close> blocks apart have different
  signers. So at least \<open>N div 2 + 1\<close> signers take part in every such window.
\<close>

theorem clique_signer_spacing:
  assumes "snap_inv s" and "steady G (clEpoch e) s hs" and "Apply G e s hs = Ok t"
    and "i < j" and "j < length hs" and "j - i < card (Signers s) div 2 + 1"
    and "unat (snNumber s) + length hs < 2 ^ 64" and "card (Signers s) div 2 + 1 < 2 ^ 64"
  shows "SignerFromHeader G (hs ! i) \<noteq> SignerFromHeader G (hs ! j)"
proof -
  let ?pre = "take i hs" and ?mid = "take (j - i - 1) (drop (Suc i) hs)"
  have split: "hs = ?pre @ (hs ! i # ?mid @ [hs ! j]) @ drop (Suc j) hs"
    using nth_split2 [OF assms(4,5)] by simp
  from assms(2) have "steady G (clEpoch e) s (?pre @ (hs ! i # ?mid @ [hs ! j]) @ drop (Suc j) hs)"
    using split by simp
  then obtain u where u: "rfold (applyHeader G (clEpoch e)) s ?pre = Ok u" "Signers u = Signers s"
    and st: "steady G (clEpoch e) u (hs ! i # ?mid @ [hs ! j])"
    unfolding steady_append by blast
  have c: "contiguous (snNumber s) (?pre @ (hs ! i # ?mid @ [hs ! j]) @ drop (Suc j) hs) = Ok ()"
    using assms(3) split by (simp add: Apply_def apply_snapshot_Ok_iff)
  have inv: "snap_inv u" using assms(1) u(1) by (rule rfold_invariant [where P = snap_inv]) (rule applyHeader_inv)
  from c have "contiguous (snNumber s) ?pre = Ok ()" by (simp add: contiguous_append)
  from unat_number_le [OF this u(1)] have un: "unat (snNumber u) \<le> unat (snNumber s) + i"
    using assms(4,5) by simp
  show ?thesis
    using c rfold_number [OF u(1)] un assms(4-8) u(2)
    by (intro steady_signers_differ [OF inv st]) (auto simp: contiguous_append)
qed

theorem clique_signer_spacing_witness:
  "SignerFromHeader demoGeth (take 2 dropRun ! 0) \<noteq> SignerFromHeader demoGeth (take 2 dropRun ! 1)"
proof -
  have "is_ok (Apply demoGeth demoEngine demoSnap (take 2 dropRun))" by code_simp
  then obtain t where t: "Apply demoGeth demoEngine demoSnap (take 2 dropRun) = Ok t" by (auto dest: ex_Ok)
  have st: "steady demoGeth (clEpoch demoEngine) demoSnap (take 2 dropRun)" by code_simp
  have "(0 :: nat) < 1" "1 < length (take 2 dropRun)" "1 - 0 < card (Signers demoSnap) div 2 + 1"
    "unat (snNumber demoSnap) + length (take 2 dropRun) < 2 ^ 64" "card (Signers demoSnap) div 2 + 1 < 2 ^ 64"
    by (simp_all add: demoSnap_card, simp_all add: dropRun_def demoSnap_def newSnapshot_def)
  from clique_signer_spacing [OF demoSnap_inv st t this] show ?thesis .
qed

text \<open>
  In every well-formed snapshot, exactly one authorized signer is in turn at each height, and each
  authorized signer is in turn at some height of any full round of consecutive heights.
\<close>

theorem clique_in_turn_rotation:
  assumes "clique_wf s" and "IsAuthorized s b"
  shows "(\<exists>!a. IsAuthorized s a \<and> InTurn s n a) \<and>
         (unat m + length (SignerList s) < 2 ^ 64 \<longrightarrow>
            (\<exists>k. unat m \<le> unat k \<and> unat k < unat m + length (SignerList s) \<and> InTurn s k b))"
  using clq.in_turn_ex1 [OF assms] clq.in_turn_every_round [OF assms] by blast

theorem clique_in_turn_rotation_witness:
  "clique_wf demoSnap \<and> (\<exists>!a. IsAuthorized demoSnap a \<and> InTurn demoSnap 6 a)"
proof -
  have wf: "clique_wf demoSnap" using demoSnap_card by (simp add: clique_wf_def card_ge_0_finite)
  have "IsAuthorized demoSnap (demoAddr 1)" by code_simp
  from clique_in_turn_rotation [OF wf this, of 6 0] wf show ?thesis by blast
qed

text \<open>
  C29. Batching does not matter: replaying a segment in one \<^verbatim>\<open>Apply\<close> call reaches a snapshot exactly
  when replaying it header by header reaches it, and that snapshot is positioned at the last header.
\<close>

theorem clique_apply_incremental:
  "(Apply G e s hs = Ok t \<longleftrightarrow> rfold (\<lambda>s h. Apply G e s [h]) s hs = Ok t) \<and>
   (Apply G e s (hs @ [h]) = Ok u \<longrightarrow> hnum h = Some (snNumber u) \<and> snHash u = hdrHash G h)"
  using clqe.apply_incremental [of G "clEpoch e" s hs t] clqe.apply_last [of G "clEpoch e" s hs h u]
  unfolding Apply_def by blast

text \<open>The instance of batching on the demonstration chain.\<close>

theorem clique_apply_incremental_witness:
  "\<exists>u. Apply demoGeth demoEngine demoSnap dropRun = Ok u \<and> Some (snNumber u) = hnum (last dropRun)"
proof -
  have "is_ok (Apply demoGeth demoEngine demoSnap dropRun)" by code_simp
  then obtain u where u: "Apply demoGeth demoEngine demoSnap dropRun = Ok u" by (auto dest: ex_Ok)
  moreover have "dropRun = butlast dropRun @ [last dropRun]" by (simp add: dropRun_def)
  ultimately show ?thesis
    using clique_apply_incremental [of demoGeth demoEngine demoSnap "butlast dropRun" u "last dropRun" u] by metis
qed

text \<open>
  A header that passed \<^verbatim>\<open>VerifyHeader\<close> cannot make \<^verbatim>\<open>Apply\<close> panic, whatever snapshot it was
  verified against: the slices taken of its extra data are in bounds and its number is set.
\<close>

theorem clique_verified_no_panic:
  assumes "VerifyHeader G e s h parent = Ok ()"
  shows "Apply G e s [h] \<noteq> Panic"
  using assms by (rule verified_no_panic)

theorem clique_verified_no_panic_witness:
  "VerifyHeader demoGeth demoEngine demoSnap (demoBlock 2 1 zeroAddress) None = Ok () \<and>
   Apply demoGeth demoEngine demoSnap [demoBlock 2 1 zeroAddress] \<noteq> Panic"
proof -
  have "VerifyHeader demoGeth demoEngine demoSnap (demoBlock 2 1 zeroAddress) None = Ok ()" by code_simp
  with clique_verified_no_panic [OF this] show ?thesis by blast
qed

end
