(* ===== verification/Qbft_Extra.thy ===== *)
theory Qbft_Extra
  imports Consensus
begin

text \<open>
  The QBFT extra data and its seals: \<^verbatim>\<open>qbft/extra.go\<close>. The extra field of a header is 32 vanity
  bytes followed by the RLP encoding of an \<open>IstanbulExtra\<close>. The RLP functions at this type are the
  parameter \<open>C\<close>, an \<open>IstanbulExtra codec\<close>; what the code relies on is \<open>istanbul_codec C\<close>. The
  distinction between a nil and an empty slice, which the encoding does not keep, is not modelled.
\<close>

section \<open>Data and errors\<close>

definition ExtraVanity :: nat where "ExtraVanity = 32"
definition ExtraSeal :: nat where "ExtraSeal = 65"

lemmas qbft_consts = ExtraVanity_def ExtraSeal_def AddressLength_def

record IstanbulExtra =
  ieValidators :: "address list"
  ieVote :: bytes
  ieRound :: u32
  ieSeal :: bytes
  ieCommittedSeals :: "bytes list"

datatype qbft_error =
    QErrUnauthorizedValidator
  | QErrInvalidExtraData
  | QErrInvalidUncleHash
  | QErrInvalidDifficulty
  | QErrInvalidTimestamp
  | QErrInsufficientSeals
  | QErrExtraTooShort                  \<comment> \<open>\<^verbatim>\<open>extra too short\<close>\<close>
  | QErrDecodeExtra                    \<comment> \<open>\<^verbatim>\<open>decode IstanbulExtra: ...\<close>\<close>
  | QErrEncodeExtra                    \<comment> \<open>\<^verbatim>\<open>RLP encode IstanbulExtra: ...\<close>\<close>
  | QErrEncodeSigHash                  \<comment> \<open>\<^verbatim>\<open>RLP encode for proposalSigHash: ...\<close>\<close>
  | QErrSign                           \<comment> \<open>\<^verbatim>\<open>sign proposal hash\<close>, \<^verbatim>\<open>sign commit hash\<close>\<close>
  | QErrSealLength                     \<comment> \<open>\<^verbatim>\<open>proposer seal has wrong length\<close>\<close>
  | QErrEcrecover                      \<comment> \<open>\<^verbatim>\<open>ecrecover proposer\<close>, \<^verbatim>\<open>ecrecover commit seal\<close>\<close>
  | QErrInvalidPubkey                  \<comment> \<open>\<^verbatim>\<open>invalid uncompressed public key\<close>\<close>
  | QErrRecoverProposer qbft_error     \<comment> \<open>\<^verbatim>\<open>recover proposer: ...\<close>\<close>
  | QErrRecoverCommitSeal qbft_error   \<comment> \<open>\<^verbatim>\<open>recover commit seal: ...\<close>\<close>
  | QErrDuplicateSeal                  \<comment> \<open>\<^verbatim>\<open>duplicate commit seal from ...\<close>\<close>
  | QErrEmptyValidators                \<comment> \<open>\<^verbatim>\<open>empty validator list\<close>\<close>
  | QErrMiddleSection                  \<comment> \<open>\<^verbatim>\<open>extra middle section ... not a multiple of address size\<close>\<close>

text \<open>Replacing the error of a failed call, as \<^verbatim>\<open>fmt.Errorf("...: %w", err)\<close> does.\<close>

fun wrap_err :: "('e \<Rightarrow> 'f) \<Rightarrow> ('e, 'a) result \<Rightarrow> ('f, 'a) result" where
  "wrap_err f (Ok x) = Ok x"
| "wrap_err f (Err e) = Err (f e)"
| "wrap_err f Panic = Panic"

lemma wrap_err_iff [simp]:
  "wrap_err f r = Ok x \<longleftrightarrow> r = Ok x" "wrap_err f r = Panic \<longleftrightarrow> r = Panic"
  by (cases r; simp)+

section \<open>Operations\<close>

definition EncodeExtra :: "IstanbulExtra codec \<Rightarrow> bytes \<Rightarrow> IstanbulExtra \<Rightarrow> (qbft_error, bytes) result" where
  "EncodeExtra C vanity ie =
     (case enc C ie of
        None \<Rightarrow> Err QErrEncodeExtra
      | Some b \<Rightarrow> Ok (copy_fixed ExtraVanity vanity @ b))"

definition DecodeExtra :: "IstanbulExtra codec \<Rightarrow> header \<Rightarrow> (qbft_error, IstanbulExtra) result" where
  "DecodeExtra C h =
     (if length (Extra h) < ExtraVanity then Err QErrExtraTooShort
      else case dec C (drop ExtraVanity (Extra h)) of
        None \<Rightarrow> Err QErrDecodeExtra
      | Some ie \<Rightarrow> Ok ie)"

text \<open>The slice \<^verbatim>\<open>header.Extra[:ExtraVanity]\<close>, taken after \<^verbatim>\<open>DecodeExtra\<close> succeeded.\<close>

definition vanityOf :: "header \<Rightarrow> (qbft_error, bytes) result" where
  "vanityOf h = slice 0 (int ExtraVanity) (Extra h)"

definition proposalSigHash :: "geth \<Rightarrow> IstanbulExtra codec \<Rightarrow> header \<Rightarrow> (qbft_error, hash) result" where
  "proposalSigHash G C h =
     rbind (DecodeExtra C h) (\<lambda>ie.
     let stripped = \<lparr>ieValidators = ieValidators ie, ieVote = ieVote ie, ieRound = ieRound ie,
                     ieSeal = [], ieCommittedSeals = []\<rparr> in
     rbind (vanityOf h) (\<lambda>v.
     rbind (EncodeExtra C v stripped) (\<lambda>strippedExtra.
       case rlpList G (sigFields h strippedExtra) of
         None \<Rightarrow> Err QErrEncodeSigHash
       | Some encoded \<Rightarrow> Ok (Keccak256 G encoded))))"

definition commitSealHash :: "geth \<Rightarrow> IstanbulExtra codec \<Rightarrow> header \<Rightarrow> (qbft_error, hash) result" where
  "commitSealHash G C h =
     rbind (DecodeExtra C h) (\<lambda>ie.
     let stripped = \<lparr>ieValidators = ieValidators ie, ieVote = ieVote ie, ieRound = ieRound ie,
                     ieSeal = ieSeal ie, ieCommittedSeals = []\<rparr> in
     rbind (vanityOf h) (\<lambda>v.
     rbind (EncodeExtra C v stripped) (\<lambda>strippedExtra.
       Ok (Keccak256 G (1 # hdrHash G (h\<lparr>Extra := strippedExtra\<rparr>))))))"

definition SealHeader_q :: "geth \<Rightarrow> IstanbulExtra codec \<Rightarrow> header \<Rightarrow> privkey \<Rightarrow> (qbft_error, header) result" where
  "SealHeader_q G C h key =
     rbind (proposalSigHash G C h) (\<lambda>hash.
       case Sign G hash key of
         None \<Rightarrow> Err QErrSign
       | Some sig \<Rightarrow>
           rbind (DecodeExtra C h) (\<lambda>ie.
           rbind (vanityOf h) (\<lambda>v.
           rbind (EncodeExtra C v (ie\<lparr>ieSeal := sig\<rparr>)) (\<lambda>extra.
             Ok (h\<lparr>Extra := extra\<rparr>)))))"

text \<open>The address behind a signature over \<open>hash\<close>, the common tail of both recovery functions.\<close>

definition recoverAddress :: "geth \<Rightarrow> hash \<Rightarrow> bytes \<Rightarrow> (qbft_error, address) result" where
  "recoverAddress G hash sig =
     (case Ecrecover G hash sig of
        None \<Rightarrow> Err QErrEcrecover
      | Some pubkey \<Rightarrow>
          if length pubkey = 0 \<or> pubkey ! 0 \<noteq> 4 then Err QErrInvalidPubkey
          else Ok (pubkey_address G pubkey))"

definition SignerFromHeader_q :: "geth \<Rightarrow> IstanbulExtra codec \<Rightarrow> header \<Rightarrow> (qbft_error, address) result" where
  "SignerFromHeader_q G C h =
     rbind (DecodeExtra C h) (\<lambda>ie.
       if length (ieSeal ie) \<noteq> ExtraSeal then Err QErrSealLength
       else rbind (proposalSigHash G C h) (\<lambda>hash. recoverAddress G hash (ieSeal ie)))"

definition CreateCommitSeal :: "geth \<Rightarrow> IstanbulExtra codec \<Rightarrow> header \<Rightarrow> privkey \<Rightarrow> (qbft_error, bytes) result" where
  "CreateCommitSeal G C h key =
     rbind (commitSealHash G C h) (\<lambda>hash.
       case Sign G hash key of None \<Rightarrow> Err QErrSign | Some sig \<Rightarrow> Ok sig)"

definition RecoverCommitSealSigner ::
    "geth \<Rightarrow> IstanbulExtra codec \<Rightarrow> header \<Rightarrow> bytes \<Rightarrow> (qbft_error, address) result" where
  "RecoverCommitSealSigner G C h seal =
     rbind (commitSealHash G C h) (\<lambda>hash. recoverAddress G hash seal)"

definition CommitBlock :: "IstanbulExtra codec \<Rightarrow> header \<Rightarrow> bytes list \<Rightarrow> (qbft_error, header) result" where
  "CommitBlock C h committedSeals =
     rbind (DecodeExtra C h) (\<lambda>ie.
     rbind (vanityOf h) (\<lambda>v.
     rbind (EncodeExtra C v (ie\<lparr>ieCommittedSeals := committedSeals\<rparr>)) (\<lambda>extra.
       Ok (h\<lparr>Extra := extra\<rparr>))))"

section \<open>The encoding contract\<close>

text \<open>
  What RLP promises at this type: every value whose addresses have their fixed length encodes and
  decodes to itself, and decoding only yields such values.
\<close>

definition ie_ok :: "IstanbulExtra \<Rightarrow> bool" where
  "ie_ok ie \<longleftrightarrow> (\<forall>a \<in> set (ieValidators ie). length a = AddressLength)"

definition istanbul_codec :: "IstanbulExtra codec \<Rightarrow> bool" where
  "istanbul_codec C \<longleftrightarrow> codec_ok C {ie. ie_ok ie} \<and> (\<forall>b ie. dec C b = Some ie \<longrightarrow> ie_ok ie)"

lemma ie_ok_update [simp]:
  "ie_ok (ie\<lparr>ieSeal := s\<rparr>) = ie_ok ie" "ie_ok (ie\<lparr>ieCommittedSeals := cs\<rparr>) = ie_ok ie"
  "ie_ok \<lparr>ieValidators = ieValidators ie, ieVote = v, ieRound = r, ieSeal = s, ieCommittedSeals = cs\<rparr> = ie_ok ie"
  by (simp_all add: ie_ok_def)

text \<open>The view of a header the QBFT code works with: the vanity and the decoded extra data.\<close>

definition extra_is :: "IstanbulExtra codec \<Rightarrow> header \<Rightarrow> bytes \<Rightarrow> IstanbulExtra \<Rightarrow> bool" where
  "extra_is C h v ie \<longleftrightarrow>
     32 \<le> length (Extra h) \<and> take 32 (Extra h) = v \<and> dec C (drop 32 (Extra h)) = Some ie"

lemma DecodeExtra_Ok_iff: "DecodeExtra C h = Ok ie \<longleftrightarrow> (\<exists>v. extra_is C h v ie)"
  by (auto simp: DecodeExtra_def extra_is_def qbft_consts split: option.splits)

lemma DecodeExtra_no_panic [simp]: "DecodeExtra C h \<noteq> Panic"
  by (simp add: DecodeExtra_def split: option.splits)

lemma vanityOf_eq: "extra_is C h v ie \<Longrightarrow> vanityOf h = Ok v"
  by (simp add: extra_is_def vanityOf_def slice_def qbft_consts)

lemma extra_is_ok: "istanbul_codec C \<Longrightarrow> extra_is C h v ie \<Longrightarrow> ie_ok ie"
  by (auto simp: istanbul_codec_def extra_is_def)

lemma extra_is_unique: "extra_is C h v ie \<Longrightarrow> extra_is C h w je \<Longrightarrow> w = v \<and> je = ie"
  by (simp add: extra_is_def)

lemma extra_is_DecodeExtra: "extra_is C h v ie \<Longrightarrow> DecodeExtra C h = Ok ie"
  by (auto simp: DecodeExtra_Ok_iff)

lemma EncodeExtra_Ok:
  assumes "istanbul_codec C" and "ie_ok ie" and "length v = 32"
  shows "\<exists>x. EncodeExtra C v ie = Ok x \<and> (\<forall>h. extra_is C (h\<lparr>Extra := x\<rparr>) v ie)"
proof -
  from assms(1,2) obtain b where "enc C ie = Some b" "dec C b = Some ie"
    by (auto simp: istanbul_codec_def codec_ok_def)
  with assms(3) show ?thesis by (simp add: EncodeExtra_def extra_is_def qbft_consts)
qed

lemma length_vanity: "extra_is C h v ie \<Longrightarrow> length v = 32"
  by (auto simp: extra_is_def)

text \<open>Writing new extra data over the old: the three writers of this file are instances.\<close>

lemma reencode:
  assumes "istanbul_codec C" and "extra_is C h v ie" and "ie_ok je"
  shows "\<exists>x. EncodeExtra C v je = Ok x \<and> extra_is C (h\<lparr>Extra := x\<rparr>) v je"
  using EncodeExtra_Ok [OF assms(1,3) length_vanity [OF assms(2)]] by blast

lemma CommitBlock_Ok:
  assumes "istanbul_codec C" and "extra_is C h v ie"
  shows "\<exists>x. CommitBlock C h cs = Ok (h\<lparr>Extra := x\<rparr>) \<and> extra_is C (h\<lparr>Extra := x\<rparr>) v (ie\<lparr>ieCommittedSeals := cs\<rparr>)"
proof -
  have "ie_ok (ie\<lparr>ieCommittedSeals := cs\<rparr>)" using extra_is_ok [OF assms] by simp
  from reencode [OF assms this] obtain x where
    "EncodeExtra C v (ie\<lparr>ieCommittedSeals := cs\<rparr>) = Ok x" "extra_is C (h\<lparr>Extra := x\<rparr>) v (ie\<lparr>ieCommittedSeals := cs\<rparr>)"
    by blast
  then show ?thesis
    by (auto simp: CommitBlock_def extra_is_DecodeExtra [OF assms(2)] vanityOf_eq [OF assms(2)])
qed

text \<open>
  The two signing hashes depend only on the header outside \<^verbatim>\<open>Extra\<close>, the vanity, and the part of the
  extra data that is not stripped.
\<close>

lemma proposalSigHash_cong:
  assumes "extra_is C h v ie" and "extra_is C (h\<lparr>Extra := x\<rparr>) v je"
    and "ieValidators je = ieValidators ie" "ieVote je = ieVote ie" "ieRound je = ieRound ie"
  shows "proposalSigHash G C (h\<lparr>Extra := x\<rparr>) = proposalSigHash G C h"
  using assms(3-5)
  by (simp add: proposalSigHash_def extra_is_DecodeExtra [OF assms(1)] extra_is_DecodeExtra [OF assms(2)]
      vanityOf_eq [OF assms(1)] vanityOf_eq [OF assms(2)] sigFields_def)

lemma commitSealHash_cong:
  assumes "extra_is C h v ie" and "extra_is C (h\<lparr>Extra := x\<rparr>) v je"
    and "ieValidators je = ieValidators ie" "ieVote je = ieVote ie" "ieRound je = ieRound ie" "ieSeal je = ieSeal ie"
  shows "commitSealHash G C (h\<lparr>Extra := x\<rparr>) = commitSealHash G C h"
  using assms(3-6)
  by (simp add: commitSealHash_def extra_is_DecodeExtra [OF assms(1)] extra_is_DecodeExtra [OF assms(2)]
      vanityOf_eq [OF assms(1)] vanityOf_eq [OF assms(2)])

lemma commitSealHash_Ok:
  assumes "istanbul_codec C" and "extra_is C h v ie"
  shows "\<exists>d. commitSealHash G C h = Ok d"
proof -
  have "ie_ok \<lparr>ieValidators = ieValidators ie, ieVote = ieVote ie, ieRound = ieRound ie,
               ieSeal = ieSeal ie, ieCommittedSeals = []\<rparr>"
    using extra_is_ok [OF assms] by simp
  from reencode [OF assms this] obtain x where
    "EncodeExtra C v \<lparr>ieValidators = ieValidators ie, ieVote = ieVote ie, ieRound = ieRound ie,
        ieSeal = ieSeal ie, ieCommittedSeals = []\<rparr> = Ok x" by blast
  then show ?thesis
    by (simp add: commitSealHash_def extra_is_DecodeExtra [OF assms(2)] vanityOf_eq [OF assms(2)])
qed

section \<open>Seals\<close>

lemma recoverAddress_signed:
  assumes "ecdsa_ok G k" and "Sign G d k = Some sig"
  shows "recoverAddress G d sig = Ok (key_address G k)" and "length sig = 65"
  using assms by (auto simp: ecdsa_ok_def recoverAddress_def key_address_def)

lemma SealHeader_q_Ok:
  assumes "istanbul_codec C" and "extra_is C h v ie" and "SealHeader_q G C h k = Ok h'"
  obtains x d sig where "h' = h\<lparr>Extra := x\<rparr>" and "extra_is C h' v (ie\<lparr>ieSeal := sig\<rparr>)"
    and "proposalSigHash G C h = Ok d" and "Sign G d k = Some sig"
proof -
  note ex = extra_is_DecodeExtra [OF assms(2)] vanityOf_eq [OF assms(2)]
  from assms(3) obtain d sig x where d: "proposalSigHash G C h = Ok d" "Sign G d k = Some sig"
    and x: "EncodeExtra C v (ie\<lparr>ieSeal := sig\<rparr>) = Ok x" "h' = h\<lparr>Extra := x\<rparr>"
    by (auto simp: SealHeader_q_def ex split: option.splits)
  have "ie_ok (ie\<lparr>ieSeal := sig\<rparr>)" using extra_is_ok [OF assms(1,2)] by simp
  from reencode [OF assms(1,2) this] x have "extra_is C h' v (ie\<lparr>ieSeal := sig\<rparr>)" by auto
  with d x(2) show ?thesis by (intro that)
qed

lemma SealHeader_q_signer:
  assumes C: "istanbul_codec C" and seal: "SealHeader_q G C h k = Ok h'" and ec: "ecdsa_ok G k"
  shows "SignerFromHeader_q G C h' = Ok (key_address G k)"
proof -
  from seal obtain v ie where ex: "extra_is C h v ie"
    by (auto simp: SealHeader_q_def proposalSigHash_def DecodeExtra_Ok_iff)
  obtain x d sig where h': "h' = h\<lparr>Extra := x\<rparr>" and ex': "extra_is C h' v (ie\<lparr>ieSeal := sig\<rparr>)"
    and d: "proposalSigHash G C h = Ok d" "Sign G d k = Some sig" by (rule SealHeader_q_Ok [OF C ex seal])
  have "proposalSigHash G C h' = Ok d"
    using proposalSigHash_cong [OF ex ex' [unfolded h']] d(1) by (simp add: h')
  then show ?thesis
    using recoverAddress_signed [OF ec d(2)]
    by (simp add: SignerFromHeader_q_def extra_is_DecodeExtra [OF ex'] qbft_consts)
qed

lemma CreateCommitSeal_signer:
  assumes "CreateCommitSeal G C h k = Ok seal" and "ecdsa_ok G k"
  shows "RecoverCommitSealSigner G C h seal = Ok (key_address G k)"
  using assms(1) recoverAddress_signed(1) [OF assms(2)]
  by (auto simp: CreateCommitSeal_def RecoverCommitSealSigner_def split: option.splits)

text \<open>Injecting commit seals changes neither the proposer nor what a commit seal recovers to.\<close>

lemma CommitBlock_frame:
  assumes C: "istanbul_codec C" and cb: "CommitBlock C h cs = Ok h'"
  shows "SignerFromHeader_q G C h' = SignerFromHeader_q G C h"
    and "RecoverCommitSealSigner G C h' s = RecoverCommitSealSigner G C h s"
    and "\<exists>v ie. extra_is C h v ie \<and> extra_is C h' v (ie\<lparr>ieCommittedSeals := cs\<rparr>)"
    and "\<exists>x. h' = h\<lparr>Extra := x\<rparr>"
proof -
  from cb obtain v ie where ex: "extra_is C h v ie" by (auto simp: CommitBlock_def DecodeExtra_Ok_iff)
  from CommitBlock_Ok [OF C ex, of cs] cb obtain x where h': "h' = h\<lparr>Extra := x\<rparr>"
    and ex': "extra_is C h' v (ie\<lparr>ieCommittedSeals := cs\<rparr>)" by auto
  have ph: "proposalSigHash G C h' = proposalSigHash G C h"
    using proposalSigHash_cong [OF ex ex' [unfolded h']] by (simp add: h')
  have ch: "commitSealHash G C h' = commitSealHash G C h"
    using commitSealHash_cong [OF ex ex' [unfolded h']] by (simp add: h')
  show "SignerFromHeader_q G C h' = SignerFromHeader_q G C h"
    by (simp add: SignerFromHeader_q_def extra_is_DecodeExtra [OF ex] extra_is_DecodeExtra [OF ex'] ph)
  show "RecoverCommitSealSigner G C h' s = RecoverCommitSealSigner G C h s"
    by (simp add: RecoverCommitSealSigner_def ch)
  show "\<exists>v ie. extra_is C h v ie \<and> extra_is C h' v (ie\<lparr>ieCommittedSeals := cs\<rparr>)" using ex ex' by blast
  show "\<exists>x. h' = h\<lparr>Extra := x\<rparr>" using h' by blast
qed

section \<open>A concrete codec\<close>

text \<open>
  An executable instance of the encoding contract, for witnesses: a byte string is written as marked
  bytes with a terminator, and so is a list of byte strings.
\<close>

fun putBytes :: "bytes \<Rightarrow> bytes" where
  "putBytes [] = [0]"
| "putBytes (b # bs) = 1 # b # putBytes bs"

fun getBytes :: "bytes \<Rightarrow> (bytes \<times> bytes) option" where
  "getBytes [] = None"
| "getBytes [c] = (if c = 0 then Some ([], []) else None)"
| "getBytes (c # b # r) = (if c = 0 then Some ([], b # r) else map_option (\<lambda>(bs, t). (b # bs, t)) (getBytes r))"

fun putList :: "bytes list \<Rightarrow> bytes" where
  "putList [] = [0]"
| "putList (x # xs) = 1 # putBytes x @ putList xs"

lemma getBytes_put [simp]: "getBytes (putBytes bs @ t) = Some (bs, t)"
proof (induction bs)
  case Nil
  show ?case by (cases t) auto
qed simp

fun getList :: "nat \<Rightarrow> bytes \<Rightarrow> (bytes list \<times> bytes) option" where
  "getList 0 _ = None"
| "getList (Suc n) [] = None"
| "getList (Suc n) (c # r) =
     (if c = 0 then Some ([], r)
      else Option.bind (getBytes r) (\<lambda>(x, r'). map_option (\<lambda>(xs, t). (x # xs, t)) (getList n r')))"

lemma getList_put: "length xs < n \<Longrightarrow> getList n (putList xs @ t) = Some (xs, t)"
proof (induction xs arbitrary: n)
  case Nil
  then show ?case by (cases n) auto
next
  case (Cons x xs)
  then obtain m where "n = Suc m" "length xs < m" by (cases n) auto
  with Cons.IH [of m] show ?case by simp
qed

lemma length_putList: "length xs < length (putList xs)"
  by (induction xs) auto

lemma getList_putList [simp]: "getList (length (putList xs @ t)) (putList xs @ t) = Some (xs, t)"
  using length_putList [of xs] by (intro getList_put) simp

definition putIstanbul :: "IstanbulExtra \<Rightarrow> bytes option" where
  "putIstanbul ie = Some (putList (ieValidators ie) @ putBytes (ieVote ie) @ be_put32 (ieRound ie)
     @ putBytes (ieSeal ie) @ putList (ieCommittedSeals ie))"

definition getIstanbul :: "bytes \<Rightarrow> IstanbulExtra option" where
  "getIstanbul b =
     Option.bind (getList (length b) b) (\<lambda>(vs, r1).
     Option.bind (getBytes r1) (\<lambda>(vote, r2).
     Option.bind (getBytes (drop 4 r2)) (\<lambda>(seal, r3).
     Option.bind (getList (length r3) r3) (\<lambda>(cs, _).
       if list_all (\<lambda>a. length a = 20) vs
       then Some \<lparr>ieValidators = vs, ieVote = vote, ieRound = be_uint32 r2, ieSeal = seal,
                  ieCommittedSeals = cs\<rparr>
       else None))))"

definition demoIstanbul :: "IstanbulExtra codec" where
  "demoIstanbul = \<lparr>enc = putIstanbul, dec = getIstanbul\<rparr>"

lemma getList_putList_end [simp]: "getList (length (putList xs)) (putList xs) = Some (xs, [])"
  using getList_putList [of xs "[]"] by simp

lemma demoIstanbul_ok: "istanbul_codec demoIstanbul"
proof -
  have "dec demoIstanbul (the (enc demoIstanbul ie)) = Some ie" if "ie_ok ie" for ie
    using that unfolding demoIstanbul_def putIstanbul_def getIstanbul_def
    by (simp only: codec.simps option.sel getList_putList bind.bind_lunit prod.case getBytes_put)
       (simp add: ie_ok_def AddressLength_def list_all_iff)
  moreover have "dec demoIstanbul b = Some ie \<Longrightarrow> ie_ok ie" for b ie
    by (auto simp: demoIstanbul_def getIstanbul_def ie_ok_def AddressLength_def list_all_iff bind_eq_Some_conv split: if_splits prod.splits)
  moreover have "\<exists>b. enc demoIstanbul ie = Some b" for ie by (simp add: demoIstanbul_def putIstanbul_def)
  ultimately show ?thesis unfolding istanbul_codec_def codec_ok_def by (metis mem_Collect_eq option.sel)
qed

end
