(* ===== verification/Qbft_Core.thy ===== *)
theory Qbft_Core
  imports Qbft_Extra
begin

text \<open>
  The QBFT state machine of one block instance and round: \<^verbatim>\<open>qbft/core/core.go\<close> and
  \<^verbatim>\<open>qbft/core/messages.go\<close>. Every operation returns the new state and the decisions, or panics: the
  callbacks of the configuration may panic, and pointers may be nil. The maps the code ranges over are
  association lists; the iteration order of \<^verbatim>\<open>roundChanges\<close>, on which the outcome depends, is a
  parameter. The RLP functions at the message types are the parameter \<open>K\<close>.
\<close>

section \<open>Messages\<close>

definition MsgProposal :: byte where "MsgProposal = 1"
definition MsgPrepare :: byte where "MsgPrepare = 2"
definition MsgCommit :: byte where "MsgCommit = 3"
definition MsgRoundChange :: byte where "MsgRoundChange = 4"

lemmas msg_types = MsgProposal_def MsgPrepare_def MsgCommit_def MsgRoundChange_def

record View =
  Sequence :: u64
  Round :: u32

record SignedRoundChange =
  srcData :: bytes
  srcSig :: bytes

record Proposal = View +
  propHeader :: bytes
  PayloadJSON :: bytes
  propRCC :: "SignedRoundChange list"

record Prepare = View +
  prepBlockHash :: hash

record Commit = View +
  commBlockHash :: hash
  CommitSeal :: bytes

record RoundChange = View +
  PreparedRound :: u32
  PreparedBlock :: bytes
  PreparedPayload :: bytes

record IncomingMsg =
  MsgType :: byte
  From :: address
  Data :: bytes
  Sig :: bytes

text \<open>A decision carries the fields that its type says are populated.\<close>

datatype Decision =
    DBroadcast byte bytes
  | DCommitBlock "header option" bytes
  | DStartRound u32 "header option" bytes "SignedRoundChange list"

record rlpCodecs =
  cHeader :: "header codec"
  cProposal :: "Proposal codec"
  cPrepare :: "Prepare codec"
  cCommit :: "Commit codec"
  cRoundChange :: "RoundChange codec"

section \<open>State\<close>

datatype core_state = stateNew | statePrepared | stateCommitSent | stateCommitted | stateRoundChange

record roundChangeRecord =
  rcRound :: u32
  rcPreparedRound :: u32
  rcPreparedBlock :: bytes
  rcPreparedPayload :: bytes
  rcData :: bytes
  rcSig :: bytes

text \<open>The callbacks; \<^const>\<open>None\<close> is a nil function, and a header argument may be a nil pointer.\<close>

record Config =
  ProposalVerifier :: "(header \<Rightarrow> (qbft_error, unit) result) option"
  CommitSealSigner :: "(header option \<Rightarrow> (qbft_error, bytes) result) option"
  CommitSealVerifier :: "(header option \<Rightarrow> bytes \<Rightarrow> (qbft_error, address) result) option"
  CommitBlockCb :: "(header option \<Rightarrow> bytes list \<Rightarrow> (qbft_error, header) result) option"
  RoundChangeSigVerifier :: "(byte \<Rightarrow> bytes \<Rightarrow> bytes \<Rightarrow> (qbft_error, address) result) option"

record Core =
  cSeq :: u64
  cRound :: u32
  cQuorum :: nat
  cValidators :: "address set"
  cfg :: Config
  cState :: core_state
  proposalHeader :: "header option"
  proposalPayload :: bytes
  proposalHash :: hash
  prepares :: "(address \<times> hash) list"
  commits :: "(address \<times> bytes) list"
  roundChanges :: "(address \<times> roundChangeRecord) list"
  backlog :: "(u32 \<times> IncomingMsg list) list"

type_synonym core_result = "(qbft_error, Core \<times> Decision list) result"

definition New_core :: "u64 \<Rightarrow> u32 \<Rightarrow> address list \<Rightarrow> nat \<Rightarrow> Config \<Rightarrow> Core" where
  "New_core seq round validators quorum config =
     \<lparr>cSeq = seq, cRound = round, cQuorum = quorum, cValidators = set validators, cfg = config,
      cState = stateNew, proposalHeader = None, proposalPayload = [], proposalHash = zeroHash,
      prepares = [], commits = [], roundChanges = [], backlog = []\<rparr>"

text \<open>\<^verbatim>\<open>x, err := f(...)\<close> followed by a test of \<^verbatim>\<open>err\<close>: an error is a value, a panic is not.\<close>

fun attempt :: "('e, 'a) result \<Rightarrow> ('f, 'a option) result" where
  "attempt (Ok x) = Ok (Some x)"
| "attempt (Err e) = Ok None"
| "attempt Panic = Panic"

section \<open>Operations\<close>

definition StartProposer ::
    "geth \<Rightarrow> rlpCodecs \<Rightarrow> Core \<Rightarrow> header \<Rightarrow> bytes \<Rightarrow> SignedRoundChange list \<Rightarrow> Core \<times> Decision list" where
  "StartProposer G K c header payloadJSON rcc =
     (case enc (cHeader K) header of
        None \<Rightarrow> (c, [])
      | Some headerRLP \<Rightarrow>
          (case enc (cProposal K) \<lparr>Sequence = cSeq c, Round = cRound c, propHeader = headerRLP,
                                   PayloadJSON = payloadJSON, propRCC = rcc\<rparr> of
             None \<Rightarrow> (c, [])
           | Some data \<Rightarrow>
               let c' = c\<lparr>proposalHeader := Some header, proposalPayload := payloadJSON,
                          proposalHash := hdrHash G header, cState := statePrepared\<rparr>;
                   decisions = [DBroadcast MsgProposal data]
               in case enc (cPrepare K) \<lparr>Sequence = cSeq c', Round = cRound c', prepBlockHash = proposalHash c'\<rparr> of
                    None \<Rightarrow> (c', decisions)
                  | Some prepData \<Rightarrow> (c', decisions @ [DBroadcast MsgPrepare prepData])))"

definition Timeout :: "rlpCodecs \<Rightarrow> Core \<Rightarrow> Core \<times> Decision list" where
  "Timeout K c =
     (if cState c = stateCommitted then (c, [])
      else
        let wasPrepared = (cState c = statePrepared \<or> cState c = stateCommitSent);
            preparedRound = (if wasPrepared then cRound c else 0);
            preparedBlock = (if wasPrepared
              then (case proposalHeader c of
                      None \<Rightarrow> []
                    | Some h \<Rightarrow> (case enc (cHeader K) h of None \<Rightarrow> [] | Some b \<Rightarrow> b))
              else []);
            preparedPayload = (if wasPrepared then proposalPayload c else [])
        in case enc (cRoundChange K) \<lparr>Sequence = cSeq c, Round = cRound c + 1, PreparedRound = preparedRound,
                                      PreparedBlock = preparedBlock, PreparedPayload = preparedPayload\<rparr> of
             None \<Rightarrow> (c, [])
           | Some data \<Rightarrow> (c\<lparr>cState := stateRoundChange\<rparr>, [DBroadcast MsgRoundChange data]))"

text \<open>The loop of \<^verbatim>\<open>verifyRCC\<close>: every \<^verbatim>\<open>continue\<close> goes on with the same counters.\<close>

fun countRCC ::
    "rlpCodecs \<Rightarrow> Core \<Rightarrow> (byte \<Rightarrow> bytes \<Rightarrow> bytes \<Rightarrow> (qbft_error, address) result)
      \<Rightarrow> address set \<Rightarrow> nat \<Rightarrow> SignedRoundChange list \<Rightarrow> (qbft_error, nat) result" where
  "countRCC K c verifier seen valid [] = Ok valid"
| "countRCC K c verifier seen valid (entry # rcc) =
     rbind (attempt (verifier MsgRoundChange (srcData entry) (srcSig entry))) (\<lambda>r.
       case r of
         None \<Rightarrow> countRCC K c verifier seen valid rcc
       | Some signer \<Rightarrow>
           if signer \<notin> cValidators c then countRCC K c verifier seen valid rcc
           else if signer \<in> seen then countRCC K c verifier seen valid rcc
           else (case dec (cRoundChange K) (srcData entry) of
               None \<Rightarrow> countRCC K c verifier seen valid rcc
             | Some rc \<Rightarrow>
                 if Sequence rc \<noteq> cSeq c \<or> Round rc \<noteq> cRound c then countRCC K c verifier seen valid rcc
                 else countRCC K c verifier (insert signer seen) (valid + 1) rcc))"

definition verifyRCC :: "rlpCodecs \<Rightarrow> Core \<Rightarrow> SignedRoundChange list \<Rightarrow> (qbft_error, bool) result" where
  "verifyRCC K c rcc =
     (if length rcc < cQuorum c then Ok False
      else case RoundChangeSigVerifier (cfg c) of
        None \<Rightarrow> Ok False
      | Some verifier \<Rightarrow> rbind (countRCC K c verifier {} 0 rcc) (\<lambda>valid. Ok (valid \<ge> cQuorum c)))"

definition addBacklog :: "Core \<Rightarrow> u32 \<Rightarrow> IncomingMsg \<Rightarrow> Core" where
  "addBacklog c r msg =
     c\<lparr>backlog := AList.update r ((case map_of (backlog c) r of None \<Rightarrow> [] | Some ms \<Rightarrow> ms) @ [msg]) (backlog c)\<rparr>"

text \<open>
  The checks of a proposal for the current view: the round-change certificate, the header encoding and
  the verifier. \<^const>\<open>None\<close> stands for the silent returns.
\<close>

definition acceptable :: "rlpCodecs \<Rightarrow> Core \<Rightarrow> Proposal \<Rightarrow> (qbft_error, header option) result" where
  "acceptable K c p =
     rbind (if cRound c > 0 then verifyRCC K c (propRCC p) else Ok True) (\<lambda>rccOk.
       if \<not> rccOk then Ok None
       else case dec (cHeader K) (propHeader p) of
         None \<Rightarrow> Ok None
       | Some h \<Rightarrow>
           (case ProposalVerifier (cfg c) of
              None \<Rightarrow> Ok (Some h)
            | Some verify \<Rightarrow> rbind (attempt (verify h)) (\<lambda>v. Ok (if v = None then None else Some h))))"

text \<open>Recording an accepted proposal and broadcasting PREPARE.\<close>

definition enterPrepared :: "geth \<Rightarrow> rlpCodecs \<Rightarrow> Core \<Rightarrow> header \<Rightarrow> bytes \<Rightarrow> Core \<times> Decision list" where
  "enterPrepared G K c h payload =
     (let c' = c\<lparr>proposalHeader := Some h, proposalPayload := payload,
                 proposalHash := hdrHash G h, cState := statePrepared\<rparr>
      in case enc (cPrepare K) \<lparr>Sequence = cSeq c', Round = cRound c', prepBlockHash = proposalHash c'\<rparr> of
           None \<Rightarrow> (c', [])
         | Some data \<Rightarrow> (c', [DBroadcast MsgPrepare data]))"

definition handleProposal :: "geth \<Rightarrow> rlpCodecs \<Rightarrow> Core \<Rightarrow> IncomingMsg \<Rightarrow> core_result" where
  "handleProposal G K c msg =
     (if cState c \<noteq> stateNew then Ok (c, [])
      else case dec (cProposal K) (Data msg) of
        None \<Rightarrow> Ok (c, [])
      | Some p \<Rightarrow>
          if Sequence p \<noteq> cSeq c \<or> Round p \<noteq> cRound c then
            (if Round p > cRound c \<and> length (backlog c) < 16
             then Ok (addBacklog c (Round p) msg, []) else Ok (c, []))
          else rbind (acceptable K c p) (\<lambda>r.
            case r of
              None \<Rightarrow> Ok (c, [])
            | Some h \<Rightarrow> Ok (enterPrepared G K c h (PayloadJSON p))))"

text \<open>A quorum of PREPAREs: create the commit seal and broadcast COMMIT.\<close>

definition sendCommit :: "rlpCodecs \<Rightarrow> Core \<Rightarrow> core_result" where
  "sendCommit K c =
     (let c2 = c\<lparr>cState := stateCommitSent\<rparr> in
      rbind (case CommitSealSigner (cfg c2) of
               None \<Rightarrow> Ok (Some [])
             | Some sign \<Rightarrow> attempt (sign (proposalHeader c2))) (\<lambda>r.
        case r of
          None \<Rightarrow> Ok (c2, [])
        | Some seal \<Rightarrow>
            (case enc (cCommit K) \<lparr>Sequence = cSeq c2, Round = cRound c2,
                                   commBlockHash = proposalHash c2, CommitSeal = seal\<rparr> of
               None \<Rightarrow> Ok (c2, [])
             | Some data \<Rightarrow> Ok (c2, [DBroadcast MsgCommit data]))))"

definition handlePrepare :: "rlpCodecs \<Rightarrow> Core \<Rightarrow> IncomingMsg \<Rightarrow> core_result" where
  "handlePrepare K c msg =
     (if cState c = stateNew \<or> cState c = stateCommitted then Ok (c, [])
      else case dec (cPrepare K) (Data msg) of
        None \<Rightarrow> Ok (c, [])
      | Some p \<Rightarrow>
          if Sequence p \<noteq> cSeq c \<or> Round p \<noteq> cRound c then Ok (c, [])
          else if prepBlockHash p \<noteq> proposalHash c then Ok (c, [])
          else
            let c1 = c\<lparr>prepares := AList.update (From msg) (prepBlockHash p) (prepares c)\<rparr> in
            if cState c1 = statePrepared \<and> length (prepares c1) \<ge> cQuorum c1 then sendCommit K c1
            else Ok (c1, []))"

text \<open>The seals in the order of the signers' addresses (\<^verbatim>\<open>bytes.Compare\<close>).\<close>

definition sortedSeals :: "(address \<times> bytes) list \<Rightarrow> bytes list" where
  "sortedSeals items = map snd (sort_key fst items)"

text \<open>The check of a commit seal: whether the message is counted.\<close>

definition sealMatches :: "Core \<Rightarrow> IncomingMsg \<Rightarrow> Commit \<Rightarrow> (qbft_error, bool) result" where
  "sealMatches c msg cm =
     (case CommitSealVerifier (cfg c) of
        None \<Rightarrow> Ok True
      | Some verify \<Rightarrow>
          if length (CommitSeal cm) > 0 then
            rbind (attempt (verify (proposalHeader c) (CommitSeal cm))) (\<lambda>r.
              case r of None \<Rightarrow> Ok False | Some signer \<Rightarrow> Ok (signer = From msg))
          else Ok True)"

text \<open>
  A quorum of COMMITs: build the final header. An error of the callback leaves the state as it was,
  with the commit recorded.
\<close>

definition finishCommit :: "Core \<Rightarrow> core_result" where
  "finishCommit c =
     (case CommitBlockCb (cfg c) of
        None \<Rightarrow> Ok (c\<lparr>cState := stateCommitted\<rparr>, [DCommitBlock (proposalHeader c) (proposalPayload c)])
      | Some commitBlock \<Rightarrow>
          rbind (attempt (commitBlock (proposalHeader c) (sortedSeals (commits c)))) (\<lambda>r.
            case r of
              None \<Rightarrow> Ok (c, [])
            | Some finalHeader \<Rightarrow>
                Ok (c\<lparr>cState := stateCommitted\<rparr>, [DCommitBlock (Some finalHeader) (proposalPayload c)])))"

definition handleCommit :: "rlpCodecs \<Rightarrow> Core \<Rightarrow> IncomingMsg \<Rightarrow> core_result" where
  "handleCommit K c msg =
     (if cState c = stateCommitted \<or> cState c = stateNew then Ok (c, [])
      else case dec (cCommit K) (Data msg) of
        None \<Rightarrow> Ok (c, [])
      | Some cm \<Rightarrow>
          if Sequence cm \<noteq> cSeq c \<or> Round cm \<noteq> cRound c then Ok (c, [])
          else if commBlockHash cm \<noteq> proposalHash c then Ok (c, [])
          else rbind (sealMatches c msg cm) (\<lambda>ok.
            if \<not> ok then Ok (c, [])
            else
              let c1 = c\<lparr>commits := AList.update (From msg) (CommitSeal cm) (commits c)\<rparr> in
              if length (commits c1) \<ge> cQuorum c1 \<and> cState c1 \<noteq> stateCommitted then finishCommit c1
              else Ok (c1, [])))"

text \<open>The record with the highest prepared round; among equals, the last one read.\<close>

definition betterPrepared :: "u32 \<times> bytes \<times> bytes \<Rightarrow> roundChangeRecord \<Rightarrow> u32 \<times> bytes \<times> bytes" where
  "betterPrepared best rec =
     (if length (rcPreparedBlock rec) > 0 \<and> rcPreparedRound rec \<ge> fst best
      then (rcPreparedRound rec, rcPreparedBlock rec, rcPreparedPayload rec) else best)"

text \<open>The records for the target round, in the order the map is read.\<close>

definition recordsFor ::
    "(roundChangeRecord list \<Rightarrow> roundChangeRecord list) \<Rightarrow> Core \<Rightarrow> u32 \<Rightarrow> roundChangeRecord list" where
  "recordsFor order c target = filter (\<lambda>r. rcRound r = target) (order (map snd (roundChanges c)))"

text \<open>A quorum of ROUND_CHANGEs: the highest prepared block and the certificate, sorted by its data.\<close>

definition startRound :: "rlpCodecs \<Rightarrow> u32 \<Rightarrow> roundChangeRecord list \<Rightarrow> Decision" where
  "startRound K target records =
     (let (_, highestPrepBlock, highestPrepPayload) = foldl betterPrepared (0, [], []) records;
          rcc = map (\<lambda>r. \<lparr>srcData = rcData r, srcSig = rcSig r\<rparr>) (sort_key rcData records);
          preparedHeader = (if length highestPrepBlock > 0 then dec (cHeader K) highestPrepBlock else None)
      in DStartRound target preparedHeader highestPrepPayload rcc)"

definition recordOf :: "RoundChange \<Rightarrow> IncomingMsg \<Rightarrow> roundChangeRecord" where
  "recordOf rc msg =
     \<lparr>rcRound = Round rc, rcPreparedRound = PreparedRound rc, rcPreparedBlock = PreparedBlock rc,
      rcPreparedPayload = PreparedPayload rc, rcData = Data msg, rcSig = Sig msg\<rparr>"

definition handleRoundChange ::
    "rlpCodecs \<Rightarrow> (roundChangeRecord list \<Rightarrow> roundChangeRecord list) \<Rightarrow> Core \<Rightarrow> IncomingMsg \<Rightarrow> core_result" where
  "handleRoundChange K order c msg =
     (case dec (cRoundChange K) (Data msg) of
        None \<Rightarrow> Ok (c, [])
      | Some rc \<Rightarrow>
          if Sequence rc \<noteq> cSeq c then Ok (c, [])
          else if Round rc \<le> cRound c then Ok (c, [])
          else
            let c1 = c\<lparr>roundChanges := AList.update (From msg) (recordOf rc msg) (roundChanges c)\<rparr>;
                records = recordsFor order c1 (Round rc)
            in if length records \<ge> cQuorum c1 then Ok (c1, [startRound K (Round rc) records])
               else Ok (c1, []))"

definition HandleMsg ::
    "geth \<Rightarrow> rlpCodecs \<Rightarrow> (roundChangeRecord list \<Rightarrow> roundChangeRecord list) \<Rightarrow> Core \<Rightarrow> IncomingMsg \<Rightarrow> core_result" where
  "HandleMsg G K order c msg =
     (if From msg \<notin> cValidators c then Ok (c, [])
      else if MsgType msg = MsgProposal then handleProposal G K c msg
      else if MsgType msg = MsgPrepare then handlePrepare K c msg
      else if MsgType msg = MsgCommit then handleCommit K c msg
      else if MsgType msg = MsgRoundChange then handleRoundChange K order c msg
      else Ok (c, []))"

definition BacklogForRound :: "Core \<Rightarrow> u32 \<Rightarrow> Core \<times> IncomingMsg list" where
  "BacklogForRound c round =
     (c\<lparr>backlog := AList.delete round (backlog c)\<rparr>,
      (case map_of (backlog c) round of None \<Rightarrow> [] | Some ms \<Rightarrow> ms))"

end
