(* ===== verification/Qbft_Core_Inv.thy ===== *)
theory Qbft_Core_Inv
  imports Qbft_Core "HOL-Library.Multiset"
begin

text \<open>
  Runs of the QBFT core and their invariant. A run starts from a fresh core; the node may start it as
  proposer before any vote was counted, and then feeds messages and timeouts in any order. The
  invariant ties the collected prepares and commits to messages of the run.
\<close>

section \<open>What each handler does\<close>

lemma attempt_Ok_iff [simp]:
  "attempt r = Ok (Some x) \<longleftrightarrow> r = Ok x" "attempt r = Panic \<longleftrightarrow> r = Panic"
  "attempt r \<noteq> Err e"
  by (cases r; auto)+

lemma attempt_None: "attempt r = Ok None \<longleftrightarrow> (\<exists>e. r = Err e)"
  by (cases r) auto

lemma acceptable_Some:
  "acceptable K c p = Ok (Some h) \<longleftrightarrow>
     (cRound c > 0 \<longrightarrow> verifyRCC K c (propRCC p) = Ok True) \<and> dec (cHeader K) (propHeader p) = Some h \<and>
     (\<forall>f. ProposalVerifier (cfg c) = Some f \<longrightarrow> f h = Ok ())"
proof (cases "dec (cHeader K) (propHeader p)")
  case None
  then show ?thesis by (simp add: acceptable_def)
next
  case (Some k)
  have "(rbind (attempt r) (\<lambda>v. Ok (if v = None then None else Some k)) = Ok (Some h)) \<longleftrightarrow> r = Ok () \<and> k = h"
    for r :: "(qbft_error, unit) result" by (cases r) simp_all
  then show ?thesis
    using Some by (cases "ProposalVerifier (cfg c)")
      (simp_all add: acceptable_def del: rbind_Ok_iff, simp_all add: conj_ac ex_bool_eq cong: conj_cong)
qed

lemma enterPrepared_cases:
  "\<exists>ds. enterPrepared G K c h p =
     (c\<lparr>proposalHeader := Some h, proposalPayload := p, proposalHash := hdrHash G h, cState := statePrepared\<rparr>, ds) \<and>
     (\<forall>d \<in> set ds. \<exists>x. d = DBroadcast MsgPrepare x)"
  by (auto simp: enterPrepared_def Let_def split: option.splits)

lemma handleProposal_cases:
  assumes "handleProposal G K c m = Ok (c', ds)"
  obtains (ignored) "c' = c" "ds = []"
  | (backlogged) p where "cState c = stateNew" "dec (cProposal K) (Data m) = Some p" "Round p > cRound c"
      "length (backlog c) < 16" "c' = addBacklog c (Round p) m" "ds = []"
  | (accepted) p h where "cState c = stateNew" "dec (cProposal K) (Data m) = Some p"
      "Sequence p = cSeq c" "Round p = cRound c" "acceptable K c p = Ok (Some h)"
      "enterPrepared G K c h (PayloadJSON p) = (c', ds)"
proof (cases "cState c = stateNew \<and> dec (cProposal K) (Data m) \<noteq> None")
  case False
  with assms have "c' = c \<and> ds = []"
    by (cases "cState c = stateNew"; cases "dec (cProposal K) (Data m)") (simp_all add: handleProposal_def)
  with ignored show ?thesis by blast
next
  case True
  then obtain p where p: "cState c = stateNew" "dec (cProposal K) (Data m) = Some p" by blast
  show ?thesis
  proof (cases "Sequence p = cSeq c \<and> Round p = cRound c")
    case False
    with assms p have "(c', ds) = (if Round p > cRound c \<and> length (backlog c) < 16 then (addBacklog c (Round p) m, []) else (c, []))"
      by (cases "Round p > cRound c \<and> length (backlog c) < 16") (auto simp: handleProposal_def)
    with p show ?thesis by (cases "Round p > cRound c \<and> length (backlog c) < 16") (use ignored backlogged in simp_all)
  next
    case view: True
    with assms p obtain r where r: "acceptable K c p = Ok r"
      "(case r of None \<Rightarrow> Ok (c, []) | Some h \<Rightarrow> Ok (enterPrepared G K c h (PayloadJSON p))) = (Ok (c', ds) :: core_result)"
      by (simp add: handleProposal_def) blast
    show ?thesis
    proof (cases r)
      case None
      with r(2) show ?thesis by (intro ignored) simp_all
    next
      case (Some h)
      show ?thesis by (rule accepted [OF p]) (use view r Some in simp_all)
    qed
  qed
qed

lemma sendCommit_cases:
  assumes "sendCommit K c = Ok (c', ds)"
  shows "c' = c\<lparr>cState := stateCommitSent\<rparr>" and "ds = [] \<or> (\<exists>d. ds = [DBroadcast MsgCommit d])"
proof -
  let ?c2 = "c\<lparr>cState := stateCommitSent\<rparr>"
  from assms obtain r where "(case r of None \<Rightarrow> Ok (?c2, [])
      | Some seal \<Rightarrow> (case enc (cCommit K) \<lparr>Sequence = cSeq c, Round = cRound c,
                                   commBlockHash = proposalHash c, CommitSeal = seal\<rparr> of
               None \<Rightarrow> Ok (?c2, []) | Some data \<Rightarrow> Ok (?c2, [DBroadcast MsgCommit data]))) = (Ok (c', ds) :: core_result)"
    by (simp add: sendCommit_def Let_def) blast
  then have "c' = ?c2 \<and> (ds = [] \<or> (\<exists>d. ds = [DBroadcast MsgCommit d]))"
    by (auto split: option.split_asm)
  then show "c' = ?c2" and "ds = [] \<or> (\<exists>d. ds = [DBroadcast MsgCommit d])" by simp_all
qed

lemma handlePrepare_cases:
  assumes "handlePrepare K c m = Ok (c', ds)"
  obtains (ignored) "c' = c" "ds = []"
  | (counted) p c1 where "cState c \<notin> {stateNew, stateCommitted}" "dec (cPrepare K) (Data m) = Some p"
      "Sequence p = cSeq c" "Round p = cRound c" "prepBlockHash p = proposalHash c"
      "c1 = c\<lparr>prepares := AList.update (From m) (proposalHash c) (prepares c)\<rparr>"
      "(if cState c = statePrepared \<and> cQuorum c \<le> length (prepares c1) then sendCommit K c1 else Ok (c1, [])) = Ok (c', ds)"
  using assms by (auto simp: handlePrepare_def Let_def split: if_splits option.splits)

lemma finishCommit_cases:
  assumes "finishCommit c = Ok (c', ds)"
  obtains (failed) "c' = c" "ds = []"
  | (finished) f where "c' = c\<lparr>cState := stateCommitted\<rparr>" "ds = [DCommitBlock f (proposalPayload c)]"
      "case CommitBlockCb (cfg c) of None \<Rightarrow> f = proposalHeader c
       | Some cb \<Rightarrow> \<exists>h. f = Some h \<and> cb (proposalHeader c) (sortedSeals (commits c)) = Ok h"
  using assms by (auto simp: finishCommit_def split: option.splits)

text \<open>What the verifier, if there is one, says about a recorded seal; empty seals are not checked.\<close>

definition sealOk :: "Core \<Rightarrow> address \<Rightarrow> bytes \<Rightarrow> bool" where
  "sealOk c a seal \<longleftrightarrow>
     (case CommitSealVerifier (cfg c) of None \<Rightarrow> True | Some f \<Rightarrow> seal = [] \<or> f (proposalHeader c) seal = Ok a)"

lemma sealOk_cong: "cfg c' = cfg c \<Longrightarrow> proposalHeader c' = proposalHeader c \<Longrightarrow> sealOk c' a s = sealOk c a s"
  by (simp add: sealOk_def split: option.split)

lemma sealMatches_iff: "sealMatches c m cm = Ok True \<longleftrightarrow> sealOk c (From m) (CommitSeal cm)"
  by (auto simp: sealMatches_def sealOk_def split: option.splits)

lemma handleCommit_cases:
  assumes "handleCommit K c m = Ok (c', ds)"
  obtains (ignored) "c' = c" "ds = []"
  | (counted) cm c1 where "cState c \<notin> {stateNew, stateCommitted}" "dec (cCommit K) (Data m) = Some cm"
      "Sequence cm = cSeq c" "Round cm = cRound c" "commBlockHash cm = proposalHash c"
      "sealOk c (From m) (CommitSeal cm)"
      "c1 = c\<lparr>commits := AList.update (From m) (CommitSeal cm) (commits c)\<rparr>"
      "(if cQuorum c \<le> length (commits c1) then finishCommit c1 else Ok (c1, [])) = Ok (c', ds)"
  using assms by (auto simp: handleCommit_def Let_def sealMatches_iff [symmetric] split: if_splits option.splits)

lemma handleRoundChange_cases:
  assumes "handleRoundChange K ord c m = Ok (c', ds)"
  obtains (ignored) "c' = c" "ds = []"
  | (counted) rc where "dec (cRoundChange K) (Data m) = Some rc" "Sequence rc = cSeq c" "Round rc > cRound c"
      "c' = c\<lparr>roundChanges := AList.update (From m) (recordOf rc m) (roundChanges c)\<rparr>"
      "ds = (if cQuorum c \<le> length (recordsFor ord c' (Round rc))
             then [startRound K (Round rc) (recordsFor ord c' (Round rc))] else [])"
  using assms by (auto simp: handleRoundChange_def Let_def not_le split: if_splits option.splits)

lemma HandleMsg_cases:
  assumes "HandleMsg G K ord c m = Ok (c', ds)"
  obtains (ignored) "c' = c" "ds = []"
  | (proposal) "From m \<in> cValidators c" "MsgType m = MsgProposal" "handleProposal G K c m = Ok (c', ds)"
  | (prepare) "From m \<in> cValidators c" "MsgType m = MsgPrepare" "handlePrepare K c m = Ok (c', ds)"
  | (commit) "From m \<in> cValidators c" "MsgType m = MsgCommit" "handleCommit K c m = Ok (c', ds)"
  | (roundChange) "From m \<in> cValidators c" "MsgType m = MsgRoundChange" "handleRoundChange K ord c m = Ok (c', ds)"
  using assms by (auto simp: HandleMsg_def split: if_splits)

section \<open>Runs\<close>

datatype core_event = EStart header bytes "SignedRoundChange list" | EMsg IncomingMsg | ETimeout

text \<open>
  Reading a Go map yields its values in some order. The node calls \<^verbatim>\<open>StartProposer\<close> at most before it
  counts votes (right after \<^verbatim>\<open>New\<close> and the replay of backlogged proposals), so a start needs empty
  vote maps.
\<close>

definition map_order :: "(roundChangeRecord list \<Rightarrow> roundChangeRecord list) \<Rightarrow> bool" where
  "map_order ord \<longleftrightarrow> (\<forall>xs. mset (ord xs) = mset xs)"

inductive core_run :: "geth \<Rightarrow> rlpCodecs \<Rightarrow> Core \<Rightarrow> core_event list \<Rightarrow> Core \<Rightarrow> Decision list \<Rightarrow> bool"
  for G :: geth and K :: rlpCodecs and c0 :: Core where
  init: "core_run G K c0 [] c0 []"
| start: "core_run G K c0 es c ds \<Longrightarrow> prepares c = [] \<Longrightarrow> commits c = [] \<Longrightarrow>
    cState c \<in> {stateNew, statePrepared} \<Longrightarrow> StartProposer G K c h p rcc = (c', ds') \<Longrightarrow>
    core_run G K c0 (es @ [EStart h p rcc]) c' (ds @ ds')"
| msg: "core_run G K c0 es c ds \<Longrightarrow> map_order ord \<Longrightarrow> HandleMsg G K ord c m = Ok (c', ds') \<Longrightarrow>
    core_run G K c0 (es @ [EMsg m]) c' (ds @ ds')"
| timeout: "core_run G K c0 es c ds \<Longrightarrow> Timeout K c = (c', ds') \<Longrightarrow>
    core_run G K c0 (es @ [ETimeout]) c' (ds @ ds')"

text \<open>A COMMIT for a view and hash with a seal, received from a sender during the run.\<close>

definition gotCommit :: "rlpCodecs \<Rightarrow> core_event list \<Rightarrow> u64 \<Rightarrow> u32 \<Rightarrow> address \<Rightarrow> hash \<Rightarrow> bytes \<Rightarrow> bool" where
  "gotCommit K es s r a h seal \<longleftrightarrow>
     (\<exists>m cm. EMsg m \<in> set es \<and> MsgType m = MsgCommit \<and> From m = a \<and> dec (cCommit K) (Data m) = Some cm \<and>
        Sequence cm = s \<and> Round cm = r \<and> commBlockHash cm = h \<and> CommitSeal cm = seal)"

definition gotPrepare :: "rlpCodecs \<Rightarrow> core_event list \<Rightarrow> u64 \<Rightarrow> u32 \<Rightarrow> address \<Rightarrow> hash \<Rightarrow> bool" where
  "gotPrepare K es s r a h \<longleftrightarrow>
     (\<exists>m p. EMsg m \<in> set es \<and> MsgType m = MsgPrepare \<and> From m = a \<and> dec (cPrepare K) (Data m) = Some p \<and>
        Sequence p = s \<and> Round p = r \<and> prepBlockHash p = h)"

lemma gotCommit_mono: "gotCommit K es s r a h x \<Longrightarrow> gotCommit K (es @ fs) s r a h x"
  by (auto simp: gotCommit_def)

lemma gotPrepare_mono: "gotPrepare K es s r a h \<Longrightarrow> gotPrepare K (es @ fs) s r a h"
  by (auto simp: gotPrepare_def)

definition same_instance :: "Core \<Rightarrow> Core \<Rightarrow> bool" where
  "same_instance c d \<longleftrightarrow> cSeq c = cSeq d \<and> cRound c = cRound d \<and> cQuorum c = cQuorum d \<and>
     cValidators c = cValidators d \<and> cfg c = cfg d"

definition votes_inv :: "geth \<Rightarrow> rlpCodecs \<Rightarrow> core_event list \<Rightarrow> Core \<Rightarrow> bool" where
  "votes_inv G K es c \<longleftrightarrow>
     distinct (map fst (prepares c)) \<and> distinct (map fst (commits c)) \<and>
     (\<forall>(a, h) \<in> set (prepares c). a \<in> cValidators c \<and> h = proposalHash c \<and>
        gotPrepare K es (cSeq c) (cRound c) a h) \<and>
     (\<forall>(a, seal) \<in> set (commits c). a \<in> cValidators c \<and> sealOk c a seal \<and>
        gotCommit K es (cSeq c) (cRound c) a (proposalHash c) seal)"

definition phase_inv :: "geth \<Rightarrow> Core \<Rightarrow> bool" where
  "phase_inv G c \<longleftrightarrow>
     (cState c = stateNew \<longrightarrow> prepares c = [] \<and> commits c = [] \<and> proposalHeader c = None) \<and>
     (cState c \<in> {statePrepared, stateCommitSent} \<longrightarrow> proposalHeader c \<noteq> None) \<and>
     (cState c = stateCommitSent \<longrightarrow> cQuorum c \<le> length (prepares c)) \<and>
     (cState c = stateCommitted \<longrightarrow> cQuorum c \<le> length (commits c)) \<and>
     proposalHash c = (case proposalHeader c of None \<Rightarrow> zeroHash | Some h \<Rightarrow> hdrHash G h)"

text \<open>Steps that touch neither the votes nor the proposal keep both invariants.\<close>

lemma inv_frame:
  assumes "votes_inv G K es c" "same_instance c' c" "prepares c' = prepares c" "commits c' = commits c"
    "proposalHash c' = proposalHash c" "proposalHeader c' = proposalHeader c"
  shows "votes_inv G K (es @ fs) c'"
proof -
  have "sealOk c' a s = sealOk c a s" for a s using assms(2,6) by (intro sealOk_cong) (simp_all add: same_instance_def)
  then show ?thesis using assms
    unfolding votes_inv_def same_instance_def by (auto intro: gotCommit_mono gotPrepare_mono)
qed

lemma inv_fresh:
  assumes "votes_inv G K es c" "same_instance c' c" "prepares c = []" "commits c = []"
    "prepares c' = []" "commits c' = []"
  shows "votes_inv G K fs c'"
  using assms by (simp add: votes_inv_def)

lemma same_instance_refl [simp]: "same_instance c c"
  by (simp add: same_instance_def)

lemma same_instance_trans: "same_instance c d \<Longrightarrow> same_instance d e \<Longrightarrow> same_instance c e"
  by (simp add: same_instance_def)

lemma length_update_ge: "length m \<le> length (AList.update k v m)"
  by (induction m) auto

lemma StartProposer_cases:
  assumes "StartProposer G K c h p rcc = (c', ds)"
  shows "(c' = c \<and> ds = []) \<or>
    (c' = c\<lparr>proposalHeader := Some h, proposalPayload := p, proposalHash := hdrHash G h, cState := statePrepared\<rparr> \<and>
     (\<forall>d \<in> set ds. \<exists>t x. d = DBroadcast t x \<and> t \<in> {MsgProposal, MsgPrepare}))"
  using assms by (auto simp: StartProposer_def Let_def split: option.split_asm)

lemma Timeout_cases:
  assumes "Timeout K c = (c', ds)"
  shows "(c' = c \<and> ds = []) \<or>
    (cState c \<noteq> stateCommitted \<and> c' = c\<lparr>cState := stateRoundChange\<rparr> \<and> (\<exists>x. ds = [DBroadcast MsgRoundChange x]))"
  using assms by (auto simp: Timeout_def Let_def split: option.split_asm if_split_asm)

lemma handleProposal_inv:
  assumes "votes_inv G K es c" "phase_inv G c" "handleProposal G K c m = Ok (c', ds)"
  shows "votes_inv G K (es @ fs) c' \<and> phase_inv G c' \<and> same_instance c' c"
  using assms(3)
proof (cases rule: handleProposal_cases)
  case ignored
  then show ?thesis using assms by (auto intro: inv_frame)
next
  case (backlogged p)
  then show ?thesis using assms(1,2) inv_frame [OF assms(1), of c' fs]
    by (simp add: addBacklog_def phase_inv_def same_instance_def)
next
  case (accepted p h)
  from enterPrepared_cases [of G K c h "PayloadJSON p"] accepted(6)
  have c': "c' = c\<lparr>proposalHeader := Some h, proposalPayload := PayloadJSON p, proposalHash := hdrHash G h, cState := statePrepared\<rparr>"
    by auto
  have "prepares c = []" "commits c = []" using assms(2) accepted(1) by (simp_all add: phase_inv_def)
  then show ?thesis using assms(1,2) by (simp add: c' phase_inv_def same_instance_def votes_inv_def)
qed

lemma handlePrepare_inv:
  assumes vi: "votes_inv G K es c" and ph: "phase_inv G c" and hp: "handlePrepare K c m = Ok (c', ds)"
    and m: "From m \<in> cValidators c" "MsgType m = MsgPrepare"
  shows "votes_inv G K (es @ [EMsg m]) c' \<and> phase_inv G c' \<and> same_instance c' c"
  using hp
proof (cases rule: handlePrepare_cases)
  case ignored
  then show ?thesis using vi ph by (auto intro: inv_frame)
next
  case (counted p c1)
  have got: "gotPrepare K (es @ [EMsg m]) (cSeq c) (cRound c) (From m) (proposalHash c)"
    unfolding gotPrepare_def using m counted(2-5) by (intro exI [of _ m] exI [of _ p]) simp
  have seal: "sealOk c1 a s = sealOk c a s" for a s by (rule sealOk_cong) (simp_all add: counted(6))
  have d: "distinct (map fst (prepares c))" using vi by (simp add: votes_inv_def)
  have v1: "votes_inv G K (es @ [EMsg m]) c1"
    using vi got m d unfolding votes_inv_def seal
    by (auto simp: counted(6) distinct_fst_update set_alist_update intro: gotCommit_mono gotPrepare_mono)
  have p1: "phase_inv G c1" using ph counted(1) length_update_ge [of "prepares c" "From m" "proposalHash c"]
    by (auto simp: counted(6) phase_inv_def)
  show ?thesis
  proof (cases "cState c = statePrepared \<and> cQuorum c \<le> length (prepares c1)")
    case True
    then have c': "c' = c1\<lparr>cState := stateCommitSent\<rparr>" using counted(7) sendCommit_cases(1) by auto
    have "votes_inv G K ((es @ [EMsg m]) @ []) c'" by (rule inv_frame [OF v1]) (simp_all add: c' same_instance_def)
    moreover have "phase_inv G c'" using p1 True by (auto simp: c' phase_inv_def counted(6))
    ultimately show ?thesis by (simp add: c' same_instance_def counted(6))
  next
    case False
    then have "c' = c1" using counted(7) by auto
    then show ?thesis using v1 p1 by (simp add: same_instance_def counted(6))
  qed
qed

lemma handleCommit_inv:
  assumes vi: "votes_inv G K es c" and ph: "phase_inv G c" and hc: "handleCommit K c m = Ok (c', ds)"
    and m: "From m \<in> cValidators c" "MsgType m = MsgCommit"
  shows "votes_inv G K (es @ [EMsg m]) c' \<and> phase_inv G c' \<and> same_instance c' c"
  using hc
proof (cases rule: handleCommit_cases)
  case ignored
  then show ?thesis using vi ph by (auto intro: inv_frame)
next
  case (counted cm c1)
  have got: "gotCommit K (es @ [EMsg m]) (cSeq c) (cRound c) (From m) (proposalHash c) (CommitSeal cm)"
    unfolding gotCommit_def using m counted(2-5) by (intro exI [of _ m] exI [of _ cm]) simp
  have seal: "sealOk c1 a s = sealOk c a s" for a s by (rule sealOk_cong) (simp_all add: counted(7))
  have d: "distinct (map fst (commits c))" using vi by (simp add: votes_inv_def)
  have v1: "votes_inv G K (es @ [EMsg m]) c1"
    using vi got m d counted(6) unfolding votes_inv_def seal
    by (auto simp: counted(7) distinct_fst_update set_alist_update intro: gotCommit_mono gotPrepare_mono)
  have p1: "phase_inv G c1" using ph counted(1) by (auto simp: counted(7) phase_inv_def)
  show ?thesis
  proof (cases "cQuorum c \<le> length (commits c1)")
    case True
    then have "finishCommit c1 = Ok (c', ds)" using counted(8) by simp
    then show ?thesis
    proof (cases rule: finishCommit_cases)
      case failed
      then show ?thesis using v1 p1 by (simp add: same_instance_def counted(7))
    next
      case (finished f)
      have "votes_inv G K ((es @ [EMsg m]) @ []) c'" by (rule inv_frame [OF v1]) (simp_all add: finished(1) same_instance_def)
      moreover have "phase_inv G c'" using p1 True by (auto simp: finished(1) phase_inv_def counted(7))
      ultimately show ?thesis by (simp add: finished(1) same_instance_def counted(7))
    qed
  next
    case False
    then have "c' = c1" using counted(8) by auto
    then show ?thesis using v1 p1 by (simp add: same_instance_def counted(7))
  qed
qed

lemma handleRoundChange_inv:
  assumes vi: "votes_inv G K es c" and ph: "phase_inv G c" and hr: "handleRoundChange K ord c m = Ok (c', ds)"
  shows "votes_inv G K (es @ fs) c' \<and> phase_inv G c' \<and> same_instance c' c"
  using hr
proof (cases rule: handleRoundChange_cases)
  case ignored
  then show ?thesis using vi ph by (auto intro: inv_frame)
next
  case (counted rc)
  have "votes_inv G K (es @ fs) c'" by (rule inv_frame [OF vi]) (simp_all add: counted(4) same_instance_def)
  then show ?thesis using ph by (simp add: counted(4) same_instance_def phase_inv_def)
qed

lemma HandleMsg_inv:
  assumes "votes_inv G K es c" and "phase_inv G c" and "HandleMsg G K ord c m = Ok (c', ds)"
  shows "votes_inv G K (es @ [EMsg m]) c' \<and> phase_inv G c' \<and> same_instance c' c"
  using assms(3)
proof (cases rule: HandleMsg_cases)
  case ignored
  then show ?thesis using assms by (auto intro: inv_frame)
next
  case proposal
  then show ?thesis using handleProposal_inv [OF assms(1,2)] by blast
next
  case prepare
  then show ?thesis using handlePrepare_inv [OF assms(1,2)] by blast
next
  case commit
  then show ?thesis using handleCommit_inv [OF assms(1,2)] by blast
next
  case roundChange
  then show ?thesis using handleRoundChange_inv [OF assms(1,2)] by blast
qed

lemma StartProposer_inv:
  assumes "votes_inv G K es c" "phase_inv G c" "StartProposer G K c h p rcc = (c', ds)"
    and "prepares c = []" "commits c = []"
  shows "votes_inv G K (es @ fs) c' \<and> phase_inv G c' \<and> same_instance c' c"
  using StartProposer_cases [OF assms(3)]
proof
  assume "c' = c \<and> ds = []"
  then show ?thesis using assms by (auto intro: inv_frame)
next
  assume "c' = c\<lparr>proposalHeader := Some h, proposalPayload := p, proposalHash := hdrHash G h, cState := statePrepared\<rparr> \<and>
     (\<forall>d \<in> set ds. \<exists>t x. d = DBroadcast t x \<and> t \<in> {MsgProposal, MsgPrepare})"
  then show ?thesis using assms by (simp add: phase_inv_def same_instance_def votes_inv_def)
qed

lemma Timeout_inv:
  assumes "votes_inv G K es c" "phase_inv G c" "Timeout K c = (c', ds)"
  shows "votes_inv G K (es @ fs) c' \<and> phase_inv G c' \<and> same_instance c' c"
  using Timeout_cases [OF assms(3)]
proof
  assume "c' = c \<and> ds = []"
  then show ?thesis using assms by (auto intro: inv_frame)
next
  assume *: "cState c \<noteq> stateCommitted \<and> c' = c\<lparr>cState := stateRoundChange\<rparr> \<and> (\<exists>x. ds = [DBroadcast MsgRoundChange x])"
  have "votes_inv G K (es @ fs) c'" by (rule inv_frame [OF assms(1)]) (simp_all add: * same_instance_def)
  then show ?thesis using assms(2) * by (simp add: phase_inv_def same_instance_def)
qed

theorem core_run_inv:
  assumes "core_run G K (New_core s r vs q config) es c ds"
  shows "votes_inv G K es c \<and> phase_inv G c \<and> same_instance c (New_core s r vs q config)"
  using assms
proof (induction rule: core_run.induct)
  case init
  show ?case by (simp add: New_core_def votes_inv_def phase_inv_def)
next
  case (start es c ds h p rcc c' ds')
  then show ?case using StartProposer_inv same_instance_trans by blast
next
  case (msg es c ds ord m c' ds')
  then show ?case using HandleMsg_inv same_instance_trans by blast
next
  case (timeout es c ds c' ds')
  then show ?case using Timeout_inv same_instance_trans by blast
qed

end
