(* ===== verification/Qbft_Engine.thy ===== *)
theory Qbft_Engine
  imports Qbft_Extra
begin

text \<open>
  The QBFT engine: \<^verbatim>\<open>qbft/engine.go\<close>, \<^verbatim>\<open>qbft/snapshot.go\<close> and \<^verbatim>\<open>qbft/api.go\<close>. The validator set
  changes only at epoch headers, which carry it in \<^verbatim>\<open>IstanbulExtra.Validators\<close>. A block is final when
  its header carries commit seals of a quorum.
\<close>

section \<open>Snapshots\<close>

record QSnapshot =
  qsNumber :: u64
  qsHash :: hash
  Validators :: "address set"

definition newSnapshot_q :: "u64 \<Rightarrow> hash \<Rightarrow> address list \<Rightarrow> QSnapshot" where
  "newSnapshot_q number hash validators =
     \<lparr>qsNumber = number, qsHash = hash, Validators = set validators\<rparr>"

definition IsAuthorized_q :: "QSnapshot \<Rightarrow> address \<Rightarrow> bool" where
  "IsAuthorized_q s a \<longleftrightarrow> a \<in> Validators s"

definition HasRecentlySigned_q :: "QSnapshot \<Rightarrow> u64 \<Rightarrow> address \<Rightarrow> bool" where
  "HasRecentlySigned_q s number a = False"

text \<open>
  \<^verbatim>\<open>SignerList\<close> sorts by the checksummed hexadecimal form. The order in which the map is read does not
  matter when the form is injective on the set (lemma \<open>SignerList_q_unique\<close>).
\<close>

definition SignerList_q :: "geth \<Rightarrow> QSnapshot \<Rightarrow> address list" where
  "SignerList_q G s = sort_key (addrHex G) (sorted_list_of_set (Validators s))"

definition InTurn_q :: "geth \<Rightarrow> QSnapshot \<Rightarrow> u64 \<Rightarrow> address \<Rightarrow> bool" where
  "InTurn_q G s number signer =
     (let validators = SignerList_q G s in
      if length validators = 0 then False
      else validators ! unat (number mod word_of_nat (length validators)) = signer)"

definition PendingVotes_q :: "QSnapshot \<Rightarrow> VoteRecord list" where
  "PendingVotes_q s = []"

definition applyHeader_q :: "geth \<Rightarrow> IstanbulExtra codec \<Rightarrow> u64 \<Rightarrow> QSnapshot \<Rightarrow> header \<Rightarrow> (qbft_error, QSnapshot) result" where
  "applyHeader_q G C epoch s h =
     rbind (number_of h) (\<lambda>num.
       if epoch = 0 then Panic
       else rbind (if num mod epoch = 0
                   then rbind (DecodeExtra C h) (\<lambda>ie.
                     if length (ieValidators ie) = 0 then Err QErrEmptyValidators
                     else Ok (s\<lparr>Validators := set (ieValidators ie)\<rparr>))
                   else Ok s) (\<lambda>s'.
         Ok (s'\<lparr>qsNumber := num, qsHash := hdrHash G h\<rparr>)))"

definition apply_snapshot_q ::
    "geth \<Rightarrow> IstanbulExtra codec \<Rightarrow> u64 \<Rightarrow> QSnapshot \<Rightarrow> header list \<Rightarrow> (qbft_error, QSnapshot) result" where
  "apply_snapshot_q G C epoch s headers =
     (if length headers = 0 then Ok s else rfold (applyHeader_q G C epoch) s headers)"

section \<open>Engine\<close>

record QEngine =
  qbPeriod :: u64
  qbEpoch :: u64
  qbTimeout :: int

definition New_q :: "u64 \<Rightarrow> u64 \<Rightarrow> int \<Rightarrow> QEngine" where
  "New_q period epoch timeout = \<lparr>qbPeriod = period, qbEpoch = epoch, qbTimeout = timeout\<rparr>"

text \<open>The fallback: addresses packed between vanity and seal, as in a Clique genesis block.\<close>

definition cliqueGenesis :: "geth \<Rightarrow> header \<Rightarrow> (qbft_error, QSnapshot) result" where
  "cliqueGenesis G genesis =
     (let extra = Extra genesis in
      if length extra < ExtraVanity + AddressLength + ExtraSeal then Err QErrExtraTooShort
      else rbind (slice (int ExtraVanity) (int (length extra) - int ExtraSeal) extra) (\<lambda>middle.
        if length middle = 0 \<or> length middle mod AddressLength \<noteq> 0 then Err QErrMiddleSection
        else let validators = map (\<lambda>i. copy_fixed AddressLength (drop (i * AddressLength) middle))
                                  [0..<length middle div AddressLength]
             in Ok (newSnapshot_q 0 (hdrHash G genesis) validators)))"

definition NewGenesisSnapshot_q :: "geth \<Rightarrow> IstanbulExtra codec \<Rightarrow> header \<Rightarrow> (qbft_error, QSnapshot) result" where
  "NewGenesisSnapshot_q G C genesis =
     (case DecodeExtra C genesis of
        Ok ie \<Rightarrow> if length (ieValidators ie) > 0
                 then Ok (newSnapshot_q 0 (hdrHash G genesis) (ieValidators ie))
                 else cliqueGenesis G genesis
      | Err _ \<Rightarrow> cliqueGenesis G genesis
      | Panic \<Rightarrow> Panic)"

definition NewCheckpointSnapshot_q :: "geth \<Rightarrow> IstanbulExtra codec \<Rightarrow> header \<Rightarrow> (qbft_error, QSnapshot) result" where
  "NewCheckpointSnapshot_q G C h =
     rbind (DecodeExtra C h) (\<lambda>ie.
       if length (ieValidators ie) = 0 then Err QErrEmptyValidators
       else rbind (number_of h) (\<lambda>n. Ok (newSnapshot_q n (hdrHash G h) (ieValidators ie))))"

definition CalcDifficulty_q :: "QSnapshot \<Rightarrow> u64 \<Rightarrow> address \<Rightarrow> int" where
  "CalcDifficulty_q s number signer = 1"

definition Apply_q :: "geth \<Rightarrow> IstanbulExtra codec \<Rightarrow> QEngine \<Rightarrow> QSnapshot \<Rightarrow> header list \<Rightarrow> (qbft_error, QSnapshot) result" where
  "Apply_q G C e s headers = apply_snapshot_q G C (qbEpoch e) s headers"

text \<open>\<^verbatim>\<open>floor(2N/3) + 1\<close>, on Go's \<^verbatim>\<open>int\<close>; a validator count is a length, so it is not negative.\<close>

definition Quorum :: "nat \<Rightarrow> nat" where
  "Quorum validatorCount = (2 * validatorCount) div 3 + 1"

text \<open>The timestamp check, skipped without a parent; the sum wraps at 64 bits.\<close>

definition tooEarly :: "QEngine \<Rightarrow> header \<Rightarrow> header option \<Rightarrow> bool" where
  "tooEarly e h parent =
     (case parent of None \<Rightarrow> False | Some p \<Rightarrow> Time h < Time p + qbPeriod e)"

lemma tooEarly_Extra [simp]: "tooEarly e (h\<lparr>Extra := x\<rparr>) parent = tooEarly e h parent"
  by (simp add: tooEarly_def split: option.split)

text \<open>The loop over the commit seals with the set of signers seen so far.\<close>

fun checkSeals ::
    "geth \<Rightarrow> IstanbulExtra codec \<Rightarrow> QSnapshot \<Rightarrow> header \<Rightarrow> address set \<Rightarrow> bytes list \<Rightarrow> (qbft_error, unit) result" where
  "checkSeals G C snap h seen [] = Ok ()"
| "checkSeals G C snap h seen (seal # seals) =
     rbind (wrap_err QErrRecoverCommitSeal (RecoverCommitSealSigner G C h seal)) (\<lambda>signer.
       if \<not> IsAuthorized_q snap signer then Err QErrUnauthorizedValidator
       else if signer \<in> seen then Err QErrDuplicateSeal
       else checkSeals G C snap h (insert signer seen) seals)"

definition VerifyHeader_q ::
    "geth \<Rightarrow> IstanbulExtra codec \<Rightarrow> QEngine \<Rightarrow> QSnapshot \<Rightarrow> header \<Rightarrow> header option \<Rightarrow> (qbft_error, unit) result" where
  "VerifyHeader_q G C e snap h parent =
     rbind (number_of h) (\<lambda>number.
       if UncleHash h \<noteq> emptyUncleHash G then Err QErrInvalidUncleHash
       else if Difficulty h \<noteq> Some 1 then Err QErrInvalidDifficulty
       else if tooEarly e h parent
         then Err QErrInvalidTimestamp
       else if length (Extra h) < ExtraVanity then Err QErrInvalidExtraData
       else rbind (wrap_err (\<lambda>_. QErrInvalidExtraData) (DecodeExtra C h)) (\<lambda>ie.
         rbind (wrap_err QErrRecoverProposer (SignerFromHeader_q G C h)) (\<lambda>proposer.
           if \<not> IsAuthorized_q snap proposer then Err QErrUnauthorizedValidator
           else
             let validators = SignerList_q G snap; quorum = Quorum (length validators) in
             if length (ieCommittedSeals ie) < quorum then Err QErrInsufficientSeals
             else checkSeals G C snap h {} (ieCommittedSeals ie))))"

definition VerifyProposal ::
    "geth \<Rightarrow> IstanbulExtra codec \<Rightarrow> QEngine \<Rightarrow> QSnapshot \<Rightarrow> header \<Rightarrow> header option \<Rightarrow> (qbft_error, unit) result" where
  "VerifyProposal G C e snap h parent =
     rbind (number_of h) (\<lambda>number.
       if UncleHash h \<noteq> emptyUncleHash G then Err QErrInvalidUncleHash
       else if Difficulty h \<noteq> Some 1 then Err QErrInvalidDifficulty
       else if tooEarly e h parent
         then Err QErrInvalidTimestamp
       else if length (Extra h) < ExtraVanity then Err QErrInvalidExtraData
       else rbind (wrap_err (\<lambda>_. QErrInvalidExtraData) (DecodeExtra C h)) (\<lambda>_.
         rbind (wrap_err QErrRecoverProposer (SignerFromHeader_q G C h)) (\<lambda>proposer.
           if \<not> IsAuthorized_q snap proposer then Err QErrUnauthorizedValidator
           else Ok ())))"

text \<open>\<^verbatim>\<open>BuildExtra\<close> panics explicitly when the encoder fails, and on a zero epoch.\<close>

definition BuildExtra_q :: "geth \<Rightarrow> IstanbulExtra codec \<Rightarrow> QEngine \<Rightarrow> QSnapshot \<Rightarrow> u64 \<Rightarrow> (qbft_error, bytes) result" where
  "BuildExtra_q G C e snap number =
     (if qbEpoch e = 0 then Panic
      else let ie = \<lparr>ieValidators = (if number mod qbEpoch e = 0 then SignerList_q G snap else []),
                     ieVote = [], ieRound = 0, ieSeal = [], ieCommittedSeals = []\<rparr>
           in case EncodeExtra C (replicate ExtraVanity 0) ie of Ok extra \<Rightarrow> Ok extra | _ \<Rightarrow> Panic)"

section \<open>The snapshot and engine interfaces\<close>

definition qbft_wf :: "geth \<Rightarrow> QSnapshot \<Rightarrow> bool" where
  "qbft_wf G s \<longleftrightarrow> finite (Validators s) \<and> inj_on (addrHex G) (Validators s) \<and> card (Validators s) < 2 ^ 63"

lemma SignerList_q_facts [simp]:
  "finite (Validators s) \<Longrightarrow> set (SignerList_q G s) = Validators s"
  "distinct (SignerList_q G s)"
  "length (SignerList_q G s) = card (Validators s)"
  by (simp_all add: SignerList_q_def)

text \<open>Any reading order of the map, sorted by the hexadecimal form, gives the same list.\<close>

lemma SignerList_q_unique:
  assumes "finite (Validators s)" and "inj_on (addrHex G) (Validators s)"
    and "set l = Validators s" and "distinct l" and "sorted (map (addrHex G) l)"
  shows "l = SignerList_q G s"
proof (rule map_sorted_distinct_set_unique [of "addrHex G"])
  show "inj_on (addrHex G) (set l \<union> set (SignerList_q G s))" using assms by simp
  show "distinct (map (addrHex G) l)" using assms by (simp add: distinct_map)
  show "distinct (map (addrHex G) (SignerList_q G s))" using assms by (simp add: distinct_map)
qed (use assms in \<open>simp_all add: SignerList_q_def\<close>)

lemma InTurn_q_iff:
  assumes "card (Validators s) < 2 ^ 63"
  shows "InTurn_q G s n a \<longleftrightarrow>
     SignerList_q G s \<noteq> [] \<and> SignerList_q G s ! (unat n mod length (SignerList_q G s)) = a"
  using assms by (auto simp: InTurn_q_def Let_def unat_mod unat_of_nat)

interpretation qbs: consensus_snapshot "qbft_wf G" IsAuthorized_q "SignerList_q G" "InTurn_q G"
  for G :: geth
  by unfold_locales (auto simp: qbft_wf_def IsAuthorized_q_def InTurn_q_iff)

lemma apply_snapshot_q_eq: "apply_snapshot_q G C epoch s hs = rfold (applyHeader_q G C epoch) s hs"
  by (simp add: apply_snapshot_q_def)

interpretation qbe: consensus_engine "apply_snapshot_q G C epoch" qsNumber qsHash "hdrHash G"
  for G :: geth and C :: "IstanbulExtra codec" and epoch :: u64
  by unfold_locales (auto simp: apply_snapshot_q_eq rfold_append applyHeader_q_def)

section \<open>Quorums\<close>

text \<open>The arithmetic of \<^verbatim>\<open>Quorum\<close>: more than two thirds, and reachable without a third.\<close>

lemma Quorum_bounds: "2 * n < 3 * Quorum n" "0 < n \<Longrightarrow> Quorum n \<le> n - (n - 1) div 3"
  by (simp_all add: Quorum_def)

text \<open>
  Any family of quorums over a finite validator set: two quorums share more than a third. The
  engine's final headers and the core's commit sets are both instances.
\<close>

locale quorum_sets =
  fixes V :: "address set" and q :: nat and is_quorum :: "address set \<Rightarrow> bool"
  assumes two_thirds: "2 * card V < 3 * q"
    and quorum_iff: "is_quorum Q \<longleftrightarrow> finite V \<and> Q \<subseteq> V \<and> q \<le> card Q"
begin

lemma intersection_size:
  assumes "is_quorum P" and "is_quorum Q"
  shows "card V < 3 * card (P \<inter> Q)"
proof -
  have finite_V: "finite V" and P: "P \<subseteq> V" "q \<le> card P" and Q: "Q \<subseteq> V" "q \<le> card Q"
    using assms by (simp_all add: quorum_iff)
  then have fin: "finite P" "finite Q" using finite_V by (auto intro: finite_subset)
  have "card (P \<union> Q) \<le> card V" using P Q finite_V by (simp add: card_mono)
  then have "card P + card Q \<le> card V + card (P \<inter> Q)" using card_Un_Int [OF fin] by simp
  then show ?thesis using P(2) Q(2) two_thirds by linarith
qed

text \<open>With at most a third faulty, two quorums share a correct member.\<close>

lemma correct_in_both:
  assumes "is_quorum P" and "is_quorum Q" and "finite B" and "3 * card B \<le> card V"
  shows "\<exists>a \<in> P \<inter> Q. a \<notin> B"
proof (rule ccontr)
  assume "\<not> ?thesis"
  then have "P \<inter> Q \<subseteq> B" by auto
  then have "card (P \<inter> Q) \<le> card B" using assms(3) by (simp add: card_mono)
  with intersection_size [OF assms(1,2)] assms(4) show False by simp
qed

end

text \<open>The quorums of a snapshot are the sets of validators of at least \<^const>\<open>Quorum\<close> size.\<close>

definition snapQuorum :: "QSnapshot \<Rightarrow> address set \<Rightarrow> bool" where
  "snapQuorum s Q \<longleftrightarrow> finite (Validators s) \<and> Q \<subseteq> Validators s \<and> Quorum (card (Validators s)) \<le> card Q"

text \<open>The validators whose commit seal a header carries.\<close>

definition sealers :: "geth \<Rightarrow> IstanbulExtra codec \<Rightarrow> header \<Rightarrow> address set" where
  "sealers G C h =
     {a. \<exists>ie seal. DecodeExtra C h = Ok ie \<and> seal \<in> set (ieCommittedSeals ie) \<and>
           RecoverCommitSealSigner G C h seal = Ok a}"

lemma checkSeals_Ok_iff:
  "checkSeals G C snap h seen seals = Ok () \<longleftrightarrow>
     (\<exists>as. map (RecoverCommitSealSigner G C h) seals = map Ok as \<and> distinct as \<and>
        set as \<inter> seen = {} \<and> set as \<subseteq> Validators snap)"
proof (induction seals arbitrary: seen)
  case Nil
  show ?case by simp
next
  case (Cons seal seals)
  have "checkSeals G C snap h seen (seal # seals) = Ok () \<longleftrightarrow>
      (\<exists>a. RecoverCommitSealSigner G C h seal = Ok a \<and> a \<in> Validators snap \<and> a \<notin> seen \<and>
         checkSeals G C snap h (insert a seen) seals = Ok ())"
    by (simp add: IsAuthorized_q_def)
  also have "\<dots> \<longleftrightarrow> (\<exists>a as. map (RecoverCommitSealSigner G C h) (seal # seals) = map Ok (a # as) \<and>
      distinct (a # as) \<and> set (a # as) \<inter> seen = {} \<and> set (a # as) \<subseteq> Validators snap)"
    unfolding Cons.IH by simp blast
  also have "\<dots> \<longleftrightarrow> (\<exists>bs. map (RecoverCommitSealSigner G C h) (seal # seals) = map Ok bs \<and>
      distinct bs \<and> set bs \<inter> seen = {} \<and> set bs \<subseteq> Validators snap)"
    by (metis list.map_disc_iff list.simps(3) neq_Nil_conv)
  finally show ?case .
qed

text \<open>A final header is a valid proposal with a quorum of distinct authorized commit seals.\<close>

definition sealed_by :: "geth \<Rightarrow> IstanbulExtra codec \<Rightarrow> header \<Rightarrow> address list \<Rightarrow> bool" where
  "sealed_by G C h as \<longleftrightarrow>
     (\<exists>ie. DecodeExtra C h = Ok ie \<and> map (RecoverCommitSealSigner G C h) (ieCommittedSeals ie) = map Ok as)"

lemma VerifyHeader_q_split:
  "VerifyHeader_q G C e snap h parent = Ok () \<longleftrightarrow>
     VerifyProposal G C e snap h parent = Ok () \<and>
     (\<exists>ie. DecodeExtra C h = Ok ie \<and> Quorum (card (Validators snap)) \<le> length (ieCommittedSeals ie) \<and>
        checkSeals G C snap h {} (ieCommittedSeals ie) = Ok ())"
  by (cases "number_of h :: (qbft_error, u64) result"; cases "DecodeExtra C h"; cases "SignerFromHeader_q G C h")
     (simp_all add: VerifyHeader_q_def VerifyProposal_def Let_def not_less del: number_of_simps)

lemma VerifyHeader_q_Ok_iff:
  "VerifyHeader_q G C e snap h parent = Ok () \<longleftrightarrow>
     VerifyProposal G C e snap h parent = Ok () \<and>
     (\<exists>as. sealed_by G C h as \<and> distinct as \<and> set as \<subseteq> Validators snap \<and>
        Quorum (card (Validators snap)) \<le> length as)"
proof -
  have "map (RecoverCommitSealSigner G C h) seals = map Ok as \<Longrightarrow> length seals = length as" for seals as
    by (metis length_map)
  then show ?thesis unfolding VerifyHeader_q_split checkSeals_Ok_iff sealed_by_def by (simp, metis)
qed

lemma sealed_by_sealers: "sealed_by G C h as \<Longrightarrow> sealers G C h = set as"
proof -
  assume "sealed_by G C h as"
  then obtain ie where ie: "DecodeExtra C h = Ok ie"
    and m: "map (RecoverCommitSealSigner G C h) (ieCommittedSeals ie) = map Ok as"
    by (auto simp: sealed_by_def)
  have "RecoverCommitSealSigner G C h ` set (ieCommittedSeals ie) = Ok ` set as"
    using arg_cong [OF m, of set] by simp
  then show ?thesis using ie by (auto simp: sealers_def image_iff set_eq_iff) (metis result.inject(1))+
qed

lemma final_header_quorum:
  assumes "VerifyHeader_q G C e snap h parent = Ok ()" and "finite (Validators snap)"
  shows "snapQuorum snap (sealers G C h)"
proof -
  from assms(1) obtain as where "sealed_by G C h as" "distinct as" "set as \<subseteq> Validators snap"
    "Quorum (card (Validators snap)) \<le> length as" by (auto simp: VerifyHeader_q_Ok_iff)
  then show ?thesis using assms(2) by (simp add: snapQuorum_def sealed_by_sealers distinct_card)
qed

interpretation sq: quorum_sets "Validators s" "Quorum (card (Validators s))" "snapQuorum s"
  for s :: QSnapshot
  by unfold_locales (simp_all add: Quorum_bounds snapQuorum_def)

text \<open>The same for an instance of the core, whose quorum the node computes from the validator list.\<close>

definition voteQuorum :: "address list \<Rightarrow> address set \<Rightarrow> bool" where
  "voteQuorum vs Q \<longleftrightarrow> Q \<subseteq> set vs \<and> Quorum (length vs) \<le> card Q"

interpretation vq: quorum_sets "set vs" "Quorum (length vs)" "voteQuorum vs"
  for vs :: "address list"
  using card_length [of vs] Quorum_bounds(1) [of "length vs"]
  by unfold_locales (simp_all add: voteQuorum_def)

section \<open>From proposal to final header\<close>

lemma VerifyProposal_Ok_iff:
  "VerifyProposal G C e snap h parent = Ok () \<longleftrightarrow>
     hnum h \<noteq> None \<and> UncleHash h = emptyUncleHash G \<and> Difficulty h = Some 1 \<and> \<not> tooEarly e h parent \<and>
     (\<exists>v ie. extra_is C h v ie) \<and> (\<exists>a \<in> Validators snap. SignerFromHeader_q G C h = Ok a)"
proof -
  have "(\<exists>v ie. extra_is C h v ie) \<longleftrightarrow> length (Extra h) \<ge> ExtraVanity \<and> (\<exists>ie. DecodeExtra C h = Ok ie)"
    by (auto simp: DecodeExtra_Ok_iff extra_is_def qbft_consts)
  then show ?thesis
    by (simp add: VerifyProposal_def IsAuthorized_q_def not_less, cases "hnum h") (auto simp: not_less)
qed

lemma VerifyProposal_CommitBlock:
  assumes "istanbul_codec C" and "CommitBlock C h cs = Ok h'"
  shows "VerifyProposal G C e snap h' parent = Ok () \<longleftrightarrow> VerifyProposal G C e snap h parent = Ok ()"
proof -
  note fr = CommitBlock_frame [OF assms]
  from fr(3,4) obtain x where h': "h' = h\<lparr>Extra := x\<rparr>"
    and ex: "\<exists>v ie. extra_is C h v ie" "\<exists>v ie. extra_is C h' v ie" by blast
  have "hnum h' = hnum h \<and> UncleHash h' = UncleHash h \<and> Difficulty h' = Difficulty h \<and> tooEarly e h' parent = tooEarly e h parent"
    by (simp add: h' hnum_def)
  with ex show ?thesis by (simp add: VerifyProposal_Ok_iff fr(1))
qed

lemma commit_seals_recover:
  assumes "map (CreateCommitSeal G C h) ks = map Ok seals" and "\<forall>k \<in> set ks. ecdsa_ok G k"
  shows "map (RecoverCommitSealSigner G C h) seals = map Ok (map (key_address G) ks)"
  using assms
proof (induction ks arbitrary: seals)
  case Nil
  then show ?case by simp
next
  case (Cons k ks)
  from Cons.prems(1) obtain s ss where "seals = s # ss" "CreateCommitSeal G C h k = Ok s"
    "map (CreateCommitSeal G C h) ks = map Ok ss" by (auto simp: Cons_eq_map_conv)
  with Cons show ?case using CreateCommitSeal_signer by simp
qed

lemma committed_verifies:
  assumes C: "istanbul_codec C" and vp: "VerifyProposal G C e snap h parent = Ok ()"
    and seals: "map (CreateCommitSeal G C h) ks = map Ok seals" and ec: "\<forall>k \<in> set ks. ecdsa_ok G k"
    and auth: "distinct (map (key_address G) ks)" "key_address G ` set ks \<subseteq> Validators snap"
      "Quorum (card (Validators snap)) \<le> length ks"
  shows "\<exists>h'. CommitBlock C h seals = Ok h' \<and> VerifyHeader_q G C e snap h' parent = Ok ()"
proof -
  from vp obtain v ie where ex: "extra_is C h v ie" by (auto simp: VerifyProposal_def DecodeExtra_Ok_iff)
  from CommitBlock_Ok [OF C ex] obtain h' where cb: "CommitBlock C h seals = Ok h'"
    and ex': "extra_is C h' v (ie\<lparr>ieCommittedSeals := seals\<rparr>)" by blast
  have "RecoverCommitSealSigner G C h' = RecoverCommitSealSigner G C h"
    by (rule ext) (rule CommitBlock_frame(2) [OF C cb])
  then have "sealed_by G C h' (map (key_address G) ks)"
    unfolding sealed_by_def using commit_seals_recover [OF seals ec]
    by (simp add: extra_is_DecodeExtra [OF ex'])
  then have "VerifyHeader_q G C e snap h' parent = Ok ()"
    unfolding VerifyHeader_q_Ok_iff using VerifyProposal_CommitBlock [OF C cb] vp auth by fastforce
  with cb show ?thesis by blast
qed

section \<open>Epoch headers\<close>

lemma BuildExtra_q_extra:
  assumes C: "istanbul_codec C" and b: "BuildExtra_q G C e s n = Ok (Extra h)"
    and ok: "\<forall>a \<in> Validators s. length a = 20" "finite (Validators s)" and ep: "n mod qbEpoch e = 0"
  shows "\<exists>ie. extra_is C h (replicate 32 0) ie \<and> ieValidators ie = SignerList_q G s"
proof -
  let ?ie = "\<lparr>ieValidators = SignerList_q G s, ieVote = [], ieRound = 0, ieSeal = [], ieCommittedSeals = []\<rparr>"
  have "ie_ok ?ie" using ok by (simp add: ie_ok_def AddressLength_def)
  from EncodeExtra_Ok [OF C this, of "replicate 32 0"] obtain x where
    x: "EncodeExtra C (replicate 32 0) ?ie = Ok x" "\<forall>h. extra_is C (h\<lparr>Extra := x\<rparr>) (replicate 32 0) ?ie" by auto
  from b ep x(1) have "x = Extra h" by (simp add: BuildExtra_q_def Let_def qbft_consts split: if_splits)
  with spec [OF x(2), of h] have "extra_is C h (replicate 32 0) ?ie" by simp
  then show ?thesis by (intro exI [of _ ?ie]) simp
qed

text \<open>The validator list survives sealing and the injection of commit seals.\<close>

lemma sealed_committed_validators:
  assumes C: "istanbul_codec C" and ex: "extra_is C h v ie"
    and seal: "SealHeader_q G C h k = Ok h1" and cb: "CommitBlock C h1 cs = Ok h2"
  shows "\<exists>je. extra_is C h2 v je \<and> ieValidators je = ieValidators ie" and "\<exists>x. h2 = h\<lparr>Extra := x\<rparr>"
proof -
  obtain x sig where h1: "h1 = h\<lparr>Extra := x\<rparr>" and ex1: "extra_is C h1 v (ie\<lparr>ieSeal := sig\<rparr>)"
    by (rule SealHeader_q_Ok [OF C ex seal])
  from CommitBlock_frame(3) [OF C cb] obtain w ie1 where "extra_is C h1 w ie1" "extra_is C h2 w (ie1\<lparr>ieCommittedSeals := cs\<rparr>)"
    by blast
  moreover from this(1) ex1 have "w = v" "ie1 = ie\<lparr>ieSeal := sig\<rparr>" by (auto dest: extra_is_unique)
  ultimately show "\<exists>je. extra_is C h2 v je \<and> ieValidators je = ieValidators ie" by fastforce
  show "\<exists>x. h2 = h\<lparr>Extra := x\<rparr>" using CommitBlock_frame(4) [OF C cb] h1 by auto
qed

lemma epoch_header_snapshot:
  assumes "extra_is C h v ie" and "ieValidators ie \<noteq> []" and "hnum h = Some n"
    and "qbEpoch e \<noteq> 0" and "n mod qbEpoch e = 0"
  shows "NewCheckpointSnapshot_q G C h = Ok (newSnapshot_q n (hdrHash G h) (ieValidators ie))"
    and "Apply_q G C e s [h] = Ok (newSnapshot_q n (hdrHash G h) (ieValidators ie))"
  using assms
  by (simp_all add: NewCheckpointSnapshot_q_def Apply_q_def apply_snapshot_q_def applyHeader_q_def newSnapshot_q_def
      extra_is_DecodeExtra number_of_hnum del: number_of_simps)

section \<open>The engine as an engine with finality\<close>

text \<open>A commit seal that the holder of a usable key of the address created over the header.\<close>

definition sealOver_q :: "geth \<Rightarrow> IstanbulExtra codec \<Rightarrow> header \<Rightarrow> address \<Rightarrow> bytes \<Rightarrow> bool" where
  "sealOver_q G C h a sig \<longleftrightarrow> istanbul_codec C \<and>
     (\<exists>k. ecdsa_ok G k \<and> key_address G k = a \<and> CreateCommitSeal G C h k = Ok sig)"

lemma sealOver_keys:
  assumes "list_all2 (sealOver_q G C h) as seals"
  shows "\<exists>ks. map (key_address G) ks = as \<and> map (CreateCommitSeal G C h) ks = map Ok seals \<and> (\<forall>k \<in> set ks. ecdsa_ok G k)"
  using assms
proof (induction rule: list_all2_induct)
  case Nil
  show ?case by simp
next
  case (Cons a as sig seals)
  then obtain k ks where "ecdsa_ok G k" "key_address G k = a" "CreateCommitSeal G C h k = Ok sig"
    "map (key_address G) ks = as" "map (CreateCommitSeal G C h) ks = map Ok seals" "\<forall>k \<in> set ks. ecdsa_ok G k"
    by (auto simp: sealOver_q_def)
  then show ?case by (intro exI [of _ "k # ks"]) simp
qed

lemma commit_block_final:
  assumes "VerifyProposal G C e s h p = Ok ()" and "list_all2 (sealOver_q G C h) as seals" and "distinct as"
    and "set as \<subseteq> Validators s" and "Quorum (card (Validators s)) \<le> length as"
  shows "\<exists>h'. CommitBlock C h seals = Ok h' \<and> VerifyHeader_q G C e s h' p = Ok ()"
proof -
  from sealOver_keys [OF assms(2)] obtain ks where ks: "map (key_address G) ks = as"
    "map (CreateCommitSeal G C h) ks = map Ok seals" "\<forall>k \<in> set ks. ecdsa_ok G k" by blast
  have "as \<noteq> []" using assms(5) Quorum_bounds(1) [of "card (Validators s)"] by auto
  then have "istanbul_codec C" using assms(2) by (cases as) (auto simp: list_all2_Cons1 sealOver_q_def)
  then show ?thesis using committed_verifies [OF _ assms(1) ks(2,3)] assms(3-5) ks(1) by auto
qed

interpretation qbf: bft_engine "VerifyHeader_q G C e" Quorum "VerifyProposal G C e" "CommitBlock C" Validators "sealers G C" "sealOver_q G C"
  for G :: geth and C :: "IstanbulExtra codec" and e :: QEngine
proof unfold_locales
  show "0 < n \<Longrightarrow> Quorum n \<le> n - (n - 1) div 3" for n by (rule Quorum_bounds(2))
  show "VerifyHeader_q G C e s h p = Ok () \<Longrightarrow> finite (Validators s) \<Longrightarrow>
      sealers G C h \<subseteq> Validators s \<and> Quorum (card (Validators s)) \<le> card (sealers G C h)" for s h p
    using final_header_quorum by (simp add: snapQuorum_def)
  show "VerifyHeader_q G C e s h p = Ok () \<Longrightarrow> VerifyProposal G C e s h p = Ok ()" for s h p
    by (simp add: VerifyHeader_q_split)
qed (rule Quorum_bounds(1), rule commit_block_final)

end
