(* ===== verification/Qbft_Agreement.thy ===== *)
theory Qbft_Agreement
  imports Qbft_Core_Inv Qbft_Engine
begin

text \<open>
  What the runs of the QBFT core guarantee: one COMMIT vote and one committed block per run, each
  backed by a quorum; agreement of two runs of the same view unless more than a third of the
  validators equivocated; and round-change certificates that the next round's core accepts.
\<close>

section \<open>One vote and one block per run\<close>

fun isCommitBlock :: "Decision \<Rightarrow> bool" where
  "isCommitBlock (DCommitBlock _ _) = True"
| "isCommitBlock _ = False"

fun isCommitVote :: "Decision \<Rightarrow> bool" where
  "isCommitVote (DBroadcast t _) = (t = MsgCommit)"
| "isCommitVote _ = False"

definition finalOf :: "Core \<Rightarrow> header option \<Rightarrow> bool" where
  "finalOf c f \<longleftrightarrow>
     (case CommitBlockCb (cfg c) of
        None \<Rightarrow> f = proposalHeader c
      | Some cb \<Rightarrow> \<exists>h. f = Some h \<and> cb (proposalHeader c) (sortedSeals (commits c)) = Ok h)"

lemma finalOf_update [simp]:
  "finalOf (c\<lparr>roundChanges := m\<rparr>) f = finalOf c f" "finalOf (c\<lparr>cState := s\<rparr>) f = finalOf c f"
  by (simp_all add: finalOf_def split: option.split)

definition block_inv :: "Core \<Rightarrow> Decision list \<Rightarrow> bool" where
  "block_inv c ds \<longleftrightarrow>
     (if cState c = stateCommitted
      then \<exists>f. filter isCommitBlock ds = [DCommitBlock f (proposalPayload c)] \<and> finalOf c f
      else filter isCommitBlock ds = [])"

definition vote_inv :: "rlpCodecs \<Rightarrow> Core \<Rightarrow> Decision list \<Rightarrow> bool" where
  "vote_inv K c ds \<longleftrightarrow>
     (cState c \<in> {stateNew, statePrepared} \<longrightarrow> filter isCommitVote ds = []) \<and>
     (filter isCommitVote ds = [] \<or>
      (\<exists>d seal. filter isCommitVote ds = [DBroadcast MsgCommit d] \<and> cQuorum c \<le> length (prepares c) \<and>
         enc (cCommit K) \<lparr>Sequence = cSeq c, Round = cRound c, commBlockHash = proposalHash c, CommitSeal = seal\<rparr> = Some d))"

text \<open>Decisions that are neither a vote nor a block, and steps that keep what the invariants read.\<close>

lemma block_inv_frame:
  assumes "block_inv c ds" and "filter isCommitBlock ds' = []" and "cState c' = stateCommitted \<longleftrightarrow> cState c = stateCommitted"
    and "cState c = stateCommitted \<Longrightarrow> c' = c \<or> (\<exists>m. c' = c\<lparr>roundChanges := m\<rparr>)"
  shows "block_inv c' (ds @ ds')"
  using assms by (auto simp: block_inv_def)

lemma vote_inv_frame:
  assumes "vote_inv K c ds" and "filter isCommitVote ds' = []" and "same_instance c' c"
    and "proposalHash c' = proposalHash c" and "length (prepares c) \<le> length (prepares c')"
    and "cState c' \<in> {stateNew, statePrepared} \<Longrightarrow> cState c \<in> {stateNew, statePrepared}"
  shows "vote_inv K c' (ds @ ds')"
  using assms unfolding vote_inv_def same_instance_def by (simp, metis le_trans)

lemma sendCommit_vote:
  assumes "sendCommit K c = Ok (c', ds)"
  shows "filter isCommitVote ds = [] \<or>
    (\<exists>d seal. ds = [DBroadcast MsgCommit d] \<and>
       enc (cCommit K) \<lparr>Sequence = cSeq c, Round = cRound c, commBlockHash = proposalHash c, CommitSeal = seal\<rparr> = Some d)"
proof -
  let ?c2 = "c\<lparr>cState := stateCommitSent\<rparr>"
  from assms obtain r where "(case r of None \<Rightarrow> Ok (?c2, [])
      | Some seal \<Rightarrow> (case enc (cCommit K) \<lparr>Sequence = cSeq c, Round = cRound c,
                                   commBlockHash = proposalHash c, CommitSeal = seal\<rparr> of
               None \<Rightarrow> Ok (?c2, []) | Some data \<Rightarrow> Ok (?c2, [DBroadcast MsgCommit data]))) = (Ok (c', ds) :: core_result)"
    by (simp add: sendCommit_def Let_def) blast
  then show ?thesis by (auto split: option.split_asm)
qed

lemma no_votes [simp]:
  "\<forall>d \<in> set ds. \<exists>x. d = DBroadcast MsgPrepare x \<Longrightarrow> filter isCommitBlock ds = [] \<and> filter isCommitVote ds = []"
  "\<forall>d \<in> set ds. \<exists>t x. d = DBroadcast t x \<and> t \<in> {MsgProposal, MsgPrepare} \<Longrightarrow>
     filter isCommitBlock ds = [] \<and> filter isCommitVote ds = []"
  by (fastforce simp: filter_empty_conv msg_types)+

lemma startRound_no_vote [simp]: "\<not> isCommitBlock (startRound K r rs)" "\<not> isCommitVote (startRound K r rs)"
  by (simp_all add: startRound_def Let_def split: prod.split)

lemma handleProposal_out:
  assumes "handleProposal G K c m = Ok (c', ds')" and "block_inv c ds" and "vote_inv K c ds"
  shows "block_inv c' (ds @ ds') \<and> vote_inv K c' (ds @ ds')"
  using assms(1)
proof (cases rule: handleProposal_cases)
  case ignored
  then show ?thesis using assms by simp
next
  case (backlogged p)
  then show ?thesis using assms(2,3) by (simp add: addBacklog_def block_inv_def vote_inv_def)
next
  case (accepted p h)
  from enterPrepared_cases [of G K c h "PayloadJSON p"] accepted(6)
  have c': "c' = c\<lparr>proposalHeader := Some h, proposalPayload := PayloadJSON p, proposalHash := hdrHash G h, cState := statePrepared\<rparr>"
    and "\<forall>d \<in> set ds'. \<exists>x. d = DBroadcast MsgPrepare x" by auto
  then have "filter isCommitBlock ds' = [] \<and> filter isCommitVote ds' = []" by (intro no_votes)
  then show ?thesis using assms(2,3) accepted(1) by (simp add: c' block_inv_def vote_inv_def)
qed

lemma handlePrepare_out:
  assumes "handlePrepare K c m = Ok (c', ds')" and bi: "block_inv c ds" and vi: "vote_inv K c ds"
  shows "block_inv c' (ds @ ds') \<and> vote_inv K c' (ds @ ds')"
  using assms(1)
proof (cases rule: handlePrepare_cases)
  case ignored
  then show ?thesis using assms by simp
next
  case (counted p c1)
  have len: "length (prepares c) \<le> length (prepares c1)" by (simp add: counted(6) length_update_ge)
  show ?thesis
  proof (cases "cState c = statePrepared \<and> cQuorum c \<le> length (prepares c1)")
    case True
    then have sc: "sendCommit K c1 = Ok (c', ds')" using counted(7) by simp
    note c' = sendCommit_cases(1) [OF sc]
    have "filter isCommitBlock ds' = []" using sendCommit_cases(2) [OF sc] by auto
    then have "block_inv c' (ds @ ds')" using bi True by (simp add: block_inv_def c')
    moreover have "vote_inv K c' (ds @ ds')"
      using sendCommit_vote [OF sc] vi True by (auto simp: vote_inv_def c' counted(6))
    ultimately show ?thesis by simp
  next
    case False
    then have c': "c' = c1" and ds': "ds' = []" using counted(7) by auto
    have "vote_inv K c' (ds @ ds')"
      by (rule vote_inv_frame [OF vi]) (use len in \<open>simp_all add: c' ds' counted(6) same_instance_def\<close>)
    moreover have "block_inv c' (ds @ ds')" using bi counted(1) by (simp add: block_inv_def c' ds' counted(6))
    ultimately show ?thesis by simp
  qed
qed

lemma handleCommit_out:
  assumes "handleCommit K c m = Ok (c', ds')" and bi: "block_inv c ds" and vi: "vote_inv K c ds"
  shows "block_inv c' (ds @ ds') \<and> vote_inv K c' (ds @ ds')"
  using assms(1)
proof (cases rule: handleCommit_cases)
  case ignored
  then show ?thesis using assms by simp
next
  case (counted cm c1)
  have none: "filter isCommitBlock ds = []" using bi counted(1) by (simp add: block_inv_def)
  show ?thesis
  proof (cases "c' = c1 \<and> ds' = []")
    case True
    have "vote_inv K c' (ds @ ds')" by (rule vote_inv_frame [OF vi]) (simp_all add: True counted(7) same_instance_def)
    then show ?thesis using none counted(1) by (simp add: block_inv_def True counted(7))
  next
    case False
    then have "finishCommit c1 = Ok (c', ds')" using counted(8) by (auto split: if_splits)
    then obtain f where f: "c' = c1\<lparr>cState := stateCommitted\<rparr>" "ds' = [DCommitBlock f (proposalPayload c1)]" "finalOf c1 f"
      by (cases rule: finishCommit_cases) (use False in \<open>simp_all add: finalOf_def\<close>)
    have "vote_inv K c' (ds @ ds')" by (rule vote_inv_frame [OF vi]) (simp_all add: f counted(7) same_instance_def)
    moreover have "block_inv c' (ds @ ds')" using none f(3) by (simp add: block_inv_def f(1,2))
    ultimately show ?thesis by simp
  qed
qed

lemma handleRoundChange_out:
  assumes "handleRoundChange K ord c m = Ok (c', ds')" and bi: "block_inv c ds" and vi: "vote_inv K c ds"
  shows "block_inv c' (ds @ ds') \<and> vote_inv K c' (ds @ ds')"
  using assms(1)
proof (cases rule: handleRoundChange_cases)
  case ignored
  then show ?thesis using assms by simp
next
  case (counted rc)
  have none: "filter isCommitBlock ds' = []" "filter isCommitVote ds' = []" by (simp_all add: counted(5))
  have "block_inv c' (ds @ ds')" by (rule block_inv_frame [OF bi none(1)]) (auto simp: counted(4))
  moreover have "vote_inv K c' (ds @ ds')" by (rule vote_inv_frame [OF vi none(2)]) (simp_all add: counted(4) same_instance_def)
  ultimately show ?thesis by simp
qed

lemma HandleMsg_out:
  assumes "HandleMsg G K ord c m = Ok (c', ds')" and "block_inv c ds" and "vote_inv K c ds"
  shows "block_inv c' (ds @ ds') \<and> vote_inv K c' (ds @ ds')"
  using assms(1)
proof (cases rule: HandleMsg_cases)
  case ignored
  then show ?thesis using assms by simp
next
  case proposal
  then show ?thesis using handleProposal_out assms(2,3) by blast
next
  case prepare
  then show ?thesis using handlePrepare_out assms(2,3) by blast
next
  case commit
  then show ?thesis using handleCommit_out assms(2,3) by blast
next
  case roundChange
  then show ?thesis using handleRoundChange_out assms(2,3) by blast
qed

lemma StartProposer_out:
  assumes "StartProposer G K c h p rcc = (c', ds')" and "block_inv c ds" and "vote_inv K c ds"
    and "cState c \<in> {stateNew, statePrepared}"
  shows "block_inv c' (ds @ ds') \<and> vote_inv K c' (ds @ ds')"
  using StartProposer_cases [OF assms(1)]
proof
  assume "c' = c \<and> ds' = []"
  then show ?thesis using assms(2,3) by simp
next
  assume *: "c' = c\<lparr>proposalHeader := Some h, proposalPayload := p, proposalHash := hdrHash G h, cState := statePrepared\<rparr> \<and>
     (\<forall>d \<in> set ds'. \<exists>t x. d = DBroadcast t x \<and> t \<in> {MsgProposal, MsgPrepare})"
  then have "filter isCommitBlock ds' = [] \<and> filter isCommitVote ds' = []" by (intro no_votes) simp
  then show ?thesis using * assms(2-4) by (auto simp: block_inv_def vote_inv_def)
qed

lemma Timeout_out:
  assumes "Timeout K c = (c', ds')" and "block_inv c ds" and "vote_inv K c ds"
  shows "block_inv c' (ds @ ds') \<and> vote_inv K c' (ds @ ds')"
  using Timeout_cases [OF assms(1)] assms(2,3)
  by (auto simp: block_inv_def vote_inv_def msg_types)

lemma core_run_out:
  assumes "core_run G K (New_core s r vs q config) es c ds"
  shows "block_inv c ds \<and> vote_inv K c ds"
  using assms
proof (induction rule: core_run.induct)
  case init
  show ?case by (simp add: New_core_def block_inv_def vote_inv_def)
next
  case (start es c ds h p rcc c' ds')
  then show ?case using StartProposer_out by blast
next
  case (msg es c ds ord m c' ds')
  then show ?case using HandleMsg_out by blast
next
  case (timeout es c ds c' ds')
  then show ?case using Timeout_out by blast
qed

section \<open>Agreement\<close>

text \<open>The validators whose COMMIT for a hash a run received.\<close>

definition committers :: "rlpCodecs \<Rightarrow> core_event list \<Rightarrow> u64 \<Rightarrow> u32 \<Rightarrow> hash \<Rightarrow> address set" where
  "committers K es s r h = {a. \<exists>seal. gotCommit K es s r a h seal}"

lemma committed_quorum:
  assumes run: "core_run G K (New_core s r vs (Quorum (length vs)) config) es c ds"
    and st: "cState c = stateCommitted"
  shows "voteQuorum vs (committers K es s r (proposalHash c) \<inter> set vs)"
proof -
  from core_run_inv [OF run] have vi: "votes_inv G K es c" and ph: "phase_inv G c"
    and si: "same_instance c (New_core s r vs (Quorum (length vs)) config)" by blast+
  then have view: "cSeq c = s" "cRound c = r" "cQuorum c = Quorum (length vs)" "cValidators c = set vs"
    by (simp_all add: same_instance_def New_core_def)
  have "fst ` set (commits c) \<subseteq> committers K es s r (proposalHash c) \<inter> set vs"
    using vi unfolding votes_inv_def view committers_def by fastforce
  then have "card (fst ` set (commits c)) \<le> card (committers K es s r (proposalHash c) \<inter> set vs)"
    by (intro card_mono) auto
  moreover have "length (commits c) = card (fst ` set (commits c))"
    using vi by (intro length_eq_card_fst) (simp add: votes_inv_def)
  moreover have "Quorum (length vs) \<le> length (commits c)" using ph st view by (simp add: phase_inv_def)
  ultimately show ?thesis by (simp add: voteQuorum_def)
qed

lemma round_agreement:
  assumes "core_run G K (New_core s r vs (Quorum (length vs)) config1) es1 c1 ds1" and "cState c1 = stateCommitted"
    and "core_run G K (New_core s r vs (Quorum (length vs)) config2) es2 c2 ds2" and "cState c2 = stateCommitted"
  shows "card (set vs) < 3 * card (committers K es1 s r (proposalHash c1) \<inter> committers K es2 s r (proposalHash c2) \<inter> set vs)"
proof -
  have "card (set vs) < 3 * card ((committers K es1 s r (proposalHash c1) \<inter> set vs) \<inter> (committers K es2 s r (proposalHash c2) \<inter> set vs))"
    by (rule vq.intersection_size [OF committed_quorum [OF assms(1,2)] committed_quorum [OF assms(3,4)]])
  then show ?thesis by (simp add: Int_ac)
qed

section \<open>Round-change certificates\<close>

text \<open>Every stored ROUND_CHANGE record comes from a message of the run of the same sender.\<close>

definition rc_inv :: "rlpCodecs \<Rightarrow> core_event list \<Rightarrow> Core \<Rightarrow> bool" where
  "rc_inv K es c \<longleftrightarrow>
     distinct (map fst (roundChanges c)) \<and>
     (\<forall>(a, rec) \<in> set (roundChanges c). a \<in> cValidators c \<and>
        (\<exists>m rc. EMsg m \<in> set es \<and> MsgType m = MsgRoundChange \<and> From m = a \<and> dec (cRoundChange K) (Data m) = Some rc \<and>
           rec = recordOf rc m \<and> Sequence rc = cSeq c))"

lemma rc_inv_frame:
  "rc_inv K es c \<Longrightarrow> roundChanges c' = roundChanges c \<Longrightarrow> same_instance c' c \<Longrightarrow> rc_inv K (es @ fs) c'"
  unfolding rc_inv_def same_instance_def by auto blast

lemma HandleMsg_roundChanges:
  assumes "HandleMsg G K ord c m = Ok (c', ds)" and "MsgType m \<noteq> MsgRoundChange"
  shows "roundChanges c' = roundChanges c"
  using assms(1)
proof (cases rule: HandleMsg_cases)
  case proposal
  from proposal(3) show ?thesis
  proof (cases rule: handleProposal_cases)
    case (accepted p h)
    with enterPrepared_cases [of G K c h "PayloadJSON p"] show ?thesis by auto
  qed (simp_all add: addBacklog_def)
next
  case prepare
  from prepare(3) show ?thesis
    by (cases rule: handlePrepare_cases) (auto dest: sendCommit_cases split: if_split_asm)
next
  case commit
  from commit(3) show ?thesis
    by (cases rule: handleCommit_cases) (auto elim!: finishCommit_cases split: if_split_asm)
qed (use assms(2) in simp_all)

lemma HandleMsg_rc_inv:
  assumes rc: "rc_inv K es c" and hm: "HandleMsg G K ord c m = Ok (c', ds)" and si: "same_instance c' c"
  shows "rc_inv K (es @ [EMsg m]) c'"
proof (cases "MsgType m = MsgRoundChange \<and> From m \<in> cValidators c")
  case False
  then have "roundChanges c' = roundChanges c"
    using HandleMsg_roundChanges [OF hm] hm by (auto simp: HandleMsg_def)
  then show ?thesis using rc_inv_frame [OF rc _ si] by blast
next
  case True
  with hm have "handleRoundChange K ord c m = Ok (c', ds)" by (simp add: HandleMsg_def msg_types)
  then show ?thesis
  proof (cases rule: handleRoundChange_cases)
    case ignored
    then show ?thesis using rc_inv_frame [OF rc _ si] by blast
  next
    case (counted rcm)
    have d: "distinct (map fst (roundChanges c))" using rc by (simp add: rc_inv_def)
    have "rc_inv K (es @ [EMsg m]) c" using rc_inv_frame [OF rc] by simp
    then show ?thesis unfolding rc_inv_def counted(4)
      using True counted(1,2) d by (auto simp: distinct_fst_update set_alist_update)
  qed
qed

lemma core_run_rc_inv:
  assumes "core_run G K (New_core s r vs q config) es c ds"
  shows "rc_inv K es c"
  using assms
proof (induction rule: core_run.induct)
  case init
  show ?case by (simp add: New_core_def rc_inv_def)
next
  case (start es c ds h p rcc c' ds')
  then have "roundChanges c' = roundChanges c \<and> same_instance c' c"
    using StartProposer_cases [OF start.hyps(5)] by (auto simp: same_instance_def)
  then show ?case using rc_inv_frame [OF start.IH] by blast
next
  case (msg es c ds ord m c' ds')
  have "same_instance c' c" using core_run_inv [OF msg.hyps(1)] HandleMsg_inv [OF _ _ msg.hyps(3)] by blast
  then show ?case using HandleMsg_rc_inv [OF msg.IH msg.hyps(3)] by blast
next
  case (timeout es c ds c' ds')
  then have "roundChanges c' = roundChanges c \<and> same_instance c' c"
    using Timeout_cases [OF timeout.hyps(2)] by (auto simp: same_instance_def)
  then show ?case using rc_inv_frame [OF timeout.IH] by blast
qed

text \<open>A certificate whose entries verify to distinct unseen validators is counted in full.\<close>

lemma countRCC_all:
  assumes "\<forall>e \<in> set rcc. \<exists>a. f MsgRoundChange (srcData e) (srcSig e) = Ok a \<and> a \<in> cValidators c \<and> a \<notin> seen \<and>
       (\<exists>rc. dec (cRoundChange K) (srcData e) = Some rc \<and> Sequence rc = cSeq c \<and> Round rc = cRound c)"
    and "distinct (map (\<lambda>e. f MsgRoundChange (srcData e) (srcSig e)) rcc)"
  shows "countRCC K c f seen n rcc = Ok (n + length rcc)"
  using assms
proof (induction rcc arbitrary: seen n)
  case Nil
  show ?case by simp
next
  case (Cons e rcc)
  from Cons.prems(1) obtain a rc where e: "f MsgRoundChange (srcData e) (srcSig e) = Ok a" "a \<in> cValidators c" "a \<notin> seen"
    "dec (cRoundChange K) (srcData e) = Some rc" "Sequence rc = cSeq c" "Round rc = cRound c" by auto
  have "countRCC K c f (insert a seen) (n + 1) rcc = Ok (n + 1 + length rcc)"
  proof (rule Cons.IH)
    show "\<forall>e \<in> set rcc. \<exists>b. f MsgRoundChange (srcData e) (srcSig e) = Ok b \<and> b \<in> cValidators c \<and> b \<notin> insert a seen \<and>
       (\<exists>rc. dec (cRoundChange K) (srcData e) = Some rc \<and> Sequence rc = cSeq c \<and> Round rc = cRound c)"
    proof
      fix x assume x: "x \<in> set rcc"
      with Cons.prems(2) e(1) have "f MsgRoundChange (srcData x) (srcSig x) \<noteq> Ok a" by force
      with Cons.prems(1) x show "\<exists>b. f MsgRoundChange (srcData x) (srcSig x) = Ok b \<and> b \<in> cValidators c \<and> b \<notin> insert a seen \<and>
         (\<exists>rc. dec (cRoundChange K) (srcData x) = Some rc \<and> Sequence rc = cSeq c \<and> Round rc = cRound c)"
        by (metis insertE list.set_intros(2))
    qed
  qed (use Cons.prems in simp)
  then show ?case using e by simp
qed

lemma distinct_map_mset: "mset xs = mset ys \<Longrightarrow> distinct (map g xs) \<longleftrightarrow> distinct (map g ys)"
  by (metis mset_eq_imp_distinct_iff mset_map)

text \<open>
  The certificate of a start-round decision is accepted by any core of the new round with the same
  validators and quorum, when its signature check attributes the received messages to their senders.
\<close>

lemma startRound_rcc_valid:
  assumes ri: "rc_inv K es c" and mo: "map_order ord"
    and q: "cQuorum c2 \<le> length (recordsFor ord c r)"
    and c2: "cSeq c2 = cSeq c" "cValidators c2 = cValidators c" "cRound c2 = r"
    and f: "RoundChangeSigVerifier (cfg c2) = Some f"
    and sigs: "\<forall>m. EMsg m \<in> set es \<and> MsgType m = MsgRoundChange \<longrightarrow> f MsgRoundChange (Data m) (Sig m) = Ok (From m)"
  shows "verifyRCC K c2 (map (\<lambda>x. \<lparr>srcData = rcData x, srcSig = rcSig x\<rparr>) (sort_key rcData (recordsFor ord c r))) = Ok True"
proof -
  let ?rs = "recordsFor ord c r" and ?g = "\<lambda>x. f MsgRoundChange (rcData x) (rcSig x)"
  let ?rcc = "map (\<lambda>x. \<lparr>srcData = rcData x, srcSig = rcSig x\<rparr>) (sort_key rcData ?rs)"
  have rec: "?g x = Ok a \<and> a \<in> cValidators c \<and>
      (\<exists>rc. dec (cRoundChange K) (rcData x) = Some rc \<and> Sequence rc = cSeq c \<and> Round rc = rcRound x)"
    if "(a, x) \<in> set (roundChanges c)" for a x
  proof -
    from ri that obtain m rc where "a \<in> cValidators c" "EMsg m \<in> set es" "MsgType m = MsgRoundChange" "From m = a"
      "dec (cRoundChange K) (Data m) = Some rc" "x = recordOf rc m" "Sequence rc = cSeq c"
      unfolding rc_inv_def by blast
    with sigs show ?thesis by (simp add: recordOf_def)
  qed
  have set_ord: "set (ord xs) = set xs" for xs using mo by (metis map_order_def set_mset_mset)
  have "?g (snd p) = Ok (fst p)" if "p \<in> set (roundChanges c)" for p using rec [of "fst p" "snd p"] that by simp
  then have "map ?g (map snd (roundChanges c)) = map Ok (map fst (roundChanges c))" by simp
  moreover have "distinct (map Ok (map fst (roundChanges c)))"
    using ri by (simp only: distinct_map [of Ok]) (simp add: rc_inv_def inj_on_def)
  ultimately have "distinct (map ?g (map snd (roundChanges c)))" by (simp only:)
  then have "distinct (map ?g (ord (map snd (roundChanges c))))"
    using mo distinct_map_mset [of "ord (map snd (roundChanges c))" "map snd (roundChanges c)" ?g]
    by (simp add: map_order_def)
  then have "distinct (map ?g ?rs)" unfolding recordsFor_def by (rule distinct_map_filter_pred)
  then have "distinct (map ?g (sort_key rcData ?rs))"
    using distinct_map_mset [of "sort_key rcData ?rs" ?rs ?g] by simp
  then have "distinct (map (\<lambda>e. f MsgRoundChange (srcData e) (srcSig e)) ?rcc)" by (simp add: comp_def)
  moreover have "\<forall>e \<in> set ?rcc. \<exists>a. f MsgRoundChange (srcData e) (srcSig e) = Ok a \<and> a \<in> cValidators c2 \<and> a \<notin> {} \<and>
       (\<exists>rc. dec (cRoundChange K) (srcData e) = Some rc \<and> Sequence rc = cSeq c2 \<and> Round rc = cRound c2)"
  proof
    fix e assume "e \<in> set ?rcc"
    then obtain x where x: "x \<in> set ?rs" and e: "e = \<lparr>srcData = rcData x, srcSig = rcSig x\<rparr>" by auto
    from x have "rcRound x = r" and "x \<in> snd ` set (roundChanges c)" by (simp_all add: recordsFor_def set_ord)
    then obtain a where "(a, x) \<in> set (roundChanges c)" by force
    from rec [OF this] \<open>rcRound x = r\<close> show "\<exists>a. f MsgRoundChange (srcData e) (srcSig e) = Ok a \<and> a \<in> cValidators c2 \<and> a \<notin> {} \<and>
       (\<exists>rc. dec (cRoundChange K) (srcData e) = Some rc \<and> Sequence rc = cSeq c2 \<and> Round rc = cRound c2)"
      by (simp add: e c2)
  qed
  ultimately have "countRCC K c2 f {} 0 ?rcc = Ok (0 + length ?rcc)" by (intro countRCC_all)
  then show ?thesis using q f by (simp add: verifyRCC_def)
qed

text \<open>Only a ROUND_CHANGE message that completes a quorum makes a core emit a start-round decision.\<close>

lemma HandleMsg_startRound:
  assumes "HandleMsg G K ord c0 m = Ok (c, ds)" and "DStartRound r' h p rcc \<in> set ds"
  shows "\<exists>rc. dec (cRoundChange K) (Data m) = Some rc \<and> Round rc > cRound c0 \<and>
     ds = [startRound K (Round rc) (recordsFor ord c (Round rc))] \<and> cQuorum c0 \<le> length (recordsFor ord c (Round rc))"
  using assms(1)
proof (cases rule: HandleMsg_cases)
  case proposal
  from proposal(3) show ?thesis
  proof (cases rule: handleProposal_cases)
    case (accepted p h)
    with enterPrepared_cases [of G K c0 h "PayloadJSON p"] assms(2) show ?thesis by auto
  qed (use assms(2) in simp_all)
next
  case prepare
  from prepare(3) show ?thesis
    by (cases rule: handlePrepare_cases) (use assms(2) in \<open>auto dest: sendCommit_cases(2) split: if_split_asm\<close>)
next
  case commit
  from commit(3) show ?thesis
    by (cases rule: handleCommit_cases) (use assms(2) in \<open>auto elim!: finishCommit_cases split: if_split_asm\<close>)
next
  case roundChange
  from roundChange(3) show ?thesis
    by (cases rule: handleRoundChange_cases) (use assms(2) in \<open>auto split: if_split_asm\<close>)
qed (use assms(2) in simp)

end
