(* ===== verification/Node_Qbft.thy ===== *)
theory Node_Qbft
  imports Qbft_Agreement
begin

text \<open>
  The QBFT part of the node that wires the core to the engine: \<^verbatim>\<open>node/qbft_loop.go\<close>. Modelled are the
  signed message envelope, the callbacks the node gives to a core, the choice of the proposer, and the
  re-sealing of a prepared header for a new round.
\<close>

section \<open>The message envelope\<close>

record QBFTMsg =
  qmType :: byte
  qmData :: bytes
  qmSig :: bytes

definition qbftMsgHash :: "geth \<Rightarrow> QBFTMsg \<Rightarrow> (qbft_error, hash) result" where
  "qbftMsgHash G m =
     (case rlpList G [RUint (ucast (qmType m)), RBytes (qmData m)] of
        None \<Rightarrow> Panic
      | Some b \<Rightarrow> Ok (Keccak256 G b))"

definition signQBFTMsg :: "geth \<Rightarrow> QBFTMsg \<Rightarrow> privkey \<Rightarrow> (qbft_error, QBFTMsg) result" where
  "signQBFTMsg G m key =
     rbind (qbftMsgHash G m) (\<lambda>hash.
       case Sign G hash key of
         None \<Rightarrow> Err QErrSign
       | Some sig \<Rightarrow> Ok (m\<lparr>qmSig := sig\<rparr>))"

definition recoverQBFTMsgSender :: "geth \<Rightarrow> QBFTMsg \<Rightarrow> (qbft_error, address) result" where
  "recoverQBFTMsgSender G m =
     (if length (qmSig m) \<noteq> 65 then Err QErrSealLength
      else rbind (qbftMsgHash G m) (\<lambda>hash. recoverAddress G hash (qmSig m)))"

text \<open>The conversion at the head of the round loop: the sender is recovered, then dispatched.\<close>

definition incomingOf :: "geth \<Rightarrow> QBFTMsg \<Rightarrow> (qbft_error, IncomingMsg) result" where
  "incomingOf G raw =
     rbind (recoverQBFTMsgSender G raw) (\<lambda>from.
       Ok \<lparr>MsgType = qmType raw, From = from, Data = qmData raw, Sig = qmSig raw\<rparr>)"

lemma signed_msg_sender:
  assumes "ecdsa_ok G k" and "signQBFTMsg G m k = Ok m'"
  shows "recoverQBFTMsgSender G m' = Ok (key_address G k)"
proof -
  from assms(2) obtain d sig where d: "qbftMsgHash G m = Ok d" "Sign G d k = Some sig" "m' = m\<lparr>qmSig := sig\<rparr>"
    by (auto simp: signQBFTMsg_def split: option.split_asm)
  have "qbftMsgHash G m' = Ok d" using d by (simp add: qbftMsgHash_def)
  then show ?thesis using recoverAddress_signed [OF assms(1) d(2)] d(3) by (simp add: recoverQBFTMsgSender_def)
qed

section \<open>Callbacks\<close>

definition nodeProposalVerifier ::
    "geth \<Rightarrow> IstanbulExtra codec \<Rightarrow> QEngine \<Rightarrow> QSnapshot \<Rightarrow> header \<Rightarrow> header \<Rightarrow> (qbft_error, unit) result" where
  "nodeProposalVerifier G C e snap parent h = VerifyProposal G C e snap h (Some parent)"

definition nodeCommitSealSigner ::
    "geth \<Rightarrow> IstanbulExtra codec \<Rightarrow> privkey option \<Rightarrow> header option \<Rightarrow> (qbft_error, bytes) result" where
  "nodeCommitSealSigner G C signerKey h =
     (case signerKey of
        None \<Rightarrow> Ok []
      | Some k \<Rightarrow> rbind (deref h) (\<lambda>h. CreateCommitSeal G C h k))"

definition nodeCommitSealVerifier ::
    "geth \<Rightarrow> IstanbulExtra codec \<Rightarrow> header option \<Rightarrow> bytes \<Rightarrow> (qbft_error, address) result" where
  "nodeCommitSealVerifier G C h seal = rbind (deref h) (\<lambda>h. RecoverCommitSealSigner G C h seal)"

definition nodeCommitBlock ::
    "IstanbulExtra codec \<Rightarrow> header option \<Rightarrow> bytes list \<Rightarrow> (qbft_error, header) result" where
  "nodeCommitBlock C h seals = rbind (deref h) (\<lambda>h. CommitBlock C h seals)"

definition nodeRoundChangeSigVerifier ::
    "geth \<Rightarrow> byte \<Rightarrow> bytes \<Rightarrow> bytes \<Rightarrow> (qbft_error, address) result" where
  "nodeRoundChangeSigVerifier G msgType data sig =
     recoverQBFTMsgSender G \<lparr>qmType = msgType, qmData = data, qmSig = sig\<rparr>"

lemmas node_callbacks = nodeProposalVerifier_def nodeCommitSealSigner_def nodeCommitSealVerifier_def
  nodeCommitBlock_def nodeRoundChangeSigVerifier_def

definition nodeConfig ::
    "geth \<Rightarrow> IstanbulExtra codec \<Rightarrow> QEngine \<Rightarrow> QSnapshot \<Rightarrow> header \<Rightarrow> privkey option \<Rightarrow> Config" where
  "nodeConfig G C e snap parent signerKey =
     \<lparr>ProposalVerifier = Some (nodeProposalVerifier G C e snap parent),
      CommitSealSigner = Some (nodeCommitSealSigner G C signerKey),
      CommitSealVerifier = Some (nodeCommitSealVerifier G C),
      CommitBlockCb = Some (nodeCommitBlock C),
      RoundChangeSigVerifier = Some (nodeRoundChangeSigVerifier G)\<rparr>"

text \<open>The core of one round: validators and quorum come from the snapshot.\<close>

definition nodeCore ::
    "geth \<Rightarrow> IstanbulExtra codec \<Rightarrow> QEngine \<Rightarrow> QSnapshot \<Rightarrow> header \<Rightarrow> privkey option \<Rightarrow> u64 \<Rightarrow> u32 \<Rightarrow> Core" where
  "nodeCore G C e snap parent key nextNum round =
     New_core nextNum round (SignerList_q G snap) (Quorum (length (SignerList_q G snap)))
       (nodeConfig G C e snap parent key)"

section \<open>The proposer\<close>

text \<open>
  \<^verbatim>\<open>(int(number) + int(round)) % len(validators)\<close>: the sum wraps at 64 bits, and a negative remainder
  makes the index expression panic.
\<close>

definition isQBFTProposerForRound ::
    "geth \<Rightarrow> QSnapshot \<Rightarrow> (privkey \<times> address) option \<Rightarrow> u64 \<Rightarrow> u32 \<Rightarrow> (qbft_error, bool) result" where
  "isQBFTProposerForRound G snap signer number round =
     (case signer of
        None \<Rightarrow> Ok False
      | Some (_, signerAddr) \<Rightarrow>
          let validators = SignerList_q G snap in
          if length validators = 0 then Ok False
          else
            let sum = sint (number + ucast round);
                idx = sgn sum * (\<bar>sum\<bar> mod int (length validators))
            in if idx < 0 then Panic else Ok (validators ! nat idx = signerAddr))"

lemma proposer_position:
  assumes "SignerList_q G snap \<noteq> []" and "unat number + unat round < 2 ^ 63"
  shows "isQBFTProposerForRound G snap (Some (k, a)) number round =
    Ok (SignerList_q G snap ! ((unat number + unat round) mod length (SignerList_q G snap)) = a)"
proof -
  let ?w = "number + ucast round :: u64"
  have "unat round < 2 ^ LENGTH(32)" by (rule unsigned_less)
  then have "unat (ucast round :: u64) = unat round" by (simp add: unsigned_ucast_eq take_bit_nat_eq_self)
  then have u: "unat ?w = unat number + unat round" using assms(2) by (simp add: unat_word_ariths)
  then have s: "sint ?w = int (unat number + unat round)" using sint_small [of ?w] assms(2) by simp
  have "nat (int (unat number + unat round) mod int (length (SignerList_q G snap))) =
      (unat number + unat round) mod length (SignerList_q G snap)" by (simp only: zmod_int [symmetric] nat_int)
  moreover have "sgn (int n) * (int n mod int l) = int n mod int l" for n l by (cases "n = 0") simp_all
  moreover have "\<not> int (unat number + unat round) mod int (length (SignerList_q G snap)) < 0"
    using assms(1) by (simp only: zmod_int [symmetric] not_less of_nat_0_le_iff)
  ultimately show ?thesis
    using assms(1) unfolding isQBFTProposerForRound_def option.case prod.case Let_def s abs_of_nat length_0_conv
    by (simp only: if_False)
qed

section \<open>Re-sealing a prepared header\<close>

definition reuseQBFTPreparedHeader ::
    "geth \<Rightarrow> IstanbulExtra codec \<Rightarrow> header \<Rightarrow> u32 \<Rightarrow> privkey \<Rightarrow> (qbft_error, header) result" where
  "reuseQBFTPreparedHeader G C prepared newRound key =
     rbind (DecodeExtra C prepared) (\<lambda>ie.
     let ie' = ie\<lparr>ieRound := newRound, ieSeal := [], ieCommittedSeals := []\<rparr> in
     rbind (vanityOf prepared) (\<lambda>v.
     rbind (EncodeExtra C v ie') (\<lambda>extra.
       SealHeader_q G C (prepared\<lparr>Extra := extra\<rparr>) key)))"

lemma reuse_prepared_frame:
  assumes C: "istanbul_codec C" and ex: "extra_is C h v ie" and re: "reuseQBFTPreparedHeader G C h r k = Ok h'"
  shows "\<exists>x sig. h' = h\<lparr>Extra := x\<rparr> \<and>
    extra_is C h' v (ie\<lparr>ieRound := r, ieSeal := sig, ieCommittedSeals := []\<rparr>)"
proof -
  let ?ie = "ie\<lparr>ieRound := r, ieSeal := [], ieCommittedSeals := []\<rparr>"
  have "ie_ok ?ie" using extra_is_ok [OF C ex] by (simp add: ie_ok_def)
  from reencode [OF C ex this] obtain x where x: "EncodeExtra C v ?ie = Ok x" "extra_is C (h\<lparr>Extra := x\<rparr>) v ?ie" by blast
  from re x(1) have "SealHeader_q G C (h\<lparr>Extra := x\<rparr>) k = Ok h'"
    by (simp add: reuseQBFTPreparedHeader_def extra_is_DecodeExtra [OF ex] vanityOf_eq [OF ex] Let_def)
  then obtain y d sig where "h' = h\<lparr>Extra := x\<rparr>\<lparr>Extra := y\<rparr>" "extra_is C h' v (?ie\<lparr>ieSeal := sig\<rparr>)"
    by (rule SealHeader_q_Ok [OF C x(2)])
  moreover have "?ie\<lparr>ieSeal := sig\<rparr> = ie\<lparr>ieRound := r, ieSeal := sig, ieCommittedSeals := []\<rparr>"
    by (rule IstanbulExtra.equality) simp_all
  ultimately have "h' = h\<lparr>Extra := y\<rparr>" "extra_is C h' v (ie\<lparr>ieRound := r, ieSeal := sig, ieCommittedSeals := []\<rparr>)" by simp_all
  then show ?thesis by blast
qed

text \<open>A re-sealed header that was a valid proposal is one again, with the new sealer as proposer.\<close>

lemma reuse_prepared_verifies:
  assumes C: "istanbul_codec C" and vp: "VerifyProposal G C e snap h parent = Ok ()"
    and re: "reuseQBFTPreparedHeader G C h r k = Ok h'" and ec: "ecdsa_ok G k"
    and auth: "key_address G k \<in> Validators snap"
  shows "VerifyProposal G C e snap h' parent = Ok ()"
proof -
  from vp obtain v ie where ex: "extra_is C h v ie" unfolding VerifyProposal_Ok_iff by blast
  from reuse_prepared_frame [OF C ex re] obtain x sig where h': "h' = h\<lparr>Extra := x\<rparr>"
    and ex': "extra_is C h' v (ie\<lparr>ieRound := r, ieSeal := sig, ieCommittedSeals := []\<rparr>)" by blast
  have "SignerFromHeader_q G C h' = Ok (key_address G k)"
    using re by (simp add: reuseQBFTPreparedHeader_def Let_def) (blast intro: SealHeader_q_signer [OF C _ ec])
  moreover have "hnum h' = hnum h \<and> UncleHash h' = UncleHash h \<and> Difficulty h' = Difficulty h \<and> tooEarly e h' parent = tooEarly e h parent"
    by (simp add: h' hnum_def)
  ultimately show ?thesis using vp auth ex' unfolding VerifyProposal_Ok_iff by (simp, blast)
qed

section \<open>Committed headers verify\<close>

text \<open>The recorded proposal was started by the node or passed the verifier.\<close>

definition prop_inv :: "core_event list \<Rightarrow> Core \<Rightarrow> bool" where
  "prop_inv es c \<longleftrightarrow>
     (\<forall>h. proposalHeader c = Some h \<longrightarrow>
        (\<exists>p rcc. EStart h p rcc \<in> set es) \<or> (\<forall>f. ProposalVerifier (cfg c) = Some f \<longrightarrow> f h = Ok ()))"

lemma HandleMsg_proposal:
  assumes "HandleMsg G K ord c m = Ok (c', ds)"
  shows "proposalHeader c' = proposalHeader c \<or>
    (\<exists>h. proposalHeader c' = Some h \<and> (\<forall>f. ProposalVerifier (cfg c) = Some f \<longrightarrow> f h = Ok ()))"
  using assms
proof (cases rule: HandleMsg_cases)
  case proposal
  from proposal(3) show ?thesis
  proof (cases rule: handleProposal_cases)
    case (accepted p h)
    with enterPrepared_cases [of G K c h "PayloadJSON p"] have "proposalHeader c' = Some h" by auto
    then show ?thesis using accepted(5) by (auto simp: acceptable_Some)
  qed (simp_all add: addBacklog_def)
next
  case prepare
  from prepare(3) show ?thesis
    by (cases rule: handlePrepare_cases) (auto dest: sendCommit_cases split: if_split_asm)
next
  case commit
  from commit(3) show ?thesis
    by (cases rule: handleCommit_cases) (auto elim!: finishCommit_cases split: if_split_asm)
next
  case roundChange
  from roundChange(3) show ?thesis by (cases rule: handleRoundChange_cases) simp_all
qed simp

lemma core_run_prop_inv:
  assumes "core_run G K (New_core s r vs q config) es c ds"
  shows "prop_inv es c"
  using assms
proof (induction rule: core_run.induct)
  case init
  show ?case by (simp add: New_core_def prop_inv_def)
next
  case (start es c ds h p rcc c' ds')
  from StartProposer_cases [OF start.hyps(5)] have "cfg c' = cfg c" "proposalHeader c' = proposalHeader c \<or> proposalHeader c' = Some h"
    by auto
  then show ?case using start.IH unfolding prop_inv_def by (metis UnI1 UnI2 list.set_intros(1) option.inject set_append)
next
  case (msg es c ds ord m c' ds')
  have "cfg c' = cfg c"
    using core_run_inv [OF msg.hyps(1)] HandleMsg_inv [OF _ _ msg.hyps(3)] unfolding same_instance_def by blast
  then show ?case using msg.IH HandleMsg_proposal [OF msg.hyps(3)] unfolding prop_inv_def
    by (metis UnI1 option.inject set_append)
next
  case (timeout es c ds c' ds')
  from Timeout_cases [OF timeout.hyps(2)] have "cfg c' = cfg c" "proposalHeader c' = proposalHeader c" by auto
  then show ?case using timeout.IH unfolding prop_inv_def by (metis UnI1 set_append)
qed

lemma sorted_seals_recover:
  assumes "\<forall>(a, seal) \<in> set cs. R seal = Ok a" and "distinct (map fst cs)"
  shows "map R (sortedSeals cs) = map Ok (map fst (sort_key fst cs))" and "distinct (map fst (sort_key fst cs))"
    and "set (map fst (sort_key fst cs)) = fst ` set cs" and "length (sort_key fst cs) = length cs"
  using assms distinct_map_mset [of "sort_key fst cs" cs fst] by (auto simp: sortedSeals_def)

lemma nodeConfig_simps [simp]:
  "CommitSealVerifier (nodeConfig G C e snap parent key) = Some (nodeCommitSealVerifier G C)"
  "CommitBlockCb (nodeConfig G C e snap parent key) = Some (nodeCommitBlock C)"
  "ProposalVerifier (nodeConfig G C e snap parent key) = Some (nodeProposalVerifier G C e snap parent)"
  "CommitSealSigner (nodeConfig G C e snap parent key) = Some (nodeCommitSealSigner G C key)"
  "RoundChangeSigVerifier (nodeConfig G C e snap parent key) = Some (nodeRoundChangeSigVerifier G)"
  by (simp_all add: nodeConfig_def)

lemma committed_header_verifies:
  assumes C: "istanbul_codec C" and fin: "finite (Validators snap)"
    and run: "core_run G K (nodeCore G C e snap parent key n r) es c ds"
    and own: "\<forall>h p rcc. EStart h p rcc \<in> set es \<longrightarrow> VerifyProposal G C e snap h (Some parent) = Ok ()"
    and seals: "\<forall>(a, seal) \<in> set (commits c). seal \<noteq> []"
    and com: "DCommitBlock f p \<in> set ds"
  shows "\<exists>h. f = Some h \<and> VerifyHeader_q G C e snap h (Some parent) = Ok ()"
proof -
  let ?cfg = "nodeConfig G C e snap parent key"
  from core_run_inv [OF run [unfolded nodeCore_def]] have vi: "votes_inv G K es c" and ph: "phase_inv G c"
    and si: "same_instance c (nodeCore G C e snap parent key n r)" by (simp_all add: nodeCore_def)
  then have inst: "cfg c = ?cfg" "cValidators c = Validators snap" "cQuorum c = Quorum (card (Validators snap))"
    using fin by (simp_all add: same_instance_def nodeCore_def New_core_def)
  have bi: "block_inv c ds" using core_run_out [OF run [unfolded nodeCore_def]] by simp
  have "filter isCommitBlock ds \<noteq> []" using com by (force simp: filter_empty_conv)
  with bi have st: "cState c = stateCommitted" by (auto simp: block_inv_def split: if_splits)
  with bi obtain f' where f': "filter isCommitBlock ds = [DCommitBlock f' (proposalPayload c)]" "finalOf c f'"
    by (auto simp: block_inv_def)
  have "DCommitBlock f p \<in> set (filter isCommitBlock ds)" using com by simp
  with f' have "finalOf c f" by simp
  then obtain h0 h where h0: "proposalHeader c = Some h0" and cb: "CommitBlock C h0 (sortedSeals (commits c)) = Ok h"
    and f: "f = Some h" by (auto simp: finalOf_def inst node_callbacks)
  have vp: "VerifyProposal G C e snap h0 (Some parent) = Ok ()"
    using core_run_prop_inv [OF run [unfolded nodeCore_def]] own h0 by (auto simp: prop_inv_def inst node_callbacks)
  have rec: "\<forall>(a, seal) \<in> set (commits c). RecoverCommitSealSigner G C h0 seal = Ok a"
    using vi seals by (fastforce simp: votes_inv_def sealOk_def inst h0 node_callbacks)
  have d: "distinct (map fst (commits c))" using vi by (simp add: votes_inv_def)
  note so = sorted_seals_recover [OF rec d]
  have "RecoverCommitSealSigner G C h = RecoverCommitSealSigner G C h0"
    by (rule ext) (rule CommitBlock_frame(2) [OF C cb])
  moreover obtain ie where "DecodeExtra C h = Ok (ie\<lparr>ieCommittedSeals := sortedSeals (commits c)\<rparr>)"
    using CommitBlock_frame(3) [OF C cb] extra_is_DecodeExtra by blast
  ultimately have "sealed_by G C h (map fst (sort_key fst (commits c)))" using so(1) by (simp add: sealed_by_def)
  moreover have "set (map fst (sort_key fst (commits c))) \<subseteq> Validators snap"
    unfolding so(3) using vi inst by (auto simp: votes_inv_def)
  moreover have "Quorum (card (Validators snap)) \<le> length (map fst (sort_key fst (commits c)))"
    using ph st inst so(4) by (simp add: phase_inv_def)
  ultimately have "VerifyHeader_q G C e snap h (Some parent) = Ok ()"
    unfolding VerifyHeader_q_Ok_iff using VerifyProposal_CommitBlock [OF C cb] vp so(2) by blast
  with f show ?thesis by blast
qed

end
