(* ===== verification/Qbft_Liveness.thy ===== *)
theory Qbft_Liveness
  imports Node_Qbft
begin

text \<open>
  Progress of the QBFT core: once a proposal is recorded, a quorum of PREPAREs and a quorum of COMMITs
  from distinct validators, in this order, make the core commit. Runs are executed by \<open>feed\<close> and, with
  starts and timeouts, by \<open>exec\<close>, which also produces the runs of the witnesses.
\<close>

section \<open>Executing runs\<close>

definition feedStep ::
    "geth \<Rightarrow> rlpCodecs \<Rightarrow> (roundChangeRecord list \<Rightarrow> roundChangeRecord list)
      \<Rightarrow> Core \<times> Decision list \<Rightarrow> IncomingMsg \<Rightarrow> core_result" where
  "feedStep G K ord cds m =
     rbind (HandleMsg G K ord (fst cds) m) (\<lambda>r. Ok (fst r, snd cds @ snd r))"

definition feed ::
    "geth \<Rightarrow> rlpCodecs \<Rightarrow> (roundChangeRecord list \<Rightarrow> roundChangeRecord list)
      \<Rightarrow> Core \<times> Decision list \<Rightarrow> IncomingMsg list \<Rightarrow> core_result" where
  "feed G K ord cds ms = rfold (feedStep G K ord) cds ms"

fun execEvent ::
    "geth \<Rightarrow> rlpCodecs \<Rightarrow> (roundChangeRecord list \<Rightarrow> roundChangeRecord list) \<Rightarrow> Core \<Rightarrow> core_event \<Rightarrow> core_result" where
  "execEvent G K ord c (EStart h p rcc) =
     (if prepares c = [] \<and> commits c = [] \<and> (cState c = stateNew \<or> cState c = statePrepared)
      then Ok (StartProposer G K c h p rcc) else Panic)"
| "execEvent G K ord c (EMsg m) = HandleMsg G K ord c m"
| "execEvent G K ord c ETimeout = Ok (Timeout K c)"

definition exec ::
    "geth \<Rightarrow> rlpCodecs \<Rightarrow> (roundChangeRecord list \<Rightarrow> roundChangeRecord list) \<Rightarrow> Core \<Rightarrow> core_event list \<Rightarrow> core_result" where
  "exec G K ord c es =
     rfold (\<lambda>cds e. rbind (execEvent G K ord (fst cds) e) (\<lambda>r. Ok (fst r, snd cds @ snd r))) (c, []) es"

lemma exec_run:
  assumes "map_order ord" and "exec G K ord c0 es = Ok (c, ds)"
  shows "core_run G K c0 es c ds"
  using assms(2)
proof (induction es arbitrary: c ds rule: rev_induct)
  case Nil
  then show ?case by (simp add: exec_def core_run.init)
next
  case (snoc e es)
  from snoc.prems obtain d ds0 ds' where pre: "exec G K ord c0 es = Ok (d, ds0)"
    and ev: "execEvent G K ord d e = Ok (c, ds')" and ds: "ds = ds0 @ ds'"
    by (auto simp: exec_def rfold_append)
  note run = snoc.IH [OF pre]
  show ?case
  proof (cases e)
    case (EStart h p rcc)
    with ev have g: "prepares d = []" "commits d = []" "cState d \<in> {stateNew, statePrepared}"
      and s: "StartProposer G K d h p rcc = (c, ds')" by (auto split: if_splits)
    show ?thesis unfolding EStart ds by (rule core_run.start [OF run g s])
  next
    case (EMsg m)
    with ev have "HandleMsg G K ord d m = Ok (c, ds')" by simp
    then show ?thesis unfolding EMsg ds by (rule core_run.msg [OF run assms(1)])
  next
    case ETimeout
    with ev have "Timeout K d = (c, ds')" by simp
    then show ?thesis unfolding ETimeout ds by (rule core_run.timeout [OF run])
  qed
qed

section \<open>Counting votes\<close>

definition prepareFor :: "rlpCodecs \<Rightarrow> Core \<Rightarrow> IncomingMsg \<Rightarrow> bool" where
  "prepareFor K c m \<longleftrightarrow> From m \<in> cValidators c \<and> MsgType m = MsgPrepare \<and>
     (\<exists>p. dec (cPrepare K) (Data m) = Some p \<and> Sequence p = cSeq c \<and> Round p = cRound c \<and>
        prepBlockHash p = proposalHash c)"

definition commitFor :: "rlpCodecs \<Rightarrow> Core \<Rightarrow> IncomingMsg \<Rightarrow> bool" where
  "commitFor K c m \<longleftrightarrow> From m \<in> cValidators c \<and> MsgType m = MsgCommit \<and>
     (\<exists>cm. dec (cCommit K) (Data m) = Some cm \<and> Sequence cm = cSeq c \<and> Round cm = cRound c \<and>
        commBlockHash cm = proposalHash c \<and> sealOk c (From m) (CommitSeal cm))"

lemma update_new: "k \<notin> fst ` set m \<Longrightarrow> AList.update k v m = m @ [(k, v)]"
  by (induction m) auto

lemma prepare_step:
  assumes "prepareFor K c m" and "cState c = statePrepared" and "From m \<notin> fst ` set (prepares c)"
  shows "HandleMsg G K ord c m =
    (let c1 = c\<lparr>prepares := prepares c @ [(From m, proposalHash c)]\<rparr> in
     if cQuorum c \<le> Suc (length (prepares c)) then sendCommit K c1 else Ok (c1, []))"
  using assms by (auto simp: prepareFor_def HandleMsg_def handlePrepare_def msg_types update_new Let_def)

lemma commit_step:
  assumes "commitFor K c m" and "cState c = stateCommitSent" and "From m \<notin> fst ` set (commits c)"
  shows "\<exists>seal. HandleMsg G K ord c m =
    (let c1 = c\<lparr>commits := commits c @ [(From m, seal)]\<rparr> in
     if cQuorum c \<le> Suc (length (commits c)) then finishCommit c1 else Ok (c1, []))"
proof -
  from assms(1) obtain cm where cm: "dec (cCommit K) (Data m) = Some cm" "Sequence cm = cSeq c" "Round cm = cRound c"
    "commBlockHash cm = proposalHash c" and s: "sealMatches c m cm = Ok True"
    unfolding commitFor_def sealMatches_iff by blast
  show ?thesis using assms cm s
    by (intro exI [of _ "CommitSeal cm"]) (simp add: commitFor_def HandleMsg_def handleCommit_def msg_types update_new Let_def)
qed

lemma feed_Cons: "feed G K ord (c, ds) (m # ms) = rbind (HandleMsg G K ord c m) (\<lambda>r. feed G K ord (fst r, ds @ snd r) ms)"
  by (simp add: feed_def feedStep_def rbind_assoc)

lemma feed_append: "feed G K ord cds (ms @ ns) = rbind (feed G K ord cds ms) (\<lambda>r. feed G K ord r ns)"
  by (simp add: feed_def rfold_append)

text \<open>Exactly the missing number of PREPAREs moves the core on; signing failures do not hold it back.\<close>

lemma prepare_phase:
  assumes "\<forall>m \<in> set ms. prepareFor K c m" and "distinct (map From ms)" and "cState c = statePrepared"
    and "From ` set ms \<inter> fst ` set (prepares c) = {}" and "length (prepares c) + length ms = cQuorum c" and "ms \<noteq> []"
    and signs: "\<And>c1. same_instance c1 c \<Longrightarrow> proposalHeader c1 = proposalHeader c \<Longrightarrow> \<exists>r. sendCommit K c1 = Ok r"
  shows "\<exists>ps ds'. feed G K ord (c, ds) ms = Ok (c\<lparr>prepares := ps, cState := stateCommitSent\<rparr>, ds @ ds')"
  using assms
proof (induction ms arbitrary: c ds)
  case Nil
  then show ?case by simp
next
  case (Cons m ms)
  let ?c1 = "c\<lparr>prepares := prepares c @ [(From m, proposalHash c)]\<rparr>"
  have step: "HandleMsg G K ord c m = (if cQuorum c \<le> Suc (length (prepares c)) then sendCommit K ?c1 else Ok (?c1, []))"
    using prepare_step [of K c m G ord] Cons.prems by (simp add: Let_def)
  show ?case
  proof (cases "ms = []")
    case True
    from Cons.prems(7) [of ?c1] obtain r where r: "sendCommit K ?c1 = Ok r" by (auto simp: same_instance_def)
    then have "fst r = ?c1\<lparr>cState := stateCommitSent\<rparr>"
      using sendCommit_cases(1) [of K ?c1 "fst r" "snd r"] by simp
    moreover have "HandleMsg G K ord c m = Ok r" using step True Cons.prems(5) r by simp
    ultimately show ?thesis unfolding feed_Cons True by (auto simp: feed_def)
  next
    case False
    then have "HandleMsg G K ord c m = Ok (?c1, [])" using step Cons.prems(5) by (cases ms) auto
    moreover have "\<exists>ps ds'. feed G K ord (?c1, ds) ms = Ok (?c1\<lparr>prepares := ps, cState := stateCommitSent\<rparr>, ds @ ds')"
      by (rule Cons.IH) (use Cons.prems False in \<open>auto simp: prepareFor_def same_instance_def\<close>)
    ultimately show ?thesis unfolding feed_Cons by simp
  qed
qed

lemma commit_phase:
  assumes "\<forall>m \<in> set ms. commitFor K c m" and "distinct (map From ms)" and "cState c = stateCommitSent"
    and "From ` set ms \<inter> fst ` set (commits c) = {}" and "length (commits c) + length ms = cQuorum c" and "ms \<noteq> []"
    and "\<And>c1. same_instance c1 c \<Longrightarrow> proposalHeader c1 = proposalHeader c \<Longrightarrow> proposalPayload c1 = proposalPayload c \<Longrightarrow>
      \<exists>h. finishCommit c1 = Ok (c1\<lparr>cState := stateCommitted\<rparr>, [DCommitBlock (Some h) (proposalPayload c)])"
  shows "\<exists>c' h. feed G K ord (c, ds) ms = Ok (c', ds @ [DCommitBlock (Some h) (proposalPayload c)]) \<and> cState c' = stateCommitted"
  using assms
proof (induction ms arbitrary: c ds)
  case Nil
  then show ?case by simp
next
  case (Cons m ms)
  from commit_step [of K c m G ord] Cons.prems obtain seal where step:
    "HandleMsg G K ord c m =
      (if cQuorum c \<le> Suc (length (commits c)) then finishCommit (c\<lparr>commits := commits c @ [(From m, seal)]\<rparr>)
       else Ok (c\<lparr>commits := commits c @ [(From m, seal)]\<rparr>, []))" by (auto simp: Let_def)
  let ?c1 = "c\<lparr>commits := commits c @ [(From m, seal)]\<rparr>"
  show ?case
  proof (cases "ms = []")
    case True
    from Cons.prems(7) [of ?c1] obtain h where "finishCommit ?c1 = Ok (?c1\<lparr>cState := stateCommitted\<rparr>, [DCommitBlock (Some h) (proposalPayload c)])"
      by (auto simp: same_instance_def)
    then show ?thesis using step True Cons.prems(5) unfolding feed_Cons by (auto simp: feed_def)
  next
    case False
    have seal: "sealOk ?c1 a s = sealOk c a s" for a s by (rule sealOk_cong) simp_all
    from False have "HandleMsg G K ord c m = Ok (?c1, [])" using step Cons.prems(5) by (cases ms) auto
    moreover have "\<exists>c' h. feed G K ord (?c1, ds) ms = Ok (c', ds @ [DCommitBlock (Some h) (proposalPayload ?c1)]) \<and> cState c' = stateCommitted"
      by (rule Cons.IH) (use Cons.prems False in \<open>auto simp: commitFor_def same_instance_def seal\<close>)
    ultimately show ?thesis unfolding feed_Cons by simp
  qed
qed

section \<open>Progress with the node's callbacks\<close>

lemma node_sendCommit_Ok:
  assumes "istanbul_codec C" and "extra_is C h v ie" and "cfg c = nodeConfig G C e snap parent key" and "proposalHeader c = Some h"
  shows "\<exists>r. sendCommit K c = Ok r"
proof -
  from commitSealHash_Ok [OF assms(1,2)] obtain d where "commitSealHash G C h = Ok d" by blast
  then have "CreateCommitSeal G C h k \<noteq> Panic" for k by (simp add: CreateCommitSeal_def split: option.split)
  then have "\<exists>r. attempt (CreateCommitSeal G C h k) = Ok r" for k by (cases "CreateCommitSeal G C h k") auto
  then obtain r where "attempt (CreateCommitSeal G C h (the key)) = (Ok r :: (qbft_error, bytes option) result)" by blast
  then show ?thesis using assms(3,4)
    by (cases key; cases r) (simp_all add: sendCommit_def Let_def node_callbacks split: option.split del: rbind_Ok_iff)
qed

lemma node_finishCommit_Ok:
  assumes "istanbul_codec C" and "extra_is C h v ie" and "cfg c = nodeConfig G C e snap parent key" and "proposalHeader c = Some h"
  shows "\<exists>h'. finishCommit c = Ok (c\<lparr>cState := stateCommitted\<rparr>, [DCommitBlock (Some h') (proposalPayload c)])"
proof -
  from CommitBlock_Ok [OF assms(1,2)] obtain h' where "CommitBlock C h (sortedSeals (commits c)) = Ok h'" by blast
  then show ?thesis using assms(3,4) by (simp add: finishCommit_def node_callbacks)
qed

lemma prepared_core_commits:
  assumes C: "istanbul_codec C" and ex: "extra_is C h v ie" and cf: "cfg c = nodeConfig G C e snap parent key"
    and st: "cState c = statePrepared" "proposalHeader c = Some h" "prepares c = []" "commits c = []"
    and ps: "\<forall>m \<in> set ps. prepareFor K c m" "distinct (map From ps)" "length ps = cQuorum c"
    and cs: "\<forall>m \<in> set cs. commitFor K c m" "distinct (map From cs)" "length cs = cQuorum c"
    and q: "0 < cQuorum c"
  shows "\<exists>c' ds h'. feed G K ord (c, []) (ps @ cs) = Ok (c', ds) \<and> cState c' = stateCommitted \<and>
    DCommitBlock (Some h') (proposalPayload c) \<in> set ds"
proof -
  have ne: "ps \<noteq> []" "cs \<noteq> []" using ps(3) cs(3) q by auto
  have "\<exists>x ds. feed G K ord (c, []) ps = Ok (c\<lparr>prepares := x, cState := stateCommitSent\<rparr>, [] @ ds)"
  proof (rule prepare_phase)
    show "\<exists>r. sendCommit K c1 = Ok r" if "same_instance c1 c" "proposalHeader c1 = proposalHeader c" for c1
      using that cf st(2) by (intro node_sendCommit_Ok [OF C ex]) (simp_all add: same_instance_def)
  qed (use ps st ne in auto)
  then obtain x ds where fp: "feed G K ord (c, []) ps = Ok (c\<lparr>prepares := x, cState := stateCommitSent\<rparr>, ds)" by auto
  let ?c = "c\<lparr>prepares := x, cState := stateCommitSent\<rparr>"
  have seal: "sealOk ?c a s = sealOk c a s" for a s by (rule sealOk_cong) simp_all
  have "\<exists>c' h'. feed G K ord (?c, ds) cs = Ok (c', ds @ [DCommitBlock (Some h') (proposalPayload ?c)]) \<and> cState c' = stateCommitted"
  proof (rule commit_phase)
    show "\<exists>h. finishCommit c1 = Ok (c1\<lparr>cState := stateCommitted\<rparr>, [DCommitBlock (Some h) (proposalPayload ?c)])"
      if "same_instance c1 ?c" "proposalHeader c1 = proposalHeader ?c" "proposalPayload c1 = proposalPayload ?c" for c1
      using that cf st(2) node_finishCommit_Ok [OF C ex, of c1] by (simp add: same_instance_def)
    show "\<forall>m \<in> set cs. commitFor K ?c m" using cs(1) by (simp add: commitFor_def seal)
  qed (use cs st ne in auto)
  then obtain c' h' where "feed G K ord (?c, ds) cs = Ok (c', ds @ [DCommitBlock (Some h') (proposalPayload c)])" "cState c' = stateCommitted"
    by auto
  then show ?thesis using fp by (auto simp: feed_append)
qed

text \<open>A vote that overtakes the PROPOSAL is dropped, not kept for later; nothing sends it again.\<close>

lemma early_votes_lost:
  assumes "cState c = stateNew" and "\<forall>m \<in> set ms. MsgType m = MsgPrepare \<or> MsgType m = MsgCommit"
  shows "feed G K ord (c, ds) ms = Ok (c, ds)"
proof -
  have "HandleMsg G K ord c m = Ok (c, [])" if "MsgType m = MsgPrepare \<or> MsgType m = MsgCommit" for m
    using that assms(1) by (auto simp: HandleMsg_def handlePrepare_def handleCommit_def msg_types)
  then show ?thesis using assms(2) by (induction ms) (simp_all add: feed_def feedStep_def)
qed

end
