(* ===== verification/Qbft_Properties.thy ===== *)
theory Qbft_Properties
  imports Qbft_Liveness
begin

text \<open>
  The properties of the QBFT components, each with a witness on concrete parameters where it has
  hypotheses. The first section holds the demonstration instance: four validators, a quorum of three.
\<close>

section \<open>A demonstration instance\<close>

definition putProposal :: "Proposal \<Rightarrow> bytes option" where
  "putProposal p = Some (be_put32 (Round p) @ putBytes (propHeader p))"

definition getProposal :: "bytes \<Rightarrow> Proposal option" where
  "getProposal b = map_option (\<lambda>(h, _). \<lparr>Sequence = 1, Round = be_uint32 b, propHeader = h, PayloadJSON = [7], propRCC = []\<rparr>)
     (getBytes (drop 4 b))"

definition putPrepare :: "Prepare \<Rightarrow> bytes option" where
  "putPrepare p = Some (be_put32 (Round p) @ prepBlockHash p)"

definition getPrepare :: "bytes \<Rightarrow> Prepare option" where
  "getPrepare b = Some \<lparr>Sequence = 1, Round = be_uint32 b, prepBlockHash = drop 4 b\<rparr>"

definition putCommit :: "Commit \<Rightarrow> bytes option" where
  "putCommit c = Some (be_put32 (Round c) @ putBytes (commBlockHash c) @ putBytes (CommitSeal c))"

definition getCommit :: "bytes \<Rightarrow> Commit option" where
  "getCommit b = Option.bind (getBytes (drop 4 b)) (\<lambda>(h, r).
     map_option (\<lambda>(s, _). \<lparr>Sequence = 1, Round = be_uint32 b, commBlockHash = h, CommitSeal = s\<rparr>) (getBytes r))"

definition putRoundChange :: "RoundChange \<Rightarrow> bytes option" where
  "putRoundChange r = Some (be_put32 (Round r))"

definition getRoundChange :: "bytes \<Rightarrow> RoundChange option" where
  "getRoundChange b = Some \<lparr>Sequence = 1, Round = be_uint32 b, PreparedRound = 0, PreparedBlock = [], PreparedPayload = []\<rparr>"

definition getHeader :: "bytes \<Rightarrow> header option" where
  "getHeader b = Some (demoHeader\<lparr>Number := Some 1, Extra := b\<rparr>)"

definition putHeader :: "header \<Rightarrow> bytes option" where
  "putHeader h = Some (Extra h)"

definition demoRlp :: rlpCodecs where
  "demoRlp =
     \<lparr>cHeader = \<lparr>enc = putHeader, dec = getHeader\<rparr>,
      cProposal = \<lparr>enc = putProposal, dec = getProposal\<rparr>,
      cPrepare = \<lparr>enc = putPrepare, dec = getPrepare\<rparr>,
      cCommit = \<lparr>enc = putCommit, dec = getCommit\<rparr>,
      cRoundChange = \<lparr>enc = putRoundChange, dec = getRoundChange\<rparr>\<rparr>"

definition demoQSnap :: QSnapshot where
  "demoQSnap = newSnapshot_q 0 [] (map demoAddr [1, 2, 3, 4])"

definition demoQEngine :: QEngine where
  "demoQEngine = New_q 0 30000 4"

definition demoUnsealed :: header where
  "demoUnsealed = demoHeader\<lparr>Number := Some 1, Extra := replicate 32 0 @ [0, 0, 0, 0, 0, 0, 0, 0]\<rparr>"

text \<open>The seal of a key over anything, as \<^const>\<open>demoGeth\<close> signs.\<close>

definition demoSig :: "byte \<Rightarrow> bytes" where
  "demoSig k = demoAddr k @ replicate 45 0"

definition demoSealed :: header where
  "demoSealed = demoUnsealed\<lparr>Extra := replicate 32 0 @ [0, 0, 0, 0, 0, 0] @ putBytes (demoSig 2) @ [0]\<rparr>"

definition demoMsg :: "byte \<Rightarrow> byte \<Rightarrow> bytes \<Rightarrow> IncomingMsg" where
  "demoMsg t k data = \<lparr>MsgType = t, From = demoAddr k, Data = data, Sig = demoSig k\<rparr>"

definition demoPrepare :: "byte \<Rightarrow> IncomingMsg" where
  "demoPrepare k = demoMsg MsgPrepare k (be_put32 0 @ hdrHash demoGeth demoSealed)"

definition demoCommit :: "byte \<Rightarrow> bytes \<Rightarrow> IncomingMsg" where
  "demoCommit k seal = demoMsg MsgCommit k (be_put32 0 @ putBytes (hdrHash demoGeth demoSealed) @ putBytes seal)"

definition demoCore :: "u32 \<Rightarrow> Core" where
  "demoCore r = nodeCore demoGeth demoIstanbul demoQEngine demoQSnap demoHeader (Some (demoAddr 2)) 1 r"

definition demoRun :: "core_event list" where
  "demoRun = EStart demoSealed [7] [] # map (EMsg \<circ> demoPrepare) [1, 2, 3]
     @ map EMsg [demoCommit 1 (demoSig 1), demoCommit 2 (demoSig 2), demoCommit 3 (demoSig 3)]"

definition demoExec :: "u32 \<Rightarrow> core_event list \<Rightarrow> core_result" where
  "demoExec r es = exec demoGeth demoRlp (\<lambda>xs. xs) (demoCore r) es"

lemma demo_order: "map_order (\<lambda>xs. xs)"
  by (simp add: map_order_def)

lemma demo_run: "demoExec r es = Ok (c, ds) \<Longrightarrow> core_run demoGeth demoRlp (demoCore r) es c ds"
  unfolding demoExec_def by (rule exec_run [OF demo_order])

lemma demo_proposal_ok: "VerifyProposal demoGeth demoIstanbul demoQEngine demoQSnap demoSealed (Some demoHeader) = Ok ()"
  by code_simp

lemma demo_committed:
  "case demoExec 0 demoRun of
     Ok (c, ds) \<Rightarrow> cState c = stateCommitted \<and> list_all (\<lambda>(a, s). s \<noteq> []) (commits c) \<and> list_ex isCommitBlock ds
   | _ \<Rightarrow> False"
  by code_simp

lemma demo_committed_run:
  obtains c ds f p where "core_run demoGeth demoRlp (demoCore 0) demoRun c ds" and "cState c = stateCommitted"
    and "\<forall>(a, s) \<in> set (commits c). s \<noteq> []" and "DCommitBlock f p \<in> set ds"
proof -
  from demo_committed obtain c ds where x: "demoExec 0 demoRun = Ok (c, ds)" "cState c = stateCommitted"
    "list_all (\<lambda>(a, s). s \<noteq> []) (commits c)" "list_ex isCommitBlock ds" by (auto split: result.splits)
  from x(4) obtain d where "d \<in> set ds" "isCommitBlock d" by (auto simp: list_ex_iff)
  then obtain f p where "DCommitBlock f p \<in> set ds" by (metis isCommitBlock.elims(2))
  then show ?thesis using that [OF demo_run [OF x(1)] x(2)] x(3) by (simp add: list_all_iff)
qed

lemma demoQSnap_finite [simp]: "finite (Validators demoQSnap)"
  by (simp add: demoQSnap_def newSnapshot_q_def)

lemma demoQSnap_card: "card (Validators demoQSnap) = 4"
proof -
  have "distinct (map demoAddr [1, 2, 3, 4])" by code_simp
  from distinct_card [OF this] show ?thesis
    by (simp only: demoQSnap_def newSnapshot_q_def QSnapshot.simps length_map) simp
qed

lemma demoQSnap_wf: "qbft_wf demoGeth demoQSnap"
proof -
  have "inj_on (addrHex demoGeth) (Validators demoQSnap)"
    by (auto simp: inj_on_def demoGeth_def demoQSnap_def newSnapshot_q_def demoAddr_def)
  then show ?thesis by (simp add: qbft_wf_def demoQSnap_card)
qed

lemma demoRun_starts: "EStart h p rcc \<in> set demoRun \<Longrightarrow> h = demoSealed"
  by (auto simp: demoRun_def)

section \<open>Properties\<close>

text \<open>
  C1. What the core commits, everyone accepts: in any run of a core wired to the engine by the node, if
  every counted COMMIT carried a seal and the node only started proposals that pass
  \<^verbatim>\<open>VerifyProposal\<close>, then the header of a CommitBlock decision passes the engine's \<^verbatim>\<open>VerifyHeader\<close>
  against the same snapshot.
\<close>

theorem qbft_committed_header_verifies:
  assumes "istanbul_codec C" and "finite (Validators snap)"
    and "core_run G K (nodeCore G C e snap parent key n r) es c ds"
    and "\<forall>h p rcc. EStart h p rcc \<in> set es \<longrightarrow> VerifyProposal G C e snap h (Some parent) = Ok ()"
    and "\<forall>(a, seal) \<in> set (commits c). seal \<noteq> []"
    and "DCommitBlock f p \<in> set ds"
  shows "\<exists>h. f = Some h \<and> VerifyHeader_q G C e snap h (Some parent) = Ok ()"
  by (rule committed_header_verifies [OF assms])

theorem qbft_committed_header_verifies_witness:
  "\<exists>c ds h p. core_run demoGeth demoRlp (demoCore 0) demoRun c ds \<and> DCommitBlock (Some h) p \<in> set ds \<and>
     VerifyHeader_q demoGeth demoIstanbul demoQEngine demoQSnap h (Some demoHeader) = Ok ()"
proof -
  obtain c ds f p where run: "core_run demoGeth demoRlp (demoCore 0) demoRun c ds"
    and ne: "\<forall>(a, s) \<in> set (commits c). s \<noteq> []" and com: "DCommitBlock f p \<in> set ds" by (rule demo_committed_run)
  have own: "\<forall>h p rcc. EStart h p rcc \<in> set demoRun \<longrightarrow>
      VerifyProposal demoGeth demoIstanbul demoQEngine demoQSnap h (Some demoHeader) = Ok ()"
    using demo_proposal_ok demoRun_starts by blast
  from qbft_committed_header_verifies [OF demoIstanbul_ok demoQSnap_finite run [unfolded demoCore_def] own ne com]
  show ?thesis using run com by blast
qed

text \<open>
  C4. Agreement within a round, with accountability: if two cores of the same view and validator list
  both commit, then more than a third of the validators sent a COMMIT for the first core's block and a
  COMMIT for the second core's block. So with at most a third faulty, the two hashes are equal as soon
  as correct validators vote for one hash per view.
\<close>

theorem qbft_round_agreement:
  assumes "core_run G K (New_core s r vs (Quorum (length vs)) config1) es1 c1 ds1" and "cState c1 = stateCommitted"
    and "core_run G K (New_core s r vs (Quorum (length vs)) config2) es2 c2 ds2" and "cState c2 = stateCommitted"
  shows "card (set vs) <
    3 * card (committers K es1 s r (proposalHash c1) \<inter> committers K es2 s r (proposalHash c2) \<inter> set vs)"
  by (rule round_agreement [OF assms])

theorem qbft_round_agreement_witness:
  "\<exists>c ds. core_run demoGeth demoRlp (demoCore 0) demoRun c ds \<and> cState c = stateCommitted \<and>
     card (set (SignerList_q demoGeth demoQSnap)) <
       3 * card (committers demoRlp demoRun 1 0 (proposalHash c) \<inter> set (SignerList_q demoGeth demoQSnap))"
proof -
  obtain c ds where run: "core_run demoGeth demoRlp (demoCore 0) demoRun c ds" and st: "cState c = stateCommitted"
    by (rule demo_committed_run)
  note r = run [unfolded demoCore_def nodeCore_def]
  from qbft_round_agreement [OF r st r st] run st show ?thesis by auto
qed

text \<open>
  C14. One vote and one block per round: in any run a core broadcasts at most one COMMIT, for the hash of
  its recorded proposal, only after a quorum of PREPAREs of distinct validators for that hash and view, and
  it emits at most one CommitBlock decision, exactly when it ends in the committed state, with a quorum of
  COMMITs of distinct validators for that hash and view.
\<close>

theorem qbft_one_vote_per_round:
  assumes "core_run G K (New_core s r vs q config) es c ds"
  shows "(\<forall>d. DBroadcast MsgCommit d \<in> set ds \<longrightarrow>
            filter isCommitVote ds = [DBroadcast MsgCommit d] \<and>
            (\<exists>seal. enc (cCommit K) \<lparr>Sequence = s, Round = r, commBlockHash = proposalHash c, CommitSeal = seal\<rparr> = Some d) \<and>
            q \<le> card {a \<in> set vs. gotPrepare K es s r a (proposalHash c)}) \<and>
         length (filter isCommitBlock ds) = (if cState c = stateCommitted then 1 else 0) \<and>
         (cState c = stateCommitted \<longrightarrow> q \<le> card {a \<in> set vs. \<exists>seal. gotCommit K es s r a (proposalHash c) seal})"
proof -
  from core_run_inv [OF assms] have vi: "votes_inv G K es c" and ph: "phase_inv G c"
    and inst: "cSeq c = s" "cRound c = r" "cQuorum c = q" "cValidators c = set vs"
    by (auto simp: same_instance_def New_core_def)
  from core_run_out [OF assms] have bi: "block_inv c ds" and vo: "vote_inv K c ds" by blast+
  have np: "length (prepares c) = card (fst ` set (prepares c))" and nc: "length (commits c) = card (fst ` set (commits c))"
    using vi by (auto simp: votes_inv_def length_eq_card_fst)
  have "fst ` set (prepares c) \<subseteq> {a \<in> set vs. gotPrepare K es s r a (proposalHash c)}"
    using vi unfolding votes_inv_def inst by fastforce
  then have p: "length (prepares c) \<le> card {a \<in> set vs. gotPrepare K es s r a (proposalHash c)}"
    unfolding np by (intro card_mono) auto
  have "fst ` set (commits c) \<subseteq> {a \<in> set vs. \<exists>seal. gotCommit K es s r a (proposalHash c) seal}"
    using vi unfolding votes_inv_def inst by fastforce
  then have m: "length (commits c) \<le> card {a \<in> set vs. \<exists>seal. gotCommit K es s r a (proposalHash c) seal}"
    unfolding nc by (intro card_mono) auto
  have "DBroadcast MsgCommit d \<in> set ds \<Longrightarrow> filter isCommitVote ds \<noteq> []" for d by (force simp: filter_empty_conv)
  moreover have "DBroadcast MsgCommit d \<in> set ds \<longleftrightarrow> DBroadcast MsgCommit d \<in> set (filter isCommitVote ds)" for d by simp
  ultimately have "DBroadcast MsgCommit d \<in> set ds \<Longrightarrow>
      filter isCommitVote ds = [DBroadcast MsgCommit d] \<and> q \<le> length (prepares c) \<and>
      (\<exists>seal. enc (cCommit K) \<lparr>Sequence = s, Round = r, commBlockHash = proposalHash c, CommitSeal = seal\<rparr> = Some d)" for d
    using vo unfolding vote_inv_def inst by (metis Decision.inject(1) empty_iff empty_set insertE list.simps(15))
  moreover have "length (filter isCommitBlock ds) = (if cState c = stateCommitted then 1 else 0)"
    using bi by (auto simp: block_inv_def split: if_splits)
  moreover have "cState c = stateCommitted \<longrightarrow> q \<le> length (commits c)" using ph inst by (simp add: phase_inv_def)
  ultimately show ?thesis using p m by (meson le_trans)
qed

theorem qbft_one_vote_per_round_witness:
  "\<exists>c ds. core_run demoGeth demoRlp (demoCore 0) demoRun c ds \<and> length (filter isCommitBlock ds) = 1"
proof -
  obtain c ds where run: "core_run demoGeth demoRlp (demoCore 0) demoRun c ds" and st: "cState c = stateCommitted"
    by (rule demo_committed_run)
  from qbft_one_vote_per_round [OF run [unfolded demoCore_def nodeCore_def]] run st show ?thesis by auto
qed

text \<open>
  Final headers of one validator set intersect: two headers that \<^verbatim>\<open>VerifyHeader\<close> accepts against the
  same snapshot carry commit seals of more than a third of the validators in common. With at most a third
  faulty, some correct validator sealed both.
\<close>

theorem qbft_final_headers_intersect:
  assumes "VerifyHeader_q G C e snap h1 parent1 = Ok ()" and "VerifyHeader_q G C e snap h2 parent2 = Ok ()"
    and "finite (Validators snap)"
  shows "card (Validators snap) < 3 * card (sealers G C h1 \<inter> sealers G C h2) \<and>
    (\<forall>B. finite B \<and> 3 * card B \<le> card (Validators snap) \<longrightarrow> (\<exists>a \<in> sealers G C h1 \<inter> sealers G C h2. a \<notin> B))"
  using qbf.final_share [OF assms] sq.correct_in_both
    final_header_quorum [OF assms(1,3)] final_header_quorum [OF assms(2,3)] by blast

definition demoFinal :: header where
  "demoFinal = demoSealed\<lparr>Extra := replicate 32 0 @ [0, 0, 0, 0, 0, 0] @ putBytes (demoSig 2)
     @ putList [demoSig 1, demoSig 2, demoSig 3]\<rparr>"

lemma demo_final_ok: "VerifyHeader_q demoGeth demoIstanbul demoQEngine demoQSnap demoFinal (Some demoHeader) = Ok ()"
  by code_simp

theorem qbft_final_headers_intersect_witness:
  "card (Validators demoQSnap) < 3 * card (sealers demoGeth demoIstanbul demoFinal \<inter> sealers demoGeth demoIstanbul demoFinal)"
  using qbft_final_headers_intersect [OF demo_final_ok demo_final_ok demoQSnap_finite] by blast


text \<open>
  Commit seals finalize a block: for a header that passes \<^verbatim>\<open>VerifyProposal\<close> and commit seals created
  over it by a quorum of distinct validators, \<^verbatim>\<open>CommitBlock\<close> succeeds and its header passes
  \<^verbatim>\<open>VerifyHeader\<close>. Injecting the seals changes neither what they sign nor the proposer.
\<close>

theorem qbft_commit_finalizes:
  assumes "istanbul_codec C" and "VerifyProposal G C e snap h parent = Ok ()"
    and "map (CreateCommitSeal G C h) ks = map Ok seals" and "\<forall>k \<in> set ks. ecdsa_ok G k"
    and "distinct (map (key_address G) ks)" and "key_address G ` set ks \<subseteq> Validators snap"
    and "Quorum (card (Validators snap)) \<le> length ks"
  shows "\<exists>h'. CommitBlock C h seals = Ok h' \<and> VerifyHeader_q G C e snap h' parent = Ok () \<and>
     SignerFromHeader_q G C h' = SignerFromHeader_q G C h \<and> commitSealHash G C h' = commitSealHash G C h"
proof -
  from committed_verifies [OF assms] obtain h' where h': "CommitBlock C h seals = Ok h'"
    "VerifyHeader_q G C e snap h' parent = Ok ()" by blast
  from CommitBlock_frame(3,4) [OF assms(1) h'(1)] obtain x v ie where x: "h' = h\<lparr>Extra := x\<rparr>"
    and ex: "extra_is C h v ie" "extra_is C h' v (ie\<lparr>ieCommittedSeals := seals\<rparr>)" by blast
  have "commitSealHash G C h' = commitSealHash G C h" using commitSealHash_cong [OF ex(1) ex(2) [unfolded x]] by (simp add: x)
  with h' CommitBlock_frame(1) [OF assms(1) h'(1)] show ?thesis by blast
qed

theorem qbft_commit_finalizes_witness:
  "\<exists>h'. CommitBlock demoIstanbul demoSealed [demoSig 1, demoSig 2, demoSig 3] = Ok h' \<and>
     VerifyHeader_q demoGeth demoIstanbul demoQEngine demoQSnap h' (Some demoHeader) = Ok ()"
proof -
  let ?ks = "[demoAddr 1, demoAddr 2, demoAddr 3]"
  have s: "map (CreateCommitSeal demoGeth demoIstanbul demoSealed) ?ks = map Ok [demoSig 1, demoSig 2, demoSig 3]"
    by code_simp
  have d: "distinct (map (key_address demoGeth) ?ks)" "key_address demoGeth ` set ?ks \<subseteq> Validators demoQSnap" by code_simp+
  have "Quorum (card (Validators demoQSnap)) \<le> length ?ks" by (simp add: Quorum_def demoQSnap_card)
  from qbft_commit_finalizes [OF demoIstanbul_ok demo_proposal_ok s _ d this] demo_ecdsa_ok show ?thesis by blast
qed

text \<open>
  C19. Round-change certificates are accepted: when a message makes a core emit a StartRound decision, its
  certificate passes \<^verbatim>\<open>verifyRCC\<close> at every core of that round with the same sequence, validators and
  quorum, whatever order the map was read in, provided the signature check attributes the ROUND_CHANGE
  messages of the run to their senders.
\<close>

theorem qbft_certificate_accepted:
  assumes "core_run G K (New_core s r vs q config) es c0 ds0" and "map_order ord"
    and "HandleMsg G K ord c0 m = Ok (c, ds)" and "DStartRound r' h p rcc \<in> set ds"
    and "cSeq c2 = s" and "cValidators c2 = set vs" and "cRound c2 = r'" and "cQuorum c2 = q"
    and "RoundChangeSigVerifier (cfg c2) = Some f"
    and "\<forall>m'. EMsg m' \<in> set (es @ [EMsg m]) \<and> MsgType m' = MsgRoundChange \<longrightarrow>
           f MsgRoundChange (Data m') (Sig m') = Ok (From m')"
  shows "r < r' \<and> verifyRCC K c2 rcc = Ok True"
proof -
  have run: "core_run G K (New_core s r vs q config) (es @ [EMsg m]) c (ds0 @ ds)"
    by (rule core_run.msg [OF assms(1-3)])
  have inst: "cSeq c = s" "cQuorum c = q" "cValidators c = set vs" and inst0: "cRound c0 = r" "cQuorum c0 = q"
    using core_run_inv [OF run] core_run_inv [OF assms(1)] by (auto simp: same_instance_def New_core_def)
  from HandleMsg_startRound [OF assms(3,4)] obtain rc :: RoundChange where rc: "Round rc > r"
    "ds = [startRound K (Round rc) (recordsFor ord c (Round rc))]"
    "q \<le> length (recordsFor ord c (Round rc))" using inst0 by auto
  then have "r' = Round rc" and rcc: "rcc = map (\<lambda>x. \<lparr>srcData = rcData x, srcSig = rcSig x\<rparr>) (sort_key rcData (recordsFor ord c (Round rc)))"
    using assms(4) by (auto simp: startRound_def Let_def split: prod.splits)
  have "verifyRCC K c2 rcc = Ok True" unfolding rcc
    using startRound_rcc_valid [OF core_run_rc_inv [OF run] assms(2), of c2 "Round rc" f] assms(5-10) inst rc(3) \<open>r' = Round rc\<close>
    by simp
  with rc(1) \<open>r' = Round rc\<close> show ?thesis by simp
qed

definition demoRoundChange :: "byte \<Rightarrow> IncomingMsg" where
  "demoRoundChange k = demoMsg MsgRoundChange k (be_put32 1)"

lemma demo_round_change:
  "case rbind (demoExec 0 (map (EMsg \<circ> demoRoundChange) [3, 1])) (\<lambda>(c0, _).
     HandleMsg demoGeth demoRlp (\<lambda>xs. xs) c0 (demoRoundChange 2)) of
   Ok (c, ds) \<Rightarrow> list_ex (\<lambda>d. case d of DStartRound r' h p rcc \<Rightarrow> r' = 1 \<and> length rcc = 3 | _ \<Rightarrow> False) ds
   | _ \<Rightarrow> False"
  by code_simp

theorem qbft_certificate_accepted_witness:
  "\<exists>c0 c ds0 ds h p rcc. core_run demoGeth demoRlp (demoCore 0) (map (EMsg \<circ> demoRoundChange) [3, 1]) c0 ds0 \<and>
     HandleMsg demoGeth demoRlp (\<lambda>xs. xs) c0 (demoRoundChange 2) = Ok (c, ds) \<and>
     DStartRound 1 h p rcc \<in> set ds \<and> verifyRCC demoRlp (demoCore 1) rcc = Ok True"
proof -
  let ?es = "map (EMsg \<circ> demoRoundChange) [3, 1]" and ?vs = "SignerList_q demoGeth demoQSnap"
  from demo_round_change obtain c0 ds0 c ds where x: "demoExec 0 ?es = Ok (c0, ds0)"
    and m: "HandleMsg demoGeth demoRlp (\<lambda>xs. xs) c0 (demoRoundChange 2) = Ok (c, ds)"
    and ex: "list_ex (\<lambda>d. case d of DStartRound r' h p rcc \<Rightarrow> r' = 1 \<and> length rcc = 3 | _ \<Rightarrow> False) ds"
    by (auto split: result.splits prod.splits)
  from ex obtain d where "d \<in> set ds" "case d of DStartRound r' h p rcc \<Rightarrow> r' = 1 \<and> length rcc = 3 | _ \<Rightarrow> False"
    by (auto simp: list_ex_iff)
  then obtain h p rcc where d: "DStartRound 1 h p rcc \<in> set ds" by (cases d rule: Decision.exhaust) auto
  note run = demo_run [OF x]
  have sig: "nodeRoundChangeSigVerifier demoGeth MsgRoundChange (Data (demoRoundChange k)) (Sig (demoRoundChange k)) =
      Ok (From (demoRoundChange k))" if "k \<in> {1, 2, 3}" for k
  proof -
    have "nodeRoundChangeSigVerifier demoGeth MsgRoundChange (Data (demoRoundChange 1)) (Sig (demoRoundChange 1)) = Ok (From (demoRoundChange 1))"
      "nodeRoundChangeSigVerifier demoGeth MsgRoundChange (Data (demoRoundChange 2)) (Sig (demoRoundChange 2)) = Ok (From (demoRoundChange 2))"
      "nodeRoundChangeSigVerifier demoGeth MsgRoundChange (Data (demoRoundChange 3)) (Sig (demoRoundChange 3)) = Ok (From (demoRoundChange 3))"
      by code_simp+
    then show ?thesis using that by auto
  qed
  have sigs: "\<forall>m'. EMsg m' \<in> set (?es @ [EMsg (demoRoundChange 2)]) \<and> MsgType m' = MsgRoundChange \<longrightarrow>
      nodeRoundChangeSigVerifier demoGeth MsgRoundChange (Data m') (Sig m') = Ok (From m')"
    using sig by auto
  have core: "cSeq (demoCore 1) = 1" "cValidators (demoCore 1) = set ?vs" "cRound (demoCore 1) = 1"
    "cQuorum (demoCore 1) = Quorum (length ?vs)"
    "RoundChangeSigVerifier (cfg (demoCore 1)) = Some (nodeRoundChangeSigVerifier demoGeth)"
    by (simp_all add: demoCore_def nodeCore_def New_core_def)
  from qbft_certificate_accepted [OF run [unfolded demoCore_def nodeCore_def] demo_order m d core sigs]
  show ?thesis using run m d by blast
qed

text \<open>
  Progress: a core that recorded a proposal with decodable extra data commits once it is fed a quorum
  of PREPAREs from distinct validators and then a quorum of COMMITs from distinct validators, for its view
  and hash and with seals that verify. No message makes it stop, and the run ends in the committed state
  with a CommitBlock decision.
\<close>

theorem qbft_progress:
  assumes "istanbul_codec C" and "extra_is C h v ie" and "cfg c = nodeConfig G C e snap parent key"
    and "cState c = statePrepared" and "proposalHeader c = Some h" and "prepares c = []" and "commits c = []"
    and "\<forall>m \<in> set ps. prepareFor K c m" and "distinct (map From ps)" and "length ps = cQuorum c"
    and "\<forall>m \<in> set cs. commitFor K c m" and "distinct (map From cs)" and "length cs = cQuorum c"
    and "0 < cQuorum c"
  shows "\<exists>c' ds h'. feed G K ord (c, []) (ps @ cs) = Ok (c', ds) \<and> cState c' = stateCommitted \<and>
    DCommitBlock (Some h') (proposalPayload c) \<in> set ds"
  by (rule prepared_core_commits [OF assms])

definition demoPreparedCore :: Core where
  "demoPreparedCore = (demoCore 0)\<lparr>proposalHeader := Some demoSealed, proposalPayload := [7],
     proposalHash := hdrHash demoGeth demoSealed, cState := statePrepared\<rparr>"

lemma demo_prepares: "\<forall>m \<in> set (map demoPrepare [1, 2, 3]). prepareFor demoRlp demoPreparedCore m"
proof -
  have v: "demoAddr k \<in> Validators demoQSnap" if "k \<in> {1, 2, 3}" for k
    using that by (auto simp: demoQSnap_def newSnapshot_q_def)
  have d: "dec (cPrepare demoRlp) (Data (demoPrepare k)) =
      Some \<lparr>Sequence = 1, Round = 0, prepBlockHash = hdrHash demoGeth demoSealed\<rparr>" for k
    by (simp add: demoRlp_def getPrepare_def demoPrepare_def demoMsg_def)
  have "prepareFor demoRlp demoPreparedCore (demoPrepare k)" if "k \<in> {1, 2, 3}" for k
    unfolding prepareFor_def d using v [OF that]
    by (simp add: demoPrepare_def demoMsg_def) (simp add: demoPreparedCore_def demoCore_def nodeCore_def New_core_def)
  then show ?thesis by simp
qed

lemma demo_commits: "\<forall>m \<in> set (map (\<lambda>k. demoCommit k (demoSig k)) [1, 2, 3]). commitFor demoRlp demoPreparedCore m"
proof -
  have v: "demoAddr k \<in> Validators demoQSnap" if "k \<in> {1, 2, 3}" for k
    using that by (auto simp: demoQSnap_def newSnapshot_q_def)
  have d: "dec (cCommit demoRlp) (Data (demoCommit k s)) =
      Some \<lparr>Sequence = 1, Round = 0, commBlockHash = hdrHash demoGeth demoSealed, CommitSeal = s\<rparr>" for k s
    using getBytes_put [of s "[]"] by (simp add: demoRlp_def getCommit_def demoCommit_def demoMsg_def)
  have "RecoverCommitSealSigner demoGeth demoIstanbul demoSealed (demoSig 1) = Ok (demoAddr 1)"
    "RecoverCommitSealSigner demoGeth demoIstanbul demoSealed (demoSig 2) = Ok (demoAddr 2)"
    "RecoverCommitSealSigner demoGeth demoIstanbul demoSealed (demoSig 3) = Ok (demoAddr 3)" by code_simp+
  then have s: "sealOk demoPreparedCore (demoAddr k) (demoSig k)" if "k \<in> {1, 2, 3}" for k
    using that by (auto simp: sealOk_def demoPreparedCore_def demoCore_def nodeCore_def New_core_def nodeCommitSealVerifier_def)
  have "commitFor demoRlp demoPreparedCore (demoCommit k (demoSig k))" if "k \<in> {1, 2, 3}" for k
    unfolding commitFor_def d using s [OF that] v [OF that]
    by (simp add: demoCommit_def demoMsg_def) (simp add: demoPreparedCore_def demoCore_def nodeCore_def New_core_def)
  then show ?thesis by simp
qed

theorem qbft_progress_witness:
  "\<exists>c' ds h'. feed demoGeth demoRlp (\<lambda>xs. xs) (demoPreparedCore, [])
       (map demoPrepare [1, 2, 3] @ map (\<lambda>k. demoCommit k (demoSig k)) [1, 2, 3]) = Ok (c', ds) \<and>
     cState c' = stateCommitted \<and> DCommitBlock (Some h') [7] \<in> set ds"
proof -
  have "is_ok (DecodeExtra demoIstanbul demoSealed)" by code_simp
  then obtain v ie where ex: "extra_is demoIstanbul demoSealed v ie" by (auto simp: is_ok_iff DecodeExtra_Ok_iff)
  have c: "cfg demoPreparedCore = nodeConfig demoGeth demoIstanbul demoQEngine demoQSnap demoHeader (Some (demoAddr 2))"
    "cState demoPreparedCore = statePrepared" "proposalHeader demoPreparedCore = Some demoSealed"
    "prepares demoPreparedCore = []" "commits demoPreparedCore = []" "proposalPayload demoPreparedCore = [7]"
    by (simp_all add: demoPreparedCore_def demoCore_def nodeCore_def New_core_def)
  have q: "cQuorum demoPreparedCore = 3"
    by (simp add: demoPreparedCore_def demoCore_def nodeCore_def New_core_def demoQSnap_card Quorum_def)
  have d: "distinct (map From (map demoPrepare [1, 2, 3]))" "distinct (map From (map (\<lambda>k. demoCommit k (demoSig k)) [1, 2, 3]))"
    by code_simp+
  have l: "length (map demoPrepare [1, 2, 3]) = cQuorum demoPreparedCore"
    "length (map (\<lambda>k. demoCommit k (demoSig k)) [1, 2, 3]) = cQuorum demoPreparedCore" "0 < cQuorum demoPreparedCore"
    by (simp_all add: q)
  show ?thesis
    using qbft_progress [OF demoIstanbul_ok ex c(1-5) demo_prepares d(1) l(1) demo_commits d(2) l(2,3)] unfolding c(6) by blast
qed

text \<open>
  Epoch headers carry the validator set: a header at an epoch height built with \<^verbatim>\<open>BuildExtra\<close>, sealed by
  its proposer and completed with commit seals, yields the validator set it was built from, both through
  \<^verbatim>\<open>NewCheckpointSnapshot\<close> and through \<^verbatim>\<open>Apply\<close> on any snapshot, at the position of that header.
\<close>

theorem qbft_checkpoint_roundtrip:
  assumes "istanbul_codec C" and "BuildExtra_q G C e s n = Ok (Extra h)" and "hnum h = Some n"
    and "n mod qbEpoch e = 0" and "\<forall>a \<in> Validators s. length a = 20" and "finite (Validators s)" and "Validators s \<noteq> {}"
    and "SealHeader_q G C h k = Ok h1" and "CommitBlock C h1 seals = Ok h2"
  shows "\<exists>t. NewCheckpointSnapshot_q G C h2 = Ok t \<and> Apply_q G C e s0 [h2] = Ok t \<and>
     Validators t = Validators s \<and> qsNumber t = n \<and> qsHash t = hdrHash G h2"
proof -
  have ep: "qbEpoch e \<noteq> 0" using assms(2) by (auto simp: BuildExtra_q_def)
  from BuildExtra_q_extra [OF assms(1,2,5,6,4)] obtain ie where
    ie: "extra_is C h (replicate 32 0) ie" "ieValidators ie = SignerList_q G s" by blast
  from sealed_committed_validators [OF assms(1) ie(1) assms(8,9)] obtain je x where
    je: "extra_is C h2 (replicate 32 0) je" "ieValidators je = SignerList_q G s" and h2: "h2 = h\<lparr>Extra := x\<rparr>"
    unfolding ie(2) by blast
  have "ieValidators je \<noteq> []" using je(2) assms(7) SignerList_q_facts(1) [OF assms(6), of G] by (metis empty_set)
  moreover have "hnum h2 = Some n" using assms(3) by (simp add: h2 hnum_def)
  ultimately show ?thesis
    using epoch_header_snapshot [OF je(1) _ _ ep assms(4)] je(2) assms(6) by (simp add: newSnapshot_q_def)
qed

theorem qbft_checkpoint_roundtrip_witness:
  "\<exists>h2 t. NewCheckpointSnapshot_q demoGeth demoIstanbul h2 = Ok t \<and> Validators t = Validators demoQSnap"
proof -
  let ?x = "replicate 32 0 @ putList (map demoAddr [1, 2, 3, 4]) @ [0, 0, 0, 0, 0, 0, 0]"
  let ?h = "demoHeader\<lparr>Number := Some 30000, Extra := ?x\<rparr>"
  have b: "BuildExtra_q demoGeth demoIstanbul demoQEngine demoQSnap 30000 = Ok (Extra ?h)" by code_simp
  have n: "hnum ?h = Some 30000" "(30000 :: u64) mod qbEpoch demoQEngine = 0" by code_simp+
  have v: "\<forall>a \<in> Validators demoQSnap. length a = 20" "Validators demoQSnap \<noteq> {}"
    by (simp_all add: demoQSnap_def newSnapshot_q_def demoAddr_def)
  have "is_ok (rbind (SealHeader_q demoGeth demoIstanbul ?h (demoAddr 2)) (\<lambda>h1. CommitBlock demoIstanbul h1 [demoSig 1]))"
    by code_simp
  then obtain h1 h2 where h: "SealHeader_q demoGeth demoIstanbul ?h (demoAddr 2) = Ok h1" "CommitBlock demoIstanbul h1 [demoSig 1] = Ok h2"
    by (auto simp: is_ok_iff)
  from qbft_checkpoint_roundtrip [OF demoIstanbul_ok b n v(1) demoQSnap_finite v(2) h] show ?thesis by blast
qed

text \<open>
  The proposer rotates: at every height and round at most one address is the proposer, and each
  validator is the proposer of one of the first \<open>N\<close> rounds of a height, so at most \<open>N - 1\<close> failed rounds
  separate a height from a given proposer.
\<close>

theorem qbft_proposer_rotation:
  assumes "qbft_wf G snap" and "a \<in> Validators snap"
    and "unat number + card (Validators snap) < 2 ^ 63" and "card (Validators snap) < 2 ^ 32"
  shows "(\<exists>r. unat r < card (Validators snap) \<and> isQBFTProposerForRound G snap (Some (k, a)) number r = Ok True) \<and>
    (\<forall>r b c. isQBFTProposerForRound G snap (Some (k, b)) number r = Ok True \<longrightarrow>
             isQBFTProposerForRound G snap (Some (k, c)) number r = Ok True \<longrightarrow> b = c)"
proof
  let ?l = "SignerList_q G snap"
  have fin: "finite (Validators snap)" and len: "length ?l = card (Validators snap)" and small: "card (Validators snap) < 2 ^ 63"
    using assms(1) by (simp_all add: qbft_wf_def)
  have ne: "?l \<noteq> []" using assms(2) SignerList_q_facts(1) [OF fin, of G] by (metis empty_iff empty_set)
  from qbs.in_turn_every_round [OF assms(1), of a number] assms(2,3) len obtain n where
    n: "unat number \<le> unat n" "unat n < unat number + card (Validators snap)" "InTurn_q G snap n a"
    by (auto simp: IsAuthorized_q_def)
  define d where "d = unat n - unat number"
  define r :: u32 where "r = word_of_nat d"
  have "d < 2 ^ 32" unfolding d_def using n(1,2) assms(4) by linarith
  then have "unat r = d" by (simp add: r_def unat_of_nat)
  then have r: "unat r = unat n - unat number" by (simp only: d_def)
  then have sum: "unat number + unat r = unat n" using n(1) by simp
  then have "isQBFTProposerForRound G snap (Some (k, a)) number r = Ok (?l ! (unat n mod length ?l) = a)"
    using proposer_position [OF ne, of number r k a] n(2) assms(3) by simp
  with n(3) have "isQBFTProposerForRound G snap (Some (k, a)) number r = Ok True" using InTurn_q_iff [OF small] by simp
  moreover have "unat r < card (Validators snap)" using r n by linarith
  ultimately show "\<exists>r. unat r < card (Validators snap) \<and> isQBFTProposerForRound G snap (Some (k, a)) number r = Ok True" by blast
  show "\<forall>r b c. isQBFTProposerForRound G snap (Some (k, b)) number r = Ok True \<longrightarrow>
             isQBFTProposerForRound G snap (Some (k, c)) number r = Ok True \<longrightarrow> b = c"
    by (auto simp: isQBFTProposerForRound_def Let_def split: if_splits)
qed

theorem qbft_proposer_rotation_witness:
  "\<exists>r. unat r < card (Validators demoQSnap) \<and> isQBFTProposerForRound demoGeth demoQSnap (Some ([], demoAddr 3)) 9 r = Ok True"
proof -
  have a: "demoAddr 3 \<in> Validators demoQSnap" by (simp add: demoQSnap_def newSnapshot_q_def)
  have "unat (9 :: u64) + card (Validators demoQSnap) < 2 ^ 63" "card (Validators demoQSnap) < 2 ^ 32"
    by (simp_all add: demoQSnap_card)
  from qbft_proposer_rotation [OF demoQSnap_wf a this] show ?thesis by blast
qed

text \<open>
  Re-proposing a prepared block keeps it valid: the header re-sealed for a later round is again a valid
  proposal of the sealing validator, with the new round in its extra data and every field outside the
  extra data unchanged.
\<close>

theorem qbft_reuse_prepared_valid:
  assumes "istanbul_codec C" and "VerifyProposal G C e snap h parent = Ok ()"
    and "reuseQBFTPreparedHeader G C h r k = Ok h'" and "ecdsa_ok G k" and "key_address G k \<in> Validators snap"
  shows "VerifyProposal G C e snap h' parent = Ok () \<and> (\<exists>x. h' = h\<lparr>Extra := x\<rparr>) \<and>
    (\<exists>ie. DecodeExtra C h' = Ok ie \<and> ieRound ie = r \<and> ieCommittedSeals ie = [])"
proof -
  from assms(2) obtain v ie where ex: "extra_is C h v ie" unfolding VerifyProposal_Ok_iff by blast
  from reuse_prepared_frame [OF assms(1) ex assms(3)] obtain x sig where h': "h' = h\<lparr>Extra := x\<rparr>"
    and ex': "extra_is C h' v (ie\<lparr>ieRound := r, ieSeal := sig, ieCommittedSeals := []\<rparr>)" by blast
  have "DecodeExtra C h' = Ok (ie\<lparr>ieRound := r, ieSeal := sig, ieCommittedSeals := []\<rparr>)"
    by (rule extra_is_DecodeExtra [OF ex'])
  then show ?thesis using reuse_prepared_verifies [OF assms] h' by fastforce
qed

theorem qbft_reuse_prepared_valid_witness:
  "\<exists>h'. reuseQBFTPreparedHeader demoGeth demoIstanbul demoSealed 1 (demoAddr 3) = Ok h' \<and>
     VerifyProposal demoGeth demoIstanbul demoQEngine demoQSnap h' (Some demoHeader) = Ok ()"
proof -
  have "is_ok (reuseQBFTPreparedHeader demoGeth demoIstanbul demoSealed 1 (demoAddr 3))" by code_simp
  then obtain h' where h': "reuseQBFTPreparedHeader demoGeth demoIstanbul demoSealed 1 (demoAddr 3) = Ok h'"
    by (auto simp: is_ok_iff)
  have "key_address demoGeth (demoAddr 3) \<in> Validators demoQSnap" by code_simp
  from qbft_reuse_prepared_valid [OF demoIstanbul_ok demo_proposal_ok h' demo_ecdsa_ok this] h' show ?thesis by blast
qed

text \<open>
  C38. A COMMIT can crash a core that timed out without a proposal: its proposal hash is still the zero hash
  and its header nil, so a COMMIT of any validator for the zero hash with a non-empty seal passes the
  comparison and reaches the seal verifier with a nil header, which panics.
\<close>

theorem qbft_nil_proposal_panic:
  assumes "cfg c = nodeConfig G C e snap parent key" and "cState c = stateRoundChange"
    and "proposalHeader c = None" and "proposalHash c = zeroHash"
    and "From m \<in> cValidators c" and "MsgType m = MsgCommit" and "dec (cCommit K) (Data m) = Some cm"
    and "Sequence cm = cSeq c" and "Round cm = cRound c" and "commBlockHash cm = zeroHash" and "CommitSeal cm \<noteq> []"
  shows "HandleMsg G K ord c m = Panic"
  using assms
  by (simp add: HandleMsg_def handleCommit_def sealMatches_def nodeCommitSealVerifier_def msg_types)

theorem qbft_nil_proposal_panic_witness:
  "\<exists>c ds. core_run demoGeth demoRlp (demoCore 0) [ETimeout] c ds \<and>
     HandleMsg demoGeth demoRlp (\<lambda>xs. xs) c (demoMsg MsgCommit 1 (be_put32 0 @ putBytes zeroHash @ putBytes (demoSig 1))) = Panic"
proof -
  let ?m = "demoMsg MsgCommit 1 (be_put32 0 @ putBytes zeroHash @ putBytes (demoSig 1))"
  let ?c = "(demoCore 0)\<lparr>cState := stateRoundChange\<rparr>"
  have run: "core_run demoGeth demoRlp (demoCore 0) [ETimeout] ?c [DBroadcast MsgRoundChange (be_put32 1)]"
    by (rule demo_run)
       (simp add: demoExec_def exec_def Timeout_def demoRlp_def putRoundChange_def demoCore_def nodeCore_def New_core_def)
  have c: "cfg ?c = nodeConfig demoGeth demoIstanbul demoQEngine demoQSnap demoHeader (Some (demoAddr 2))"
    "cState ?c = stateRoundChange" "proposalHeader ?c = None" "proposalHash ?c = zeroHash"
    by (simp_all add: demoCore_def nodeCore_def New_core_def)
  have f: "From ?m \<in> cValidators ?c" "MsgType ?m = MsgCommit"
    by (simp_all add: demoMsg_def demoCore_def nodeCore_def New_core_def) (simp add: demoQSnap_def newSnapshot_q_def)
  have "dec (cCommit demoRlp) (Data ?m) = Some \<lparr>Sequence = 1, Round = 0, commBlockHash = zeroHash, CommitSeal = demoSig 1\<rparr>"
    using getBytes_put [of "demoSig 1" "[]"] by (simp add: demoRlp_def getCommit_def demoMsg_def)
  from qbft_nil_proposal_panic [OF c f this, of "\<lambda>xs. xs"] run show ?thesis
    by (auto simp: demoCore_def nodeCore_def New_core_def demoSig_def demoAddr_def)
qed

text \<open>
  Empty seals are counted: in the same run with the third COMMIT carrying no seal, the core still commits,
  and the header it commits fails \<^verbatim>\<open>VerifyHeader\<close>.
\<close>

theorem qbft_empty_seal_commits_invalid:
  "case demoExec 0 (EStart demoSealed [7] [] # map (EMsg \<circ> demoPrepare) [1, 2, 3]
       @ map EMsg [demoCommit 1 (demoSig 1), demoCommit 2 (demoSig 2), demoCommit 3 []]) of
     Ok (c, ds) \<Rightarrow> cState c = stateCommitted \<and>
       list_ex (\<lambda>d. case d of
           DCommitBlock (Some h) _ \<Rightarrow>
             \<not> is_ok (VerifyHeader_q demoGeth demoIstanbul demoQEngine demoQSnap h (Some demoHeader))
         | _ \<Rightarrow> False) ds
   | _ \<Rightarrow> False"
  by code_simp

text \<open>
  The backlog is not bounded: the cap of 16 counts rounds, so one validator can make a fresh core store
  any number of copies of a proposal for one future round.
\<close>

definition demoFuture :: IncomingMsg where
  "demoFuture = demoMsg MsgProposal 1 (be_put32 1 @ [0])"

lemma demo_backlog:
  "core_run demoGeth demoRlp (demoCore 0) (replicate (Suc n) (EMsg demoFuture))
     ((demoCore 0)\<lparr>backlog := [(1, replicate (Suc n) demoFuture)]\<rparr>) []"
proof (induction n)
  case 0
  have "HandleMsg demoGeth demoRlp (\<lambda>xs. xs) (demoCore 0) demoFuture = Ok ((demoCore 0)\<lparr>backlog := [(1, [demoFuture])]\<rparr>, [])"
    by (simp add: HandleMsg_def handleProposal_def addBacklog_def demoFuture_def demoMsg_def demoRlp_def getProposal_def msg_types
        demoCore_def nodeCore_def New_core_def demoQSnap_def newSnapshot_q_def)
  from core_run.msg [OF core_run.init demo_order this] show ?case by simp
next
  case (Suc n)
  have "HandleMsg demoGeth demoRlp (\<lambda>xs. xs) ((demoCore 0)\<lparr>backlog := [(1, replicate (Suc n) demoFuture)]\<rparr>) demoFuture =
      Ok ((demoCore 0)\<lparr>backlog := [(1, replicate (Suc n) demoFuture @ [demoFuture])]\<rparr>, [])"
    by (simp add: HandleMsg_def handleProposal_def addBacklog_def demoFuture_def demoMsg_def demoRlp_def getProposal_def msg_types
        demoCore_def nodeCore_def New_core_def demoQSnap_def newSnapshot_q_def)
  from core_run.msg [OF Suc demo_order this] show ?case by (simp add: replicate_append_same)
qed

theorem qbft_backlog_unbounded:
  "\<exists>es c ds. core_run demoGeth demoRlp (demoCore 0) es c ds \<and> (\<exists>ms. map_of (backlog c) 1 = Some ms \<and> length ms = Suc n)"
  using demo_backlog [of n] by fastforce

text \<open>
  The QBFT snapshot and engine satisfy the interface contracts: exactly one authorized validator is in
  turn at each height, and replaying a segment at once or header by header reaches the same snapshot.
\<close>

theorem qbft_interface_contracts:
  assumes "qbft_wf G s" and "IsAuthorized_q s b"
  shows "(\<exists>!a. IsAuthorized_q s a \<and> InTurn_q G s n a) \<and>
    (Apply_q G C e s hs = Ok t \<longleftrightarrow> rfold (\<lambda>s h. Apply_q G C e s [h]) s hs = Ok t)"
  using qbs.in_turn_ex1 [OF assms, of n] qbe.apply_incremental [of G C "qbEpoch e" s hs t] unfolding Apply_q_def by blast

theorem qbft_interface_contracts_witness:
  "\<exists>!a. IsAuthorized_q demoQSnap a \<and> InTurn_q demoGeth demoQSnap 6 a"
proof -
  have a: "IsAuthorized_q demoQSnap (demoAddr 3)" by (simp add: IsAuthorized_q_def demoQSnap_def newSnapshot_q_def)
  from qbft_interface_contracts [OF demoQSnap_wf a, of 6] show ?thesis by blast
qed

end
