(* ===== verification/ChainDB.thy ===== *)
theory ChainDB
  imports Geth
begin

text \<open>
  The append-only block file: \<^verbatim>\<open>forkchoice/db.go\<close>. The file is a byte string with a cursor; a record
  is a 4-byte big-endian length and the RLP encoding of a \<open>persistedBlock\<close>. The RLP functions are the
  parameters \<open>H\<close> (headers) and \<open>P\<close> (records). The operating system is a parameter too: \<open>os\<close> tells
  which of the calls on the file succeed, and the outcome of the writes of one \<^verbatim>\<open>Append\<close> is \<open>io\<close>, where
  \<^const>\<open>None\<close> is a complete write and \<open>Some k\<close> one that stops after \<open>k\<close> bytes (a full disk, or a crash).

  The lemmas show that the file refines a list of records (the locale \<open>block_log\<close>, interpreted at the
  end): appending extends the list, reading returns it, and reopening after a partial write gives
  back exactly the records whose append was complete.
\<close>

section \<open>Data\<close>

record persistedBlock =
  pbHeader :: bytes
  pbELHash :: hash
  pbPayloadJSON :: bytes

record DBRecord =
  drHeader :: header
  drELHash :: hash
  drPayloadJSON :: bytes

record ChainDB =
  dbFile :: bytes
  dbPos :: nat

datatype db_error =
    DBMkdir | DBOpen | DBRepair | DBEncodeHeader | DBEncodeRecord | DBWriteLength | DBWritePayload
  | DBSeek | DBTruncate

text \<open>The system calls other than \<^verbatim>\<open>Write\<close> and \<^verbatim>\<open>Read\<close>, in the order the code makes them.\<close>

datatype os_call = OsMkdirAll | OsOpenFile | OsSeekStart | OsTruncate | OsSeekLast

section \<open>Operations\<close>

text \<open>\<^verbatim>\<open>f.Write\<close> at the cursor, which is never past the end of the file here.\<close>

definition writeFile :: "ChainDB \<Rightarrow> bytes \<Rightarrow> ChainDB" where
  "writeFile db data =
     \<lparr>dbFile = take (dbPos db) (dbFile db) @ data @ drop (dbPos db + length data) (dbFile db),
      dbPos = dbPos db + length data\<rparr>"

text \<open>The scan of \<^verbatim>\<open>repair\<close>: the end of the last complete record that decodes.\<close>

function goodEnd :: "persistedBlock codec \<Rightarrow> bytes \<Rightarrow> nat" where
  "goodEnd P bs =
     (if length bs < 4 then 0
      else let size = unat (be_uint32 bs); body = drop 4 bs in
        if length body < size then 0
        else case dec P (take size body) of
          None \<Rightarrow> 0
        | Some _ \<Rightarrow> 4 + size + goodEnd P (drop size body))"
  by pat_completeness auto
termination by (relation "measure (\<lambda>(P, bs). length bs)") auto

text \<open>The offset at which the scanning loop leaves the cursor.\<close>

function scanEnd :: "persistedBlock codec \<Rightarrow> bytes \<Rightarrow> nat" where
  "scanEnd P bs =
     (if length bs < 4 then length bs
      else let size = unat (be_uint32 bs); body = drop 4 bs in
        if length body < size then length bs
        else case dec P (take size body) of
          None \<Rightarrow> 4 + size
        | Some _ \<Rightarrow> 4 + size + scanEnd P (drop size body))"
  by pat_completeness auto
termination by (relation "measure (\<lambda>(P, bs). length bs)") auto

definition repair :: "persistedBlock codec \<Rightarrow> (os_call \<Rightarrow> bool) \<Rightarrow> ChainDB \<Rightarrow> ChainDB \<times> (db_error, unit) result" where
  "repair P os db =
     (if \<not> os OsSeekStart then (db, Err DBSeek)
      else let e = goodEnd P (dbFile db); db1 = db\<lparr>dbPos := scanEnd P (dbFile db)\<rparr> in
        if \<not> os OsTruncate then (db1, Err DBTruncate)
        else let db2 = db1\<lparr>dbFile := take e (dbFile db)\<rparr> in
          if \<not> os OsSeekLast then (db2, Err DBSeek)
          else (db2\<lparr>dbPos := e\<rparr>, Ok ()))"

text \<open>\<open>file\<close> is the content on disk, the empty string when the file does not exist.\<close>

definition OpenChainDB :: "persistedBlock codec \<Rightarrow> (os_call \<Rightarrow> bool) \<Rightarrow> bytes \<Rightarrow> (db_error, ChainDB) result" where
  "OpenChainDB P os file =
     (if \<not> os OsMkdirAll then Err DBMkdir
      else if \<not> os OsOpenFile then Err DBOpen
      else case repair P os \<lparr>dbFile = file, dbPos = 0\<rparr> of
        (db, Ok _) \<Rightarrow> Ok db
      | (db, _) \<Rightarrow> Err DBRepair)"

definition Append ::
    "header codec \<Rightarrow> persistedBlock codec \<Rightarrow> nat option \<Rightarrow> ChainDB \<Rightarrow> header \<Rightarrow> hash \<Rightarrow> bytes
      \<Rightarrow> ChainDB \<times> (db_error, unit) result" where
  "Append H P io db header elHash payloadJSON =
     (case enc H header of
        None \<Rightarrow> (db, Err DBEncodeHeader)
      | Some raw \<Rightarrow>
          (case enc P \<lparr>pbHeader = raw, pbELHash = elHash, pbPayloadJSON = payloadJSON\<rparr> of
             None \<Rightarrow> (db, Err DBEncodeRecord)
           | Some payload \<Rightarrow>
               let lenBuf = be_put32 (word_of_nat (length payload)) in
               case io of
                 None \<Rightarrow> (writeFile (writeFile db lenBuf) payload, Ok ())
               | Some k \<Rightarrow>
                   if k < 4 then (writeFile db (take k lenBuf), Err DBWriteLength)
                   else (writeFile (writeFile db lenBuf) (take (k - 4) payload), Err DBWritePayload)))"

function readRecords :: "header codec \<Rightarrow> persistedBlock codec \<Rightarrow> bytes \<Rightarrow> DBRecord list" where
  "readRecords H P bs =
     (if length bs < 4 then []
      else let size = unat (be_uint32 bs); body = drop 4 bs in
        if length body < size then []
        else case dec P (take size body) of
          None \<Rightarrow> []
        | Some pb \<Rightarrow>
            (case dec H (pbHeader pb) of
               None \<Rightarrow> []
             | Some h \<Rightarrow> \<lparr>drHeader = h, drELHash = pbELHash pb, drPayloadJSON = pbPayloadJSON pb\<rparr>
                         # readRecords H P (drop size body)))"
  by pat_completeness auto
termination by (relation "measure (\<lambda>(H, P, bs). length bs)") auto

text \<open>
  \<^verbatim>\<open>ReadAll\<close>. The cursor is returned only on the successful path, where \<^verbatim>\<open>Seek(0, SeekEnd)\<close> sets it.
\<close>

definition ReadAll ::
    "header codec \<Rightarrow> persistedBlock codec \<Rightarrow> (os_call \<Rightarrow> bool) \<Rightarrow> ChainDB
      \<Rightarrow> (db_error, ChainDB \<times> DBRecord list) result" where
  "ReadAll H P os db =
     (if \<not> os OsSeekStart then Err DBSeek
      else let records = readRecords H P (dbFile db) in
        if \<not> os OsSeekLast then Err DBSeek
        else Ok (db\<lparr>dbPos := length (dbFile db)\<rparr>, records))"

definition Truncate :: "(os_call \<Rightarrow> bool) \<Rightarrow> ChainDB \<Rightarrow> ChainDB \<times> (db_error, unit) result" where
  "Truncate os db =
     (if \<not> os OsTruncate then (db, Err DBTruncate)
      else let db1 = db\<lparr>dbFile := []\<rparr> in
        if \<not> os OsSeekStart then (db1, Err DBSeek) else (db1\<lparr>dbPos := 0\<rparr>, Ok ()))"

declare goodEnd.simps [simp del] scanEnd.simps [simp del] readRecords.simps [simp del]

section \<open>Frames\<close>

text \<open>The bytes of one record, and files that are a sequence of complete records.\<close>

definition frame :: "bytes \<Rightarrow> bytes" where
  "frame payload = be_put32 (word_of_nat (length payload)) @ payload"

definition frames :: "bytes list \<Rightarrow> bytes" where
  "frames ps = concat (map frame ps)"

lemma frames_simps [simp]:
  "frames [] = []" "frames (p # ps) = frame p @ frames ps" "frames (ps @ qs) = frames ps @ frames qs"
  by (simp_all add: frames_def)

lemma length_frame [simp]: "length (frame p) = 4 + length p"
  by (simp add: frame_def)

text \<open>A payload that the record decoder accepts and whose length fits the prefix.\<close>

definition good_payload :: "persistedBlock codec \<Rightarrow> bytes \<Rightarrow> bool" where
  "good_payload P p \<longleftrightarrow> dec P p \<noteq> None \<and> length p < 2 ^ 32"

lemma frame_size: "length p < 2 ^ 32 \<Longrightarrow> unat (be_uint32 (frame p @ rest)) = length p"
  by (simp add: frame_def unat_of_nat)

lemma drop4_frame [simp]: "drop 4 (frame p) = p"
  by (simp add: frame_def)

lemma goodEnd_frame:
  assumes "good_payload P p"
  shows "goodEnd P (frame p @ rest) = 4 + length p + goodEnd P rest"
proof -
  have s: "unat (be_uint32 (frame p @ rest)) = length p" using assms by (intro frame_size) (simp add: good_payload_def)
  from assms obtain pb where "dec P p = Some pb" by (auto simp: good_payload_def)
  then show ?thesis by (subst goodEnd.simps) (simp add: Let_def s del: drop_drop)
qed

lemma goodEnd_frames:
  "\<forall>p \<in> set ps. good_payload P p \<Longrightarrow> goodEnd P (frames ps @ rest) = length (frames ps) + goodEnd P rest"
  by (induction ps) (simp_all add: goodEnd_frame)

lemma goodEnd_step:
  assumes "4 \<le> length bs" and "unat (be_uint32 bs) \<le> length (drop 4 bs)"
    and "dec P (take (unat (be_uint32 bs)) (drop 4 bs)) = Some pb"
  shows "goodEnd P bs = 4 + unat (be_uint32 bs) + goodEnd P (drop (unat (be_uint32 bs)) (drop 4 bs))"
  using assms by (subst goodEnd.simps) (simp add: Let_def del: drop_drop)

lemma goodEnd_stop:
  assumes "\<not> (4 \<le> length bs \<and> unat (be_uint32 bs) \<le> length (drop 4 bs) \<and>
              dec P (take (unat (be_uint32 bs)) (drop 4 bs)) \<noteq> None)"
  shows "goodEnd P bs = 0"
  using assms by (subst goodEnd.simps) (auto simp: Let_def)

lemma goodEnd_le: "goodEnd P bs \<le> length bs"
proof (induction bs rule: length_induct)
  case (1 bs)
  let ?size = "unat (be_uint32 bs)" and ?body = "drop 4 bs"
  show ?case
  proof (cases "4 \<le> length bs \<and> ?size \<le> length ?body \<and> dec P (take ?size ?body) \<noteq> None")
    case False
    then have "goodEnd P bs = 0" by (rule goodEnd_stop)
    then show ?thesis by simp
  next
    case True
    have "length (drop ?size ?body) < length bs" using True by auto
    with 1 have "goodEnd P (drop ?size ?body) \<le> length (drop ?size ?body)" by blast
    moreover have "goodEnd P bs = 4 + ?size + goodEnd P (drop ?size ?body)" using True goodEnd_step by blast
    ultimately show ?thesis using True by auto
  qed
qed

text \<open>A proper prefix of a frame holds no complete record.\<close>

lemma goodEnd_partial:
  assumes "length p < 2 ^ 32" and "k < 4 + length p"
  shows "goodEnd P (take k (frame p)) = 0"
proof (cases "k < 4")
  case True
  then show ?thesis by (subst goodEnd.simps) simp
next
  case False
  then have t: "take k (frame p) = be_put32 (word_of_nat (length p)) @ take (k - 4) p"
    by (simp add: frame_def)
  have size: "unat (be_uint32 (take k (frame p))) = length p" unfolding t using assms(1) by (simp add: unat_of_nat)
  have "length (drop 4 (take k (frame p))) < length p" using assms(2) False by simp
  then show ?thesis using size by (intro goodEnd_stop) linarith
qed

text \<open>What the scan keeps is a sequence of good frames.\<close>

lemma goodEnd_shape: "\<exists>ps. take (goodEnd P bs) bs = frames ps \<and> (\<forall>p \<in> set ps. good_payload P p)"
proof (induction bs rule: length_induct)
  case (1 bs)
  let ?size = "unat (be_uint32 bs)" and ?body = "drop 4 bs"
  show ?case
  proof (cases "4 \<le> length bs \<and> ?size \<le> length ?body \<and> dec P (take ?size ?body) \<noteq> None")
    case False
    then have "goodEnd P bs = 0" by (rule goodEnd_stop)
    then show ?thesis by (intro exI [of _ "[]"]) simp
  next
    case True
    then have ge: "goodEnd P bs = 4 + ?size + goodEnd P (drop ?size ?body)"
      using goodEnd_step by blast
    have "length (drop ?size ?body) < length bs" using True by auto
    with 1 obtain ps where ps: "take (goodEnd P (drop ?size ?body)) (drop ?size ?body) = frames ps"
      "\<forall>p \<in> set ps. good_payload P p" by blast
    let ?p = "take ?size ?body"
    have len: "length ?p = ?size" using True by simp
    have "?size < 2 ^ 32" using unsigned_less [of "be_uint32 bs"] by simp
    then have gp: "good_payload P ?p" using True len by (simp add: good_payload_def)
    have "frame ?p = take 4 bs @ ?p" using True by (simp add: frame_def len be_put32_take)
    then have "take (goodEnd P bs) bs = frames (?p # ps)"
      unfolding ge frames_simps ps(1) [symmetric]
      by (simp only: take_add drop_drop append_assoc) (simp only: add.commute [of 4])
    then show ?thesis using gp ps(2) by (intro exI [of _ "?p # ps"]) simp
  qed
qed

section \<open>The file as a list of records\<close>

text \<open>
  \<open>p\<close> is the encoding of the record \<open>r\<close>: both RLP levels round-trip and the length fits the prefix.
\<close>

definition encodes :: "header codec \<Rightarrow> persistedBlock codec \<Rightarrow> DBRecord \<Rightarrow> bytes \<Rightarrow> bool" where
  "encodes H P r p \<longleftrightarrow>
     length p < 2 ^ 32 \<and>
     (\<exists>raw. let pb = \<lparr>pbHeader = raw, pbELHash = drELHash r, pbPayloadJSON = drPayloadJSON r\<rparr> in
        enc H (drHeader r) = Some raw \<and> dec H raw = Some (drHeader r) \<and>
        enc P pb = Some p \<and> dec P p = Some pb)"

definition storable :: "header codec \<Rightarrow> persistedBlock codec \<Rightarrow> DBRecord \<Rightarrow> bool" where
  "storable H P r \<longleftrightarrow> (\<exists>p. encodes H P r p)"

text \<open>The abstraction: the file is exactly the records \<open>rs\<close>, and the cursor is at its end.\<close>

definition db_holds :: "header codec \<Rightarrow> persistedBlock codec \<Rightarrow> ChainDB \<Rightarrow> DBRecord list \<Rightarrow> bool" where
  "db_holds H P db rs \<longleftrightarrow>
     (\<exists>ps. list_all2 (encodes H P) rs ps \<and> dbFile db = frames ps) \<and> dbPos db = length (dbFile db)"

definition appendRec ::
    "header codec \<Rightarrow> persistedBlock codec \<Rightarrow> nat option \<Rightarrow> ChainDB \<Rightarrow> DBRecord
      \<Rightarrow> ChainDB \<times> (db_error, unit) result" where
  "appendRec H P io db r = Append H P io db (drHeader r) (drELHash r) (drPayloadJSON r)"

text \<open>The process restarts on the file \<open>db\<close> left behind.\<close>

definition reopen :: "persistedBlock codec \<Rightarrow> ChainDB \<Rightarrow> ChainDB" where
  "reopen P db = (case OpenChainDB P (\<lambda>_. True) (dbFile db) of Ok db' \<Rightarrow> db' | _ \<Rightarrow> db)"

text \<open>Whether a write outcome covers the whole record.\<close>

definition complete :: "header codec \<Rightarrow> persistedBlock codec \<Rightarrow> nat option \<Rightarrow> DBRecord \<Rightarrow> bool" where
  "complete H P io r =
     (case io of None \<Rightarrow> True
      | Some k \<Rightarrow> k \<ge> 4 + length (the (enc P \<lparr>pbHeader = the (enc H (drHeader r)),
                                        pbELHash = drELHash r, pbPayloadJSON = drPayloadJSON r\<rparr>)))"

lemma encodes_good: "encodes H P r p \<Longrightarrow> good_payload P p"
  by (auto simp: encodes_def good_payload_def Let_def)

lemma encodes_all_good: "list_all2 (encodes H P) rs ps \<Longrightarrow> \<forall>p \<in> set ps. good_payload P p"
  by (induction rule: list_all2_induct) (auto dest: encodes_good)

lemma readRecords_frame:
  assumes "encodes H P r p"
  shows "readRecords H P (frame p @ rest) = r # readRecords H P rest"
proof -
  from assms have s: "unat (be_uint32 (frame p @ rest)) = length p"
    by (intro frame_size) (simp add: encodes_def)
  from assms obtain raw where
    "dec P p = Some \<lparr>pbHeader = raw, pbELHash = drELHash r, pbPayloadJSON = drPayloadJSON r\<rparr>"
    "dec H raw = Some (drHeader r)" by (auto simp: encodes_def Let_def)
  then show ?thesis by (subst readRecords.simps) (simp add: Let_def s del: drop_drop)
qed

lemma readRecords_frames: "list_all2 (encodes H P) rs ps \<Longrightarrow> readRecords H P (frames ps) = rs"
proof (induction rule: list_all2_induct)
  case Nil
  show ?case by (subst readRecords.simps) simp
next
  case (Cons r rs p ps)
  then show ?case by (simp add: readRecords_frame)
qed

lemma OpenChainDB_ok:
  "OpenChainDB P (\<lambda>_. True) file = Ok \<lparr>dbFile = take (goodEnd P file) file, dbPos = goodEnd P file\<rparr>"
  by (simp add: OpenChainDB_def repair_def Let_def)

lemma reopen_file: "reopen P db = \<lparr>dbFile = take (goodEnd P (dbFile db)) (dbFile db), dbPos = goodEnd P (dbFile db)\<rparr>"
  by (simp add: reopen_def OpenChainDB_ok)

lemma goodEnd_frames_only: "\<forall>p \<in> set ps. good_payload P p \<Longrightarrow> goodEnd P (frames ps) = length (frames ps)"
  using goodEnd_frames [of ps P "[]"] goodEnd_stop [of "[]" P] by simp

text \<open>Reopening a file of complete records followed by bytes that hold none.\<close>

lemma reopen_holds:
  assumes "list_all2 (encodes H P) rs ps" and "dbFile db = frames ps @ rest" and "goodEnd P rest = 0"
  shows "db_holds H P (reopen P db) rs"
proof -
  from assms have "goodEnd P (dbFile db) = length (frames ps)"
    by (simp add: goodEnd_frames encodes_all_good)
  with assms show ?thesis by (auto simp: reopen_file db_holds_def)
qed

lemma Append_file:
  assumes "db_holds H P db rs" and "encodes H P r p"
  shows "appendRec H P None db r =
           (\<lparr>dbFile = dbFile db @ frame p, dbPos = length (dbFile db) + 4 + length p\<rparr>, Ok ())"
    and "dbFile (fst (appendRec H P (Some k) db r)) = dbFile db @ take k (frame p)"
    and "complete H P (Some k) r \<longleftrightarrow> length (frame p) \<le> k"
proof -
  from assms(2) obtain raw where raw: "enc H (drHeader r) = Some raw"
    "enc P \<lparr>pbHeader = raw, pbELHash = drELHash r, pbPayloadJSON = drPayloadJSON r\<rparr> = Some p"
    by (auto simp: encodes_def Let_def)
  have pos: "dbPos db = length (dbFile db)" using assms(1) by (simp add: db_holds_def)
  show "appendRec H P None db r =
           (\<lparr>dbFile = dbFile db @ frame p, dbPos = length (dbFile db) + 4 + length p\<rparr>, Ok ())"
    by (simp add: appendRec_def Append_def raw writeFile_def pos frame_def Let_def)
  show "dbFile (fst (appendRec H P (Some k) db r)) = dbFile db @ take k (frame p)"
    by (simp add: appendRec_def Append_def raw writeFile_def pos frame_def Let_def)
  show "complete H P (Some k) r \<longleftrightarrow> length (frame p) \<le> k"
    by (simp add: complete_def raw)
qed

lemma append_holds:
  assumes "db_holds H P db rs" and "storable H P r"
  shows "snd (appendRec H P None db r) = Ok () \<and> db_holds H P (fst (appendRec H P None db r)) (rs @ [r])"
proof -
  from assms obtain p ps where p: "encodes H P r p" "list_all2 (encodes H P) rs ps" "dbFile db = frames ps"
    by (auto simp: storable_def db_holds_def)
  then have "list_all2 (encodes H P) (rs @ [r]) (ps @ [p])" and "dbFile db @ frame p = frames (ps @ [p])"
    by (simp_all add: list_all2_appendI)
  then have "\<exists>qs. list_all2 (encodes H P) (rs @ [r]) qs \<and> dbFile db @ frame p = frames qs" by blast
  then show ?thesis by (simp add: Append_file [OF assms(1) p(1)] db_holds_def)
qed

lemma crash_holds:
  assumes "db_holds H P db rs" and "storable H P r"
  shows "db_holds H P (reopen P (fst (appendRec H P (Some k) db r)))
           (if complete H P (Some k) r then rs @ [r] else rs)"
proof -
  from assms obtain p ps where p: "encodes H P r p" "list_all2 (encodes H P) rs ps" "dbFile db = frames ps"
    by (auto simp: storable_def db_holds_def)
  note af = Append_file [OF assms(1) p(1)]
  show ?thesis
  proof (cases "length (frame p) \<le> k")
    case True
    then have "dbFile (fst (appendRec H P (Some k) db r)) = frames (ps @ [p]) @ []" using af p(3) by simp
    moreover have "list_all2 (encodes H P) (rs @ [r]) (ps @ [p])" using p by (simp add: list_all2_appendI)
    moreover have "goodEnd P [] = 0" by (rule goodEnd_stop) simp
    ultimately have "db_holds H P (reopen P (fst (appendRec H P (Some k) db r))) (rs @ [r])"
      by (intro reopen_holds)
    then show ?thesis using True af(3) by simp
  next
    case False
    then have "goodEnd P (take k (frame p)) = 0"
      using p(1) by (intro goodEnd_partial) (simp_all add: encodes_def)
    with p(2,3) af(2) have "db_holds H P (reopen P (fst (appendRec H P (Some k) db r))) rs"
      by (intro reopen_holds) auto
    then show ?thesis using False af(3) by simp
  qed
qed

lemma readAll_holds:
  "db_holds H P db rs \<Longrightarrow> ReadAll H P (\<lambda>_. True) db = Ok (db, rs)"
  by (auto simp: ReadAll_def db_holds_def readRecords_frames)

lemma reopen_same: "db_holds H P db rs \<Longrightarrow> reopen P db = db"
  by (auto simp: reopen_file db_holds_def goodEnd_frames_only encodes_all_good)

lemma truncate_holds: "db_holds H P (fst (Truncate (\<lambda>_. True) db)) []"
  by (simp add: Truncate_def Let_def db_holds_def)

section \<open>The interface of a block log\<close>

text \<open>
  What the node relies on: a log holds a list of records; an append whose write was complete adds one,
  and after any other outcome the process restarts (\<open>restart\<close>) on the file it left.
\<close>

locale block_log =
  fixes holds :: "'db \<Rightarrow> 'r list \<Rightarrow> bool" and ok :: "'r \<Rightarrow> bool"
    and append_io :: "'io option \<Rightarrow> 'db \<Rightarrow> 'r \<Rightarrow> 'db" and restart :: "'db \<Rightarrow> 'db"
    and whole :: "'io option \<Rightarrow> 'r \<Rightarrow> bool"
  assumes append_law: "holds db rs \<Longrightarrow> ok r \<Longrightarrow> holds (append_io None db r) (rs @ [r])"
    and crash_law: "holds db rs \<Longrightarrow> ok r \<Longrightarrow>
          holds (restart (append_io (Some k) db r)) (if whole (Some k) r then rs @ [r] else rs)"
    and whole_None: "whole None r"
begin

text \<open>A history of appends, each with its outcome, leaves the records whose write was complete.\<close>

lemma history_holds:
  assumes "holds db rs" and "\<forall>(r, io) \<in> set xs. ok r"
  shows "holds (foldl (\<lambda>db (r, io). if io = None then append_io None db r else restart (append_io io db r)) db xs)
           (rs @ map fst (filter (\<lambda>(r, io). whole io r) xs))"
  using assms
proof (induction xs arbitrary: db rs)
  case Nil
  then show ?case by simp
next
  case (Cons x xs)
  obtain r io where x: "x = (r, io)" by force
  then have r: "ok r" and rest: "\<forall>(r, io) \<in> set xs. ok r" using Cons.prems(2) by auto
  show ?case
  proof (cases io)
    case None
    from Cons.IH [OF append_law [OF Cons.prems(1) r] rest] show ?thesis by (simp add: x None whole_None)
  next
    case (Some k)
    from Cons.IH [OF crash_law [OF Cons.prems(1) r, of k] rest] show ?thesis by (simp add: x Some split: if_splits)
  qed
qed

end

interpretation cdb: block_log "db_holds H P" "storable H P" "\<lambda>io db r. fst (appendRec H P io db r)" "reopen P"
  "complete H P" for H P
proof unfold_locales
  show "db_holds H P db rs \<Longrightarrow> storable H P r \<Longrightarrow> db_holds H P (fst (appendRec H P None db r)) (rs @ [r])" for db rs r
    using append_holds by blast
  show "db_holds H P db rs \<Longrightarrow> storable H P r \<Longrightarrow>
     db_holds H P (reopen P (fst (appendRec H P (Some k) db r))) (if complete H P (Some k) r then rs @ [r] else rs)" for db rs r k
    by (rule crash_holds)
  show "complete H P None r" for r by (simp add: complete_def)
qed

end
