(* ===== verification/Forkchoice.thy ===== *)
theory Forkchoice
  imports ChainDB
begin

text \<open>
  The fork choice store: \<^verbatim>\<open>forkchoice/store.go\<close>. The Go maps are partial functions, the nil-able pointers
  \<^verbatim>\<open>head\<close>, \<^verbatim>\<open>safe\<close>, \<^verbatim>\<open>finalized\<close> are options, the attached \<open>ChainDB\<close> is an optional value. The loops
  that follow parent links may run forever on an arbitrary map, so they are partial functions into
  \<^typ>\<open>'a option\<close> where \<^const>\<open>None\<close> is divergence. A nil block number makes them panic.
  The mutex and the log lines are not modelled: each operation holds the lock for its whole body.
\<close>

section \<open>Calls that may diverge\<close>

text \<open>Sequencing for a computation that diverges (\<^const>\<open>None\<close>) or gives the result of a Go call.\<close>

fun lbind :: "('e, 'a) result option \<Rightarrow> ('a \<Rightarrow> ('e, 'b) result option) \<Rightarrow> ('e, 'b) result option" where
  "lbind None f = None"
| "lbind (Some (Ok x)) f = f x"
| "lbind (Some (Err e)) f = Some (Err e)"
| "lbind (Some Panic) f = Some Panic"

section \<open>Data\<close>

datatype store_error = ErrNilField | ErrUnknownParent

record blockEntry =
  beHeader :: header
  beTD :: int

record Store =
  stBlocks :: "hash \<rightharpoonup> blockEntry"
  stNumbers :: "u64 \<rightharpoonup> hash"
  stElHashes :: "hash \<rightharpoonup> hash"
  stHead :: "blockEntry option"
  stSafe :: "blockEntry option"
  stFinalized :: "blockEntry option"
  stGenesis :: hash
  stEpoch :: u64
  stPayloads :: "hash \<rightharpoonup> bytes"
  stDb :: "ChainDB option"

record ForkchoiceStateV1 =
  HeadBlockHash :: hash
  SafeBlockHash :: hash
  FinalizedBlockHash :: hash

abbreviation parentOf :: "blockEntry \<Rightarrow> hash" where
  "parentOf e \<equiv> ParentHash (beHeader e)"

abbreviation bnum :: "blockEntry \<Rightarrow> u64 option" where
  "bnum e \<equiv> hnum (beHeader e)"

abbreviation ehash :: "geth \<Rightarrow> blockEntry \<Rightarrow> hash" where
  "ehash G e \<equiv> hdrHash G (beHeader e)"

section \<open>Creation\<close>

definition genesisTD :: "header \<Rightarrow> int" where
  "genesisTD g = (case Difficulty g of None \<Rightarrow> 1 | Some d \<Rightarrow> if d \<le> 0 then 1 else d)"

definition New_store :: "geth \<Rightarrow> header \<Rightarrow> u64 \<Rightarrow> Store" where
  "New_store G genesis epoch =
     (let h = hdrHash G genesis; entry = \<lparr>beHeader = genesis, beTD = genesisTD genesis\<rparr> in
      \<lparr>stBlocks = [h \<mapsto> entry], stNumbers = [0 \<mapsto> h], stElHashes = [h \<mapsto> h],
       stHead = Some entry, stSafe = Some entry, stFinalized = Some entry,
       stGenesis = h, stEpoch = epoch, stPayloads = Map.empty, stDb = None\<rparr>)"

definition Reset :: "geth \<Rightarrow> Store \<Rightarrow> header \<Rightarrow> Store" where
  "Reset G s genesis =
     (let h = hdrHash G genesis; entry = \<lparr>beHeader = genesis, beTD = genesisTD genesis\<rparr> in
      s\<lparr>stBlocks := [h \<mapsto> entry], stNumbers := [0 \<mapsto> h], stElHashes := [h \<mapsto> h], stPayloads := Map.empty,
        stHead := Some entry, stSafe := Some entry, stFinalized := Some entry, stGenesis := h\<rparr>)"

definition SetDB :: "Store \<Rightarrow> ChainDB option \<Rightarrow> Store" where
  "SetDB s db = s\<lparr>stDb := db\<rparr>"

section \<open>Queries\<close>

definition Head :: "Store \<Rightarrow> header option" where
  "Head s = map_option beHeader (stHead s)"

definition Safe :: "Store \<Rightarrow> header option" where
  "Safe s = map_option beHeader (stSafe s)"

definition Finalized :: "Store \<Rightarrow> header option" where
  "Finalized s = map_option beHeader (stFinalized s)"

definition GetByHash :: "Store \<Rightarrow> hash \<Rightarrow> header option" where
  "GetByHash s h = map_option beHeader (stBlocks s h)"

definition GetByNumber :: "Store \<Rightarrow> u64 \<Rightarrow> header option" where
  "GetByNumber s n = Option.bind (stNumbers s n) (\<lambda>h. map_option beHeader (stBlocks s h))"

definition TD :: "Store \<Rightarrow> hash \<Rightarrow> int option" where
  "TD s h = map_option beTD (stBlocks s h)"

definition HasBlock :: "Store \<Rightarrow> hash \<Rightarrow> bool" where
  "HasBlock s h \<longleftrightarrow> stBlocks s h \<noteq> None"

definition Len :: "Store \<Rightarrow> nat" where
  "Len s = card (dom (stBlocks s))"

definition GetPayload :: "Store \<Rightarrow> hash \<Rightarrow> bytes option" where
  "GetPayload s h = stPayloads s h"

text \<open>The EL hash of a tip pointer, the zero hash when the pointer is nil or has no EL hash.\<close>

definition elHashOf :: "geth \<Rightarrow> Store \<Rightarrow> blockEntry option \<Rightarrow> hash" where
  "elHashOf G s p =
     (case p of None \<Rightarrow> zeroHash
      | Some e \<Rightarrow> (case stElHashes s (ehash G e) of None \<Rightarrow> zeroHash | Some h \<Rightarrow> h))"

definition ForkchoiceState :: "geth \<Rightarrow> Store \<Rightarrow> ForkchoiceStateV1" where
  "ForkchoiceState G s =
     \<lparr>HeadBlockHash = elHashOf G s (stHead s), SafeBlockHash = elHashOf G s (stSafe s),
      FinalizedBlockHash = elHashOf G s (stFinalized s)\<rparr>"

text \<open>One iteration of \<^verbatim>\<open>BlocksInRange\<close>, and its loop: \<^verbatim>\<open>num++\<close> wraps.\<close>

definition rangeItem :: "Store \<Rightarrow> u64 \<Rightarrow> (header \<times> hash) option" where
  "rangeItem s num =
     Option.bind (stNumbers s num) (\<lambda>h. Option.bind (stBlocks s h) (\<lambda>entry.
       Option.bind (stElHashes s h) (\<lambda>el. Some (beHeader entry, el))))"

partial_function (option) rangeLoop ::
    "Store \<Rightarrow> u64 \<Rightarrow> u64 \<Rightarrow> (header \<times> hash) list \<Rightarrow> (header \<times> hash) list option" where
  [code]: "rangeLoop s num to acc =
     (if num > to then Some acc
      else rangeLoop s (num + 1) to
             (case rangeItem s num of None \<Rightarrow> acc | Some x \<Rightarrow> acc @ [x]))"

definition BlocksInRange :: "Store \<Rightarrow> u64 \<Rightarrow> u64 \<Rightarrow> (header list \<times> hash list) option" where
  "BlocksInRange s from to = map_option (\<lambda>xs. (map fst xs, map snd xs)) (rangeLoop s from to [])"

section \<open>Reorganisation\<close>

text \<open>The loops that equalise heights: follow parents while the number is above \<open>limit\<close>.\<close>

partial_function (option) equalise ::
    "(hash \<rightharpoonup> blockEntry) \<Rightarrow> blockEntry \<Rightarrow> u64 \<Rightarrow> (store_error, blockEntry option) result option" where
  [code]: "equalise bl a limit =
     (case bnum a of
        None \<Rightarrow> Some Panic
      | Some n \<Rightarrow>
          if n \<le> limit then Some (Ok (Some a))
          else (case bl (parentOf a) of None \<Rightarrow> Some (Ok None) | Some par \<Rightarrow> equalise bl par limit))"

text \<open>Walk both chains back until they share a hash.\<close>

partial_function (option) meet ::
    "geth \<Rightarrow> (hash \<rightharpoonup> blockEntry) \<Rightarrow> blockEntry \<Rightarrow> blockEntry \<Rightarrow> blockEntry option option" where
  [code]: "meet G bl a b =
     (if ehash G a = ehash G b then Some (Some a)
      else (case bl (parentOf a) of
              None \<Rightarrow> Some None
            | Some parA \<Rightarrow>
                (case bl (parentOf b) of None \<Rightarrow> Some None | Some parB \<Rightarrow> meet G bl parA parB)))"

definition findCommonAncestor ::
    "geth \<Rightarrow> (hash \<rightharpoonup> blockEntry) \<Rightarrow> blockEntry \<Rightarrow> blockEntry \<Rightarrow> (store_error, blockEntry option) result option" where
  "findCommonAncestor G bl a b =
     (case bnum b of
        None \<Rightarrow> Some Panic
      | Some nb \<Rightarrow>
          lbind (equalise bl a nb) (\<lambda>ra.
            case ra of
              None \<Rightarrow> Some (Ok None)
            | Some a' \<Rightarrow>
                (case bnum a' of
                   None \<Rightarrow> Some Panic
                 | Some na \<Rightarrow>
                     lbind (equalise bl b na) (\<lambda>rb.
                       case rb of None \<Rightarrow> Some (Ok None) | Some b' \<Rightarrow> map_option Ok (meet G bl a' b')))))"

text \<open>Remove the old chain from the canonical index down to, not including, the ancestor.\<close>

partial_function (option) dropOld ::
    "geth \<Rightarrow> (hash \<rightharpoonup> blockEntry) \<Rightarrow> (u64 \<rightharpoonup> hash) \<Rightarrow> blockEntry \<Rightarrow> hash \<Rightarrow> (store_error, u64 \<rightharpoonup> hash) result option" where
  [code]: "dropOld G bl numbers cur ancestorHash =
     (if ehash G cur = ancestorHash then Some (Ok numbers)
      else (case bnum cur of
              None \<Rightarrow> Some Panic
            | Some n \<Rightarrow>
                (case bl (parentOf cur) of
                   None \<Rightarrow> Some (Ok (numbers(n := None)))
                 | Some par \<Rightarrow> dropOld G bl (numbers(n := None)) par ancestorHash)))"

text \<open>Collect the new chain from the new head back to, not including, the ancestor.\<close>

partial_function (option) collectNew ::
    "geth \<Rightarrow> (hash \<rightharpoonup> blockEntry) \<Rightarrow> blockEntry \<Rightarrow> hash \<Rightarrow> blockEntry list \<Rightarrow> blockEntry list option" where
  [code]: "collectNew G bl cur ancestorHash acc =
     (if ehash G cur = ancestorHash then Some acc
      else (case bl (parentOf cur) of
              None \<Rightarrow> Some (acc @ [cur])
            | Some par \<Rightarrow> collectNew G bl par ancestorHash (acc @ [cur])))"

fun canonise :: "geth \<Rightarrow> (u64 \<rightharpoonup> hash) \<Rightarrow> blockEntry list \<Rightarrow> (store_error, u64 \<rightharpoonup> hash) result" where
  "canonise G numbers [] = Ok numbers"
| "canonise G numbers (e # es) =
     (case bnum e of None \<Rightarrow> Panic | Some n \<Rightarrow> canonise G (numbers(n \<mapsto> ehash G e)) es)"

text \<open>The block a number resolves to on the canonical chain, or the genesis entry.\<close>

definition canonicalOr :: "Store \<Rightarrow> u64 \<Rightarrow> blockEntry option \<Rightarrow> blockEntry option" where
  "canonicalOr s n dflt =
     (case Option.bind (stNumbers s n) (stBlocks s) of None \<Rightarrow> dflt | Some e \<Rightarrow> Some e)"

definition updateSafeFinalized :: "Store \<Rightarrow> (store_error, Store) result" where
  "updateSafeFinalized s =
     (case stHead s of
        None \<Rightarrow> Ok s
      | Some tip \<Rightarrow>
          if stEpoch s = 0 then Ok s
          else (case bnum tip of
            None \<Rightarrow> Panic
          | Some headNum \<Rightarrow>
              let genesis = stBlocks s (stGenesis s);
                  safeNum = (headNum div stEpoch s) * stEpoch s;
                  epochIdx = headNum div stEpoch s
              in Ok (s\<lparr>stSafe := canonicalOr s safeNum genesis,
                       stFinalized := (if epochIdx \<ge> 2
                                       then canonicalOr s ((epochIdx - 2) * stEpoch s) genesis
                                       else genesis)\<rparr>)))"

text \<open>
  \<^verbatim>\<open>setHead\<close>: a direct extension, or a reorg. When no common ancestor is found the ancestor hash and
  number are zero.
\<close>

definition reorg :: "geth \<Rightarrow> Store \<Rightarrow> blockEntry \<Rightarrow> blockEntry \<Rightarrow> u64 \<Rightarrow> (store_error, Store \<times> u64) result option" where
  "reorg G s oldHead newHead newNum =
     lbind (findCommonAncestor G (stBlocks s) oldHead newHead) (\<lambda>ancestor.
       let ancestorHash = (case ancestor of None \<Rightarrow> zeroHash | Some e \<Rightarrow> ehash G e) in
       lbind (case ancestor of None \<Rightarrow> Some (Ok 0) | Some e \<Rightarrow> Some (number_of (beHeader e))) (\<lambda>ancestorNum.
         lbind (dropOld G (stBlocks s) (stNumbers s) oldHead ancestorHash) (\<lambda>dropped.
           lbind (map_option Ok (collectNew G (stBlocks s) newHead ancestorHash [])) (\<lambda>toCanonise.
             lbind (Some (canonise G dropped toCanonise)) (\<lambda>numbers.
               lbind (Some (updateSafeFinalized (s\<lparr>stNumbers := numbers, stHead := Some newHead\<rparr>))) (\<lambda>s'.
                 Some (Ok (s', newNum - ancestorNum))))))))"

definition setHead :: "geth \<Rightarrow> Store \<Rightarrow> blockEntry \<Rightarrow> (store_error, Store \<times> u64) result option" where
  "setHead G s newHead =
     lbind (Some (number_of (beHeader newHead))) (\<lambda>newNum.
       case stHead s of
         Some oldHead \<Rightarrow>
           if parentOf newHead = ehash G oldHead
           then lbind (Some (updateSafeFinalized
                  (s\<lparr>stNumbers := (stNumbers s)(newNum \<mapsto> ehash G newHead), stHead := Some newHead\<rparr>)))
                  (\<lambda>s'. Some (Ok (s', 0)))
           else reorg G s oldHead newHead newNum
       | None \<Rightarrow>
           lbind (Some (updateSafeFinalized
             (s\<lparr>stNumbers := (stNumbers s)(newNum \<mapsto> ehash G newHead), stHead := Some newHead\<rparr>)))
             (\<lambda>s'. Some (Ok (s', 0))))"

section \<open>Adding a block\<close>

text \<open>The bookkeeping of a new block before the head decision, the database append included.\<close>

definition storeBlock ::
    "geth \<Rightarrow> header codec \<Rightarrow> persistedBlock codec \<Rightarrow> nat option \<Rightarrow> Store \<Rightarrow> blockEntry \<Rightarrow> hash \<Rightarrow> bytes \<Rightarrow> Store" where
  "storeBlock G H P io s entry elHash payloadJSON =
     (let h = ehash G entry in
      s\<lparr>stBlocks := (stBlocks s)(h \<mapsto> entry), stElHashes := (stElHashes s)(h \<mapsto> elHash),
        stPayloads := (if length payloadJSON > 0 then (stPayloads s)(h \<mapsto> payloadJSON) else stPayloads s),
        stDb := map_option (\<lambda>db. fst (Append H P io db (beHeader entry) elHash payloadJSON)) (stDb s)\<rparr>)"

definition AddBlock ::
    "geth \<Rightarrow> header codec \<Rightarrow> persistedBlock codec \<Rightarrow> nat option \<Rightarrow> Store \<Rightarrow> header \<Rightarrow> hash \<Rightarrow> bytes
      \<Rightarrow> (Store \<times> (store_error, bool \<times> u64) result) option" where
  "AddBlock G H P io s header elHash payloadJSON =
     (case Number header of
        None \<Rightarrow> Some (s, Err ErrNilField)
      | Some _ \<Rightarrow>
     (case Difficulty header of
        None \<Rightarrow> Some (s, Err ErrNilField)
      | Some difficulty \<Rightarrow>
          if stBlocks s (hdrHash G header) \<noteq> None then Some (s, Ok (False, 0))
          else case stBlocks s (ParentHash header) of
            None \<Rightarrow> Some (s, Err ErrUnknownParent)
          | Some parent \<Rightarrow>
              let td = beTD parent + difficulty;
                  entry = \<lparr>beHeader = header, beTD = td\<rparr>;
                  s1 = storeBlock G H P io s entry elHash payloadJSON
              in if (case stHead s1 of None \<Rightarrow> True | Some tip \<Rightarrow> td > beTD tip)
                 then (case setHead G s1 entry of
                         None \<Rightarrow> None
                       | Some (Ok (s2, depth)) \<Rightarrow> Some (s2, Ok (True, depth))
                       | Some (Err e) \<Rightarrow> Some (s1, Err e)
                       | Some Panic \<Rightarrow> Some (s1, Panic))
                 else Some (s1, Ok (False, 0))))"

end
