(* ===== verification/Forkchoice_Inv.thy ===== *)
theory Forkchoice_Inv
  imports Forkchoice
begin

text \<open>
  The invariant of the fork choice store and that every operation keeps it. A \<open>path\<close> is the list of
  entries from the genesis entry to a block, numbered consecutively from 0; every block of the store ends
  one. On a path the parent-following loops of \<^verbatim>\<open>store.go\<close> return, and their values are list
  operations: this is how the total correctness of \<^const>\<open>AddBlock\<close> is reduced to facts on lists.
\<close>

section \<open>Paths\<close>

definition path :: "(hash \<rightharpoonup> blockEntry) \<Rightarrow> blockEntry \<Rightarrow> blockEntry list \<Rightarrow> bool" where
  "path bl g R \<longleftrightarrow>
     R \<noteq> [] \<and> R ! 0 = g \<and> bl (parentOf g) = None \<and> length R \<le> 2 ^ 64 \<and>
     (\<forall>i. Suc i < length R \<longrightarrow> bl (parentOf (R ! Suc i)) = Some (R ! i)) \<and>
     (\<forall>i < length R. bnum (R ! i) = Some (word_of_nat i))"

lemma pathD:
  assumes "path bl g R"
  shows "R \<noteq> []" "R ! 0 = g" "bl (parentOf g) = None" "length R \<le> 2 ^ 64"
    "Suc i < length R \<Longrightarrow> bl (parentOf (R ! Suc i)) = Some (R ! i)"
    "i < length R \<Longrightarrow> bnum (R ! i) = Some (word_of_nat i)"
  using assms by (auto simp: path_def)

lemma path_unat: "path bl g R \<Longrightarrow> i < length R \<Longrightarrow> unat (word_of_nat i :: u64) = i"
  using pathD(4) [of bl g R] by (simp add: unat_of_nat)

lemma path_num_inj:
  assumes "path bl g R" "path bl g' R'" "i < length R" "j < length R'" "R ! i = R' ! j"
  shows "i = j"
  using assms pathD(6) [of bl g R i] pathD(6) [of bl g' R' j] path_unat [of bl g R i] path_unat [of bl g' R' j]
  by (metis option.inject)

text \<open>Two paths that meet at an entry agree below it.\<close>

lemma path_agree:
  assumes "path bl g R" "path bl g R'" "i < length R" "i < length R'" "R ! i = R' ! i" "j \<le> i"
  shows "R ! j = R' ! j"
  using assms(3-6)
proof (induction i)
  case 0
  then show ?case by simp
next
  case (Suc i)
  have "bl (parentOf (R ! Suc i)) = Some (R ! i)" "bl (parentOf (R' ! Suc i)) = Some (R' ! i)"
    using pathD(5) assms(1,2) Suc.prems by blast+
  with Suc.prems have "R ! i = R' ! i" by simp
  with Suc show ?case by (cases "j = Suc i") auto
qed

lemma path_unique:
  assumes "path bl g R" "path bl g R'" "last R = last R'"
  shows "R = R'"
proof -
  let ?n = "length R - 1" and ?m = "length R' - 1"
  have ne: "R \<noteq> []" "R' \<noteq> []" using assms pathD(1) by blast+
  then have eq: "R ! ?n = R' ! ?m" using assms(3) by (simp add: last_conv_nth)
  have "?n = ?m" using path_num_inj [OF assms(1,2) _ _ eq] ne by simp
  then have len: "length R = length R'" using ne by (metis Suc_pred' length_greater_0_conv)
  show ?thesis
  proof (rule nth_equalityI [OF len])
    fix j assume "j < length R"
    with len eq ne \<open>?n = ?m\<close> show "R ! j = R' ! j"
      by (intro path_agree [OF assms(1,2), of ?n j]) simp_all
  qed
qed

lemma path_take: "path bl g R \<Longrightarrow> 0 < k \<Longrightarrow> path bl g (take k R)"
  by (auto simp: path_def)

lemma path_single: "bl (parentOf g) = None \<Longrightarrow> bnum g = Some 0 \<Longrightarrow> path bl g [g]"
  by (simp add: path_def)

lemma path_update:
  assumes "path bl g R" and "bl h = None" and "h \<noteq> parentOf g"
  shows "path (bl(h \<mapsto> e)) g R"
  using assms pathD(5) [OF assms(1)] by (auto simp: path_def)

lemma path_snoc:
  assumes R: "path bl g R" and par: "bl (parentOf e) = Some (last R)"
    and num: "bnum e = Some (n + 1)" "bnum (last R) = Some n" "n + 1 \<noteq> 0"
  shows "path bl g (R @ [e])"
proof -
  let ?l = "length R"
  have ne: "0 < ?l" using pathD(1) [OF R] by simp
  then have last: "last R = R ! (?l - 1)" using pathD(1) [OF R] by (simp add: last_conv_nth)
  then have n: "n = word_of_nat (?l - 1)" using pathD(6) [OF R, of "?l - 1"] num(2) ne by (simp del: of_nat_diff)
  then have n1: "n + 1 = word_of_nat ?l" using ne by (metis Suc_pred' of_nat_Suc add.commute)
  have "?l \<noteq> 2 ^ 64"
  proof
    assume "?l = 2 ^ 64"
    then have "(word_of_nat ?l :: u64) = 0" by (simp add: word_unat_eq_iff unat_of_nat)
    with n1 num(3) show False by simp
  qed
  then have "?l < 2 ^ 64" using pathD(4) [OF R] by simp
  moreover have "bl (parentOf ((R @ [e]) ! Suc i)) = Some ((R @ [e]) ! i)" if "Suc i < Suc ?l" for i
  proof (cases "Suc i < ?l")
    case True
    then show ?thesis using pathD(5) [OF R] by (simp add: nth_append)
  next
    case False
    then have "i = ?l - 1" using that by simp
    then show ?thesis using par last ne by (simp add: nth_append)
  qed
  moreover have "bnum ((R @ [e]) ! i) = Some (word_of_nat i)" if "i < Suc ?l" for i
    using that pathD(6) [OF R, of i] num(1) n1 by (cases "i < ?l") (auto simp: nth_append less_Suc_eq)
  ultimately show ?thesis using pathD [OF R] ne by (simp add: path_def nth_append)
qed

section \<open>The loops on a path\<close>

lemma equalise_path:
  assumes R: "path bl g R" and "i < length R" and "j < 2 ^ 64"
  shows "equalise bl (R ! i) (word_of_nat j) = Some (Ok (Some (R ! min i j)))"
  using assms(2)
proof (induction i)
  case 0
  then show ?case using pathD(6) [OF R, of 0] by (subst equalise.simps) simp
next
  case (Suc i)
  have num: "bnum (R ! Suc i) = Some (word_of_nat (Suc i))" using pathD(6) [OF R] Suc.prems by blast
  have u: "unat (word_of_nat (Suc i) :: u64) = Suc i" "unat (word_of_nat j :: u64) = j"
    using path_unat [OF R Suc.prems] assms(3) by (simp_all add: unat_of_nat)
  then have le: "(word_of_nat (Suc i) :: u64) \<le> word_of_nat j \<longleftrightarrow> Suc i \<le> j"
    by (simp only: word_le_nat_alt)
  show ?case
  proof (cases "Suc i \<le> j")
    case True
    then show ?thesis using num le by (subst equalise.simps) (simp del: of_nat_Suc)
  next
    case False
    then have "equalise bl (R ! Suc i) (word_of_nat j) = equalise bl (R ! i) (word_of_nat j)"
      using num le pathD(5) [OF R Suc.prems] by (subst equalise.simps) (simp del: of_nat_Suc)
    then show ?thesis using Suc False by simp
  qed
qed

text \<open>The position of the most recent common entry of two paths.\<close>

fun common :: "blockEntry list \<Rightarrow> blockEntry list \<Rightarrow> nat \<Rightarrow> nat" where
  "common R R' 0 = 0"
| "common R R' (Suc i) = (if R ! Suc i = R' ! Suc i then Suc i else common R R' i)"

lemma common_le: "common R R' i \<le> i"
  by (induction i) auto

lemma common_eq: "R ! 0 = R' ! 0 \<Longrightarrow> R ! common R R' i = R' ! common R R' i"
  by (induction i) auto

lemma common_greatest: "common R R' i < j \<Longrightarrow> j \<le> i \<Longrightarrow> R ! j \<noteq> R' ! j"
  by (induction i) (auto simp: le_Suc_eq split: if_splits)

lemma segment_Suc:
  "k \<le> i \<Longrightarrow> Suc i < length R \<Longrightarrow>
   drop (Suc k) (take (Suc (Suc i)) R) = drop (Suc k) (take (Suc i) R) @ [R ! Suc i]"
  by (subst take_Suc_conv_app_nth) simp_all

text \<open>The keys of the block map are the hashes of the headers.\<close>

definition keyed :: "geth \<Rightarrow> (hash \<rightharpoonup> blockEntry) \<Rightarrow> bool" where
  "keyed G bl \<longleftrightarrow> (\<forall>h e. bl h = Some e \<longrightarrow> ehash G e = h)"

definition member :: "geth \<Rightarrow> (hash \<rightharpoonup> blockEntry) \<Rightarrow> blockEntry \<Rightarrow> bool" where
  "member G bl e \<longleftrightarrow> bl (ehash G e) = Some e"

lemma member_inj: "member G bl a \<Longrightarrow> member G bl b \<Longrightarrow> ehash G a = ehash G b \<Longrightarrow> a = b"
  by (simp add: member_def)

lemma keyed_member: "keyed G bl \<Longrightarrow> bl h = Some e \<Longrightarrow> member G bl e"
  unfolding keyed_def member_def by metis

lemma path_member:
  assumes "keyed G bl" "path bl g R" "member G bl (last R)" "i < length R"
  shows "member G bl (R ! i)"
proof (cases "Suc i < length R")
  case True
  then have "bl (parentOf (R ! Suc i)) = Some (R ! i)" using pathD(5) [OF assms(2)] by blast
  then show ?thesis using keyed_member [OF assms(1)] by blast
next
  case False
  then have "R ! i = last R" using assms(4) by (metis Suc_lessI diff_Suc_1 last_conv_nth length_0_conv not_less_zero)
  then show ?thesis using assms(3) by simp
qed

lemma path_hash_eq:
  assumes "keyed G bl" "path bl g R" "member G bl (last R)" "path bl g R'" "member G bl (last R')"
    "i < length R" "j < length R'"
  shows "ehash G (R ! i) = ehash G (R' ! j) \<longleftrightarrow> R ! i = R' ! j"
  using path_member [OF assms(1-3) assms(6)] path_member [OF assms(1,4,5) assms(7)] member_inj by metis

lemma path_hash_inj:
  assumes "keyed G bl" "path bl g R" "member G bl (last R)" "i < length R" "j < length R"
  shows "ehash G (R ! i) = ehash G (R ! j) \<longleftrightarrow> i = j"
  using path_hash_eq [OF assms(1-3,2,3,4,5)] path_num_inj [OF assms(2,2,4,5)] by blast

lemma meet_path:
  assumes "keyed G bl" "path bl g R" "member G bl (last R)" "path bl g R'" "member G bl (last R')"
    "i < length R" "i < length R'"
  shows "meet G bl (R ! i) (R' ! i) = Some (Some (R ! common R R' i))"
  using assms(6,7)
proof (induction i)
  case 0
  have "R ! 0 = R' ! 0" using assms(2,4) pathD(2) by metis
  then show ?case by (subst meet.simps) simp
next
  case (Suc i)
  have eq: "ehash G (R ! Suc i) = ehash G (R' ! Suc i) \<longleftrightarrow> R ! Suc i = R' ! Suc i"
    using path_hash_eq [OF assms(1-5)] Suc.prems by blast
  show ?case
  proof (cases "R ! Suc i = R' ! Suc i")
    case True
    then show ?thesis by (subst meet.simps) simp
  next
    case False
    then have "meet G bl (R ! Suc i) (R' ! Suc i) = meet G bl (R ! i) (R' ! i)"
      using eq pathD(5) [OF assms(2) Suc.prems(1)] pathD(5) [OF assms(4) Suc.prems(2)]
      by (subst meet.simps) simp
    then show ?thesis using Suc False by simp
  qed
qed

lemma findCommonAncestor_path:
  assumes "keyed G bl" "path bl g R" "member G bl (last R)" "path bl g R'" "member G bl (last R')"
  shows "findCommonAncestor G bl (last R) (last R') =
           Some (Ok (Some (R ! common R R' (min (length R - 1) (length R' - 1)))))"
proof -
  let ?n = "length R - 1" and ?m = "length R' - 1"
  have ne: "?n < length R" "?m < length R'" using pathD(1) [OF assms(2)] pathD(1) [OF assms(4)] by simp_all
  have last: "last R = R ! ?n" "last R' = R' ! ?m"
    using pathD(1) [OF assms(2)] pathD(1) [OF assms(4)] by (simp_all add: last_conv_nth)
  have lt: "?m < 2 ^ 64" "min ?n ?m < 2 ^ 64" using ne pathD(4) [OF assms(4)] by linarith+
  have "equalise bl (R ! ?n) (word_of_nat ?m) = Some (Ok (Some (R ! min ?n ?m)))"
    using equalise_path [OF assms(2) ne(1) lt(1)] .
  moreover have "equalise bl (R' ! ?m) (word_of_nat (min ?n ?m)) = Some (Ok (Some (R' ! min ?n ?m)))"
    using equalise_path [OF assms(4) ne(2) lt(2)] by (simp add: min.commute min.left_commute)
  moreover have "bnum (R' ! ?m) = Some (word_of_nat ?m)" using pathD(6) [OF assms(4) ne(2)] .
  moreover have i: "min ?n ?m < length R" "min ?n ?m < length R'" using ne by linarith+
  moreover have "bnum (R ! min ?n ?m) = Some (word_of_nat (min ?n ?m))" using pathD(6) [OF assms(2) i(1)] .
  ultimately show ?thesis
    using meet_path [OF assms i] by (simp add: findCommonAncestor_def last)
qed

section \<open>The canonical index\<close>

text \<open>The index of a path: number \<open>n\<close> is mapped to the hash of the entry at position \<open>n\<close>.\<close>

definition index_of :: "geth \<Rightarrow> blockEntry list \<Rightarrow> u64 \<rightharpoonup> hash" where
  "index_of G R n = (if unat n < length R then Some (ehash G (R ! unat n)) else None)"

lemma index_of_snoc:
  assumes "path bl g (R @ [e])"
  shows "(index_of G R)(word_of_nat (length R) \<mapsto> ehash G e) = index_of G (R @ [e])"
proof
  fix n :: u64
  have u: "unat (word_of_nat (length R) :: u64) = length R" using path_unat [OF assms, of "length R"] by simp
  have "n = word_of_nat (length R) \<longleftrightarrow> unat n = length R" using u by (metis word_unat_eq_iff)
  then show "((index_of G R)(word_of_nat (length R) \<mapsto> ehash G e)) n = index_of G (R @ [e]) n"
    by (auto simp: index_of_def nth_append less_Suc_eq)
qed

lemma dropOld_path:
  assumes "keyed G bl" "path bl g R" "member G bl (last R)" "i < length R" "k \<le> i"
  shows "dropOld G bl m (R ! i) (ehash G (R ! k)) =
           Some (Ok (\<lambda>n. if k < unat n \<and> unat n \<le> i then None else m n))"
  using assms(4,5)
proof (induction i arbitrary: m)
  case 0
  then have "(\<lambda>n. if k < unat n \<and> unat n \<le> 0 then None else m n) = m" by (intro ext) auto
  with 0 show ?case by (subst dropOld.simps) simp
next
  case (Suc i)
  have eq: "ehash G (R ! Suc i) = ehash G (R ! k) \<longleftrightarrow> Suc i = k"
    using path_hash_inj [OF assms(1-3)] Suc.prems by simp
  show ?case
  proof (cases "k = Suc i")
    case True
    then have "(\<lambda>n. if k < unat n \<and> unat n \<le> Suc i then None else m n) = m" by (intro ext) auto
    with True show ?thesis by (subst dropOld.simps) simp
  next
    case False
    let ?m = "m(word_of_nat (Suc i) := None)"
    have "dropOld G bl m (R ! Suc i) (ehash G (R ! k)) = dropOld G bl ?m (R ! i) (ehash G (R ! k))"
      using False eq pathD(5) [OF assms(2) Suc.prems(1)] pathD(6) [OF assms(2) Suc.prems(1)]
      by (subst dropOld.simps) (simp del: of_nat_Suc)
    also have "\<dots> = Some (Ok (\<lambda>n. if k < unat n \<and> unat n \<le> i then None else ?m n))"
      using Suc.IH Suc.prems False by (simp del: of_nat_Suc)
    also have "(\<lambda>n. if k < unat n \<and> unat n \<le> i then None else ?m n) =
               (\<lambda>n. if k < unat n \<and> unat n \<le> Suc i then None else m n)"
    proof
      fix n :: u64
      have "n = word_of_nat (Suc i) \<longleftrightarrow> unat n = Suc i"
        using path_unat [OF assms(2) Suc.prems(1)] by (metis word_unat_eq_iff)
      then show "(if k < unat n \<and> unat n \<le> i then None else ?m n) =
                 (if k < unat n \<and> unat n \<le> Suc i then None else m n)"
        using False Suc.prems by auto
    qed
    finally show ?thesis .
  qed
qed

lemma collectNew_path:
  assumes "keyed G bl" "path bl g R" "member G bl (last R)" "i < length R" "k \<le> i"
  shows "collectNew G bl (R ! i) (ehash G (R ! k)) acc = Some (acc @ rev (drop (Suc k) (take (Suc i) R)))"
  using assms(4,5)
proof (induction i arbitrary: acc)
  case 0
  then show ?case by (subst collectNew.simps) simp
next
  case (Suc i)
  have eq: "ehash G (R ! Suc i) = ehash G (R ! k) \<longleftrightarrow> Suc i = k"
    using path_hash_inj [OF assms(1-3)] Suc.prems by simp
  show ?case
  proof (cases "k = Suc i")
    case True
    then show ?thesis by (subst collectNew.simps) simp
  next
    case False
    have "drop (Suc k) (take (Suc (Suc i)) R) = drop (Suc k) (take (Suc i) R) @ [R ! Suc i]"
      using Suc.prems False by (intro segment_Suc) simp_all
    moreover have "collectNew G bl (R ! Suc i) (ehash G (R ! k)) acc =
        collectNew G bl (R ! i) (ehash G (R ! k)) (acc @ [R ! Suc i])"
      using False eq pathD(5) [OF assms(2) Suc.prems(1)] by (subst collectNew.simps) simp
    ultimately show ?thesis using Suc False by simp
  qed
qed

lemma canonise_path:
  assumes "path bl g R" "k \<le> i" "i < length R"
  shows "canonise G m (rev (drop (Suc k) (take (Suc i) R))) =
           Ok (\<lambda>n. if k < unat n \<and> unat n \<le> i then Some (ehash G (R ! unat n)) else m n)"
  using assms(2,3)
proof (induction i arbitrary: m)
  case 0
  then show ?case by (auto simp: fun_eq_iff)
next
  case (Suc i)
  show ?case
  proof (cases "k = Suc i")
    case True
    then show ?thesis by (auto simp: fun_eq_iff)
  next
    case False
    let ?m = "m(word_of_nat (Suc i) \<mapsto> ehash G (R ! Suc i))"
    have "canonise G m (rev (drop (Suc k) (take (Suc (Suc i)) R))) =
          canonise G ?m (rev (drop (Suc k) (take (Suc i) R)))"
      using False Suc.prems pathD(6) [OF assms(1) Suc.prems(2)] by (simp add: segment_Suc del: of_nat_Suc take_Suc_conv_app_nth)
    also have "\<dots> = Ok (\<lambda>n. if k < unat n \<and> unat n \<le> i then Some (ehash G (R ! unat n)) else ?m n)"
      using Suc.IH Suc.prems False by (simp del: of_nat_Suc)
    also have "(\<lambda>n. if k < unat n \<and> unat n \<le> i then Some (ehash G (R ! unat n)) else ?m n) =
               (\<lambda>n. if k < unat n \<and> unat n \<le> Suc i then Some (ehash G (R ! unat n)) else m n)"
    proof
      fix n :: u64
      have "n = word_of_nat (Suc i) \<longleftrightarrow> unat n = Suc i"
        using path_unat [OF assms(1) Suc.prems(2)] by (metis word_unat_eq_iff)
      then show "(if k < unat n \<and> unat n \<le> i then Some (ehash G (R ! unat n)) else ?m n) =
                 (if k < unat n \<and> unat n \<le> Suc i then Some (ehash G (R ! unat n)) else m n)"
        using False Suc.prems by auto
    qed
    finally show ?thesis .
  qed
qed

section \<open>The invariant\<close>

text \<open>
  \<open>g\<close> is the genesis entry. Every block ends a path from it and carries the total difficulty of
  that path; the head is a heaviest block; the canonical index is exactly the path of the head; the safe
  and finalized pointers are its entries at the epoch boundaries.
\<close>

definition path_td :: "blockEntry list \<Rightarrow> int" where
  "path_td R = beTD (R ! 0) + sum_list (map (\<lambda>e. the (Difficulty (beHeader e))) (tl R))"

definition safe_pos :: "nat \<Rightarrow> nat \<Rightarrow> nat" where
  "safe_pos epoch headNum = headNum div epoch * epoch"

definition final_pos :: "nat \<Rightarrow> nat \<Rightarrow> nat" where
  "final_pos epoch headNum = (headNum div epoch - 2) * epoch"

definition tips_ok :: "Store \<Rightarrow> blockEntry list \<Rightarrow> bool" where
  "tips_ok s R \<longleftrightarrow>
     stEpoch s \<noteq> 0 \<longrightarrow>
       stSafe s = Some (R ! safe_pos (unat (stEpoch s)) (length R - 1)) \<and>
       stFinalized s = Some (R ! final_pos (unat (stEpoch s)) (length R - 1))"

definition blocks_ok :: "geth \<Rightarrow> blockEntry \<Rightarrow> (hash \<rightharpoonup> blockEntry) \<Rightarrow> bool" where
  "blocks_ok G g bl \<longleftrightarrow>
     keyed G bl \<and> member G bl g \<and>
     (\<forall>h e. bl h = Some e \<longrightarrow> (\<exists>R. path bl g R \<and> last R = e \<and> beTD e = path_td R))"

definition store_inv :: "geth \<Rightarrow> blockEntry \<Rightarrow> Store \<Rightarrow> bool" where
  "store_inv G g s \<longleftrightarrow>
     blocks_ok G g (stBlocks s) \<and> stGenesis s = ehash G g \<and>
     dom (stElHashes s) = dom (stBlocks s) \<and>
     (\<exists>R. path (stBlocks s) g R \<and> stHead s = Some (last R) \<and> member G (stBlocks s) (last R) \<and>
          stNumbers s = index_of G R \<and> tips_ok s R \<and>
          (\<forall>h e. stBlocks s h = Some e \<longrightarrow> beTD e \<le> beTD (last R)))"

lemma safe_pos_le: "safe_pos epoch n \<le> n"
  by (simp add: safe_pos_def)

lemma final_pos_le: "final_pos epoch n \<le> n"
proof -
  have "(n div epoch - 2) * epoch \<le> n div epoch * epoch" by (intro mult_right_mono) simp_all
  then show ?thesis using div_times_less_eq_dividend [of n epoch] unfolding final_pos_def by linarith
qed

subsection \<open>Safe and finalized\<close>

lemma canonicalOr_path:
  assumes "path bl g R" "keyed G bl" "member G bl (last R)" "stBlocks s = bl" "stNumbers s = index_of G R"
    "k < length R"
  shows "canonicalOr s (word_of_nat k) dflt = Some (R ! k)"
proof -
  have "index_of G R (word_of_nat k) = Some (ehash G (R ! k))"
    using path_unat [OF assms(1,6)] assms(6) by (simp add: index_of_def)
  moreover have "bl (ehash G (R ! k)) = Some (R ! k)"
    using path_member [OF assms(2,1,3,6)] by (simp add: member_def)
  ultimately show ?thesis by (simp add: canonicalOr_def assms(4,5))
qed

lemma updateSafeFinalized_path:
  assumes "path bl g R" "keyed G bl" "member G bl (last R)" "stBlocks s = bl" "stNumbers s = index_of G R"
    "stHead s = Some (last R)" "stGenesis s = ehash G g" "member G bl g"
  shows "\<exists>sf fn. updateSafeFinalized s = Ok (s\<lparr>stSafe := sf, stFinalized := fn\<rparr>) \<and>
           tips_ok (s\<lparr>stSafe := sf, stFinalized := fn\<rparr>) R"
proof (cases "stEpoch s = 0")
  case True
  then have "updateSafeFinalized s = Ok (s\<lparr>stSafe := stSafe s, stFinalized := stFinalized s\<rparr>)"
    by (simp add: updateSafeFinalized_def assms(6))
  moreover have "tips_ok (s\<lparr>stSafe := stSafe s, stFinalized := stFinalized s\<rparr>) R" using True by (simp add: tips_ok_def)
  ultimately show ?thesis by blast
next
  case False
  let ?ep = "unat (stEpoch s)"
  obtain n where n: "length R - 1 = n" by blast
  have ne: "n < length R" using pathD(1) [OF assms(1)] n by (metis diff_less length_greater_0_conv zero_less_one)
  have num: "bnum (last R) = Some (word_of_nat n)"
    using pathD(6) [OF assms(1) ne] pathD(1) [OF assms(1)] n by (metis last_conv_nth)
  have un: "unat (word_of_nat n :: u64) = n" using path_unat [OF assms(1) ne] .
  define q :: nat where "q = n div ?ep"
  have uq: "unat (word_of_nat n div stEpoch s) = q" unfolding q_def by (simp only: unat_div_distrib un)
  then have q: "word_of_nat n div stEpoch s = word_of_nat q" by (metis of_nat_unat ucast_id)
  have "word_of_nat q * stEpoch s = word_of_nat (q * ?ep)" by simp
  then have safe: "canonicalOr s (word_of_nat q * stEpoch s) dflt = Some (R ! safe_pos ?ep n)" for dflt
    using canonicalOr_path [OF assms(1-5), of "safe_pos ?ep n"] safe_pos_le [of ?ep n] ne
    by (simp add: safe_pos_def q_def [symmetric])
  have "(2::u64) \<le> word_of_nat q \<longleftrightarrow> 2 \<le> q" using uq unfolding q word_le_nat_alt by simp
  moreover have "canonicalOr s ((word_of_nat q - 2) * stEpoch s) dflt = Some (R ! final_pos ?ep n)" if "2 \<le> q" for dflt
  proof -
    have "(word_of_nat q - 2) * stEpoch s = word_of_nat ((q - 2) * ?ep)" using that by (simp add: of_nat_diff)
    then show ?thesis
      using canonicalOr_path [OF assms(1-5), of "final_pos ?ep n"] final_pos_le [of ?ep n] ne
      by (simp add: final_pos_def q_def [symmetric])
  qed
  moreover have "stBlocks s (stGenesis s) = Some (R ! final_pos ?ep n)" if "\<not> 2 \<le> q"
    using that assms(4,7,8) pathD(2) [OF assms(1)] by (simp add: final_pos_def q_def [symmetric] member_def)
  ultimately show ?thesis
    using False safe unfolding updateSafeFinalized_def tips_ok_def
    by (auto simp: assms(6) num q n [simplified] Let_def)
qed

subsection \<open>Switching the head\<close>

text \<open>The depth \<^verbatim>\<open>setHead\<close> returns: blocks of the new branch above the common ancestor.\<close>

definition branch_depth :: "blockEntry list \<Rightarrow> blockEntry list \<Rightarrow> nat" where
  "branch_depth R R' =
     (if butlast R' = R then 0
      else length R' - 1 - common R R' (min (length R - 1) (length R' - 1)))"

lemma index_of_reorg:
  assumes "path bl g R" "path bl g R'" "k < length R" "k < length R'" "R ! k = R' ! k"
  shows "(\<lambda>n. if k < unat n \<and> unat n \<le> length R' - 1 then Some (ehash G (R' ! unat n))
              else if k < unat n \<and> unat n \<le> length R - 1 then None else index_of G R n) = index_of G R'"
proof
  fix n :: u64
  have "unat n \<le> k \<Longrightarrow> R ! unat n = R' ! unat n" using path_agree [OF assms] by blast
  moreover have "unat n \<le> length R - 1 \<longleftrightarrow> unat n < length R" "unat n \<le> length R' - 1 \<longleftrightarrow> unat n < length R'"
    using assms(3,4) by linarith+
  ultimately show "(if k < unat n \<and> unat n \<le> length R' - 1 then Some (ehash G (R' ! unat n))
              else if k < unat n \<and> unat n \<le> length R - 1 then None else index_of G R n) = index_of G R' n"
    using assms(3,4) by (auto simp: index_of_def)
qed

lemma reorg_path:
  assumes "keyed G bl" "path bl g R" "member G bl (last R)" "path bl g R'" "member G bl (last R')"
    "stBlocks s = bl" "stNumbers s = index_of G R" "stGenesis s = ehash G g" "member G bl g"
  shows "\<exists>sf fn. reorg G s (last R) (last R') (word_of_nat (length R' - 1)) =
           Some (Ok (s\<lparr>stNumbers := index_of G R', stHead := Some (last R'), stSafe := sf, stFinalized := fn\<rparr>,
             word_of_nat (length R' - 1 - common R R' (min (length R - 1) (length R' - 1))))) \<and>
           tips_ok (s\<lparr>stNumbers := index_of G R', stHead := Some (last R'), stSafe := sf, stFinalized := fn\<rparr>) R'"
proof -
  let ?k = "common R R' (min (length R - 1) (length R' - 1))"
  let ?s = "s\<lparr>stNumbers := index_of G R', stHead := Some (last R')\<rparr>"
  have ne: "R \<noteq> []" "R' \<noteq> []" using pathD(1) assms(2,4) by blast+
  have "?k \<le> min (length R - 1) (length R' - 1)" by (rule common_le)
  then have k: "?k \<le> length R - 1" "?k \<le> length R' - 1" by simp_all
  then have kl: "?k < length R" "?k < length R'" using ne by (metis Suc_pred' length_greater_0_conv less_Suc_eq_le)+
  have eq: "R ! ?k = R' ! ?k" using pathD(2) assms(2,4) by (metis common_eq)
  have last: "last R = R ! (length R - 1)" "last R' = R' ! (length R' - 1)" using ne by (simp_all add: last_conv_nth)
  have fca: "findCommonAncestor G bl (last R) (last R') = Some (Ok (Some (R ! ?k)))"
    by (rule findCommonAncestor_path [OF assms(1-5)])
  have drop: "dropOld G bl (index_of G R) (last R) (ehash G (R ! ?k)) =
      Some (Ok (\<lambda>n. if ?k < unat n \<and> unat n \<le> length R - 1 then None else index_of G R n))"
    unfolding last using ne k by (intro dropOld_path [OF assms(1-3)]) simp_all
  have coll: "collectNew G bl (last R') (ehash G (R ! ?k)) [] = Some (rev (drop (Suc ?k) (take (Suc (length R' - 1)) R')))"
    unfolding last eq using ne k collectNew_path [OF assms(1,4,5), of "length R' - 1" ?k "[]"] by simp
  have can: "canonise G m (rev (drop (Suc ?k) (take (Suc (length R' - 1)) R'))) =
      Ok (\<lambda>n. if ?k < unat n \<and> unat n \<le> length R' - 1 then Some (ehash G (R' ! unat n)) else m n)" for m
    using ne k by (intro canonise_path [OF assms(4)]) simp_all
  have num: "number_of (beHeader (R ! ?k)) = Ok (word_of_nat ?k)"
    using pathD(6) [OF assms(2) kl(1)] by simp
  obtain sf fn where upd: "updateSafeFinalized ?s = Ok (?s\<lparr>stSafe := sf, stFinalized := fn\<rparr>)"
    "tips_ok (?s\<lparr>stSafe := sf, stFinalized := fn\<rparr>) R'"
    using updateSafeFinalized_path [OF assms(4,1,5), of ?s] assms(6,8,9) by auto
  have sub: "word_of_nat (length R' - 1) - word_of_nat ?k = (word_of_nat (length R' - 1 - ?k) :: u64)"
    using k(2) by (simp only: of_nat_diff)
  have "reorg G s (last R) (last R') (word_of_nat (length R' - 1)) =
          Some (Ok (?s\<lparr>stSafe := sf, stFinalized := fn\<rparr>, word_of_nat (length R' - 1 - ?k)))"
    unfolding reorg_def assms(6,7) fca lbind.simps option.case Let_def num drop coll option.map can
      index_of_reorg [OF assms(2,4) kl eq] upd(1) sub ..
  then show ?thesis using upd(2) by auto
qed

lemma path_extends_iff:
  assumes "keyed G bl" "path bl g R" "member G bl (last R)" "path bl g R'" "length R' \<ge> 2"
  shows "parentOf (last R') = ehash G (last R) \<longleftrightarrow> butlast R' = R"
proof
  obtain m where m: "length R' = Suc (Suc m)" using assms(5) by (metis add_2_eq_Suc le_Suc_ex)
  then have "last R' = R' ! Suc m" "last (butlast R') = R' ! m"
    by (auto simp: last_conv_nth nth_butlast simp flip: length_0_conv)
  then have par: "bl (parentOf (last R')) = Some (last (butlast R'))" using pathD(5) [OF assms(4), of m] m by simp
  have but: "path bl g (butlast R')"
    using path_take [OF assms(4), of "length R' - 1"] assms(5) by (simp add: butlast_conv_take)
  show "butlast R' = R" if "parentOf (last R') = ehash G (last R)"
  proof -
    have "last (butlast R') = last R" using that par assms(3) by (simp add: member_def)
    then show ?thesis using path_unique [OF but assms(2)] by blast
  qed
  show "parentOf (last R') = ehash G (last R)" if "butlast R' = R"
    using that par assms(1) by (simp add: keyed_def)
qed

lemma setHead_path:
  assumes "keyed G bl" "path bl g R" "member G bl (last R)" "path bl g R'" "member G bl (last R')" "R' \<noteq> R"
    "stBlocks s = bl" "stNumbers s = index_of G R" "stHead s = Some (last R)" "stGenesis s = ehash G g"
    "member G bl g" "length R' \<ge> 2"
  shows "\<exists>sf fn. setHead G s (last R') =
           Some (Ok (s\<lparr>stNumbers := index_of G R', stHead := Some (last R'), stSafe := sf, stFinalized := fn\<rparr>,
             word_of_nat (branch_depth R R'))) \<and>
           tips_ok (s\<lparr>stNumbers := index_of G R', stHead := Some (last R'), stSafe := sf, stFinalized := fn\<rparr>) R'"
proof -
  let ?s = "s\<lparr>stNumbers := index_of G R', stHead := Some (last R')\<rparr>"
  have ne: "R' \<noteq> []" using assms(12) by auto
  have num: "number_of (beHeader (last R')) = Ok (word_of_nat (length R' - 1))"
    using pathD(6) [OF assms(4), of "length R' - 1"] ne by (simp add: last_conv_nth)
  note direct = path_extends_iff [OF assms(1-4,12)]
  show ?thesis
  proof (cases "butlast R' = R")
    case True
    then have snoc: "R' = R @ [last R']" using ne by (metis append_butlast_last_id)
    then have len: "length R' - 1 = length R" by (metis length_append_singleton diff_Suc_1)
    have idx: "(index_of G R)(word_of_nat (length R) \<mapsto> ehash G (last R')) = index_of G R'"
      using index_of_snoc [of bl g R "last R'" G] assms(4) snoc by simp
    obtain sf fn where upd: "updateSafeFinalized ?s = Ok (?s\<lparr>stSafe := sf, stFinalized := fn\<rparr>)"
      "tips_ok (?s\<lparr>stSafe := sf, stFinalized := fn\<rparr>) R'"
      using updateSafeFinalized_path [OF assms(4,1,5), of ?s] assms(7,10,11) by auto
    have "setHead G s (last R') = Some (Ok (?s\<lparr>stSafe := sf, stFinalized := fn\<rparr>, 0))"
      using True direct
      unfolding setHead_def num lbind.simps assms(8,9) option.case len idx upd(1) by simp
    then show ?thesis using upd(2) True by (auto simp: branch_depth_def)
  next
    case False
    then have "setHead G s (last R') = reorg G s (last R) (last R') (word_of_nat (length R' - 1))"
      using direct by (simp add: setHead_def num assms(9) del: of_nat_diff)
    then show ?thesis
      using reorg_path [OF assms(1-5,7,8,10,11)] False by (simp add: branch_depth_def del: of_nat_diff)
  qed
qed

section \<open>Preservation\<close>

text \<open>
  What the store asks of a caller: a header is numbered one above its parent, and does not hash to the
  parent hash of the genesis header. The first is what \<^verbatim>\<open>Apply\<close> checks (not \<^verbatim>\<open>VerifyHeader\<close>), the
  second is preimage resistance of the header hash.
\<close>

definition admissible :: "geth \<Rightarrow> blockEntry \<Rightarrow> Store \<Rightarrow> header \<Rightarrow> bool" where
  "admissible G g s h \<longleftrightarrow>
     hdrHash G h \<noteq> parentOf g \<and>
     (case stBlocks s (ParentHash h) of None \<Rightarrow> True
      | Some p \<Rightarrow> (case bnum p of None \<Rightarrow> False | Some n \<Rightarrow> hnum h = Some (n + 1) \<and> n + 1 \<noteq> 0))"

definition genesis_ok :: "geth \<Rightarrow> header \<Rightarrow> bool" where
  "genesis_ok G g \<longleftrightarrow> hnum g = Some 0 \<and> hdrHash G g \<noteq> ParentHash g"

definition genesisEntry :: "header \<Rightarrow> blockEntry" where
  "genesisEntry g = \<lparr>beHeader = g, beTD = genesisTD g\<rparr>"

lemma single_inv:
  assumes "genesis_ok G g" and "stBlocks s = [hdrHash G g \<mapsto> genesisEntry g]" "stNumbers s = [0 \<mapsto> hdrHash G g]"
    "stElHashes s = [hdrHash G g \<mapsto> hdrHash G g]" "stGenesis s = hdrHash G g"
    "stHead s = Some (genesisEntry g)" "stSafe s = Some (genesisEntry g)" "stFinalized s = Some (genesisEntry g)"
  shows "store_inv G (genesisEntry g) s"
proof -
  let ?g = "genesisEntry g"
  have h: "beHeader ?g = g" by (simp add: genesisEntry_def)
  have p: "path (stBlocks s) ?g [?g]"
    using assms(1,2) h by (intro path_single) (auto simp: genesis_ok_def)
  moreover have "stNumbers s = index_of G [?g]"
    by (auto simp: assms(3) index_of_def fun_eq_iff h unat_eq_zero)
  moreover have "tips_ok s [?g]" using assms(7,8) by (simp add: tips_ok_def safe_pos_def final_pos_def)
  moreover have "member G (stBlocks s) ?g" "keyed G (stBlocks s)" using assms(2) h by (simp_all add: member_def keyed_def)
  moreover have "beTD ?g = path_td [?g]" by (simp add: path_td_def)
  ultimately show ?thesis
    using assms h unfolding store_inv_def blocks_ok_def
    by (auto intro!: exI [of _ "[?g]"] split: if_splits)
qed

lemma New_store_inv: "genesis_ok G g \<Longrightarrow> store_inv G (genesisEntry g) (New_store G g epoch)"
  by (rule single_inv) (simp_all add: New_store_def Let_def genesisEntry_def)

lemma Reset_inv: "genesis_ok G g \<Longrightarrow> store_inv G (genesisEntry g) (Reset G s g)"
  by (rule single_inv) (simp_all add: Reset_def Let_def genesisEntry_def)

lemma store_inv_db [simp]: "store_inv G g (s\<lparr>stDb := db\<rparr>) = store_inv G g s"
  by (simp add: store_inv_def tips_ok_def)

lemma path_td_snoc: "R \<noteq> [] \<Longrightarrow> path_td (R @ [e]) = path_td R + the (Difficulty (beHeader e))"
  by (cases R) (simp_all add: path_td_def)

lemma blocks_ok_insert:
  assumes ok: "blocks_ok G g bl" and new: "bl (ehash G e) = None" "ehash G e \<noteq> parentOf g"
    and par: "bl (parentOf e) = Some p" "bnum p = Some n" "bnum e = Some (n + 1)" "n + 1 \<noteq> 0"
    and td: "beTD e = beTD p + the (Difficulty (beHeader e))"
  shows "blocks_ok G g (bl(ehash G e \<mapsto> e))"
    and "\<exists>R. path (bl(ehash G e \<mapsto> e)) g R \<and> last R = e \<and> length R \<ge> 2"
proof -
  let ?bl = "bl(ehash G e \<mapsto> e)"
  have ne: "parentOf e \<noteq> ehash G e" using new(1) par(1) by auto
  from ok par(1) obtain R where R: "path bl g R" "last R = p" "beTD p = path_td R"
    unfolding blocks_ok_def by blast
  then have p': "path ?bl g R" using path_update new by blast
  have R': "path ?bl g (R @ [e])"
    using p' R(2) par ne by (intro path_snoc [of _ _ _ _ n]) simp_all
  have Rne: "R \<noteq> []" using pathD(1) [OF R(1)] .
  then show "\<exists>R. path ?bl g R \<and> last R = e \<and> length R \<ge> 2"
    using R' by (intro exI [of _ "R @ [e]"]) (cases R, simp_all)
  have "keyed G ?bl" using ok by (simp add: blocks_ok_def keyed_def)
  moreover have "member G ?bl g"
    using ok new(1) by (auto simp: blocks_ok_def member_def)
  moreover have "\<exists>R. path ?bl g R \<and> last R = x \<and> beTD x = path_td R" if "?bl h = Some x" for h x
  proof (cases "h = ehash G e")
    case True
    then have "x = e" using that by simp
    then show ?thesis using R' R(2,3) td path_td_snoc [OF Rne] by (intro exI [of _ "R @ [e]"]) simp
  next
    case False
    then have "bl h = Some x" using that by simp
    then obtain Q where "path bl g Q" "last Q = x" "beTD x = path_td Q" using ok unfolding blocks_ok_def by blast
    then show ?thesis using path_update new by blast
  qed
  ultimately show "blocks_ok G g ?bl" unfolding blocks_ok_def by blast
qed

section \<open>Refinement of the heaviest-chain rule\<close>

text \<open>
  The specification of the store: a tree of blocks and the current tip. A new block whose parent is
  known is added with the total difficulty of its branch, and becomes the tip when it is strictly heavier.
\<close>

definition spec_add :: "geth \<Rightarrow> header \<Rightarrow> (hash \<rightharpoonup> blockEntry) \<times> blockEntry \<Rightarrow> (hash \<rightharpoonup> blockEntry) \<times> blockEntry" where
  "spec_add G h t =
     (case (Number h, Difficulty h, fst t (hdrHash G h), fst t (ParentHash h)) of
        (Some _, Some d, None, Some p) \<Rightarrow>
          let e = \<lparr>beHeader = h, beTD = beTD p + d\<rparr>
          in ((fst t)(hdrHash G h \<mapsto> e), if beTD e > beTD (snd t) then e else snd t)
      | _ \<Rightarrow> t)"

definition abs_store :: "Store \<Rightarrow> (hash \<rightharpoonup> blockEntry) \<times> blockEntry" where
  "abs_store s = (stBlocks s, the (stHead s))"

lemma store_inv_stored:
  assumes inv: "store_inv G g s" and e: "stBlocks s (ehash G e) = None" "ehash G e \<noteq> parentOf g"
    and par: "stBlocks s (parentOf e) = Some p" "bnum p = Some n" "bnum e = Some (n + 1)" "n + 1 \<noteq> 0"
    and td: "beTD e = beTD p + the (Difficulty (beHeader e))"
    and s1: "s1 = storeBlock G H P io s e el pj"
  obtains R R' where "path (stBlocks s1) g R" "stHead s1 = Some (last R)" "member G (stBlocks s1) (last R)"
    "stNumbers s1 = index_of G R" "tips_ok s1 R" "path (stBlocks s1) g R'" "last R' = e" "length R' \<ge> 2"
    "member G (stBlocks s1) e" "blocks_ok G g (stBlocks s1)" "stGenesis s1 = ehash G g"
    "dom (stElHashes s1) = dom (stBlocks s1)" "R' \<noteq> R" "stHead s = Some (last R)"
    "\<forall>h x. stBlocks s1 h = Some x \<longrightarrow> beTD x \<le> max (beTD e) (beTD (last R))"
proof -
  have bl: "stBlocks s1 = (stBlocks s)(ehash G e \<mapsto> e)" and
    frame: "stHead s1 = stHead s" "stNumbers s1 = stNumbers s" "stGenesis s1 = stGenesis s" "stEpoch s1 = stEpoch s"
      "stSafe s1 = stSafe s" "stFinalized s1 = stFinalized s" "stElHashes s1 = (stElHashes s)(ehash G e \<mapsto> el)"
    by (simp_all add: s1 storeBlock_def Let_def)
  from inv obtain R where R: "path (stBlocks s) g R" "stHead s = Some (last R)" "member G (stBlocks s) (last R)"
      "stNumbers s = index_of G R" "tips_ok s R" "\<forall>h x. stBlocks s h = Some x \<longrightarrow> beTD x \<le> beTD (last R)"
    unfolding store_inv_def by blast
  have ok: "blocks_ok G g (stBlocks s)" using inv by (simp add: store_inv_def)
  note ins = blocks_ok_insert [OF ok e par td]
  from ins(2) obtain R' where R': "path (stBlocks s1) g R'" "last R' = e" "length R' \<ge> 2" unfolding bl by blast
  have diff: "last R \<noteq> e" using R(3) e(1) by (auto simp: member_def)
  show thesis
  proof (rule that [of R R'])
    show "path (stBlocks s1) g R" unfolding bl by (rule path_update [OF R(1) e])
    show "member G (stBlocks s1) (last R)" using R(3) e(1) by (auto simp: member_def bl)
    show "tips_ok s1 R" using R(5) by (simp add: tips_ok_def frame)
    show "\<forall>h x. stBlocks s1 h = Some x \<longrightarrow> beTD x \<le> max (beTD e) (beTD (last R))"
      using R(6) by (auto simp: bl le_max_iff_disj)
    show "R' \<noteq> R" using diff R'(2) by auto
  qed (use R R' ins(1) inv in \<open>auto simp: bl frame member_def store_inv_def\<close>)
qed

lemma AddBlock_new:
  assumes inv: "store_inv G g s" and adm: "admissible G g s h"
    and new: "Number h = Some m" "Difficulty h = Some d" "stBlocks s (hdrHash G h) = None"
      "stBlocks s (ParentHash h) = Some p"
    and e_def: "e = \<lparr>beHeader = h, beTD = beTD p + d\<rparr>"
  shows "\<exists>s' R R' r. AddBlock G H P io s h el pj = Some (s', r) \<and> store_inv G g s' \<and> stEpoch s' = stEpoch s \<and>
           abs_store s' = spec_add G h (abs_store s) \<and>
           path (stBlocks s') g R \<and> stHead s = Some (last R) \<and> path (stBlocks s') g R' \<and> last R' = e \<and>
           r = Ok (if beTD e > beTD (last R) then (True, word_of_nat (branch_depth R R')) else (False, 0))"
proof -
  define s1 where "s1 = storeBlock G H P io s e el pj"
  have eh: "beHeader e = h" "beTD e = beTD p + the (Difficulty (beHeader e))" by (simp_all add: e_def new)
  from adm new(4) obtain n where n: "bnum p = Some n" "hnum h = Some (n + 1)" "n + 1 \<noteq> 0" "hdrHash G h \<noteq> parentOf g"
    by (auto simp: admissible_def split: option.splits)
  obtain R R' where I: "path (stBlocks s1) g R" "stHead s1 = Some (last R)" "member G (stBlocks s1) (last R)"
    "stNumbers s1 = index_of G R" "tips_ok s1 R" "path (stBlocks s1) g R'" "last R' = e" "length R' \<ge> 2"
    "member G (stBlocks s1) e" "blocks_ok G g (stBlocks s1)" "stGenesis s1 = ehash G g"
    "dom (stElHashes s1) = dom (stBlocks s1)" "R' \<noteq> R" "stHead s = Some (last R)"
    "\<forall>h x. stBlocks s1 h = Some x \<longrightarrow> beTD x \<le> max (beTD e) (beTD (last R))"
    by (rule store_inv_stored [OF inv _ _ _ n(1) _ n(3) eh(2) s1_def]) (use n new eh in simp_all)
  have kd: "keyed G (stBlocks s1)" "member G (stBlocks s1) g" using I(10) by (simp_all add: blocks_ok_def)
  have bl1: "stBlocks s1 = (stBlocks s)(hdrHash G h \<mapsto> e)" "stEpoch s1 = stEpoch s"
    by (simp_all add: s1_def storeBlock_def Let_def eh)
  have spec: "spec_add G h (abs_store s) = (stBlocks s1, if beTD e > beTD (last R) then e else last R)"
    using new I(14) by (simp add: spec_add_def abs_store_def bl1 e_def Let_def)
  show ?thesis
  proof (cases "beTD e > beTD (last R)")
    case True
    from setHead_path [OF kd(1) I(1,3,6), of s1] I kd(2) obtain sf fn where
      sh: "setHead G s1 e = Some (Ok (s1\<lparr>stNumbers := index_of G R', stHead := Some e, stSafe := sf, stFinalized := fn\<rparr>,
           word_of_nat (branch_depth R R')))"
      "tips_ok (s1\<lparr>stNumbers := index_of G R', stHead := Some e, stSafe := sf, stFinalized := fn\<rparr>) R'" by auto
    let ?s = "s1\<lparr>stNumbers := index_of G R', stHead := Some e, stSafe := sf, stFinalized := fn\<rparr>"
    have "AddBlock G H P io s h el pj = Some (?s, Ok (True, word_of_nat (branch_depth R R')))"
      using new True I(2) sh(1) by (simp add: AddBlock_def e_def [symmetric] s1_def [symmetric] Let_def) (simp add: e_def)
    moreover have "store_inv G g ?s"
      using I sh(2) True unfolding store_inv_def by (auto intro!: exI [of _ R'] simp: max_def split: if_splits)
    moreover have "abs_store ?s = spec_add G h (abs_store s)" using True by (simp add: spec) (simp add: abs_store_def)
    ultimately show ?thesis using bl1(2) I(1,6,7,14) True by (intro exI [of _ ?s] exI [of _ R] exI [of _ R'] exI) simp
  next
    case False
    have "AddBlock G H P io s h el pj = Some (s1, Ok (False, 0))"
      using new False I(2) by (simp add: AddBlock_def e_def [symmetric] s1_def [symmetric] Let_def) (simp add: e_def)
    moreover have "store_inv G g s1"
      using I False unfolding store_inv_def by (auto intro!: exI [of _ R] simp: max_def split: if_splits)
    moreover have "abs_store s1 = spec_add G h (abs_store s)" using False I(2) by (simp add: spec) (simp add: abs_store_def)
    ultimately show ?thesis using bl1(2) I(1,6,7,14) False by (intro exI [of _ s1] exI [of _ R] exI [of _ R'] exI) simp
  qed
qed

lemma AddBlock_refines:
  assumes inv: "store_inv G g s" and adm: "admissible G g s h"
  shows "\<exists>s' r. AddBlock G H P io s h el pj = Some (s', r) \<and> r \<noteq> Panic \<and> store_inv G g s' \<and>
           abs_store s' = spec_add G h (abs_store s) \<and> stEpoch s' = stEpoch s"
proof -
  consider (nil) "Number h = None \<or> Difficulty h = None"
    | (known) m d where "Number h = Some m" "Difficulty h = Some d" "stBlocks s (hdrHash G h) \<noteq> None"
    | (orphan) m d where "Number h = Some m" "Difficulty h = Some d" "stBlocks s (hdrHash G h) = None"
        "stBlocks s (ParentHash h) = None"
    | (new) m d p where "Number h = Some m" "Difficulty h = Some d" "stBlocks s (hdrHash G h) = None"
        "stBlocks s (ParentHash h) = Some p"
    by (metis option.exhaust)
  then show ?thesis
  proof cases
    case nil
    then show ?thesis using inv by (auto simp: AddBlock_def spec_add_def split: option.splits)
  next
    case known
    then show ?thesis using inv by (auto simp: AddBlock_def spec_add_def abs_store_def)
  next
    case orphan
    then show ?thesis using inv by (auto simp: AddBlock_def spec_add_def abs_store_def)
  next
    case new
    from AddBlock_new [OF inv adm this refl] show ?thesis by (metis result.distinct(3))
  qed
qed

end
