(* ===== verification/Forkchoice_Hist.thy ===== *)
theory Forkchoice_Hist
  imports Forkchoice_Inv
begin

text \<open>
  Histories of \<^const>\<open>AddBlock\<close> calls on the fork choice store: from a genesis header, any list of headers
  that is consistently numbered builds a store that refines the heaviest-chain rule; with a database
  attached, the file holds exactly the accepted blocks, and replaying it rebuilds the store. The last
  section is the \<open>BlocksInRange\<close> loop.
\<close>

section \<open>Histories\<close>

text \<open>
  A sequence of calls, each with the outcome of its disk write. An error leaves the store and the
  history goes on; \<^const>\<open>None\<close> is a call that diverges or panics.
\<close>

fun addBlocks ::
    "geth \<Rightarrow> header codec \<Rightarrow> persistedBlock codec \<Rightarrow> Store \<Rightarrow> (DBRecord \<times> nat option) list \<Rightarrow> Store option" where
  "addBlocks G H P s [] = Some s"
| "addBlocks G H P s ((r, io) # xs) =
     (case AddBlock G H P io s (drHeader r) (drELHash r) (drPayloadJSON r) of
        None \<Rightarrow> None
      | Some (s', Panic) \<Rightarrow> None
      | Some (s', _) \<Rightarrow> addBlocks G H P s' xs)"

definition headersOf :: "(DBRecord \<times> nat option) list \<Rightarrow> header list" where
  "headersOf xs = map (drHeader \<circ> fst) xs"

text \<open>
  A set of headers is consistently numbered above a genesis header: a child is numbered one above its
  parent without wrapping, and no header hashes to the genesis header's parent hash.
\<close>

definition consistent :: "geth \<Rightarrow> header \<Rightarrow> header set \<Rightarrow> bool" where
  "consistent G gen hs \<longleftrightarrow>
     genesis_ok G gen \<and>
     (\<forall>h \<in> hs. hdrHash G h \<noteq> ParentHash gen \<and>
        (\<forall>p \<in> insert gen hs. hdrHash G p = ParentHash h \<longrightarrow>
           (case hnum p of None \<Rightarrow> False | Some n \<Rightarrow> hnum h = Some (n + 1) \<and> n + 1 \<noteq> 0)))"

definition headers_in :: "Store \<Rightarrow> header set \<Rightarrow> bool" where
  "headers_in s hs \<longleftrightarrow> (\<forall>h e. stBlocks s h = Some e \<longrightarrow> beHeader e \<in> hs)"

lemma consistent_admissible:
  assumes "consistent G gen hs" "store_inv G (genesisEntry gen) s" "headers_in s (insert gen hs)" "h \<in> hs"
  shows "admissible G (genesisEntry gen) s h"
proof -
  have "case bnum p of None \<Rightarrow> False | Some n \<Rightarrow> hnum h = Some (n + 1) \<and> n + 1 \<noteq> 0"
    if p: "stBlocks s (ParentHash h) = Some p" for p
  proof -
    have "beHeader p \<in> insert gen hs" using assms(3) p unfolding headers_in_def by blast
    moreover have "hdrHash G (beHeader p) = ParentHash h"
      using assms(2) p unfolding store_inv_def blocks_ok_def keyed_def by blast
    ultimately show ?thesis using assms(1,4) unfolding consistent_def by blast
  qed
  moreover have "hdrHash G h \<noteq> ParentHash gen" using assms(1,4) unfolding consistent_def by blast
  ultimately show ?thesis
    by (simp add: admissible_def genesisEntry_def split: option.split)
qed

lemma spec_add_blocks:
  "fst (spec_add G h t) x = Some e \<Longrightarrow> fst t x = Some e \<or> beHeader e = h"
  by (auto simp: spec_add_def Let_def split: option.splits if_splits)

lemma addBlocks_refines:
  assumes "consistent G gen hs" "store_inv G (genesisEntry gen) s" "headers_in s (insert gen hs)"
    "set (headersOf xs) \<subseteq> hs"
  shows "\<exists>s'. addBlocks G H P s xs = Some s' \<and> store_inv G (genesisEntry gen) s' \<and> stEpoch s' = stEpoch s \<and>
           headers_in s' (insert gen hs) \<and>
           abs_store s' = foldl (\<lambda>t h. spec_add G h t) (abs_store s) (headersOf xs)"
  using assms(2-4)
proof (induction xs arbitrary: s)
  case Nil
  then show ?case by (simp add: headersOf_def)
next
  case (Cons x xs)
  obtain r io where x: "x = (r, io)" by force
  have h: "drHeader r \<in> hs" and rest: "set (headersOf xs) \<subseteq> hs" using Cons.prems(3) by (simp_all add: headersOf_def x)
  obtain s1 v where s1: "AddBlock G H P io s (drHeader r) (drELHash r) (drPayloadJSON r) = Some (s1, v)" "v \<noteq> Panic"
    "store_inv G (genesisEntry gen) s1" "abs_store s1 = spec_add G (drHeader r) (abs_store s)" "stEpoch s1 = stEpoch s"
    using AddBlock_refines [OF Cons.prems(1) consistent_admissible [OF assms(1) Cons.prems(1,2) h]] by blast
  have "headers_in s1 (insert gen hs)" unfolding headers_in_def
  proof (intro allI impI)
    fix y e assume "stBlocks s1 y = Some e"
    then have "fst (spec_add G (drHeader r) (abs_store s)) y = Some e"
      using s1(4) by (metis abs_store_def fst_conv)
    then have "stBlocks s y = Some e \<or> beHeader e = drHeader r"
      using spec_add_blocks by (fastforce simp: abs_store_def)
    then show "beHeader e \<in> insert gen hs" using Cons.prems(2) h unfolding headers_in_def by auto
  qed
  from Cons.IH [OF s1(3) this rest] obtain s' where
    s': "addBlocks G H P s1 xs = Some s'" "store_inv G (genesisEntry gen) s'" "stEpoch s' = stEpoch s1"
      "headers_in s' (insert gen hs)" "abs_store s' = foldl (\<lambda>t h. spec_add G h t) (abs_store s1) (headersOf xs)" by blast
  have "addBlocks G H P s (x # xs) = Some s'" using s'(1) s1(1,2) by (cases v) (simp_all add: x)
  moreover have "abs_store s' = foldl (\<lambda>t h. spec_add G h t) (abs_store s) (headersOf (x # xs))"
    using s'(5) s1(4) by (simp add: headersOf_def x)
  ultimately show ?case using s' s1(5) by simp
qed

lemma New_store_headers: "headers_in (New_store G gen epoch) (insert gen hs)"
  by (simp add: headers_in_def New_store_def Let_def)

text \<open>What a history from genesis gives: it returns, and the invariant holds.\<close>

lemma history_inv:
  assumes "consistent G gen hs" and "set (headersOf xs) \<subseteq> hs"
  obtains s where "addBlocks G H P (SetDB (New_store G gen epoch) db) xs = Some s"
    "store_inv G (genesisEntry gen) s" "stEpoch s = epoch"
    "abs_store s = foldl (\<lambda>t h. spec_add G h t) ([hdrHash G gen \<mapsto> genesisEntry gen], genesisEntry gen) (headersOf xs)"
proof -
  let ?s = "SetDB (New_store G gen epoch) db"
  have "genesis_ok G gen" using assms(1) by (simp add: consistent_def)
  then have "store_inv G (genesisEntry gen) ?s" by (simp add: SetDB_def New_store_inv)
  moreover have "headers_in ?s (insert gen hs)"
    using New_store_headers [of G gen epoch hs] by (simp add: headers_in_def SetDB_def)
  moreover have "abs_store ?s = ([hdrHash G gen \<mapsto> genesisEntry gen], genesisEntry gen)" "stEpoch ?s = epoch"
    by (simp_all add: abs_store_def SetDB_def New_store_def Let_def genesisEntry_def)
  ultimately show thesis using addBlocks_refines [OF assms(1) _ _ assms(2), of ?s H P] that by metis
qed

lemma history_headers:
  assumes "consistent G gen hs" and "set (headersOf xs) \<subseteq> hs"
    and "addBlocks G H P (SetDB (New_store G gen epoch) db) xs = Some s"
  shows "store_inv G (genesisEntry gen) s \<and> headers_in s (insert gen hs)"
proof -
  let ?s = "SetDB (New_store G gen epoch) db"
  have "genesis_ok G gen" using assms(1) by (simp add: consistent_def)
  then have "store_inv G (genesisEntry gen) ?s" by (simp add: SetDB_def New_store_inv)
  moreover have "headers_in ?s (insert gen hs)"
    using New_store_headers [of G gen epoch hs] by (simp add: headers_in_def SetDB_def)
  ultimately show ?thesis using addBlocks_refines [OF assms(1) _ _ assms(2), of ?s H P] assms(3) by auto
qed

section \<open>The database mirrors the store\<close>

text \<open>The store operations do not look at the database.\<close>

lemma updateSafeFinalized_db:
  "updateSafeFinalized (s\<lparr>stDb := d\<rparr>) =
     rbind (updateSafeFinalized s) (\<lambda>s'. Ok (s'\<lparr>stDb := d\<rparr>))"
  by (simp add: updateSafeFinalized_def canonicalOr_def Let_def split: option.split)

lemma lbind_lbind_Ok:
  "lbind (lbind m f) (\<lambda>x. Some (Ok (k x))) = lbind m (\<lambda>y. lbind (f y) (\<lambda>x. Some (Ok (k x))))"
  by (cases "(m, f)" rule: lbind.cases) simp_all

lemma lbind_updateSafe_db:
  "lbind (Some (updateSafeFinalized (s\<lparr>stDb := d\<rparr>))) f = lbind (Some (updateSafeFinalized s)) (\<lambda>s'. f (s'\<lparr>stDb := d\<rparr>))"
  by (cases "updateSafeFinalized s") (simp_all add: updateSafeFinalized_db)

lemma store_db_sel:
  "stBlocks (s\<lparr>stDb := d\<rparr>) = stBlocks s" "stNumbers (s\<lparr>stDb := d\<rparr>) = stNumbers s" "stHead (s\<lparr>stDb := d\<rparr>) = stHead s"
  "(s\<lparr>stDb := d\<rparr>)\<lparr>stNumbers := m, stHead := t\<rparr> = (s\<lparr>stNumbers := m, stHead := t\<rparr>)\<lparr>stDb := d\<rparr>"
  by simp_all

lemma reorg_db:
  "reorg G (s\<lparr>stDb := d\<rparr>) oh nh n = lbind (reorg G s oh nh n) (\<lambda>x. Some (Ok ((fst x)\<lparr>stDb := d\<rparr>, snd x)))"
  by (simp only: reorg_def Let_def store_db_sel lbind_updateSafe_db lbind_lbind_Ok lbind.simps fst_conv snd_conv)

lemma setHead_db:
  "setHead G (s\<lparr>stDb := d\<rparr>) e = lbind (setHead G s e) (\<lambda>x. Some (Ok ((fst x)\<lparr>stDb := d\<rparr>, snd x)))"
  unfolding setHead_def lbind_lbind_Ok
  by (rule arg_cong [of _ _ "lbind _"], rule ext)
    (simp only: store_db_sel reorg_db lbind_updateSafe_db lbind_lbind_Ok lbind.simps fst_conv snd_conv
       split: option.split if_split; simp)

lemma setHead_keeps_db:
  assumes "setHead G s e = Some (Ok (s', k))"
  shows "stDb s' = stDb s"
proof -
  have "setHead G (s\<lparr>stDb := stDb s\<rparr>) e = Some (Ok (s'\<lparr>stDb := stDb s\<rparr>, k))"
    unfolding setHead_db assms by simp
  moreover have "s\<lparr>stDb := stDb s\<rparr> = s" by (cases s) simp
  ultimately have "s' = s'\<lparr>stDb := stDb s\<rparr>" using assms by (metis Pair_inject option.inject result.inject(1))
  also have "stDb \<dots> = stDb s" by simp
  finally show ?thesis .
qed

text \<open>A call either leaves everything, or stores a new block and appends it to the database.\<close>

definition accepted :: "geth \<Rightarrow> Store \<Rightarrow> header \<Rightarrow> bool" where
  "accepted G s h \<longleftrightarrow>
     Number h \<noteq> None \<and> Difficulty h \<noteq> None \<and> stBlocks s (hdrHash G h) = None \<and> stBlocks s (ParentHash h) \<noteq> None"

lemma AddBlock_rejected:
  "\<not> accepted G s h \<Longrightarrow> \<exists>r. AddBlock G H P io s h el pj = Some (s, r) \<and> r \<noteq> Panic"
  by (auto simp: AddBlock_def accepted_def split: option.split)

lemma AddBlock_db:
  assumes "accepted G s h" "AddBlock G H P io s h el pj = Some (s', r)" "r \<noteq> Panic"
  shows "stDb s' = map_option (\<lambda>db. fst (Append H P io db h el pj)) (stDb s)"
    and "AddBlock G H P io' (s\<lparr>stDb := None\<rparr>) h el pj = Some (s'\<lparr>stDb := None\<rparr>, r)"
proof -
  from assms(1) obtain m d p where new: "Number h = Some m" "Difficulty h = Some d" "stBlocks s (hdrHash G h) = None"
    "stBlocks s (ParentHash h) = Some p" by (auto simp: accepted_def)
  define e where "e = \<lparr>beHeader = h, beTD = beTD p + d\<rparr>"
  define s1 where "s1 = storeBlock G H P io s e el pj"
  have s1': "storeBlock G H P io' (s\<lparr>stDb := None\<rparr>) e el pj = s1\<lparr>stDb := None\<rparr>"
    and db1: "stDb s1 = map_option (\<lambda>db. fst (Append H P io db h el pj)) (stDb s)"
    by (simp_all add: s1_def storeBlock_def Let_def e_def)
  have step: "AddBlock G H P x t h el pj =
      (if (case stHead (storeBlock G H P x t e el pj) of None \<Rightarrow> True | Some tip \<Rightarrow> beTD e > beTD tip)
       then (case setHead G (storeBlock G H P x t e el pj) e of
               None \<Rightarrow> None
             | Some (Ok (s2, depth)) \<Rightarrow> Some (s2, Ok (True, depth))
             | Some (Err er) \<Rightarrow> Some (storeBlock G H P x t e el pj, Err er)
             | Some Panic \<Rightarrow> Some (storeBlock G H P x t e el pj, Panic))
       else Some (storeBlock G H P x t e el pj, Ok (False, 0)))" if "stBlocks t = stBlocks s" for t x
    unfolding e_def blockEntry.select_convs using that new by (simp add: AddBlock_def Let_def)
  note a = assms(2) [unfolded step [OF refl], folded s1_def]
  note b = step [of "s\<lparr>stDb := None\<rparr>" io', unfolded s1', simplified store_db_sel, OF refl]
  show "stDb s' = map_option (\<lambda>db. fst (Append H P io db h el pj)) (stDb s)"
    using a assms(3) db1 setHead_keeps_db [of G s1 e]
    by (auto split: if_splits option.splits result.splits prod.splits)
  show "AddBlock G H P io' (s\<lparr>stDb := None\<rparr>) h el pj = Some (s'\<lparr>stDb := None\<rparr>, r)"
    unfolding b using a assms(3)
    by (auto simp: setHead_db split: if_splits option.splits result.splits prod.splits)
qed

text \<open>The records of a history whose blocks the store accepts, in order.\<close>

fun acceptedRecs ::
    "geth \<Rightarrow> header codec \<Rightarrow> persistedBlock codec \<Rightarrow> Store \<Rightarrow> (DBRecord \<times> nat option) list \<Rightarrow> DBRecord list" where
  "acceptedRecs G H P s [] = []"
| "acceptedRecs G H P s ((r, io) # xs) =
     (case AddBlock G H P io s (drHeader r) (drELHash r) (drPayloadJSON r) of
        None \<Rightarrow> []
      | Some (s', _) \<Rightarrow> (if accepted G s (drHeader r) then [r] else []) @ acceptedRecs G H P s' xs)"

lemma addBlocks_append:
  "addBlocks G H P s (xs @ ys) = Option.bind (addBlocks G H P s xs) (\<lambda>s'. addBlocks G H P s' ys)"
  by (induction G H P s xs rule: addBlocks.induct) (auto split: option.split result.split)

lemma addBlocks_mirror:
  assumes "addBlocks G H P s xs = Some s'" and "stDb s = Some db" "db_holds H P db rs"
    and "\<forall>(r, io) \<in> set xs. storable H P r \<and> io = None"
  shows "\<exists>db'. stDb s' = Some db' \<and> db_holds H P db' (rs @ acceptedRecs G H P s xs) \<and>
           addBlocks G H P (s\<lparr>stDb := None\<rparr>) (map (\<lambda>r. (r, None)) (acceptedRecs G H P s xs)) =
             Some (s'\<lparr>stDb := None\<rparr>)"
  using assms
proof (induction xs arbitrary: s db rs)
  case Nil
  then show ?case by simp
next
  case (Cons x xs)
  obtain r where x: "x = (r, None)" using Cons.prems(4) by (cases x) auto
  have r: "storable H P r" using Cons.prems(4) x by simp
  obtain s1 v where s1: "AddBlock G H P None s (drHeader r) (drELHash r) (drPayloadJSON r) = Some (s1, v)" "v \<noteq> Panic"
    "addBlocks G H P s1 xs = Some s'"
    using Cons.prems(1) by (auto simp: x split: option.splits result.splits)
  show ?case
  proof (cases "accepted G s (drHeader r)")
    case True
    have "stDb s1 = Some (fst (appendRec H P None db r))"
      using AddBlock_db(1) [OF True s1(1,2)] Cons.prems(2) by (simp add: appendRec_def)
    moreover have "db_holds H P (fst (appendRec H P None db r)) (rs @ [r])"
      using append_holds [OF Cons.prems(3) r] by blast
    ultimately obtain db' where d: "stDb s' = Some db'" "db_holds H P db' ((rs @ [r]) @ acceptedRecs G H P s1 xs)"
      "addBlocks G H P (s1\<lparr>stDb := None\<rparr>) (map (\<lambda>r. (r, None)) (acceptedRecs G H P s1 xs)) = Some (s'\<lparr>stDb := None\<rparr>)"
      using Cons.IH [OF s1(3)] Cons.prems(4) by (metis (no_types, lifting) list.set_intros(2))
    have acc: "acceptedRecs G H P s (x # xs) = r # acceptedRecs G H P s1 xs" using True s1(1) by (simp add: x)
    have "addBlocks G H P (s\<lparr>stDb := None\<rparr>) ((r, None) # map (\<lambda>r. (r, None)) (acceptedRecs G H P s1 xs)) =
            addBlocks G H P (s1\<lparr>stDb := None\<rparr>) (map (\<lambda>r. (r, None)) (acceptedRecs G H P s1 xs))"
      using AddBlock_db(2) [OF True s1(1,2), of None] s1(2) by (cases v) simp_all
    then show ?thesis using d unfolding acc by simp
  next
    case False
    then have "s1 = s" using AddBlock_rejected [of G s "drHeader r" H P None "drELHash r" "drPayloadJSON r"] s1(1) by simp
    then have "acceptedRecs G H P s (x # xs) = acceptedRecs G H P s xs" using False s1(1) by (simp add: x)
    then show ?thesis using Cons.IH [OF _ Cons.prems(2,3)] s1(3) Cons.prems(4) \<open>s1 = s\<close> by simp
  qed
qed

section \<open>Ranges\<close>

lemma rangeLoop_exact:
  assumes "to < - 1" "unat num \<le> unat to + 1"
  shows "rangeLoop s num to acc =
           Some (acc @ List.map_filter (\<lambda>i. rangeItem s (word_of_nat i)) [unat num ..< unat to + 1])"
  using assms(2)
proof (induction "unat to + 1 - unat num" arbitrary: num acc)
  case 0
  then have "num > to" by (simp add: word_less_nat_alt)
  then show ?case using 0 by (subst rangeLoop.simps) (simp add: map_filter_def)
next
  case (Suc k)
  then have le: "unat num \<le> unat to" by simp
  have "unat to < unat (- 1 :: u64)" using assms(1) by (simp only: word_less_nat_alt)
  then have "unat num + 1 < 2 ^ LENGTH(64)" using le by (simp add: unsigned_minus_1_eq_mask mask_eq_exp_minus_1)
  then have u: "unat (num + 1) = unat num + 1" by (simp only: unat_word_ariths(1)) simp
  have "\<not> num > to" using le by (simp add: word_less_nat_alt)
  then have "rangeLoop s num to acc = rangeLoop s (num + 1) to (case rangeItem s num of None \<Rightarrow> acc | Some x \<Rightarrow> acc @ [x])"
    by (subst rangeLoop.simps) simp
  also have "\<dots> = Some ((case rangeItem s num of None \<Rightarrow> acc | Some x \<Rightarrow> acc @ [x]) @
      List.map_filter (\<lambda>i. rangeItem s (word_of_nat i)) [unat (num + 1) ..< unat to + 1])"
    using Suc u le by (intro Suc.hyps(1)) simp_all
  finally show ?case
    using upt_conv_Cons [of "unat num" "unat to + 1"] le u by (simp add: map_filter_def split: option.split)
qed

lemma rangeLoop_diverges: "rangeLoop s num (- 1) acc = None"
proof (rule ccontr)
  assume "rangeLoop s num (- 1) acc \<noteq> None"
  then obtain y where y: "rangeLoop s num (- 1) acc = Some y" by blast
  have "(- 1) \<noteq> (- 1 :: u64)"
    by (rule rangeLoop.raw_induct [of "\<lambda>s num to acc y. to \<noteq> (- 1)", OF _ y]) (auto split: if_splits)
  then show False by simp
qed

end
