(* ===== verification/Forkchoice_Properties.thy ===== *)
theory Forkchoice_Properties
  imports Forkchoice_Hist
begin

text \<open>
  The properties of the fork choice store and of its database. The histories range over arbitrary
  headers; what is assumed of them is \<^const>\<open>consistent\<close>: children are numbered one above their parents.
\<close>

section \<open>Ancestors\<close>

definition ancestor :: "(hash \<rightharpoonup> blockEntry) \<Rightarrow> blockEntry \<Rightarrow> blockEntry \<Rightarrow> bool" where
  "ancestor bl = (\<lambda>x y. bl (parentOf y) = Some x)\<^sup>*\<^sup>*"

lemma path_ancestor:
  assumes "path bl g R" "i \<le> j" "j < length R"
  shows "ancestor bl (R ! i) (R ! j)"
  using assms(2,3)
proof (induction j)
  case 0
  then show ?case by (simp add: ancestor_def)
next
  case (Suc j)
  have "bl (parentOf (R ! Suc j)) = Some (R ! j)" using pathD(5) [OF assms(1) Suc.prems(2)] .
  then show ?case using Suc by (cases "i = Suc j") (auto simp: ancestor_def intro: rtranclp.rtrancl_into_rtrancl)
qed

lemma ancestor_in_path:
  assumes "path bl g R" "ancestor bl x y" "y = R ! j" "j < length R"
  shows "\<exists>i \<le> j. x = R ! i"
  using assms(2-4) unfolding ancestor_def
proof (induction arbitrary: j rule: rtranclp_induct)
  case base
  then show ?case by auto
next
  case (step y z)
  have "0 < j" using step.hyps(2) step.prems pathD(2,3) [OF assms(1)] by (metis gr0I option.distinct(1))
  then obtain k where "j = Suc k" by (metis Suc_pred')
  then have "y = R ! k" using step.hyps(2) step.prems pathD(5) [OF assms(1), of k] by simp
  then show ?case using step.IH [of k] \<open>j = Suc k\<close> step.prems by (metis Suc_lessD le_Suc_eq)
qed

section \<open>Concrete blocks\<close>

text \<open>Blocks for the witnesses: the hash of a block is its transaction root, one byte.\<close>

definition fcBlock :: "byte \<Rightarrow> byte \<Rightarrow> int \<Rightarrow> int \<Rightarrow> header" where
  "fcBlock t p n d = demoHeader\<lparr>TxHash := [t], ParentHash := [p], Number := Some n, Difficulty := Some d\<rparr>"

definition fcGenesis :: header where
  "fcGenesis = fcBlock 0 99 0 1"

definition fcRec :: "header \<Rightarrow> DBRecord \<times> nat option" where
  "fcRec h = (\<lparr>drHeader = h, drELHash = TxHash h, drPayloadJSON = []\<rparr>, None)"

text \<open>A chain of three blocks, the last two in turn, and a longer branch from the genesis block.\<close>

definition fcOld :: "header list" where
  "fcOld = [fcBlock 1 0 1 2]"

definition fcNew :: "header list" where
  "fcNew = [fcBlock 11 0 1 1, fcBlock 12 11 2 1, fcBlock 13 12 3 1]"

definition fcTable :: "header list" where
  "fcTable = fcGenesis # fcOld @ fcNew"

definition fcHeaderEnc :: "header \<Rightarrow> bytes option" where
  "fcHeaderEnc h = Some (TxHash h)"

definition fcHeaderDec :: "bytes \<Rightarrow> header option" where
  "fcHeaderDec bs = find (\<lambda>h. TxHash h = bs) fcTable"

definition fcRecEnc :: "persistedBlock \<Rightarrow> bytes option" where
  "fcRecEnc pb = Some (pbHeader pb)"

definition fcRecDec :: "bytes \<Rightarrow> persistedBlock option" where
  "fcRecDec bs = (if length bs = 1 then Some \<lparr>pbHeader = bs, pbELHash = bs, pbPayloadJSON = []\<rparr> else None)"

definition fcH :: "header codec" where
  "fcH = \<lparr>enc = fcHeaderEnc, dec = fcHeaderDec\<rparr>"

definition fcP :: "persistedBlock codec" where
  "fcP = \<lparr>enc = fcRecEnc, dec = fcRecDec\<rparr>"

definition fcStore :: "header list \<Rightarrow> Store option" where
  "fcStore hs = addBlocks demoGeth fcH fcP (New_store demoGeth fcGenesis 1) (map fcRec hs)"

definition fcBranchA :: "header list" where
  "fcBranchA = [fcBlock 1 0 1 1, fcBlock 2 1 2 1, fcBlock 3 2 3 1]"

definition fcBranchB :: "header list" where
  "fcBranchB = [fcBlock 11 0 1 2, fcBlock 12 11 2 2]"

lemma fc_consistent: "consistent demoGeth fcGenesis (set (headersOf (map fcRec (fcOld @ fcNew))))"
  by code_simp

lemma fc_storable: "h \<in> set fcTable \<Longrightarrow> storable fcH fcP (fst (fcRec h))"
proof -
  have "list_all (\<lambda>h. length (TxHash h) = 1 \<and> fcHeaderDec (TxHash h) = Some h) fcTable" by code_simp
  moreover assume "h \<in> set fcTable"
  ultimately have "length (TxHash h) = 1" "fcHeaderDec (TxHash h) = Some h" by (auto simp: list_all_iff)
  then have "encodes fcH fcP (fst (fcRec h)) (TxHash h)"
    by (simp add: encodes_def fcRec_def fcH_def fcP_def fcHeaderEnc_def fcRecEnc_def fcRecDec_def Let_def)
  then show ?thesis by (auto simp: storable_def)
qed

lemma map_filter_cong:
  "(\<And>x. x \<in> set xs \<Longrightarrow> f x = g x) \<Longrightarrow> List.map_filter f xs = List.map_filter g xs"
  by (induction xs) (simp_all add: map_filter_def)

lemma map_filter_upt:
  "List.map_filter (\<lambda>i. if i < n then Some (f i) else None) [a ..< b] = map f [a ..< min b n]"
proof (induction b)
  case (Suc b)
  have "min (Suc b) n = (if b < n then Suc (min b n) else min b n)" by (simp add: min_def)
  then show ?case using Suc by (simp add: map_filter_def)
qed (simp add: map_filter_def)

lemma take_drop_upt: "map ((!) xs) [a ..< min b (length xs)] = take (b - a) (drop a xs)"
  by (rule nth_equalityI) (auto simp: less_diff_conv add.commute)

text \<open>Number and range queries on a store that satisfies the invariant.\<close>

lemma range_inv:
  assumes inv: "store_inv G g s"
  obtains R where "path (stBlocks s) g R" "stHead s = Some (last R)"
    "\<And>n. GetByNumber s n = (if unat n < length R then Some (beHeader (R ! unat n)) else None)"
    "\<And>lo hi. hi < - 1 \<Longrightarrow> unat lo \<le> unat hi + 1 \<Longrightarrow>
       \<exists>els. BlocksInRange s lo hi = Some (take (unat hi + 1 - unat lo) (drop (unat lo) (map beHeader R)), els) \<and>
         length els = length (take (unat hi + 1 - unat lo) (drop (unat lo) (map beHeader R))) \<and>
         list_all2 (\<lambda>h el. stElHashes s (hdrHash G h) = Some el) (take (unat hi + 1 - unat lo) (drop (unat lo) (map beHeader R))) els"
proof -
  from inv obtain R where R: "path (stBlocks s) g R" "stHead s = Some (last R)"
      "member G (stBlocks s) (last R)" "stNumbers s = index_of G R"
    and ok: "keyed G (stBlocks s)" "dom (stElHashes s) = dom (stBlocks s)"
    unfolding store_inv_def blocks_ok_def by blast
  let ?hs = "map beHeader R"
  define el where "el i = the (stElHashes s (ehash G (R ! i)))" for i
  have mem: "i < length R \<Longrightarrow> stBlocks s (ehash G (R ! i)) = Some (R ! i)" for i
    using path_member [OF ok(1) R(1,3)] by (simp add: member_def)
  have els: "i < length R \<Longrightarrow> stElHashes s (ehash G (R ! i)) = Some (el i)" for i
  proof -
    assume "i < length R"
    then have "ehash G (R ! i) \<in> dom (stElHashes s)" unfolding ok(2) using mem by blast
    then show ?thesis by (auto simp: el_def)
  qed
  have item: "rangeItem s (word_of_nat i) = (if i < length R then Some (?hs ! i, el i) else None)" if "i < 2 ^ 64" for i
    using that mem els by (simp add: rangeItem_def R(4) index_of_def unat_of_nat)
  have range: "BlocksInRange s lo hi = Some (take (unat hi + 1 - unat lo) (drop (unat lo) ?hs),
          map el [unat lo ..< min (unat hi + 1) (length R)])" if "hi < - 1" "unat lo \<le> unat hi + 1" for lo hi
  proof -
    have "List.map_filter (\<lambda>i. rangeItem s (word_of_nat i)) [unat lo ..< unat hi + 1] =
          List.map_filter (\<lambda>i. if i < length R then Some (?hs ! i, el i) else None) [unat lo ..< unat hi + 1]"
      using unsigned_less [of hi] by (intro map_filter_cong item) auto
    also have "\<dots> = map (\<lambda>i. (?hs ! i, el i)) [unat lo ..< min (unat hi + 1) (length R)]" by (rule map_filter_upt)
    finally show ?thesis
      by (simp add: BlocksInRange_def rangeLoop_exact [OF that] o_def take_drop_upt [of ?hs, simplified])
  qed
  show thesis
  proof (rule that [of R])
    show "GetByNumber s n = (if unat n < length R then Some (beHeader (R ! unat n)) else None)" for n
      using mem [of "unat n"] by (simp add: GetByNumber_def R(4) index_of_def)
    show "\<exists>els. BlocksInRange s lo hi = Some (take (unat hi + 1 - unat lo) (drop (unat lo) ?hs), els) \<and>
        length els = length (take (unat hi + 1 - unat lo) (drop (unat lo) ?hs)) \<and>
        list_all2 (\<lambda>h el. stElHashes s (hdrHash G h) = Some el) (take (unat hi + 1 - unat lo) (drop (unat lo) ?hs)) els"
      if "hi < - 1" "unat lo \<le> unat hi + 1" for lo hi
    proof (intro exI [of _ "map el [unat lo ..< min (unat hi + 1) (length R)]"] conjI)
      have seg: "take (unat hi + 1 - unat lo) (drop (unat lo) ?hs) = map ((!) ?hs) [unat lo ..< min (unat hi + 1) (length R)]"
        using take_drop_upt [of ?hs "unat lo" "unat hi + 1"] by simp
      show "length (map el [unat lo ..< min (unat hi + 1) (length R)]) = length (take (unat hi + 1 - unat lo) (drop (unat lo) ?hs))"
        unfolding seg by simp
      show "list_all2 (\<lambda>h el. stElHashes s (hdrHash G h) = Some el) (take (unat hi + 1 - unat lo) (drop (unat lo) ?hs))
          (map el [unat lo ..< min (unat hi + 1) (length R)])"
        unfolding seg by (simp add: list_all2_map1 list_all2_map2 list_all2_same els)
    qed (rule range [OF that])
  qed (use R in auto)
qed

text \<open>
  The canonical chain of a store: headers from genesis to the head, linked by parent hashes, with which \<^verbatim>\<open>GetByNumber\<close>
  answers exactly.
\<close>

definition canonicalChain :: "geth \<Rightarrow> header \<Rightarrow> Store \<Rightarrow> header list \<Rightarrow> bool" where
  "canonicalChain G gen s R \<longleftrightarrow>
     R \<noteq> [] \<and> R ! 0 = gen \<and> Head s = Some (last R) \<and>
     (\<forall>i. Suc i < length R \<longrightarrow> ParentHash (R ! Suc i) = hdrHash G (R ! i)) \<and>
     (\<forall>n. GetByNumber s n = (if unat n < length R then Some (R ! unat n) else None))"

lemma path_canonicalChain:
  assumes "store_inv G (genesisEntry gen) s" "path (stBlocks s) (genesisEntry gen) R" "stHead s = Some (last R)"
    and "\<And>n. GetByNumber s n = (if unat n < length R then Some (beHeader (R ! unat n)) else None)"
  shows "canonicalChain G gen s (map beHeader R)"
proof -
  have kd: "keyed G (stBlocks s)" using assms(1) by (simp add: store_inv_def blocks_ok_def)
  have ne: "R \<noteq> []" using pathD(1) [OF assms(2)] .
  moreover have "map beHeader R ! 0 = gen" using pathD(2) [OF assms(2)] ne by (simp add: genesisEntry_def)
  moreover have "ParentHash (map beHeader R ! Suc i) = hdrHash G (map beHeader R ! i)" if "Suc i < length (map beHeader R)" for i
    using that pathD(5) [OF assms(2), of i] kd by (simp add: keyed_def)
  ultimately show ?thesis using assms(3,4) by (simp add: canonicalChain_def Head_def last_map)
qed

text \<open>The execution hash of a stored block is the one it was added with, that of genesis its own hash.\<close>

definition elOrigin :: "geth \<Rightarrow> header \<Rightarrow> (DBRecord \<times> nat option) list \<Rightarrow> hash \<Rightarrow> hash \<Rightarrow> bool" where
  "elOrigin G gen xs x el \<longleftrightarrow>
     x = hdrHash G gen \<and> el = x \<or> (\<exists>(r, io) \<in> set xs. hdrHash G (drHeader r) = x \<and> drELHash r = el)"

lemma updateSafeFinalized_el: "updateSafeFinalized s = Ok s' \<Longrightarrow> stElHashes s' = stElHashes s"
  by (auto simp: updateSafeFinalized_def Let_def split: option.splits if_splits)

lemma lbind_Ok_iff: "lbind x f = Some (Ok y) \<longleftrightarrow> (\<exists>z. x = Some (Ok z) \<and> f z = Some (Ok y))"
  by (cases "(x, f)" rule: lbind.cases) auto

lemma reorg_el: "reorg G s oh nh n = Some (Ok (s', d)) \<Longrightarrow> stElHashes s' = stElHashes s"
  unfolding reorg_def Let_def lbind_Ok_iff by (elim exE conjE) (auto dest!: updateSafeFinalized_el)

lemma setHead_el:
  assumes "setHead G s e = Some (Ok (s', d))"
  shows "stElHashes s' = stElHashes s"
proof (cases "stHead s")
  case None
  then show ?thesis using assms by (auto simp: setHead_def lbind_Ok_iff dest!: updateSafeFinalized_el)
next
  case (Some oh)
  then show ?thesis using assms reorg_el [of G s oh e _ s' d]
    by (cases "parentOf e = ehash G oh") (auto simp: setHead_def lbind_Ok_iff dest!: updateSafeFinalized_el)
qed

lemma AddBlock_el:
  assumes "AddBlock G H P io s h el pj = Some (s', r)" and "stElHashes s' x = Some y"
  shows "stElHashes s x = Some y \<or> x = hdrHash G h \<and> y = el"
proof (cases "accepted G s h")
  case True
  then obtain m d p where new: "Number h = Some m" "Difficulty h = Some d" "stBlocks s (hdrHash G h) = None"
    "stBlocks s (ParentHash h) = Some p" by (auto simp: accepted_def)
  let ?s1 = "storeBlock G H P io s \<lparr>beHeader = h, beTD = beTD p + d\<rparr> el pj"
  have "stElHashes s' = stElHashes ?s1"
    using assms(1) new setHead_el [of G ?s1 "\<lparr>beHeader = h, beTD = beTD p + d\<rparr>"]
    by (simp add: AddBlock_def Let_def split: if_splits option.splits result.splits prod.splits)
  then show ?thesis using assms(2) by (auto simp: storeBlock_def Let_def split: if_splits)
next
  case False
  then have "s' = s" using AddBlock_rejected [OF False, of H P io el pj] assms(1) by auto
  then show ?thesis using assms(2) by simp
qed

lemma addBlocks_el:
  assumes "addBlocks G H P s xs = Some s'" and "stElHashes s' x = Some y"
  shows "stElHashes s x = Some y \<or> (\<exists>(r, io) \<in> set xs. hdrHash G (drHeader r) = x \<and> drELHash r = y)"
  using assms(1)
proof (induction xs arbitrary: s)
  case Nil
  then show ?case using assms(2) by simp
next
  case (Cons rx xs)
  obtain r io where rx: "rx = (r, io)" by force
  obtain s1 v where s1: "AddBlock G H P io s (drHeader r) (drELHash r) (drPayloadJSON r) = Some (s1, v)" "addBlocks G H P s1 xs = Some s'"
    using Cons.prems unfolding rx by (auto split: option.splits result.splits)
  from Cons.IH [OF s1(2)] show ?case using AddBlock_el [OF s1(1), of x y] unfolding rx by auto
qed

lemma history_el:
  assumes "addBlocks G H P (SetDB (New_store G gen epoch) db) xs = Some s" and "stElHashes s x = Some y"
  shows "elOrigin G gen xs x y"
  using addBlocks_el [OF assms] by (auto simp: elOrigin_def SetDB_def New_store_def Let_def split: if_splits)

text \<open>The same for the blocks themselves: a call adds at most the block it is given.\<close>

lemma updateSafeFinalized_blocks: "updateSafeFinalized s = Ok s' \<Longrightarrow> stBlocks s' = stBlocks s"
  by (auto simp: updateSafeFinalized_def Let_def split: option.splits if_splits)

lemma setHead_blocks:
  assumes "setHead G s e = Some (Ok (s', d))"
  shows "stBlocks s' = stBlocks s"
proof -
  have reorg: "reorg G s oh e n = Some (Ok (s', d)) \<Longrightarrow> stBlocks s' = stBlocks s" for oh n
    unfolding reorg_def Let_def lbind_Ok_iff by (elim exE conjE) (auto dest!: updateSafeFinalized_blocks)
  show ?thesis
  proof (cases "stHead s")
    case None
    then show ?thesis using assms by (auto simp: setHead_def lbind_Ok_iff dest!: updateSafeFinalized_blocks)
  next
    case (Some oh)
    then show ?thesis using assms reorg [of oh]
      by (cases "parentOf e = ehash G oh") (auto simp: setHead_def lbind_Ok_iff dest!: updateSafeFinalized_blocks)
  qed
qed

lemma AddBlock_blocks:
  assumes "AddBlock G H P io s h el pj = Some (s', r)" and "stBlocks s' x = Some b"
  shows "stBlocks s x = Some b \<or> beHeader b = h"
proof (cases "accepted G s h")
  case True
  then obtain m d p where new: "Number h = Some m" "Difficulty h = Some d" "stBlocks s (hdrHash G h) = None"
    "stBlocks s (ParentHash h) = Some p" by (auto simp: accepted_def)
  define e where "e = \<lparr>beHeader = h, beTD = beTD p + d\<rparr>"
  define s1 where "s1 = storeBlock G H P io s e el pj"
  have "stBlocks s' = stBlocks s1"
  proof (cases "setHead G s1 e")
    case None
    then show ?thesis using assms(1) new unfolding s1_def e_def by (simp add: AddBlock_def Let_def split: if_splits)
  next
    case (Some q)
    then have "s' = s1 \<or> (\<exists>d. setHead G s1 e = Some (Ok (s', d)))"
      using assms(1) new unfolding s1_def e_def by (auto simp: AddBlock_def Let_def split: if_splits result.splits prod.splits)
    then show ?thesis using setHead_blocks by metis
  qed
  moreover have "stBlocks s1 = (stBlocks s)(hdrHash G h \<mapsto> e)" "beHeader e = h" by (simp_all add: s1_def storeBlock_def Let_def e_def)
  ultimately show ?thesis using assms(2) by (auto simp: storeBlock_def Let_def split: if_splits)
next
  case False
  then have "s' = s" using AddBlock_rejected [OF False, of H P io el pj] assms(1) by auto
  then show ?thesis using assms(2) by simp
qed

section \<open>Properties\<close>

text \<open>
  C2. The store refines the heaviest-chain rule. From a genesis header, every history of \<^verbatim>\<open>AddBlock\<close>
  calls with consistently numbered headers returns (no parent loop diverges, nothing panics), whatever
  the disk does, and its block tree and head are those of the abstract specification \<^const>\<open>spec_add\<close>
  folded over the headers.
\<close>

theorem forkchoice_refines_heaviest_chain:
  assumes "consistent G gen (set (headersOf xs))"
  shows "\<exists>s. addBlocks G H P (SetDB (New_store G gen epoch) db) xs = Some s \<and>
           abs_store s = foldl (\<lambda>t h. spec_add G h t)
             ([hdrHash G gen \<mapsto> genesisEntry gen], genesisEntry gen) (headersOf xs)"
  using history_inv [OF assms subset_refl] by metis

theorem forkchoice_refines_heaviest_chain_witness:
  "\<exists>s. addBlocks demoGeth fcH fcP (SetDB (New_store demoGeth fcGenesis 1) None) (map fcRec (fcOld @ fcNew)) = Some s \<and>
       abs_store s = foldl (\<lambda>t h. spec_add demoGeth h t)
         ([hdrHash demoGeth fcGenesis \<mapsto> genesisEntry fcGenesis], genesisEntry fcGenesis)
         (headersOf (map fcRec (fcOld @ fcNew)))"
  by (rule forkchoice_refines_heaviest_chain [OF fc_consistent])

text \<open>
  C12. The canonical chain. After any history of consistently numbered headers there is one chain of headers \<open>R\<close> from genesis to the
  head, linked by parent hashes, such that \<^verbatim>\<open>GetByNumber\<close> answers exactly with its entries and nothing
  beyond the head; its total difficulty is the genesis difficulty plus the sum of its difficulties and no
  stored block has more; and for a non-zero epoch the safe block is its last epoch boundary and the
  finalized block the boundary two epochs earlier (genesis before the second epoch is complete).
\<close>

theorem forkchoice_canonical_chain:
  assumes "consistent G gen (set (headersOf xs))"
    and "addBlocks G H P (SetDB (New_store G gen epoch) db) xs = Some s"
  shows "\<exists>R t. R \<noteq> [] \<and> R ! 0 = gen \<and> Head s = Some (last R) \<and>
           (\<forall>i. Suc i < length R \<longrightarrow> ParentHash (R ! Suc i) = hdrHash G (R ! i)) \<and>
           (\<forall>n. GetByNumber s n = (if unat n < length R then Some (R ! unat n) else None)) \<and>
           t = genesisTD gen + sum_list (map (the \<circ> Difficulty) (tl R)) \<and>
           TD s (hdrHash G (last R)) = Some t \<and> (\<forall>h u. TD s h = Some u \<longrightarrow> u \<le> t) \<and>
           (epoch \<noteq> 0 \<longrightarrow>
              Safe s = Some (R ! safe_pos (unat epoch) (length R - 1)) \<and>
              Finalized s = Some (R ! final_pos (unat epoch) (length R - 1)))"
proof -
  have inv: "store_inv G (genesisEntry gen) s" "stEpoch s = epoch"
    using history_inv [OF assms(1) subset_refl, of H P epoch db] assms(2) by (metis option.inject)+
  then obtain R where R: "path (stBlocks s) (genesisEntry gen) R" "stHead s = Some (last R)"
      "member G (stBlocks s) (last R)" "stNumbers s = index_of G R" "tips_ok s R"
      "\<forall>h e. stBlocks s h = Some e \<longrightarrow> beTD e \<le> beTD (last R)"
    and ok: "blocks_ok G (genesisEntry gen) (stBlocks s)" unfolding store_inv_def by blast
  have kd: "keyed G (stBlocks s)" using ok by (simp add: blocks_ok_def)
  have ne: "R \<noteq> []" using pathD(1) [OF R(1)] .
  have mem: "i < length R \<Longrightarrow> stBlocks s (ehash G (R ! i)) = Some (R ! i)" for i
    using path_member [OF kd R(1,3)] by (simp add: member_def)
  have td: "beTD (last R) = path_td R"
    using ok R(1,3) path_unique unfolding blocks_ok_def member_def by metis
  have lst: "last (map beHeader R) = beHeader (last R)" using ne by (simp add: last_map)
  have pos: "safe_pos k (length R - 1) < length R" "final_pos k (length R - 1) < length R" for k
    using safe_pos_le [of k "length R - 1"] final_pos_le [of k "length R - 1"] ne
    by (metis Suc_pred' length_greater_0_conv less_Suc_eq_le)+
  show ?thesis
  proof (intro exI [of _ "map beHeader R"] exI [of _ "beTD (last R)"] conjI allI impI)
    show "map beHeader R ! 0 = gen" using pathD(2) [OF R(1)] ne by (simp add: genesisEntry_def)
    show "Head s = Some (last (map beHeader R))" using R(2) lst by (simp add: Head_def)
    show "ParentHash (map beHeader R ! Suc i) = hdrHash G (map beHeader R ! i)" if "Suc i < length (map beHeader R)" for i
      using that pathD(5) [OF R(1), of i] kd by (simp add: keyed_def)
    show "GetByNumber s n = (if unat n < length (map beHeader R) then Some (map beHeader R ! unat n) else None)" for n
      using mem [of "unat n"] by (simp add: GetByNumber_def R(4) index_of_def)
    show "beTD (last R) = genesisTD gen + sum_list (map (the \<circ> Difficulty) (tl (map beHeader R)))"
      using td pathD(2) [OF R(1)] by (simp add: path_td_def genesisEntry_def map_tl [symmetric] o_def)
    show "TD s (hdrHash G (last (map beHeader R))) = Some (beTD (last R))"
      using R(3) lst by (simp add: TD_def member_def)
    show "u \<le> beTD (last R)" if "TD s h = Some u" for h u using that R(6) by (auto simp: TD_def)
    show "Safe s = Some (map beHeader R ! safe_pos (unat epoch) (length (map beHeader R) - 1))" if "epoch \<noteq> 0"
      using that R(5) inv(2) pos by (simp add: tips_ok_def Safe_def)
    show "Finalized s = Some (map beHeader R ! final_pos (unat epoch) (length (map beHeader R) - 1))" if "epoch \<noteq> 0"
      using that R(5) inv(2) pos by (simp add: tips_ok_def Finalized_def)
  qed (use ne in simp)
qed

theorem forkchoice_canonical_chain_witness:
  "\<exists>s R. addBlocks demoGeth fcH fcP (SetDB (New_store demoGeth fcGenesis 1) None) (map fcRec (fcOld @ fcNew)) = Some s \<and>
       R \<noteq> [] \<and> Head s = Some (last R) \<and>
       (\<forall>n. GetByNumber s n = (if unat n < length R then Some (R ! unat n) else None))"
proof -
  obtain s where s: "addBlocks demoGeth fcH fcP (SetDB (New_store demoGeth fcGenesis 1) None) (map fcRec (fcOld @ fcNew)) = Some s"
    using history_inv [OF fc_consistent subset_refl] by metis
  from forkchoice_canonical_chain [OF fc_consistent s] show ?thesis using s by blast
qed

text \<open>
  C26. On the store of a consistently numbered history \<^verbatim>\<open>findCommonAncestor\<close> returns on every two stored blocks, and its value is the most recent common
  ancestor: an ancestor of both, of which every other common ancestor is an ancestor.
\<close>

theorem forkchoice_common_ancestor:
  assumes "consistent G gen (set (headersOf xs))"
    and "addBlocks G H P (SetDB (New_store G gen epoch) db) xs = Some s"
    and "stBlocks s ha = Some a" "stBlocks s hb = Some b"
  shows "\<exists>c. findCommonAncestor G (stBlocks s) a b = Some (Ok (Some c)) \<and>
           ancestor (stBlocks s) c a \<and> ancestor (stBlocks s) c b \<and>
           (\<forall>d. ancestor (stBlocks s) d a \<and> ancestor (stBlocks s) d b \<longrightarrow> ancestor (stBlocks s) d c)"
proof -
  let ?bl = "stBlocks s" and ?g = "genesisEntry gen"
  have "store_inv G ?g s" using history_inv [OF assms(1) subset_refl, of H P epoch db] assms(2) by (metis option.inject)
  then have ok: "blocks_ok G ?g ?bl" by (simp add: store_inv_def)
  then have kd: "keyed G ?bl" by (simp add: blocks_ok_def)
  obtain R R' where R: "path ?bl ?g R" "last R = a" "path ?bl ?g R'" "last R' = b"
    using ok assms(3,4) unfolding blocks_ok_def by metis
  have mem: "member G ?bl (last R)" "member G ?bl (last R')" using keyed_member [OF kd] assms(3,4) R by blast+
  let ?n = "length R - 1" and ?m = "length R' - 1"
  let ?k = "common R R' (min ?n ?m)"
  have ne: "R \<noteq> []" "R' \<noteq> []" using pathD(1) R by blast+
  have last: "a = R ! ?n" "b = R' ! ?m" "?n < length R" "?m < length R'" using ne R by (auto simp: last_conv_nth)
  have k: "?k \<le> ?n" "?k \<le> ?m" using common_le [of R R' "min ?n ?m"] by simp_all
  have eq: "R ! ?k = R' ! ?k" using pathD(2) R by (metis common_eq)
  have "ancestor ?bl d (R ! ?k)" if d: "ancestor ?bl d a" "ancestor ?bl d b" for d
  proof -
    obtain i j where ij: "i \<le> ?n" "d = R ! i" "j \<le> ?m" "d = R' ! j"
      using ancestor_in_path [OF R(1) d(1) last(1,3)] ancestor_in_path [OF R(3) d(2) last(2,4)] by blast
    then have "i = j" using path_num_inj [OF R(1,3), of i j] last(3,4) by simp
    then have "i \<le> ?k" using common_greatest [of R R' "min ?n ?m" i] ij by (metis linorder_not_le min.boundedI)
    then show ?thesis using path_ancestor [OF R(1), of i ?k] ij(2) k(1) last(3) by simp
  qed
  moreover have "findCommonAncestor G ?bl a b = Some (Ok (Some (R ! ?k)))"
    using findCommonAncestor_path [OF kd R(1) mem(1) R(3) mem(2)] R(2,4) by simp
  moreover have "ancestor ?bl (R ! ?k) a" using path_ancestor [OF R(1) k(1) last(3)] last(1) by simp
  moreover have "ancestor ?bl (R ! ?k) b" using path_ancestor [OF R(3) k(2) last(4)] last(2) eq by simp
  ultimately show ?thesis by blast
qed

theorem forkchoice_common_ancestor_witness:
  "\<exists>s a b c. fcStore (fcOld @ fcNew) = Some s \<and> stBlocks s [1] = Some a \<and> stBlocks s [13] = Some b \<and>
     findCommonAncestor demoGeth (stBlocks s) a b = Some (Ok (Some c)) \<and>
     ancestor (stBlocks s) c a \<and> ancestor (stBlocks s) c b"
proof -
  have "map_option (\<lambda>s. (stBlocks s [1] \<noteq> None, stBlocks s [13] \<noteq> None)) (fcStore (fcOld @ fcNew)) = Some (True, True)"
    by code_simp
  then obtain s a b where s: "fcStore (fcOld @ fcNew) = Some s" "stBlocks s [1] = Some a" "stBlocks s [13] = Some b"
    by auto
  have "SetDB (New_store demoGeth fcGenesis 1) None = New_store demoGeth fcGenesis 1"
    by (simp add: SetDB_def New_store_def Let_def)
  then have "addBlocks demoGeth fcH fcP (SetDB (New_store demoGeth fcGenesis 1) None) (map fcRec (fcOld @ fcNew)) = Some s"
    using s(1) by (simp add: fcStore_def)
  from forkchoice_common_ancestor [OF fc_consistent this s(2,3)] show ?thesis using s by blast
qed

text \<open>
  C7. A restart loses nothing. With a database attached, after a history of calls whose writes were
  complete the file holds exactly the accepted blocks: replaying what \<^verbatim>\<open>ReadAll\<close> returns into a fresh
  store rebuilds the store. If the process then dies in the middle of one more \<^verbatim>\<open>AddBlock\<close>, after any
  number \<open>k\<close> of bytes, reopening and replaying gives the store before or after that block, and after it
  exactly when the record was complete on disk.
\<close>

theorem forkchoice_restart_recovers:
  assumes "addBlocks G H P (SetDB (New_store G gen epoch) (Some db)) xs = Some s" and "db_holds H P db []"
    and "\<forall>(r, io) \<in> set xs. storable H P r \<and> io = None"
    and "storable H P x" "accepted G s (drHeader x)"
    and "AddBlock G H P (Some k) s (drHeader x) (drELHash x) (drPayloadJSON x) = Some (s', r)" "r \<noteq> Panic"
  shows "\<exists>db1 db2 db3 rs rs'. stDb s = Some db1 \<and> ReadAll H P (\<lambda>_. True) db1 = Ok (db1, rs) \<and>
           addBlocks G H P (New_store G gen epoch) (map (\<lambda>r. (r, None)) rs) = Some (s\<lparr>stDb := None\<rparr>) \<and>
           stDb s' = Some db2 \<and> OpenChainDB P (\<lambda>_. True) (dbFile db2) = Ok db3 \<and>
           ReadAll H P (\<lambda>_. True) db3 = Ok (db3, rs') \<and>
           addBlocks G H P (New_store G gen epoch) (map (\<lambda>r. (r, None)) rs') =
             Some (if complete H P (Some k) x then s'\<lparr>stDb := None\<rparr> else s\<lparr>stDb := None\<rparr>)"
proof -
  let ?s0 = "SetDB (New_store G gen epoch) (Some db)" and ?pairs = "map (\<lambda>r. (r :: DBRecord, None :: nat option))"
  define rs where "rs = acceptedRecs G H P ?s0 xs"
  have s0: "?s0\<lparr>stDb := None\<rparr> = New_store G gen epoch" by (simp add: SetDB_def New_store_def Let_def)
  from addBlocks_mirror [OF assms(1) _ assms(2,3)] obtain db1 where
    db1: "stDb s = Some db1" "db_holds H P db1 rs"
      "addBlocks G H P (New_store G gen epoch) (?pairs rs) = Some (s\<lparr>stDb := None\<rparr>)"
    unfolding rs_def s0 by (auto simp: SetDB_def)
  define db2 where "db2 = fst (appendRec H P (Some k) db1 x)"
  have db2: "stDb s' = Some db2" using AddBlock_db(1) [OF assms(5-7)] db1(1) by (simp add: db2_def appendRec_def)
  have plain: "AddBlock G H P None (s\<lparr>stDb := None\<rparr>) (drHeader x) (drELHash x) (drPayloadJSON x) = Some (s'\<lparr>stDb := None\<rparr>, r)"
    by (rule AddBlock_db(2) [OF assms(5-7)])
  have more: "addBlocks G H P (New_store G gen epoch) (?pairs (rs @ [x])) = Some (s'\<lparr>stDb := None\<rparr>)"
    using db1(3) plain assms(7) by (cases r) (simp_all add: addBlocks_append)
  let ?rs = "if complete H P (Some k) x then rs @ [x] else rs"
  have opn: "OpenChainDB P (\<lambda>_. True) (dbFile db2) = Ok (reopen P db2)" by (simp add: reopen_def OpenChainDB_ok)
  have "db_holds H P (reopen P db2) ?rs" unfolding db2_def by (rule crash_holds [OF db1(2) assms(4)])
  then have "ReadAll H P (\<lambda>_. True) (reopen P db2) = Ok (reopen P db2, ?rs)" by (rule readAll_holds)
  moreover have "addBlocks G H P (New_store G gen epoch) (?pairs ?rs) =
      Some (if complete H P (Some k) x then s'\<lparr>stDb := None\<rparr> else s\<lparr>stDb := None\<rparr>)"
    using more db1(3) by simp
  ultimately show ?thesis using db1 db2 opn readAll_holds [OF db1(2)] by blast
qed

theorem forkchoice_restart_recovers_witness:
  "\<exists>s s' r db2 db3 rs'.
     addBlocks demoGeth fcH fcP (SetDB (New_store demoGeth fcGenesis 1) (Some \<lparr>dbFile = [], dbPos = 0\<rparr>)) (map fcRec fcOld) = Some s \<and>
     AddBlock demoGeth fcH fcP (Some 2) s (fcBlock 11 0 1 1) [11] [] = Some (s', r) \<and>
     stDb s' = Some db2 \<and> OpenChainDB fcP (\<lambda>_. True) (dbFile db2) = Ok db3 \<and>
     ReadAll fcH fcP (\<lambda>_. True) db3 = Ok (db3, rs') \<and>
     addBlocks demoGeth fcH fcP (New_store demoGeth fcGenesis 1) (map (\<lambda>r. (r, None)) rs') = Some (s\<lparr>stDb := None\<rparr>)"
proof -
  let ?db = "\<lparr>dbFile = [], dbPos = 0\<rparr>" and ?h = "fcBlock 11 0 1 1"
  let ?x = "fst (fcRec ?h)"
  have "Option.bind (addBlocks demoGeth fcH fcP (SetDB (New_store demoGeth fcGenesis 1) (Some ?db)) (map fcRec fcOld))
      (\<lambda>s. map_option (\<lambda>(s', r). (accepted demoGeth s ?h, r)) (AddBlock demoGeth fcH fcP (Some 2) s ?h [11] [])) =
    Some (True, Ok (False, 0))" by code_simp
  then obtain s s' where s: "addBlocks demoGeth fcH fcP (SetDB (New_store demoGeth fcGenesis 1) (Some ?db)) (map fcRec fcOld) = Some s"
    "AddBlock demoGeth fcH fcP (Some 2) s ?h [11] [] = Some (s', Ok (False, 0))" "accepted demoGeth s ?h"
    by (auto simp: Option.bind_eq_Some_conv)
  have x: "drHeader ?x = ?h" "drELHash ?x = [11]" "drPayloadJSON ?x = []" by (simp_all add: fcRec_def fcBlock_def)
  have st: "storable fcH fcP ?x" "\<forall>(r, io) \<in> set (map fcRec fcOld). storable fcH fcP r \<and> io = None"
    using fc_storable by (auto simp: fcTable_def fcNew_def fcOld_def fcRec_def)
  have nc: "\<not> complete fcH fcP (Some 2) ?x" by (simp add: complete_def)
  have "db_holds fcH fcP ?db []" by (simp add: db_holds_def)
  from forkchoice_restart_recovers [OF s(1) this st(2,1), unfolded x, OF s(3,2)] nc show ?thesis
    using s by (auto simp: x)
qed

text \<open>
  C32. \<^verbatim>\<open>BlocksInRange\<close>. The store of a consistently numbered history has a canonical chain, from genesis to the head
  and linked by parent hashes; for an upper bound below \<^verbatim>\<open>MaxUint64\<close> the call returns the segment of exactly this chain
  numbered \<open>from\<close> to \<open>to\<close>, cut off at the head, and with each header the execution hash it was added with; for the
  upper bound \<^verbatim>\<open>MaxUint64\<close> the loop variable wraps and the call does not return.
\<close>

theorem forkchoice_blocks_in_range:
  assumes "consistent G gen (set (headersOf xs))"
    and "addBlocks G H P (SetDB (New_store G gen epoch) db) xs = Some s"
  shows "\<exists>R. canonicalChain G gen s R \<and>
           (\<forall>lo hi. hi < - 1 \<and> unat lo \<le> unat hi + 1 \<longrightarrow>
              (\<exists>els. BlocksInRange s lo hi = Some (take (unat hi + 1 - unat lo) (drop (unat lo) R), els) \<and>
                 list_all2 (\<lambda>h el. elOrigin G gen xs (hdrHash G h) el) (take (unat hi + 1 - unat lo) (drop (unat lo) R)) els)) \<and>
           (\<forall>lo. BlocksInRange s lo (- 1) = None)"
proof -
  have inv: "store_inv G (genesisEntry gen) s"
    using history_inv [OF assms(1) subset_refl, of H P epoch db] assms(2) by (metis option.inject)
  from inv obtain R where R: "path (stBlocks s) (genesisEntry gen) R" "stHead s = Some (last R)"
    "\<And>n. GetByNumber s n = (if unat n < length R then Some (beHeader (R ! unat n)) else None)"
    "\<And>lo hi. hi < - 1 \<Longrightarrow> unat lo \<le> unat hi + 1 \<Longrightarrow>
       \<exists>els. BlocksInRange s lo hi = Some (take (unat hi + 1 - unat lo) (drop (unat lo) (map beHeader R)), els) \<and>
         list_all2 (\<lambda>h el. stElHashes s (hdrHash G h) = Some el) (take (unat hi + 1 - unat lo) (drop (unat lo) (map beHeader R))) els"
    by (rule range_inv) blast
  have "BlocksInRange s lo (- 1) = None" for lo by (simp add: BlocksInRange_def rangeLoop_diverges)
  moreover have "list_all2 (\<lambda>h el. elOrigin G gen xs (hdrHash G h) el) hs els"
    if "list_all2 (\<lambda>h el. stElHashes s (hdrHash G h) = Some el) hs els" for hs els
    using that by (rule list_all2_mono) (rule history_el [OF assms(2)])
  ultimately show ?thesis using R(4) path_canonicalChain [OF inv R(1-3)]
    by (intro exI [of _ "map beHeader R"]) blast
qed

theorem forkchoice_blocks_in_range_witness:
  "\<exists>s R els. fcStore (fcOld @ fcNew) = Some s \<and> canonicalChain demoGeth fcGenesis s R \<and>
     BlocksInRange s 1 2 = Some (take 2 (drop 1 R), els) \<and> BlocksInRange s 1 (- 1) = None"
proof -
  have "SetDB (New_store demoGeth fcGenesis 1) None = New_store demoGeth fcGenesis 1"
    by (simp add: SetDB_def New_store_def Let_def)
  then obtain s where s: "fcStore (fcOld @ fcNew) = Some s"
      "addBlocks demoGeth fcH fcP (SetDB (New_store demoGeth fcGenesis 1) None) (map fcRec (fcOld @ fcNew)) = Some s"
    using history_inv [OF fc_consistent subset_refl, of fcH fcP 1 None] by (metis fcStore_def)
  from forkchoice_blocks_in_range [OF fc_consistent s(2)] obtain R where R: "canonicalChain demoGeth fcGenesis s R"
    "\<forall>lo hi. hi < - 1 \<and> unat lo \<le> unat hi + 1 \<longrightarrow>
       (\<exists>els. BlocksInRange s lo hi = Some (take (unat hi + 1 - unat lo) (drop (unat lo) R), els) \<and>
          list_all2 (\<lambda>h el. elOrigin demoGeth fcGenesis (map fcRec (fcOld @ fcNew)) (hdrHash demoGeth h) el)
            (take (unat hi + 1 - unat lo) (drop (unat lo) R)) els)"
    "\<forall>lo. BlocksInRange s lo (- 1) = None" by blast
  from R(2) [rule_format, of 2 1] obtain els where "BlocksInRange s 1 2 = Some (take 2 (drop 1 R), els)" by auto
  with R s show ?thesis by blast
qed

text \<open>
  The value \<^verbatim>\<open>AddBlock\<close> returns as reorg depth counts the blocks of the new branch, not the blocks
  unwound: a branch of three light blocks replaces one in-turn block, and the depth returned is 3.
\<close>

theorem forkchoice_reorg_depth_is_new_branch:
  "Option.bind (fcStore (fcOld @ butlast fcNew)) (\<lambda>s.
     map_option (\<lambda>(s', r). (map_option Number (Head s), map_option Number (Head s'), r))
       (AddBlock demoGeth fcH fcP None s (last fcNew) [] [])) =
   Some (Some (Some 1), Some (Some 3), Ok (True, 3))"
  by code_simp

text \<open>
  Finalized is not final: with epoch 1, after three out-of-turn blocks the first one is finalized;
  two in-turn blocks on a branch from genesis are heavier and replace it. Afterwards another block has its
  number on the canonical chain, and the finalized pointer has moved back to genesis.
\<close>

theorem forkchoice_finalized_reverted:
  "map_option (\<lambda>s. map_option TxHash (Finalized s)) (fcStore fcBranchA) = Some (Some [1]) \<and>
   map_option (\<lambda>s. (map_option TxHash (GetByNumber s 1), map_option TxHash (Finalized s)))
     (fcStore (fcBranchA @ fcBranchB)) = Some (Some [11], Some [0])"
proof (rule conjI)
  show "map_option (\<lambda>s. map_option TxHash (Finalized s)) (fcStore fcBranchA) = Some (Some [1])" by code_simp
  show "map_option (\<lambda>s. (map_option TxHash (GetByNumber s 1), map_option TxHash (Finalized s)))
     (fcStore (fcBranchA @ fcBranchB)) = Some (Some [11], Some [0])" by code_simp
qed

section \<open>The database\<close>

text \<open>
  C16. The file refines a list of records. For any history of appends, where after every write that did
  not complete normally the process restarts on the file it left, \<^verbatim>\<open>ReadAll\<close> returns the records the
  file held followed by exactly those of the history whose bytes were all written, in order.
\<close>

theorem chaindb_refines_record_list:
  assumes "db_holds H P db rs" and "\<forall>(r, io) \<in> set xs. storable H P r"
  shows "\<exists>db'. foldl (\<lambda>db (r, io). if io = None then fst (appendRec H P None db r)
                                   else reopen P (fst (appendRec H P io db r))) db xs = db' \<and>
           ReadAll H P (\<lambda>_. True) db' = Ok (db', rs @ map fst (filter (\<lambda>(r, io). complete H P io r) xs))"
  by (rule exI, rule conjI [OF refl], rule readAll_holds [OF cdb.history_holds [OF assms]])

theorem chaindb_refines_record_list_witness:
  "\<exists>db'. ReadAll fcH fcP (\<lambda>_. True) db' = Ok (db', map (fst \<circ> fcRec) [fcBlock 11 0 1 1, fcBlock 13 12 3 1])"
proof -
  let ?r = "\<lambda>h. fst (fcRec h)"
  let ?xs = "[(?r (fcBlock 11 0 1 1), None), (?r (fcBlock 12 11 2 1), Some 2), (?r (fcBlock 13 12 3 1), Some (5 :: nat))]"
  have a: "db_holds fcH fcP \<lparr>dbFile = [], dbPos = 0\<rparr> []" by (simp add: db_holds_def)
  have b: "\<forall>(r, io) \<in> set ?xs. storable fcH fcP r" using fc_storable by (simp add: fcTable_def fcNew_def)
  have "filter (\<lambda>(r, io). complete fcH fcP io r) ?xs =
      [(?r (fcBlock 11 0 1 1), None), (?r (fcBlock 13 12 3 1), Some 5)]" by code_simp
  then show ?thesis using chaindb_refines_record_list [OF a b] by auto
qed

text \<open>
  Opening repairs any file: whatever its bytes, what is kept is the longest prefix made of complete
  records that decode, the cursor is at its end, and opening the result again changes nothing.
\<close>

theorem chaindb_open_repairs:
  "\<exists>db ps. OpenChainDB P (\<lambda>_. True) bs = Ok db \<and> dbFile db = frames ps \<and> dbPos db = length (dbFile db) \<and>
     (\<forall>p \<in> set ps. good_payload P p) \<and> (\<exists>rest. bs = dbFile db @ rest \<and> goodEnd P rest = 0) \<and>
     OpenChainDB P (\<lambda>_. True) (dbFile db) = Ok db"
proof -
  obtain ps where ps: "take (goodEnd P bs) bs = frames ps" "\<forall>p \<in> set ps. good_payload P p" using goodEnd_shape by blast
  let ?rest = "drop (goodEnd P bs) bs"
  have le: "goodEnd P bs \<le> length bs" by (rule goodEnd_le)
  have "goodEnd P bs = goodEnd P (frames ps @ ?rest)" using ps(1) by (metis append_take_drop_id)
  also have "\<dots> = goodEnd P bs + goodEnd P ?rest" using goodEnd_frames [OF ps(2)] ps(1) le by (metis length_take min.absorb2)
  finally have "goodEnd P ?rest = 0" by simp
  moreover have "bs = frames ps @ ?rest" using ps(1) by (metis append_take_drop_id)
  moreover have "goodEnd P (frames ps) = length (frames ps)" by (rule goodEnd_frames_only [OF ps(2)])
  moreover have "length (frames ps) = goodEnd P bs" using ps(1) le by (metis length_take min.absorb2)
  ultimately show ?thesis using ps OpenChainDB_ok by (intro exI [of _ "\<lparr>dbFile = frames ps, dbPos = goodEnd P bs\<rparr>"] exI [of _ ps]) auto
qed

theorem chaindb_open_repairs_witness:
  "\<exists>db ps. OpenChainDB fcP (\<lambda>_. True) [0, 0, 0, 1, 7, 0, 0] = Ok db \<and> dbFile db = frames ps"
  using chaindb_open_repairs [of fcP "[0, 0, 0, 1, 7, 0, 0]"] by blast

text \<open>
  A failed append poisons the file. \<^verbatim>\<open>Append\<close> does not undo a partial write, and the caller only
  logs the error: the next append succeeds, but after a restart neither record is there.
\<close>

theorem chaindb_failed_append_loses_later_records:
  "let r1 = fst (fcRec (fcBlock 11 0 1 1)); r2 = fst (fcRec (fcBlock 12 11 2 1));
       (db1, v1) = appendRec fcH fcP (Some 2) \<lparr>dbFile = [], dbPos = 0\<rparr> r1;
       (db2, v2) = appendRec fcH fcP None db1 r2
   in v1 = Err DBWriteLength \<and> v2 = Ok () \<and>
      rbind (OpenChainDB fcP (\<lambda>_. True) (dbFile db2)) (\<lambda>db. rbind (ReadAll fcH fcP (\<lambda>_. True) db) (\<lambda>x. Ok (snd x))) = Ok []"
  by code_simp

end
