(* ===== verification/Node_Chain.thy ===== *)
theory Node_Chain
  imports Clique_Engine Qbft_Engine Forkchoice
begin

text \<open>
  The node's block pipeline: \<^verbatim>\<open>node/node.go\<close> (state and snapshot cache), \<^verbatim>\<open>node/block_processor.go\<close> and
  \<^verbatim>\<open>node/sync.go\<close>, with the message types of \<^verbatim>\<open>p2p/types.go\<close> and \<^verbatim>\<open>p2p/sync.go\<close> and the payload types of
  \<^verbatim>\<open>engine/types.go\<close>. The consensus mechanism is a record of operations, the Go interfaces \<^verbatim>\<open>Engine\<close> and
  \<^verbatim>\<open>Snapshot\<close>; \<open>cliqueOps\<close> and \<open>qbftOps\<close> fill it with the modelled engines. The execution client, JSON and
  RLP are parameters. A handler returns the new node and how it ended: \<^const>\<open>Err\<close> is a logged early
  return. \<^verbatim>\<open>n.db\<close> and the store's \<^verbatim>\<open>db\<close> are one pointer in the source; here the database is the one in the
  store. \<^verbatim>\<open>headSnap\<close> is never nil after \<^verbatim>\<open>New\<close>, so it is a value.
\<close>

section \<open>Interfaces\<close>

record ('s, 'e) EngineOps =
  opPeriod :: u64
  opEpoch :: u64
  opExtraVanity :: nat
  opEmptyUncleHash :: hash
  opNonceAuth :: bytes
  opNonceDrop :: bytes
  opNewGenesisSnapshot :: "header \<Rightarrow> ('e, 's) result"
  opNewCheckpointSnapshot :: "header \<Rightarrow> ('e, 's) result"
  opVerifyHeader :: "'s \<Rightarrow> header \<Rightarrow> header option \<Rightarrow> ('e, unit) result"
  opCalcDifficulty :: "'s \<Rightarrow> u64 \<Rightarrow> address \<Rightarrow> int"
  opApply :: "'s \<Rightarrow> header list \<Rightarrow> ('e, 's) result"
  opSealHeader :: "header \<Rightarrow> privkey \<Rightarrow> ('e, header) result"
  opBuildExtra :: "'s \<Rightarrow> u64 \<Rightarrow> ('e, bytes) result"
  opBlockNumber :: "'s \<Rightarrow> u64"
  opBlockHash :: "'s \<Rightarrow> hash"
  opIsAuthorized :: "'s \<Rightarrow> address \<Rightarrow> bool"
  opHasRecentlySigned :: "'s \<Rightarrow> u64 \<Rightarrow> address \<Rightarrow> bool"
  opSignerList :: "'s \<Rightarrow> address list"

definition cliqueOps :: "geth \<Rightarrow> Engine \<Rightarrow> (Snapshot, clique_error) EngineOps" where
  "cliqueOps G e =
     \<lparr>opPeriod = clPeriod e, opEpoch = clEpoch e, opExtraVanity = extraVanity, opEmptyUncleHash = emptyUncleHash G,
      opNonceAuth = nonceAuth, opNonceDrop = nonceNull, opNewGenesisSnapshot = NewGenesisSnapshot G,
      opNewCheckpointSnapshot = NewCheckpointSnapshot G, opVerifyHeader = VerifyHeader G e,
      opCalcDifficulty = CalcDifficulty, opApply = Apply G e, opSealHeader = SealHeader G,
      opBuildExtra = BuildExtra e, opBlockNumber = snNumber, opBlockHash = snHash,
      opIsAuthorized = IsAuthorized, opHasRecentlySigned = HasRecentlySigned, opSignerList = SignerList\<rparr>"

definition qbftOps :: "geth \<Rightarrow> IstanbulExtra codec \<Rightarrow> QEngine \<Rightarrow> (QSnapshot, qbft_error) EngineOps" where
  "qbftOps G C e =
     \<lparr>opPeriod = qbPeriod e, opEpoch = qbEpoch e, opExtraVanity = ExtraVanity, opEmptyUncleHash = emptyUncleHash G,
      opNonceAuth = nonceNull, opNonceDrop = nonceNull, opNewGenesisSnapshot = NewGenesisSnapshot_q G C,
      opNewCheckpointSnapshot = NewCheckpointSnapshot_q G C, opVerifyHeader = VerifyHeader_q G C e,
      opCalcDifficulty = CalcDifficulty_q, opApply = Apply_q G C e, opSealHeader = SealHeader_q G C,
      opBuildExtra = BuildExtra_q G C e, opBlockNumber = qsNumber, opBlockHash = qsHash,
      opIsAuthorized = IsAuthorized_q, opHasRecentlySigned = HasRecentlySigned_q, opSignerList = SignerList_q G\<rparr>"

section \<open>Messages and payloads\<close>

definition PayloadStatusValid :: string where "PayloadStatusValid = ''VALID''"
definition PayloadStatusInvalid :: string where "PayloadStatusInvalid = ''INVALID''"
definition PayloadStatusSyncing :: string where "PayloadStatusSyncing = ''SYNCING''"
definition PayloadStatusAccepted :: string where "PayloadStatusAccepted = ''ACCEPTED''"

text \<open>The payload fields the client reads; \<open>epRest\<close> stands for those it only passes through.\<close>

record ExecutionPayloadV3 =
  epStateRoot :: hash
  epReceiptsRoot :: hash
  epLogsBloom :: bytes
  epGasLimit :: u64
  epGasUsed :: u64
  epTimestamp :: u64
  epBaseFeePerGas :: "int option"
  epBlockHash :: hash
  epRest :: bytes

record PayloadAttributesV3 =
  paTimestamp :: u64
  paPrevRandao :: hash
  paSuggestedFeeRecipient :: address
  paParentBeaconBlockRoot :: hash
  paExtraData :: bytes

record StatusMsg =
  smNetworkID :: u64
  smGenesisHash :: hash
  smHeadHash :: hash
  smHeadNumber :: u64

record CliqueBlock =
  cbHeader :: bytes
  cbExecutionPayloadHash :: hash
  cbPayloadJSON :: bytes

record SyncRequestMsg =
  srHeadNumber :: u64
  srHeadHash :: hash

record SyncBlock =
  sbHeader :: bytes
  sbELHash :: hash
  sbPayloadJSON :: bytes

record SyncResponseMsg =
  srsReset :: bool
  srsBlocks :: "SyncBlock list"

definition MaxSyncBlocks :: u64 where "MaxSyncBlocks = 2048"

text \<open>The execution client: \<^const>\<open>None\<close> is a failed call, otherwise the payload status and what is returned with it.\<close>

record ELClient =
  elNewPayloadV3 :: "ExecutionPayloadV3 \<Rightarrow> string option"
  elForkchoiceUpdatedV3 :: "ForkchoiceStateV1 \<Rightarrow> PayloadAttributesV3 option \<Rightarrow> (string \<times> bytes option) option"
  elGetPayloadV3 :: "bytes \<Rightarrow> ExecutionPayloadV3 option"

text \<open>What the node runs in: go-ethereum, the codecs, the execution client, and the outcome of disk writes.\<close>

record Env =
  evG :: geth
  evH :: "header codec"
  evP :: "persistedBlock codec"
  evJ :: "ExecutionPayloadV3 codec"
  evEL :: ELClient
  evIO :: "nat option"

section \<open>The node\<close>

record 's Node =
  nStor :: Store
  nGenesisHeader :: header
  nGenesisSnap :: 's
  nHeadSnap :: 's
  nEpochSnaps :: "u64 \<rightharpoonup> 's"
  nSignerKey :: "privkey option"
  nSignerAddr :: address
  nSyncing :: bool
  nStatus :: StatusMsg
  nNetworkID :: u64

datatype 'e node_error =
    NErrEpochHeader | NErrBlockMissing | NErrCheckpoint 'e | NErrApply 'e
  | NErrDecodeHeader | NErrSyncing | NErrUnknownParent | NErrVerify 'e | NErrAddBlock store_error
  | NErrDecodePayload | NErrNewPayload | NErrRejected | NErrFCU | NErrTruncate db_error
  | NErrRequest

fun mapErr :: "('e \<Rightarrow> 'f) \<Rightarrow> ('e, 'a) result \<Rightarrow> ('f, 'a) result" where
  "mapErr f (Ok x) = Ok x"
| "mapErr f (Err e) = Err (f e)"
| "mapErr f Panic = Panic"

text \<open>
  A step of a handler: the node it leaves and how it ended, or \<^const>\<open>None\<close> when a loop does not end.
  \<open>nbind\<close> goes on after a step that ended well.
\<close>

type_synonym ('s, 'e, 'a) step = "('s Node \<times> ('e node_error, 'a) result) option"

fun nbind :: "('s, 'e, 'a) step \<Rightarrow> ('s Node \<Rightarrow> 'a \<Rightarrow> ('s, 'e, 'b) step) \<Rightarrow> ('s, 'e, 'b) step" where
  "nbind None f = None"
| "nbind (Some (n, Ok x)) f = f n x"
| "nbind (Some (n, Err e)) f = Some (n, Err e)"
| "nbind (Some (n, Panic)) f = Some (n, Panic)"

subsection \<open>Snapshots\<close>

text \<open>\<^verbatim>\<open>setHeadSnapshot\<close> caches epoch-boundary snapshots; a zero epoch panics.\<close>

definition setHeadSnapshot :: "('s, 'e) EngineOps \<Rightarrow> 's Node \<Rightarrow> 's \<Rightarrow> ('s, 'e, unit) step" where
  "setHeadSnapshot E n snap =
     (let n1 = n\<lparr>nHeadSnap := snap\<rparr> in
      if opEpoch E = 0 then Some (n1, Panic)
      else if opBlockNumber E snap mod opEpoch E = 0
      then Some (n1\<lparr>nEpochSnaps := (nEpochSnaps n1)(opBlockNumber E snap \<mapsto> snap)\<rparr>, Ok ())
      else Some (n1, Ok ()))"

text \<open>The snapshot at the epoch boundary: cached, the genesis snapshot, or built from the checkpoint header.\<close>

definition baseSnapshot :: "('s, 'e) EngineOps \<Rightarrow> 's Node \<Rightarrow> u64 \<Rightarrow> ('s, 'e, 's) step" where
  "baseSnapshot E n epochStart =
     (case nEpochSnaps n epochStart of
        Some base \<Rightarrow> Some (n, Ok base)
      | None \<Rightarrow>
          if epochStart = 0 then Some (n, Ok (nGenesisSnap n))
          else (case GetByNumber (nStor n) epochStart of
                  None \<Rightarrow> Some (n, Err NErrEpochHeader)
                | Some epochHeader \<Rightarrow>
                    nbind (Some (n, mapErr NErrCheckpoint (opNewCheckpointSnapshot E epochHeader))) (\<lambda>n base.
                      Some (n\<lparr>nEpochSnaps := (nEpochSnaps n)(epochStart \<mapsto> base)\<rparr>, Ok base))))"

text \<open>The loop that collects the canonical headers numbered \<open>i\<close> to \<open>num\<close>.\<close>

partial_function (option) collectHeaders ::
    "Store \<Rightarrow> u64 \<Rightarrow> u64 \<Rightarrow> header list \<Rightarrow> header list option option" where
  [code]: "collectHeaders s i num acc =
     (if i > num then Some (Some acc)
      else (case GetByNumber s i of
              None \<Rightarrow> Some None
            | Some h \<Rightarrow> collectHeaders s (i + 1) num (acc @ [h])))"

definition replayFrom :: "('s, 'e) EngineOps \<Rightarrow> 's Node \<Rightarrow> 's \<Rightarrow> u64 \<Rightarrow> u64 \<Rightarrow> ('s, 'e, 's) step" where
  "replayFrom E n base epochStart num =
     (case collectHeaders (nStor n) (epochStart + 1) num [] of
        None \<Rightarrow> None
      | Some None \<Rightarrow> Some (n, Err NErrBlockMissing)
      | Some (Some hs) \<Rightarrow>
          if hs = [] then Some (n, Ok base) else Some (n, mapErr NErrApply (opApply E base hs)))"

definition computeSnapshot :: "('s, 'e) EngineOps \<Rightarrow> 's Node \<Rightarrow> header \<Rightarrow> ('s, 'e, 's) step" where
  "computeSnapshot E n h =
     (case hnum h of
        None \<Rightarrow> Some (n, Panic)
      | Some num \<Rightarrow>
          let cur = nHeadSnap n in
          if opBlockNumber E cur + 1 = num \<and> opBlockHash E cur = ParentHash h
          then Some (n, mapErr NErrApply (opApply E cur [h]))
          else if opEpoch E = 0 then Some (n, Panic)
          else let epochStart = num div opEpoch E * opEpoch E in
            nbind (baseSnapshot E n epochStart) (\<lambda>n base. replayFrom E n base epochStart num))"

definition computeSnapshotAt :: "geth \<Rightarrow> ('s, 'e) EngineOps \<Rightarrow> 's Node \<Rightarrow> header \<Rightarrow> ('s, 'e, 's) step" where
  "computeSnapshotAt G E n h =
     (case hnum h of
        None \<Rightarrow> Some (n, Panic)
      | Some num \<Rightarrow>
          if num = 0 then Some (n, Ok (nGenesisSnap n))
          else if opBlockNumber E (nHeadSnap n) = num \<and> opBlockHash E (nHeadSnap n) = hdrHash G h
          then Some (n, Ok (nHeadSnap n))
          else computeSnapshot E n h)"

subsection \<open>Blocks from gossip\<close>

definition addToStore ::
    "Env \<Rightarrow> 's Node \<Rightarrow> header \<Rightarrow> hash \<Rightarrow> bytes \<Rightarrow> ('s, 'e, bool \<times> u64) step" where
  "addToStore V n h elHash payloadJSON =
     (case AddBlock (evG V) (evH V) (evP V) (evIO V) (nStor n) h elHash payloadJSON of
        None \<Rightarrow> None
      | Some (s, r) \<Rightarrow> Some (n\<lparr>nStor := s\<rparr>, mapErr NErrAddBlock r))"

definition setStatus :: "('s, 'e) EngineOps \<Rightarrow> 's Node \<Rightarrow> hash \<Rightarrow> u64 \<Rightarrow> 's Node" where
  "setStatus E n h num =
     n\<lparr>nStatus := \<lparr>smNetworkID = nNetworkID n, smGenesisHash = opBlockHash E (nGenesisSnap n),
                   smHeadHash = h, smHeadNumber = num\<rparr>\<rparr>"

text \<open>Steps 6 to 8 of \<^verbatim>\<open>handleBlock\<close>, run when the block became the head.\<close>

definition deliverHead ::
    "Env \<Rightarrow> ('s, 'e) EngineOps \<Rightarrow> 's Node \<Rightarrow> header \<Rightarrow> u64 \<Rightarrow> CliqueBlock \<Rightarrow> ('s, 'e, bool) step" where
  "deliverHead V E n h num blk =
     (case dec (evJ V) (cbPayloadJSON blk) of
        None \<Rightarrow> Some (n, Err NErrDecodePayload)
      | Some payload \<Rightarrow>
          (case elNewPayloadV3 (evEL V) payload of
             None \<Rightarrow> Some (n, Err NErrNewPayload)
           | Some status \<Rightarrow>
               if status = PayloadStatusInvalid then Some (n, Err NErrRejected)
               else (case elForkchoiceUpdatedV3 (evEL V) (ForkchoiceState (evG V) (nStor n)) None of
                       None \<Rightarrow> Some (n, Err NErrFCU)
                     | Some _ \<Rightarrow>
                         nbind (computeSnapshot E n h) (\<lambda>n newSnap.
                         nbind (setHeadSnapshot E n newSnap) (\<lambda>n _.
                           Some (setStatus E n (hdrHash (evG V) h) num, Ok True))))))"

text \<open>
  \<^verbatim>\<open>handleBlock\<close>: \<open>Ok True\<close> is a new canonical head, \<open>Ok False\<close> a stored side-chain or known block.
  \<open>NErrUnknownParent\<close> is the path that starts a sync with the sender.
\<close>

definition handleBlock ::
    "Env \<Rightarrow> ('s, 'e) EngineOps \<Rightarrow> 's Node \<Rightarrow> CliqueBlock \<Rightarrow> ('s, 'e, bool) step" where
  "handleBlock V E n blk =
     (case dec (evH V) (cbHeader blk) of
        None \<Rightarrow> Some (n, Err NErrDecodeHeader)
      | Some h \<Rightarrow>
          (case hnum h of
             None \<Rightarrow> Some (n, Panic)
           | Some num \<Rightarrow>
               if nSyncing n then Some (n, Err NErrSyncing)
               else (case GetByHash (nStor n) (ParentHash h) of
                  None \<Rightarrow> Some (n, Err NErrUnknownParent)
                | Some parent \<Rightarrow>
                    nbind (computeSnapshotAt (evG V) E n parent) (\<lambda>n snap.
                    nbind (Some (n, mapErr NErrVerify (opVerifyHeader E snap h (Some parent)))) (\<lambda>n _.
                    nbind (addToStore V n h (cbExecutionPayloadHash blk) (cbPayloadJSON blk)) (\<lambda>n (headChanged, reorgDepth).
                      if \<not> headChanged then Some (n, Ok False)
                      else deliverHead V E (if reorgDepth > 0 then n\<lparr>nEpochSnaps := Map.empty\<rparr> else n) h num blk))))))"

text \<open>\<^verbatim>\<open>importPayload\<close>: delivering the payload of a block this node produced.\<close>

definition importPayload :: "Env \<Rightarrow> ExecutionPayloadV3 \<Rightarrow> ('e node_error, unit) result" where
  "importPayload V payload =
     (case elNewPayloadV3 (evEL V) payload of
        None \<Rightarrow> Err NErrNewPayload
      | Some status \<Rightarrow>
          if status = PayloadStatusValid \<or> status = PayloadStatusSyncing \<or> status = PayloadStatusAccepted
          then Ok () else Err NErrRejected)"

subsection \<open>Sync\<close>

definition resetChain :: "(os_call \<Rightarrow> bool) \<Rightarrow> geth \<Rightarrow> 's Node \<Rightarrow> ('s, 'e, unit) step" where
  "resetChain os G n =
     (let (db, r) = (case stDb (nStor n) of
                       None \<Rightarrow> (None, Ok ())
                     | Some db \<Rightarrow> (let (db', r) = Truncate os db in (Some db', r)));
          n1 = n\<lparr>nStor := (nStor n)\<lparr>stDb := db\<rparr>\<rparr>
      in nbind (Some (n1, mapErr NErrTruncate r)) (\<lambda>n1 _.
           Some (n1\<lparr>nStor := Reset G (nStor n1) (nGenesisHeader n1), nHeadSnap := nGenesisSnap n1,
                    nEpochSnaps := Map.empty\<rparr>, Ok ())))"

text \<open>The payload of a synced block is delivered before the store is updated; no payload is no error.\<close>

definition deliverSyncPayload :: "Env \<Rightarrow> 's Node \<Rightarrow> bytes \<Rightarrow> ('s, 'e, unit) step" where
  "deliverSyncPayload V n payloadJSON =
     (if length payloadJSON > 0
      then (case dec (evJ V) payloadJSON of
              None \<Rightarrow> Some (n, Err NErrDecodePayload)
            | Some payload \<Rightarrow>
                (case elNewPayloadV3 (evEL V) payload of
                   None \<Rightarrow> Some (n, Err NErrNewPayload)
                 | Some status \<Rightarrow>
                     if status = PayloadStatusInvalid then Some (n, Err NErrRejected) else Some (n, Ok ())))
      else Some (n, Ok ()))"

definition importSyncBlock ::
    "Env \<Rightarrow> ('s, 'e) EngineOps \<Rightarrow> 's Node \<Rightarrow> SyncBlock \<Rightarrow> ('s, 'e, unit) step" where
  "importSyncBlock V E n sb =
     (case dec (evH V) (sbHeader sb) of
        None \<Rightarrow> Some (n, Err NErrDecodeHeader)
      | Some h \<Rightarrow>
          (case GetByHash (nStor n) (ParentHash h) of
             None \<Rightarrow> Some (n, Err NErrUnknownParent)
           | Some parent \<Rightarrow>
               nbind (computeSnapshotAt (evG V) E n parent) (\<lambda>n parentSnap.
               nbind (Some (n, mapErr NErrVerify (opVerifyHeader E parentSnap h (Some parent)))) (\<lambda>n _.
               nbind (deliverSyncPayload V n (sbPayloadJSON sb)) (\<lambda>n _.
               nbind (addToStore V n h (sbELHash sb) (sbPayloadJSON sb)) (\<lambda>n _.
               nbind (computeSnapshot E n h) (\<lambda>n newSnap. setHeadSnapshot E n newSnap)))))))"

fun importSyncBlocks ::
    "Env \<Rightarrow> ('s, 'e) EngineOps \<Rightarrow> 's Node \<Rightarrow> SyncBlock list \<Rightarrow> ('s, 'e, unit) step" where
  "importSyncBlocks V E n [] = Some (n, Ok ())"
| "importSyncBlocks V E n (sb # sbs) = nbind (importSyncBlock V E n sb) (\<lambda>n _. importSyncBlocks V E n sbs)"

text \<open>
  The request loop of \<^verbatim>\<open>syncWithPeer\<close>. Each turn asks the peer for what follows the head; how the peer
  answers its requests is a list of functions, \<^const>\<open>None\<close> a failed request; when the list is used up
  the loop is still waiting, and the value is \<^const>\<open>None\<close>.
\<close>

definition syncRequest :: "geth \<Rightarrow> 's Node \<Rightarrow> ('e, SyncRequestMsg) result" where
  "syncRequest G n =
     rbind (deref (Head (nStor n))) (\<lambda>h. rbind (number_of h) (\<lambda>num. Ok \<lparr>srHeadNumber = num, srHeadHash = hdrHash G h\<rparr>))"

fun syncLoop ::
    "Env \<Rightarrow> (os_call \<Rightarrow> bool) \<Rightarrow> ('s, 'e) EngineOps \<Rightarrow> 's Node \<Rightarrow> (SyncRequestMsg \<Rightarrow> SyncResponseMsg option) list
      \<Rightarrow> ('s, 'e, unit) step" where
  "syncLoop V os E n [] = None"
| "syncLoop V os E n (ask # asks) =
     nbind (Some (n, syncRequest (evG V) n)) (\<lambda>n req.
       case ask req of
         None \<Rightarrow> Some (n, Err NErrRequest)
       | Some resp \<Rightarrow>
           (if srsBlocks resp = [] then Some (n, Ok ())
            else nbind (if srsReset resp then resetChain os (evG V) n else Some (n, Ok ())) (\<lambda>n _.
                 nbind (importSyncBlocks V E n (srsBlocks resp)) (\<lambda>n _.
                   if length (srsBlocks resp) < unat MaxSyncBlocks then Some (n, Ok ())
                   else syncLoop V os E n asks))))"

text \<open>
  \<^verbatim>\<open>syncWithPeer\<close>: only one sync runs at a time. After the loop the execution client is told the new head
  (the answer is only logged) and the status is updated from the head.
\<close>

definition finishSync :: "Env \<Rightarrow> ('s, 'e) EngineOps \<Rightarrow> 's Node \<Rightarrow> ('s, 'e, unit) step" where
  "finishSync V E n =
     (case Head (nStor n) of
        None \<Rightarrow> Some (n, Panic)
      | Some h \<Rightarrow> nbind (Some (n, number_of h)) (\<lambda>n num. Some (setStatus E n (hdrHash (evG V) h) num, Ok ())))"

definition syncWithPeer ::
    "Env \<Rightarrow> (os_call \<Rightarrow> bool) \<Rightarrow> ('s, 'e) EngineOps \<Rightarrow> 's Node \<Rightarrow> (SyncRequestMsg \<Rightarrow> SyncResponseMsg option) list
      \<Rightarrow> ('s, 'e, unit) step" where
  "syncWithPeer V os E n asks =
     (if nSyncing n then Some (n, Err NErrSyncing)
      else map_option (\<lambda>(n, r). (n\<lparr>nSyncing := False\<rparr>, r))
             (nbind (syncLoop V os E (n\<lparr>nSyncing := True\<rparr>) asks) (\<lambda>n _. finishSync V E n)))"

text \<open>
  \<^verbatim>\<open>handleSyncRequest\<close>: where the response starts and ends, and the blocks of that range. Encoding stops at
  the first header that does not encode. \<^const>\<open>None\<close> is the non-terminating \<^const>\<open>BlocksInRange\<close>.
\<close>

definition syncStart :: "geth \<Rightarrow> Store \<Rightarrow> SyncRequestMsg \<Rightarrow> bool \<times> u64" where
  "syncStart G s req =
     (if srHeadNumber req = 0 then (False, 1)
      else (case GetByNumber s (srHeadNumber req) of
              None \<Rightarrow> (True, 1)
            | Some canonical \<Rightarrow>
                if hdrHash G canonical \<noteq> srHeadHash req then (True, 1) else (False, srHeadNumber req + 1)))"

fun encodeSyncBlocks :: "geth \<Rightarrow> header codec \<Rightarrow> Store \<Rightarrow> (header \<times> hash) list \<Rightarrow> SyncBlock list" where
  "encodeSyncBlocks G H s [] = []"
| "encodeSyncBlocks G H s ((h, el) # xs) =
     (case enc H h of
        None \<Rightarrow> []
      | Some raw \<Rightarrow>
          \<lparr>sbHeader = raw, sbELHash = el,
           sbPayloadJSON = (case GetPayload s (hdrHash G h) of None \<Rightarrow> [] | Some p \<Rightarrow> p)\<rparr>
          # encodeSyncBlocks G H s xs)"

definition handleSyncRequest ::
    "geth \<Rightarrow> header codec \<Rightarrow> Store \<Rightarrow> SyncRequestMsg \<Rightarrow> ('e, SyncResponseMsg) result option" where
  "handleSyncRequest G H s req =
     (case Head s of
        None \<Rightarrow> Some (Ok \<lparr>srsReset = False, srsBlocks = []\<rparr>)
      | Some ourHead \<Rightarrow>
          let (reset, startNum) = syncStart G s req in
          lbind (Some (number_of ourHead)) (\<lambda>endNum.
            if endNum < startNum then Some (Ok \<lparr>srsReset = reset, srsBlocks = []\<rparr>)
            else let endNum' = (if endNum - startNum + 1 > MaxSyncBlocks then startNum + MaxSyncBlocks - 1 else endNum)
                 in case BlocksInRange s startNum endNum' of
                      None \<Rightarrow> None
                    | Some (headers, elHashes) \<Rightarrow>
                        Some (Ok \<lparr>srsReset = reset, srsBlocks = encodeSyncBlocks G H s (zip headers elHashes)\<rparr>)))"

subsection \<open>Start-up\<close>

text \<open>
  The replay loop: errors are skipped, but the log line reads the number, so a header without one
  panics. The store has no database attached yet.
\<close>

fun replayRecords :: "Env \<Rightarrow> 's Node \<Rightarrow> DBRecord list \<Rightarrow> ('s, 'e, unit) step" where
  "replayRecords V n [] = Some (n, Ok ())"
| "replayRecords V n (r # rs) =
     (case AddBlock (evG V) (evH V) (evP V) (evIO V) (nStor n) (drHeader r) (drELHash r) (drPayloadJSON r) of
        None \<Rightarrow> None
      | Some (s, Ok _) \<Rightarrow> replayRecords V (n\<lparr>nStor := s\<rparr>) rs
      | Some (s, Err _) \<Rightarrow>
          (if Number (drHeader r) = None then Some (n\<lparr>nStor := s\<rparr>, Panic) else replayRecords V (n\<lparr>nStor := s\<rparr>) rs)
      | Some (s, Panic) \<Rightarrow> Some (n\<lparr>nStor := s\<rparr>, Panic))"

definition attachDB :: "'s Node \<Rightarrow> ChainDB \<Rightarrow> 's Node" where
  "attachDB n db = n\<lparr>nStor := SetDB (nStor n) (Some db)\<rparr>"

text \<open>\<^verbatim>\<open>replayChain\<close>: the head snapshot is computed once at the end; a failure leaves the genesis snapshot.\<close>

definition replayChain ::
    "Env \<Rightarrow> (os_call \<Rightarrow> bool) \<Rightarrow> ('s, 'e) EngineOps \<Rightarrow> 's Node \<Rightarrow> ChainDB \<Rightarrow> ('s, 'e, unit) step" where
  "replayChain V os E n db =
     (case ReadAll (evH V) (evP V) os db of
        Err _ \<Rightarrow> Some (attachDB n db, Ok ())
      | Panic \<Rightarrow> Some (n, Panic)
      | Ok (db', records) \<Rightarrow>
          if records = [] then Some (attachDB n db', Ok ())
          else nbind (replayRecords V n records) (\<lambda>n _.
            let n1 = attachDB n db' in
            case Head (nStor n1) of
              None \<Rightarrow> Some (n1, Panic)
            | Some h \<Rightarrow>
                nbind (Some (n1, number_of h)) (\<lambda>n1 num.
                  if num > 0
                  then (case computeSnapshot E n1 h of
                          None \<Rightarrow> None
                        | Some (n2, Ok snap) \<Rightarrow> Some (setStatus E (n2\<lparr>nHeadSnap := snap\<rparr>) (hdrHash (evG V) h) num, Ok ())
                        | Some (n2, Err _) \<Rightarrow> Some (setStatus E n2 (hdrHash (evG V) h) num, Ok ())
                        | Some (n2, Panic) \<Rightarrow> Some (n2, Panic))
                  else Some (setStatus E n1 (hdrHash (evG V) h) num, Ok ()))))"

text \<open>
  The part of \<^verbatim>\<open>New\<close> that builds the node: genesis snapshot, store, status, and the replay of the
  database file when one is configured and opens.
\<close>

definition newNode ::
    "('s, 'e) EngineOps \<Rightarrow> geth \<Rightarrow> header \<Rightarrow> u64 \<Rightarrow> privkey option \<Rightarrow> ('e, 's Node) result" where
  "newNode E G genesis networkID key =
     rbind (opNewGenesisSnapshot E genesis) (\<lambda>genesisSnap.
       Ok \<lparr>nStor = New_store G genesis (opEpoch E), nGenesisHeader = genesis, nGenesisSnap = genesisSnap,
           nHeadSnap = genesisSnap, nEpochSnaps = Map.empty, nSignerKey = key,
           nSignerAddr = (case key of None \<Rightarrow> zeroAddress | Some k \<Rightarrow> key_address G k), nSyncing = False,
           nStatus = \<lparr>smNetworkID = networkID, smGenesisHash = hdrHash G genesis, smHeadHash = hdrHash G genesis,
                      smHeadNumber = 0\<rparr>,
           nNetworkID = networkID\<rparr>)"

definition openNode ::
    "Env \<Rightarrow> (os_call \<Rightarrow> bool) \<Rightarrow> ('s, 'e) EngineOps \<Rightarrow> 's Node \<Rightarrow> bytes option \<Rightarrow> ('s, 'e, unit) step" where
  "openNode V os E n file =
     (case file of
        None \<Rightarrow> Some (n, Ok ())
      | Some bs \<Rightarrow>
          (case OpenChainDB (evP V) os bs of
             Ok db \<Rightarrow> replayChain V os E n db
           | _ \<Rightarrow> Some (n, Ok ())))"

end
