(* ===== verification/Node_Properties.thy ===== *)
theory Node_Properties
  imports Node_Chain Forkchoice_Properties Clique_Properties
begin

text \<open>
  The properties of the node's block pipeline: only verified headers reach the store, what the snapshot
  cache returns, what a sync responder sends, and what a peer can do to a node that syncs with it.
\<close>

section \<open>Steps keep the store\<close>

lemma nbind_Some:
  "nbind m f = Some (n', r) \<longleftrightarrow>
     (\<exists>n x. m = Some (n, Ok x) \<and> f n x = Some (n', r)) \<or>
     (\<exists>e. m = Some (n', Err e) \<and> r = Err e) \<or> (m = Some (n', Panic) \<and> r = Panic)"
  by (cases "(m, f)" rule: nbind.cases) auto

lemma baseSnapshot_store:
  assumes "baseSnapshot E n es = Some (n', r)"
  shows "nStor n' = nStor n" and "nHeadSnap n' = nHeadSnap n"
  using assms by (auto simp: baseSnapshot_def nbind_Some split: option.splits if_splits)

lemma replayFrom_node: "replayFrom E n b es num = Some (n', r) \<Longrightarrow> n' = n"
  by (auto simp: replayFrom_def split: option.splits if_splits)

lemma computeSnapshot_store:
  assumes "computeSnapshot E n h = Some (n', r)"
  shows "nStor n' = nStor n"
  using assms
  by (auto simp: computeSnapshot_def Let_def nbind_Some dest: baseSnapshot_store(1) replayFrom_node
      split: option.splits if_splits)

lemma computeSnapshotAt_store:
  assumes "computeSnapshotAt G E n h = Some (n', r)"
  shows "nStor n' = nStor n"
  using assms by (auto simp: computeSnapshotAt_def dest: computeSnapshot_store split: option.splits if_splits)

lemma setHeadSnapshot_store: "setHeadSnapshot E n snap = Some (n', r) \<Longrightarrow> nStor n' = nStor n"
  by (auto simp: setHeadSnapshot_def Let_def split: if_splits)

lemma deliverHead_store:
  assumes "deliverHead V E n h num blk = Some (n', r)"
  shows "nStor n' = nStor n"
  using assms
  by (auto simp: deliverHead_def nbind_Some setStatus_def dest!: computeSnapshot_store setHeadSnapshot_store
      split: option.splits if_splits)

text \<open>A header is vetted when it verifies against the snapshot the node computes at its stored parent.\<close>

definition vetted :: "Env \<Rightarrow> ('s, 'e) EngineOps \<Rightarrow> 's Node \<Rightarrow> header \<Rightarrow> bool" where
  "vetted V E n h \<longleftrightarrow>
     (\<exists>parent snap n1. GetByHash (nStor n) (ParentHash h) = Some parent \<and>
        computeSnapshotAt (evG V) E n parent = Some (n1, Ok snap) \<and>
        opVerifyHeader E snap h (Some parent) = Ok ())"

lemma mapErr_Ok [simp]: "mapErr f r = Ok x \<longleftrightarrow> r = Ok x"
  by (cases r) auto

lemma addToStore_Some:
  "addToStore V n h el pj = Some (n', r) \<longleftrightarrow>
     (\<exists>s q. AddBlock (evG V) (evH V) (evP V) (evIO V) (nStor n) h el pj = Some (s, q) \<and>
        n' = n\<lparr>nStor := s\<rparr> \<and> r = mapErr NErrAddBlock q)"
  by (auto simp: addToStore_def split: option.splits)

lemma vet_step:
  assumes "nbind (computeSnapshotAt G E n parent) (\<lambda>n1 snap.
             nbind (Some (n1, mapErr NErrVerify (opVerifyHeader E snap h (Some parent)))) (\<lambda>n2 _. k n2)) = Some (n', r)"
    and "nStor n' \<noteq> nStor n"
  obtains n1 snap where "computeSnapshotAt G E n parent = Some (n1, Ok snap)"
    "opVerifyHeader E snap h (Some parent) = Ok ()" "k n1 = Some (n', r)" "nStor n1 = nStor n"
  using assms by (auto simp: nbind_Some dest: computeSnapshotAt_store)

lemma addToStore_then:
  assumes "nbind (addToStore V n h el pj) f = Some (n', r)"
    and "\<And>n1 x n2 r2. f n1 x = Some (n2, r2) \<Longrightarrow> nStor n2 = nStor n1"
  shows "\<exists>q. AddBlock (evG V) (evH V) (evP V) (evIO V) (nStor n) h el pj = Some (nStor n', q)"
proof (cases "AddBlock (evG V) (evH V) (evP V) (evIO V) (nStor n) h el pj")
  case None
  then show ?thesis using assms(1) by (simp add: addToStore_def)
next
  case (Some p)
  obtain s q where p: "p = (s, q)" by force
  show ?thesis
  proof (cases q)
    case (Ok x)
    then have "f (n\<lparr>nStor := s\<rparr>) x = Some (n', r)" using assms(1) Some p by (simp add: addToStore_def)
    from assms(2) [OF this] show ?thesis using Some p by simp
  qed (use assms(1) Some p in \<open>auto simp: addToStore_def\<close>)
qed

lemma handleBlock_store:
  assumes "handleBlock V E n blk = Some (n', r)" "nStor n' \<noteq> nStor n"
  shows "\<exists>h q. dec (evH V) (cbHeader blk) = Some h \<and> vetted V E n h \<and>
    AddBlock (evG V) (evH V) (evP V) (evIO V) (nStor n) h (cbExecutionPayloadHash blk) (cbPayloadJSON blk) = Some (nStor n', q)"
proof -
  from assms obtain h num parent where h: "dec (evH V) (cbHeader blk) = Some h" "hnum h = Some num"
    "GetByHash (nStor n) (ParentHash h) = Some parent" "\<not> nSyncing n"
    by (auto simp: handleBlock_def split: option.splits if_splits)
  note run = assms(1) [unfolded handleBlock_def h option.case if_not_P [OF h(4)]]
  obtain n1 snap where n1: "computeSnapshotAt (evG V) E n parent = Some (n1, Ok snap)"
    "opVerifyHeader E snap h (Some parent) = Ok ()" "nStor n1 = nStor n"
    and rest: "nbind (addToStore V n1 h (cbExecutionPayloadHash blk) (cbPayloadJSON blk)) (\<lambda>n (headChanged, reorgDepth).
                 if \<not> headChanged then Some (n, Ok False)
                 else deliverHead V E (if reorgDepth > 0 then n\<lparr>nEpochSnaps := Map.empty\<rparr> else n) h num blk) = Some (n', r)"
    using run assms(2) by (rule vet_step) blast
  have "\<exists>q. AddBlock (evG V) (evH V) (evP V) (evIO V) (nStor n1) h (cbExecutionPayloadHash blk) (cbPayloadJSON blk) = Some (nStor n', q)"
    using rest by (rule addToStore_then) (auto dest: deliverHead_store split: if_splits prod.splits)
  then show ?thesis using h n1 by (auto simp: vetted_def)
qed

lemma deliverSyncPayload_node: "deliverSyncPayload V n pj = Some (n', r) \<Longrightarrow> n' = n"
  by (auto simp: deliverSyncPayload_def split: option.splits if_splits)

lemma importSyncBlock_store:
  assumes "importSyncBlock V E n sb = Some (n', r)" "nStor n' \<noteq> nStor n"
  shows "\<exists>h q. dec (evH V) (sbHeader sb) = Some h \<and> vetted V E n h \<and>
    AddBlock (evG V) (evH V) (evP V) (evIO V) (nStor n) h (sbELHash sb) (sbPayloadJSON sb) = Some (nStor n', q)"
proof -
  from assms obtain h parent where h: "dec (evH V) (sbHeader sb) = Some h"
    "GetByHash (nStor n) (ParentHash h) = Some parent"
    by (auto simp: importSyncBlock_def split: option.splits if_splits)
  note run = assms(1) [unfolded importSyncBlock_def h option.case]
  let ?k = "\<lambda>n. nbind (addToStore V n h (sbELHash sb) (sbPayloadJSON sb)) (\<lambda>n _.
                 nbind (computeSnapshot E n h) (\<lambda>n newSnap. setHeadSnapshot E n newSnap))"
  obtain n1 snap where n1: "computeSnapshotAt (evG V) E n parent = Some (n1, Ok snap)"
    "opVerifyHeader E snap h (Some parent) = Ok ()" "nStor n1 = nStor n"
    and rest: "nbind (deliverSyncPayload V n1 (sbPayloadJSON sb)) (\<lambda>n _. ?k n) = Some (n', r)"
    using run assms(2) by (rule vet_step) blast
  from rest have "?k n1 = Some (n', r)"
    using assms(2) n1(3) deliverSyncPayload_node unfolding nbind_Some [of "deliverSyncPayload V n1 (sbPayloadJSON sb)"] by metis
  then have "\<exists>q. AddBlock (evG V) (evH V) (evP V) (evIO V) (nStor n1) h (sbELHash sb) (sbPayloadJSON sb) = Some (nStor n', q)"
    by (rule addToStore_then) (auto simp: nbind_Some dest!: computeSnapshot_store setHeadSnapshot_store)
  then show ?thesis using h n1 by (auto simp: vetted_def)
qed

text \<open>The genesis header of a node never changes.\<close>

lemma computeSnapshot_genesis: "computeSnapshot E n h = Some (n', r) \<Longrightarrow> nGenesisHeader n' = nGenesisHeader n"
  by (auto simp: computeSnapshot_def baseSnapshot_def Let_def nbind_Some dest!: replayFrom_node split: option.splits if_splits)

lemma computeSnapshotAt_genesis: "computeSnapshotAt G E n h = Some (n', r) \<Longrightarrow> nGenesisHeader n' = nGenesisHeader n"
  by (auto simp: computeSnapshotAt_def dest: computeSnapshot_genesis split: option.splits if_splits)

lemma setHeadSnapshot_genesis: "setHeadSnapshot E n snap = Some (n', r) \<Longrightarrow> nGenesisHeader n' = nGenesisHeader n"
  by (auto simp: setHeadSnapshot_def Let_def split: if_splits)

lemma importSyncBlock_genesis: "importSyncBlock V E n sb = Some (n', r) \<Longrightarrow> nGenesisHeader n' = nGenesisHeader n"
  by (auto simp: importSyncBlock_def nbind_Some addToStore_Some
      dest!: computeSnapshotAt_genesis computeSnapshot_genesis setHeadSnapshot_genesis deliverSyncPayload_node split: option.splits)

lemma resetChain_effect:
  assumes "resetChain os G n = Some (n', r)"
  shows "nGenesisHeader n' = nGenesisHeader n"
    and "stBlocks (nStor n') x = Some b \<Longrightarrow> stBlocks (nStor n) x = Some b \<or> beHeader b = nGenesisHeader n"
  using assms by (auto simp: resetChain_def Reset_def Let_def nbind_Some split: option.splits prod.splits if_splits)

lemma finishSync_frame: "finishSync V E n = Some (n', r) \<Longrightarrow> nStor n' = nStor n \<and> nGenesisHeader n' = nGenesisHeader n"
  by (auto simp: finishSync_def nbind_Some setStatus_def split: option.splits)

section \<open>Sync sessions\<close>

text \<open>The blocks and the reset requests a peer sends when it answers with the functions \<open>asks\<close>.\<close>

definition answered :: "(SyncRequestMsg \<Rightarrow> SyncResponseMsg option) list \<Rightarrow> SyncResponseMsg \<Rightarrow> bool" where
  "answered asks resp \<longleftrightarrow> (\<exists>ask \<in> set asks. \<exists>req. ask req = Some resp)"

text \<open>
  The states a sync session passes through: it takes and releases the sync lock, resets the chain when an answer asks
  for it, imports blocks of the answers one at a time, and announces the head at the end.
\<close>

inductive sync_path :: "Env \<Rightarrow> (os_call \<Rightarrow> bool) \<Rightarrow> ('s, 'e) EngineOps \<Rightarrow> (SyncRequestMsg \<Rightarrow> SyncResponseMsg option) list
    \<Rightarrow> 's Node \<Rightarrow> 's Node \<Rightarrow> bool"
  for V os and E :: "('s, 'e) EngineOps" and asks n where
  start: "sync_path V os E asks n n"
| lock: "sync_path V os E asks n m \<Longrightarrow> sync_path V os E asks n (m\<lparr>nSyncing := b\<rparr>)"
| reset: "sync_path V os E asks n m \<Longrightarrow> answered asks resp \<Longrightarrow> srsReset resp \<Longrightarrow>
    (resetChain os (evG V) m :: ('s, 'e, unit) step) = Some (m', r) \<Longrightarrow> sync_path V os E asks n m'"
| block: "sync_path V os E asks n m \<Longrightarrow> answered asks resp \<Longrightarrow> sb \<in> set (srsBlocks resp) \<Longrightarrow>
    importSyncBlock V E m sb = Some (m', r) \<Longrightarrow> sync_path V os E asks n m'"
| finish: "sync_path V os E asks n m \<Longrightarrow> finishSync V E m = Some (m', r) \<Longrightarrow> sync_path V os E asks n m'"

lemma importSyncBlocks_path:
  assumes "sync_path V os E asks n m" and "answered asks resp" and "set sbs \<subseteq> set (srsBlocks resp)"
    and "importSyncBlocks V E m sbs = Some (m', r)"
  shows "sync_path V os E asks n m'"
  using assms(1,3,4)
proof (induction sbs arbitrary: m)
  case (Cons sb sbs)
  then show ?case using sync_path.block [OF Cons.prems(1) assms(2), of sb] by (auto simp: nbind_Some)
qed simp

lemma syncLoop_path:
  assumes "sync_path V os E asks n m" and "set as \<subseteq> set asks" and "syncLoop V os E m as = Some (m', r)"
  shows "sync_path V os E asks n m'"
  using assms
proof (induction as arbitrary: m)
  case (Cons ask as)
  show ?case
  proof (cases "syncRequest (evG V) m :: ('b node_error, SyncRequestMsg) result")
    case (Ok req)
    note run = Cons.prems(3) [unfolded syncLoop.simps Ok nbind.simps]
    show ?thesis
    proof (cases "ask req")
      case None
      then show ?thesis using run Cons.prems(1) by simp
    next
      case (Some resp)
      then have an: "answered asks resp" using Cons.prems(2) by (auto simp: answered_def)
      define z where "z = (if srsReset resp then resetChain os (evG V) m else Some (m, Ok ()) :: ('a, 'b, unit) step)"
      have re: "sync_path V os E asks n m1" if "z = Some (m1, r1)" for m1 r1
        using that Cons.prems(1) sync_path.reset [OF Cons.prems(1) an] by (auto simp: z_def split: if_splits)
      have im: "sync_path V os E asks n m2" if "sync_path V os E asks n m1" "importSyncBlocks V E m1 (srsBlocks resp) = Some (m2, r2)" for m1 m2 r2
        using importSyncBlocks_path [OF that(1) an subset_refl that(2)] .
      show ?thesis
      proof (cases "srsBlocks resp = []")
        case True
        then show ?thesis using run Some Cons.prems(1) by simp
      next
        case False
        note run = run [unfolded Some option.case if_not_P [OF False], folded z_def]
        from run consider (e) r1 where "z = Some (m', r1)"
          | (i) m1 r2 where "z = Some (m1, Ok ())" "importSyncBlocks V E m1 (srsBlocks resp) = Some (m', r2)"
          | (l) m1 m2 where "z = Some (m1, Ok ())" "importSyncBlocks V E m1 (srsBlocks resp) = Some (m2, Ok ())" "syncLoop V os E m2 as = Some (m', r)"
          unfolding nbind_Some [of z] nbind_Some [of "importSyncBlocks V E _ _"] by (elim disjE exE conjE) (auto split: if_splits)
        then show ?thesis
        proof cases
          case e
          then show ?thesis by (rule re)
        next
          case i
          then show ?thesis using im re by blast
        next
          case l
          then show ?thesis using Cons.IH [OF im [OF re [OF l(1)] l(2)]] Cons.prems(2) by simp
        qed
      qed
    qed
  qed (use Cons.prems in auto)
qed simp

lemma syncWithPeer_path:
  assumes "syncWithPeer V os E n asks = Some (n', r)"
  shows "sync_path V os E asks n n'"
proof (cases "nSyncing n")
  case True
  then show ?thesis using assms sync_path.start by (simp add: syncWithPeer_def)
next
  case False
  then obtain m where m: "nbind (syncLoop V os E (n\<lparr>nSyncing := True\<rparr>) asks) (\<lambda>n _. finishSync V E n) = Some (m, r)"
    "n' = m\<lparr>nSyncing := False\<rparr>" using assms by (auto simp: syncWithPeer_def)
  have "sync_path V os E asks n m"
    using m(1) syncLoop_path [OF sync_path.lock [OF sync_path.start] subset_refl] sync_path.finish by (fastforce simp: nbind_Some)
  then show ?thesis unfolding m(2) by (rule sync_path.lock)
qed

text \<open>Where the blocks of a session's store come from.\<close>

lemma sync_path_blocks:
  assumes "sync_path V os E asks n m"
  shows "nGenesisHeader m = nGenesisHeader n \<and>
    (\<forall>x b. stBlocks (nStor m) x = Some b \<longrightarrow> stBlocks (nStor n) x = Some b \<or> beHeader b = nGenesisHeader n \<or>
       (\<exists>m1 resp sb. sync_path V os E asks n m1 \<and> answered asks resp \<and> sb \<in> set (srsBlocks resp) \<and>
          dec (evH V) (sbHeader sb) = Some (beHeader b) \<and> vetted V E m1 (beHeader b)))"
  using assms
proof induction
  case (reset m resp m' r)
  then show ?case using resetChain_effect [OF reset.hyps(4)] by metis
next
  case (block m resp sb m' r)
  show ?case
  proof (cases "nStor m' = nStor m")
    case True
    then show ?thesis using block.IH importSyncBlock_genesis [OF block.hyps(4)] by simp
  next
    case False
    from importSyncBlock_store [OF block.hyps(4) False] obtain h q where h: "dec (evH V) (sbHeader sb) = Some h" "vetted V E m h"
      "AddBlock (evG V) (evH V) (evP V) (evIO V) (nStor m) h (sbELHash sb) (sbPayloadJSON sb) = Some (nStor m', q)" by blast
    show ?thesis using block.IH importSyncBlock_genesis [OF block.hyps(4)] AddBlock_blocks [OF h(3)] h(1,2) block.hyps(1-3) by metis
  qed
next
  case (finish m m' r)
  then show ?case using finishSync_frame [OF finish.hyps(2)] by metis
qed simp_all

section \<open>The snapshot cache\<close>

definition collected :: "Store \<Rightarrow> u64 \<Rightarrow> u64 \<Rightarrow> header list \<Rightarrow> header list option \<Rightarrow> bool" where
  "collected s i num acc y \<longleftrightarrow>
     (case y of None \<Rightarrow> True
      | Some hs \<Rightarrow> (i > num \<longrightarrow> hs = acc) \<and> (i \<le> num \<longrightarrow> hs \<noteq> [] \<and> GetByNumber s num = Some (last hs)))"

lemma collectHeaders_last:
  assumes "collectHeaders s i num acc = Some y"
  shows "collected s i num acc y"
proof (rule collectHeaders.raw_induct [of collected, OF _ assms])
  fix rec s i num acc y
  assume IH: "\<And>s i num acc y. rec s i num acc = Some y \<Longrightarrow> collected s i num acc y"
    and body: "(if i > num then Some (Some acc)
                else case GetByNumber s i of None \<Rightarrow> Some None | Some h \<Rightarrow> rec s (i + 1) num (acc @ [h])) = Some y"
  show "collected s i num acc y"
  proof (cases "i > num")
    case True
    then show ?thesis using body by (auto simp: collected_def)
  next
    case False
    show ?thesis
    proof (cases "GetByNumber s i")
      case None
      then show ?thesis using body False by (auto simp: collected_def)
    next
      case (Some h)
      then have "collected s (i + 1) num (acc @ [h]) y" using body False IH by simp
      moreover have "i = num \<or> i + 1 \<le> num" using False inc_le [of i num] by (auto simp: not_less le_less)
      ultimately show ?thesis using False Some
        by (cases "i + 1 \<le> num") (auto simp: collected_def not_le not_less split: option.splits)
    qed
  qed
qed

lemma baseSnapshot_general:
  fixes n :: "'s Node"
  assumes "computeSnapshot E n h = Some (n', Ok snap)" "hnum h = Some num"
    and "\<not> (opBlockNumber E (nHeadSnap n) + 1 = num \<and> opBlockHash E (nHeadSnap n) = ParentHash h)"
  obtains n1 :: "'s Node" and base hs where "nStor n1 = nStor n" "collectHeaders (nStor n) (num div opEpoch E * opEpoch E + 1) num [] = Some (Some hs)"
    "hs = [] \<Longrightarrow> snap = base" "hs \<noteq> [] \<Longrightarrow> opApply E base hs = Ok snap"
proof -
  let ?es = "num div opEpoch E * opEpoch E"
  from assms obtain n1 base where b: "baseSnapshot E n ?es = Some (n1, Ok base)"
    "replayFrom E n1 base ?es num = Some (n', Ok snap)"
    by (auto simp: computeSnapshot_def Let_def nbind_Some split: if_splits)
  have st: "nStor n1 = nStor n" using baseSnapshot_store(1) [OF b(1)] .
  from b(2) st obtain hs where "collectHeaders (nStor n) (?es + 1) num [] = Some (Some hs)"
    "hs = [] \<Longrightarrow> snap = base" "hs \<noteq> [] \<Longrightarrow> opApply E base hs = Ok snap"
    by (auto simp: replayFrom_def split: option.splits if_splits)
  then show thesis using st by (rule that [rotated])
qed

section \<open>Switching the head\<close>

lemma updateSafeFinalized_head: "updateSafeFinalized s = Ok s' \<Longrightarrow> stHead s' = stHead s"
  by (auto simp: updateSafeFinalized_def Let_def split: option.splits if_splits)

lemma lbind_Some_Ok:
  "lbind m f = Some (Ok y) \<longleftrightarrow> (\<exists>x. m = Some (Ok x) \<and> f x = Some (Ok y))"
  by (cases "(m, f)" rule: lbind.cases) auto

lemma reorg_head: "reorg G s oh e n = Some (Ok (s', d)) \<Longrightarrow> stHead s' = Some e"
  unfolding reorg_def Let_def lbind_Some_Ok by (auto dest!: updateSafeFinalized_head)

lemma setHead_head:
  assumes "setHead G s e = Some (Ok (s', d))"
  shows "stHead s' = Some e"
proof (cases "stHead s")
  case None
  then show ?thesis using assms unfolding setHead_def lbind_Some_Ok by (auto simp: lbind_Some_Ok dest!: updateSafeFinalized_head)
next
  case (Some oh)
  then show ?thesis using assms unfolding setHead_def lbind_Some_Ok
    by (auto simp: lbind_Some_Ok dest!: updateSafeFinalized_head reorg_head split: if_splits)
qed

lemma AddBlock_head:
  assumes "AddBlock G H P io s h el pj = Some (s', Ok (True, d))"
  shows "Head s' = Some h"
proof -
  from assms obtain e where "setHead G (storeBlock G H P io s e el pj) e = Some (Ok (s', d))" "beHeader e = h"
    by (auto simp: AddBlock_def Let_def split: option.splits if_splits result.splits)
  then show ?thesis using setHead_head by (fastforce simp: Head_def)
qed

text \<open>The errors of the payload delivery, which no other step of the pipeline returns.\<close>

definition payload_error :: "'e node_error \<Rightarrow> bool" where
  "payload_error err \<longleftrightarrow> err \<in> {NErrDecodePayload, NErrNewPayload, NErrRejected}"

lemma mapErr_Err [simp]:
  "mapErr f r = Err e \<longleftrightarrow> (\<exists>x. r = Err x \<and> e = f x)" "Err e = mapErr f r \<longleftrightarrow> (\<exists>x. r = Err x \<and> e = f x)"
  "Ok y = mapErr f r \<longleftrightarrow> r = Ok y"
  by (cases r; auto)+

lemma payload_error_simps [simp]:
  "\<not> payload_error NErrEpochHeader" "\<not> payload_error NErrBlockMissing" "\<not> payload_error (NErrCheckpoint x)"
  "\<not> payload_error (NErrApply x)" "\<not> payload_error (NErrVerify x)" "\<not> payload_error (NErrAddBlock y)"
  "\<not> payload_error NErrDecodeHeader" "\<not> payload_error NErrSyncing" "\<not> payload_error NErrUnknownParent"
  "\<not> payload_error NErrFCU"
  by (simp_all add: payload_error_def)

lemma baseSnapshot_err: "baseSnapshot E n es = Some (n', Err err) \<Longrightarrow> \<not> payload_error err"
  by (auto simp: baseSnapshot_def nbind_Some split: option.splits if_splits)

lemma replayFrom_err: "replayFrom E n b es num = Some (n', Err err) \<Longrightarrow> \<not> payload_error err"
  by (auto simp: replayFrom_def split: option.splits if_splits)

lemma computeSnapshot_err: "computeSnapshot E n h = Some (n', Err err) \<Longrightarrow> \<not> payload_error err"
  by (auto simp: computeSnapshot_def Let_def nbind_Some dest: baseSnapshot_err replayFrom_err split: option.splits if_splits)

lemma computeSnapshotAt_err: "computeSnapshotAt G E n h = Some (n', Err err) \<Longrightarrow> \<not> payload_error err"
  by (auto simp: computeSnapshotAt_def dest: computeSnapshot_err split: option.splits if_splits)

lemma computeSnapshotAt_headSnap:
  assumes "computeSnapshotAt G E n h = Some (n', r)"
  shows "nHeadSnap n' = nHeadSnap n"
  using assms
  by (auto simp: computeSnapshotAt_def computeSnapshot_def Let_def nbind_Some dest: baseSnapshot_store(2) replayFrom_node
      split: option.splits if_splits)

lemma setHeadSnapshot_err: "setHeadSnapshot E n snap \<noteq> Some (n', Err err)"
  by (auto simp: setHeadSnapshot_def Let_def)

lemma deliverHead_payload_error:
  assumes "deliverHead V E n h num blk = Some (n', Err err)" "payload_error err"
  shows "n' = n"
  using assms
  by (auto simp: deliverHead_def nbind_Some setHeadSnapshot_err dest: computeSnapshot_err split: option.splits if_splits)

section \<open>Serving a sync request\<close>

lemma encodeSyncBlocks_dec:
  assumes "length els = length hs" "\<forall>h \<in> set hs. \<exists>b. enc H h = Some b \<and> dec H b = Some h"
  shows "map (dec H \<circ> sbHeader) (encodeSyncBlocks G H s (zip hs els)) = map Some hs"
  using assms
proof (induction hs arbitrary: els)
  case Nil
  then show ?case by simp
next
  case (Cons h hs)
  then obtain el els' where "els = el # els'" by (cases els) auto
  with Cons show ?case by auto
qed

text \<open>The last number of a batch: 2048 numbers from the start, or up to the head.\<close>

lemma batch_end:
  assumes "k \<le> m" "m < 2 ^ 64 - 1"
  defines "e \<equiv> (if word_of_nat m - word_of_nat k + 1 > MaxSyncBlocks then word_of_nat k + MaxSyncBlocks - 1 else (word_of_nat m :: u64))"
  shows "unat e = min m (k + 2047)" and "e < - 1"
proof -
  have u: "n < 2 ^ 64 \<Longrightarrow> unat (word_of_nat n :: u64) = n" for n by (simp add: unat_of_nat)
  have lt: "m - k + 1 < 2 ^ 64" using assms(2) by simp
  have "word_of_nat m - word_of_nat k + 1 = (word_of_nat (m - k + 1) :: u64)" using assms(1) by (simp only: of_nat_add of_nat_diff of_nat_1)
  moreover have "unat (2048 :: u64) = 2048" by simp
  ultimately have big: "word_of_nat m - word_of_nat k + 1 > (MaxSyncBlocks :: u64) \<longleftrightarrow> m - k + 1 > 2048"
    unfolding MaxSyncBlocks_def by (simp only: word_less_nat_alt u [OF lt])
  have "word_of_nat k + MaxSyncBlocks - 1 = (word_of_nat (k + 2047) :: u64)" by (simp add: MaxSyncBlocks_def)
  then show e: "unat e = min m (k + 2047)"
    unfolding e_def big using assms(1,2) by (auto simp: min_def u simp del: of_nat_add of_nat_diff)
  have "unat (- 1 :: u64) = 2 ^ 64 - 1" by (simp add: unsigned_minus_1_eq_mask mask_eq_exp_minus_1)
  then show "e < - 1" using e assms(2) by (simp only: word_less_nat_alt)
qed

lemma syncRange:
  assumes inv: "store_inv G g s" and R: "path (stBlocks s) g R" "stHead s = Some (last R)"
    and rng: "\<And>lo hi. hi < - 1 \<Longrightarrow> unat lo \<le> unat hi + 1 \<Longrightarrow>
       \<exists>els. BlocksInRange s lo hi = Some (take (unat hi + 1 - unat lo) (drop (unat lo) (map beHeader R)), els) \<and>
         length els = length (take (unat hi + 1 - unat lo) (drop (unat lo) (map beHeader R)))"
    and len: "length R < 2 ^ 64" and cod: "\<forall>h \<in> set (map beHeader R). \<exists>b. enc H h = Some b \<and> dec H b = Some h"
    and st: "syncStart G s req = (reset, startNum)"
  shows "\<exists>blocks. handleSyncRequest G H s req = Some (Ok \<lparr>srsReset = reset, srsBlocks = blocks\<rparr>) \<and>
           map (dec H \<circ> sbHeader) blocks = map Some (take 2048 (drop (unat startNum) (map beHeader R)))"
proof -
  let ?hs = "map beHeader R" and ?m = "length R - 1"
  have ne: "R \<noteq> []" using pathD(1) [OF R(1)] .
  have um: "unat (word_of_nat ?m :: u64) = ?m" using len by (simp add: unat_of_nat)
  have num: "number_of (beHeader (last R)) = Ok (word_of_nat ?m)"
    using pathD(6) [OF R(1), of ?m] ne by (simp add: last_conv_nth)
  have hd: "Head s = Some (beHeader (last R))" by (simp add: Head_def R(2))
  show ?thesis
  proof (cases "word_of_nat ?m < startNum")
    case True
    then have "drop (unat startNum) ?hs = []" using um ne by (simp add: word_less_nat_alt)
    then show ?thesis using True by (simp add: handleSyncRequest_def hd st num del: of_nat_diff)
  next
    case False
    then have le: "unat startNum \<le> ?m" using um by (simp add: word_less_nat_alt)
    obtain k where k: "startNum = word_of_nat k" "unat startNum = k" by (metis of_nat_unat ucast_id)
    define e :: u64 where "e = (if word_of_nat ?m - startNum + 1 > MaxSyncBlocks then startNum + MaxSyncBlocks - 1 else word_of_nat ?m)"
    have km: "k \<le> ?m" using le k(2) by simp
    have "?m < 2 ^ 64 - 1" using len ne by (cases R) simp_all
    note be = batch_end [OF km this, folded k(1), folded e_def]
    note e = be(1)
    from be(2) have "e < - 1" .
    moreover have "unat startNum \<le> unat e + 1" using e le k by simp
    ultimately obtain els where els:
      "BlocksInRange s startNum e = Some (take (unat e + 1 - k) (drop k ?hs), els)"
      "length els = length (take (unat e + 1 - k) (drop k ?hs))" using rng k(2) by metis
    have cut: "take (unat e + 1 - k) (drop k ?hs) = take 2048 (drop k ?hs)"
      using e le k ne by (intro nth_equalityI) (auto simp: min_def)
    have "handleSyncRequest G H s req = Some (Ok \<lparr>srsReset = reset,
        srsBlocks = encodeSyncBlocks G H s (zip (take 2048 (drop k ?hs)) els)\<rparr>)"
      unfolding handleSyncRequest_def hd option.case st Let_def case_prod_conv num lbind.simps if_not_P [OF False]
        e_def [symmetric] els(1) cut ..
    moreover have "set (take 2048 (drop k ?hs)) \<subseteq> set ?hs"
      by (rule subset_trans [OF set_take_subset set_drop_subset])
    then have "\<forall>h \<in> set (take 2048 (drop k ?hs)). \<exists>b. enc H h = Some b \<and> dec H b = Some h" using cod by blast
    from encodeSyncBlocks_dec [OF els(2) [unfolded cut] this]
    have "map (dec H \<circ> sbHeader) (encodeSyncBlocks G H s (zip (take 2048 (drop k ?hs)) els)) =
        map Some (take 2048 (drop (unat startNum) ?hs))" unfolding k(2) .
    ultimately show ?thesis by blast
  qed
qed

section \<open>A concrete network\<close>

text \<open>
  Two signers, epoch 2. The hash of a header is its transaction root; the header codec is a table of
  the blocks used, the execution client accepts everything.
\<close>

definition ndG :: geth where
  "ndG = demoGeth\<lparr>hdrHash := TxHash\<rparr>"

definition ndEngine :: Engine where
  "ndEngine = New 0 2"

definition ndExtra :: "bool \<Rightarrow> bytes" where
  "ndExtra boundary = replicate 32 0 @ (if boundary then demoAddr 1 @ demoAddr 2 else []) @ replicate 65 0"

definition ndHeader :: "byte \<Rightarrow> byte \<Rightarrow> int \<Rightarrow> int \<Rightarrow> bool \<Rightarrow> header" where
  "ndHeader t p n d boundary =
     demoHeader\<lparr>TxHash := [t], ParentHash := [p], Number := Some n, Difficulty := Some d, Extra := ndExtra boundary\<rparr>"

definition ndSealed :: "header \<Rightarrow> byte \<Rightarrow> header" where
  "ndSealed h k = (case SealHeader ndG h (demoAddr k) of Ok h' \<Rightarrow> h' | _ \<Rightarrow> h)"

definition ndGenesis :: header where "ndGenesis = ndHeader 0 99 0 1 True"
definition ndBlock1 :: header where "ndBlock1 = ndSealed (ndHeader 1 0 1 1 False) 1"
definition ndBlock2 :: header where "ndBlock2 = ndSealed (ndHeader 2 1 2 1 True) 2"
definition ndBlock3 :: header where "ndBlock3 = ndSealed (ndHeader 3 2 3 2 False) 2"

definition ndTable :: "header list" where
  "ndTable = [ndGenesis, ndBlock1, ndBlock2, ndBlock3]"

definition ndEncHeader :: "header \<Rightarrow> bytes option" where "ndEncHeader h = Some (TxHash h)"
definition ndDecHeader :: "bytes \<Rightarrow> header option" where "ndDecHeader bs = find (\<lambda>h. TxHash h = bs) ndTable"

definition ndPayload :: ExecutionPayloadV3 where
  "ndPayload = \<lparr>epStateRoot = [], epReceiptsRoot = [], epLogsBloom = [], epGasLimit = 0, epGasUsed = 0,
     epTimestamp = 0, epBaseFeePerGas = None, epBlockHash = [], epRest = []\<rparr>"

definition ndEncPayload :: "ExecutionPayloadV3 \<Rightarrow> bytes option" where "ndEncPayload p = Some []"
definition ndDecPayload :: "bytes \<Rightarrow> ExecutionPayloadV3 option" where "ndDecPayload bs = Some ndPayload"
definition ndNewPayload :: "ExecutionPayloadV3 \<Rightarrow> string option" where "ndNewPayload p = Some PayloadStatusValid"
definition ndFCU :: "ForkchoiceStateV1 \<Rightarrow> PayloadAttributesV3 option \<Rightarrow> (string \<times> bytes option) option" where
  "ndFCU s a = Some (PayloadStatusValid, None)"
definition ndGetPayload :: "bytes \<Rightarrow> ExecutionPayloadV3 option" where "ndGetPayload i = Some ndPayload"

definition ndEL :: ELClient where
  "ndEL = \<lparr>elNewPayloadV3 = ndNewPayload, elForkchoiceUpdatedV3 = ndFCU, elGetPayloadV3 = ndGetPayload\<rparr>"

definition ndEnv :: Env where
  "ndEnv = \<lparr>evG = ndG, evH = \<lparr>enc = ndEncHeader, dec = ndDecHeader\<rparr>, evP = fcP,
     evJ = \<lparr>enc = ndEncPayload, dec = ndDecPayload\<rparr>, evEL = ndEL, evIO = None\<rparr>"

definition ndOps :: "(Snapshot, clique_error) EngineOps" where
  "ndOps = cliqueOps ndG ndEngine"

definition ndWire :: "header \<Rightarrow> CliqueBlock" where
  "ndWire h = \<lparr>cbHeader = TxHash h, cbExecutionPayloadHash = TxHash h, cbPayloadJSON = []\<rparr>"

definition ndOpened :: "bytes \<Rightarrow> (Snapshot, clique_error, unit) step" where
  "ndOpened file =
     (case newNode ndOps ndG ndGenesis 1 None of
        Ok n \<Rightarrow> openNode ndEnv (\<lambda>_. True) ndOps n (Some file)
      | _ \<Rightarrow> None)"

definition ndRunning :: "(Snapshot, clique_error, bool) step" where
  "ndRunning =
     nbind (ndOpened []) (\<lambda>n _. nbind (handleBlock ndEnv ndOps n (ndWire ndBlock1)) (\<lambda>n _.
       handleBlock ndEnv ndOps n (ndWire ndBlock2)))"

definition ndFile :: "'s Node \<Rightarrow> bytes" where
  "ndFile n = (case stDb (nStor n) of None \<Rightarrow> [] | Some db \<Rightarrow> dbFile db)"

text \<open>The running node is past block 2, and its headers are all in the table.\<close>

lemma ndRunning_ok: "map_option (\<lambda>(n, r). (r, map_option TxHash (Head (nStor n)), snNumber (nHeadSnap n))) ndRunning =
    Some (Ok True, Some [2], 2)"
  by code_simp

lemma nd_codec: "\<forall>h \<in> set ndTable. \<exists>b. enc (evH ndEnv) h = Some b \<and> dec (evH ndEnv) b = Some h"
proof -
  have "list_all (\<lambda>h. ndDecHeader (TxHash h) = Some h) ndTable" by code_simp
  then show ?thesis by (simp add: list_all_iff ndEnv_def ndEncHeader_def)
qed

section \<open>Properties\<close>

text \<open>
  C15. Only vetted headers enter the store. If the handler of a gossiped block changed the store then the header decoded, its
  parent was stored, it passed the engine's \<^verbatim>\<open>VerifyHeader\<close> against the snapshot the node computes at that parent, and the new
  store is the one \<^verbatim>\<open>AddBlock\<close> returned. A whole sync session, resets and failures included, passes through states of
  which each follows from the one before by a reset the peer asked for, by the import of one block the peer sent, or by a
  step that leaves the store; and every block stored afterwards was stored before, is the genesis block, or came from
  the peer and was vetted in one of these states.
\<close>

theorem node_only_vetted_headers:
  "(handleBlock V E n blk = Some (n', r) \<and> nStor n' \<noteq> nStor n \<longrightarrow>
      (\<exists>h q. dec (evH V) (cbHeader blk) = Some h \<and> vetted V E n h \<and>
         AddBlock (evG V) (evH V) (evP V) (evIO V) (nStor n) h (cbExecutionPayloadHash blk) (cbPayloadJSON blk) =
           Some (nStor n', q))) \<and>
   (syncWithPeer V os E n asks = Some (m', r') \<longrightarrow>
      sync_path V os E asks n m' \<and>
      (\<forall>x b. stBlocks (nStor m') x = Some b \<longrightarrow> stBlocks (nStor n) x = Some b \<or> beHeader b = nGenesisHeader n \<or>
         (\<exists>m resp sb. sync_path V os E asks n m \<and> answered asks resp \<and> sb \<in> set (srsBlocks resp) \<and>
            dec (evH V) (sbHeader sb) = Some (beHeader b) \<and> vetted V E m (beHeader b))))"
proof (intro conjI impI)
  show "\<exists>h q. dec (evH V) (cbHeader blk) = Some h \<and> vetted V E n h \<and>
      AddBlock (evG V) (evH V) (evP V) (evIO V) (nStor n) h (cbExecutionPayloadHash blk) (cbPayloadJSON blk) = Some (nStor n', q)"
    if "handleBlock V E n blk = Some (n', r) \<and> nStor n' \<noteq> nStor n"
    using that by (intro handleBlock_store) simp_all
  assume "syncWithPeer V os E n asks = Some (m', r')"
  then show path: "sync_path V os E asks n m'" by (rule syncWithPeer_path)
  show "\<forall>x b. stBlocks (nStor m') x = Some b \<longrightarrow> stBlocks (nStor n) x = Some b \<or> beHeader b = nGenesisHeader n \<or>
      (\<exists>m resp sb. sync_path V os E asks n m \<and> answered asks resp \<and> sb \<in> set (srsBlocks resp) \<and>
         dec (evH V) (sbHeader sb) = Some (beHeader b) \<and> vetted V E m (beHeader b))"
    using sync_path_blocks [OF path] by blast
qed

theorem node_only_vetted_headers_witness:
  "\<exists>n h q s. ndOpened [] = Some (n, Ok ()) \<and> vetted ndEnv ndOps n h \<and>
     AddBlock ndG (evH ndEnv) (evP ndEnv) None (nStor n) h [1] [] = Some (s, q)"
proof -
  have "map_option (\<lambda>(n, r). (r, map_option (\<lambda>(n', _). (HasBlock (nStor n') [1], HasBlock (nStor n) [1])) (handleBlock ndEnv ndOps n (ndWire ndBlock1))))
      (ndOpened []) = Some (Ok (), Some (True, False))" by code_simp
  then obtain n n' r where n: "ndOpened [] = Some (n, Ok ())" "handleBlock ndEnv ndOps n (ndWire ndBlock1) = Some (n', r)"
    "HasBlock (nStor n') [1]" "\<not> HasBlock (nStor n) [1]" by auto
  then have ne: "nStor n' \<noteq> nStor n" by metis
  have w: "cbExecutionPayloadHash (ndWire ndBlock1) = [1]" "cbPayloadJSON (ndWire ndBlock1) = []" "evG ndEnv = ndG" "evIO ndEnv = None"
    by (code_simp, code_simp, simp_all add: ndEnv_def)
  from node_only_vetted_headers [where V = ndEnv and E = ndOps and n = n and blk = "ndWire ndBlock1" and n' = n' and r = r, THEN conjunct1, rule_format, OF conjI [OF n(2) ne]]
  show ?thesis using n(1) unfolding w by blast
qed

text \<open>
  The snapshot of a side branch is that of another block. Away from epoch boundaries and off the fast
  path, the Clique snapshot \<^verbatim>\<open>computeSnapshot\<close> returns for a header is the snapshot at the canonical block of
  the same number. So for a header that is not on the canonical chain, the votes and recent signers used
  to verify its children are not those of its own branch.
\<close>

theorem node_snapshot_is_canonical:
  assumes "computeSnapshot (cliqueOps G e) n h = Some (n', Ok snap)" "hnum h = Some num"
    and "num mod clEpoch e \<noteq> 0"
    and "\<not> (snNumber (nHeadSnap n) + 1 = num \<and> snHash (nHeadSnap n) = ParentHash h)"
  shows "\<exists>c. GetByNumber (nStor n) num = Some c \<and> snHash snap = hdrHash G c \<and> hnum c = Some (snNumber snap)"
proof -
  have ops: "opBlockNumber (cliqueOps G e) = snNumber" "opBlockHash (cliqueOps G e) = snHash"
    "opEpoch (cliqueOps G e) = clEpoch e" "opApply (cliqueOps G e) = Apply G e" by (simp_all add: cliqueOps_def)
  let ?es = "num div clEpoch e * clEpoch e"
  obtain base hs where hs: "collectHeaders (nStor n) (?es + 1) num [] = Some (Some hs)" "hs \<noteq> [] \<Longrightarrow> Apply G e base hs = Ok snap"
    using baseSnapshot_general [OF assms(1,2)] assms(4) unfolding ops by metis
  have "?es + num mod clEpoch e = num" by (rule div_mult_mod_eq)
  moreover have "?es \<le> num" by (rule word_div_mult_le)
  ultimately have "?es < num" using assms(3) by (metis add.right_neutral add_left_cancel order_less_le)
  then have "?es + 1 \<le> num" by (rule inc_le)
  with collectHeaders_last [OF hs(1)] have last: "hs \<noteq> []" "GetByNumber (nStor n) num = Some (last hs)"
    by (simp_all add: collected_def)
  have "hnum (last hs) = Some (snNumber snap) \<and> snHash snap = hdrHash G (last hs)"
    using clqe.apply_position [of G "clEpoch e" base hs snap] hs(2) [OF last(1)] last(1) by (simp add: Apply_def)
  then show ?thesis using last by blast
qed

fun okVal :: "('e, 'a) result \<Rightarrow> 'a option" where
  "okVal (Ok x) = Some x"
| "okVal _ = None"

lemma okVal_Some [simp]: "okVal r = Some x \<longleftrightarrow> r = Ok x"
  by (cases r) auto

definition ndSide :: header where
  "ndSide = ndSealed (ndHeader 9 0 1 1 False) 2"

theorem node_snapshot_is_canonical_witness:
  "\<exists>n r c snap n'. ndRunning = Some (n, r) \<and> computeSnapshot ndOps n ndSide = Some (n', Ok snap) \<and>
     GetByNumber (nStor n) 1 = Some c \<and> snHash snap = hdrHash ndG c \<and> hdrHash ndG ndSide = [9] \<and> snHash snap = [1]"
proof -
  have "map_option (\<lambda>(n, r). (snNumber (nHeadSnap n), map_option (\<lambda>(_, q). map_option snHash (okVal q))
      (computeSnapshot ndOps n ndSide))) ndRunning = Some (2, Some (Some [1]))" by code_simp
  then obtain n r n' snap where n: "ndRunning = Some (n, r)" "snNumber (nHeadSnap n) = 2"
    "computeSnapshot ndOps n ndSide = Some (n', Ok snap)" "snHash snap = [1]"
    by auto
  have h: "hnum ndSide = Some 1" "(1 :: u64) mod clEpoch ndEngine \<noteq> 0" "hdrHash ndG ndSide = [9]"
    by code_simp+
  have "\<not> (snNumber (nHeadSnap n) + 1 = 1 \<and> snHash (nHeadSnap n) = ParentHash ndSide)" using n(2) by simp
  from node_snapshot_is_canonical [OF n(3) [unfolded ndOps_def] h(1,2) this] n h(3) show ?thesis by blast
qed

lemma replayRecords_frame:
  "replayRecords V n rs = Some (n', r) \<Longrightarrow> nHeadSnap n' = nHeadSnap n \<and> nEpochSnaps n' = nEpochSnaps n"
proof (induction rs arbitrary: n)
  case (Cons x rs)
  then show ?case by (fastforce split: option.splits result.splits if_splits)
qed simp

text \<open>At an epoch block the checkpoint snapshot is the running snapshot without its recent signers.\<close>

lemma checkpoint_forgets:
  assumes "VerifyHeader G e s0 tip parent = Ok ()" and "Apply G e s0 [tip] = Ok s" and "hnum tip = Some k" and "k mod clEpoch e = 0"
  shows "NewCheckpointSnapshot G tip = Ok (s\<lparr>Recents := []\<rparr>)"
    and "\<exists>a. SignerFromHeader G tip = Ok a \<and> (k, a) \<in> set (Recents s) \<and> snNumber s = k"
proof -
  let ?data = "drop 32 (take (length (Extra tip) - 65) (Extra tip))"
  from assms(1,3) obtain g j where v: "valid_header G e s0 tip parent k g" "0 < j" "length (Extra tip) = 32 + 20 * j + 65"
    using assms(4) by (auto simp: VerifyHeader_Ok_iff valid_header_def)
  have len: "length ?data = 20 * j" using v(3) by simp
  have "slice (int extraVanity) (int (length (Extra tip)) - int extraSeal) (Extra tip) = (Ok ?data :: (clique_error, bytes) result)"
    using v(3) by (simp add: slice_def extraVanity_def extraSeal_def drop_take nat_mult_distrib)
  then have ep: "afterEpoch (clEpoch e) s0 tip k = Ok (s0\<lparr>Signers := set (addrs_of ?data), Votes := [], TallyOf := Map.empty\<rparr>)"
    using assms(4) by (simp add: afterEpoch_def epochReset_def)
  have "applyHeader G (clEpoch e) s0 tip = Ok s" using assms(2) by (simp add: Apply_def apply_snapshot_Ok_iff)
  moreover have "headerVote (clEpoch e) k tip = None" using assms(4) by (simp add: headerVote_def Let_def)
  ultimately obtain a where a: "SignerFromHeader G tip = Ok a"
    "s = (addRecent (evictRecent (s0\<lparr>Signers := set (addrs_of ?data), Votes := [], TallyOf := Map.empty\<rparr>) k) k a)\<lparr>snNumber := k, snHash := hdrHash G tip\<rparr>"
    using assms(3) ep unfolding applyHeader_Ok_iff by (auto simp: processVote_def)
  have "?data \<noteq> []" using len v(2) by auto
  from NewGenesisSnapshot_eq [OF _ assms(3) refl this len, of G] v(3)
  show "NewCheckpointSnapshot G tip = Ok (s\<lparr>Recents := []\<rparr>)"
    unfolding a(2) by (simp add: NewCheckpointSnapshot_def newSnapshot_def addRecent_def evictRecent_def Let_def)
  have "(k, a) \<in> set (AList.update k a m)" for m by (induction m) auto
  then show "\<exists>a. SignerFromHeader G tip = Ok a \<and> (k, a) \<in> set (Recents s) \<and> snNumber s = k"
    using a(1) unfolding a(2) by (simp add: addRecent_def)
qed

text \<open>How the replay at start-up ends, and the snapshot it computes when the head is an epoch block.\<close>

lemma replayChain_outcome:
  fixes n :: "'s Node" and E :: "('s, 'e) EngineOps"
  assumes "replayChain V os E n db = Some (m, Ok ())"
  shows "(\<exists>db'. m = attachDB n db') \<or>
    (\<exists>n1 h num n2 q. nHeadSnap n1 = nHeadSnap n \<and> nEpochSnaps n1 = nEpochSnaps n \<and> nStor n1 = nStor m \<and>
       Head (nStor m) = Some h \<and> hnum h = Some num \<and>
       (0 < num \<longrightarrow> computeSnapshot E n1 h = Some (n2, q) \<and>
          m = setStatus E (case q of Ok snap \<Rightarrow> n2\<lparr>nHeadSnap := snap\<rparr> | _ \<Rightarrow> n2) (hdrHash (evG V) h) num))"
proof (cases "ReadAll (evH V) (evP V) os db")
  case (Ok dr)
  obtain db' rs where dr: "dr = (db', rs)" by force
  show ?thesis
  proof (cases "rs = []")
    case True
    then show ?thesis using assms Ok dr by (auto simp: replayChain_def)
  next
    case False
    note run = assms [unfolded replayChain_def Ok dr result.case case_prod_conv if_not_P [OF False] Let_def]
    then obtain n1 where n1: "(replayRecords V n rs :: ('s, 'e, unit) step) = Some (n1, Ok ())" by (auto simp: nbind_Some)
    have fr: "nHeadSnap (attachDB n1 db') = nHeadSnap n" "nEpochSnaps (attachDB n1 db') = nEpochSnaps n"
      using replayRecords_frame [OF n1] by (simp_all add: attachDB_def)
    note run = run [unfolded n1 nbind.simps]
    then obtain h where h: "Head (nStor (attachDB n1 db')) = Some h" by (cases "Head (nStor (attachDB n1 db'))") simp_all
    note run = run [unfolded h option.case]
    then obtain num where num: "hnum h = Some num" by (cases "hnum h") (auto simp: number_of_def hnum_def)
    show ?thesis
    proof (cases "0 < num")
      case True
      then obtain n2 q where q: "computeSnapshot E (attachDB n1 db') h = Some (n2, q)"
        "m = setStatus E (case q of Ok snap \<Rightarrow> n2\<lparr>nHeadSnap := snap\<rparr> | _ \<Rightarrow> n2) (hdrHash (evG V) h) num"
        using run num by (auto simp: number_of_hnum nbind_Some split: option.splits result.splits simp del: number_of_simps)
      moreover have "nStor m = nStor (attachDB n1 db')" using computeSnapshot_store [OF q(1)] q(2) by (cases q) (simp_all add: setStatus_def)
      ultimately show ?thesis using fr h num by (metis (no_types, lifting))
    next
      case False
      then have "m = setStatus E (attachDB n1 db') (hdrHash (evG V) h) num"
        using run num by (auto simp: number_of_hnum simp del: number_of_simps)
      then show ?thesis using fr h num False by (intro disjI2 exI [of _ "attachDB n1 db'"]) (auto simp: setStatus_def)
    qed
  qed
qed (use assms in \<open>auto simp: replayChain_def\<close>)

lemma epoch_snapshot:
  assumes "hnum tip = Some k" "k \<noteq> 0" "k mod clEpoch e = 0" "clEpoch e \<noteq> 0" "nEpochSnaps n = Map.empty" "snNumber (nHeadSnap n) + 1 \<noteq> k"
    and "GetByNumber (nStor n) k = Some tip" "NewCheckpointSnapshot G tip = Ok t" "k < k + 1"
  shows "computeSnapshot (cliqueOps G e) n tip = Some (n\<lparr>nEpochSnaps := [k \<mapsto> t]\<rparr>, Ok t)"
proof -
  have "k div clEpoch e * clEpoch e = k" using div_mult_mod_eq [of k "clEpoch e"] assms(3) by simp
  moreover have "collectHeaders s (k + 1) k [] = Some (Some [])" for s using assms(9) by (simp add: collectHeaders.simps)
  ultimately show ?thesis using assms
    by (simp add: computeSnapshot_def baseSnapshot_def replayFrom_def cliqueOps_def Let_def)
qed

lemma no_recents_verify: "Recents s = [] \<Longrightarrow> VerifyHeader G e s h parent \<noteq> Err ErrRecentlySigned"
  by (auto simp: VerifyHeader_def HasRecentlySigned_def SignerFromHeader_def number_of_def Let_def rbind_Err_iff sigHash_def slice_def
      split: option.splits if_splits)

text \<open>
  C34. A restart forgets who signed recently. Take an epoch block (not the block after genesis) that the running node verified
  and applied, giving a snapshot with two signers or more, and a node built from the same configuration that opens a
  database whose head is that block. The restarted node verifies the next block against the same snapshot with an empty list
  of recent signers, so it rejects no header as recently signed, while the running node accepts no next block of the
  signer of the epoch block.
\<close>

theorem node_restart_forgets_recents:
  fixes n m :: "Snapshot Node" and e :: Engine
  assumes "VerifyHeader (evG V) e s0 tip parent = Ok ()" and "Apply (evG V) e s0 [tip] = Ok s"
    and "hnum tip = Some k" and "k \<noteq> 0" and "k mod clEpoch e = 0" and "roomy s" and "2 \<le> card (Signers s)"
    and "newNode (cliqueOps (evG V) e) (evG V) gen net key = Ok n" and "snNumber (nGenesisSnap n) + 1 \<noteq> k"
    and "openNode V os (cliqueOps (evG V) e) n (Some file) = Some (m, Ok ())"
    and "Head (nStor m) = Some tip" and "GetByNumber (nStor m) k = Some tip"
  shows "computeSnapshotAt (evG V) (cliqueOps (evG V) e) m tip = Some (m, Ok (s\<lparr>Recents := []\<rparr>)) \<and>
    (\<forall>h. VerifyHeader (evG V) e (s\<lparr>Recents := []\<rparr>) h (Some tip) \<noteq> Err ErrRecentlySigned) \<and>
    (\<exists>a. SignerFromHeader (evG V) tip = Ok a \<and>
       (\<forall>h. hnum h = Some (k + 1) \<and> SignerFromHeader (evG V) h = Ok a \<longrightarrow> VerifyHeader (evG V) e s h (Some tip) \<noteq> Ok ()))"
proof (intro conjI)
  let ?G = "evG V" and ?E = "cliqueOps (evG V) e"
  note cp = checkpoint_forgets [OF assms(1,2,3,5)]
  from cp(2) obtain a where a: "SignerFromHeader ?G tip = Ok a" "(k, a) \<in> set (Recents s)" "snNumber s = k" by blast
  have n: "nHeadSnap n = nGenesisSnap n" "nEpochSnaps n = Map.empty" "stNumbers (nStor n) = [0 \<mapsto> hdrHash ?G gen]"
    using assms(8) by (auto simp: newNode_def New_store_def Let_def)
  have ep: "clEpoch e \<noteq> 0" using assms(1) by (auto simp: VerifyHeader_Ok_iff valid_header_def)
  have k1: "k + 1 > k" using assms(6) a(3) by (auto simp: roomy_def word_less_nat_alt unat_word_ariths)
  have no: "GetByNumber (nStor (attachDB n db)) k \<noteq> Some tip" "GetByNumber (nStor n) k \<noteq> Some tip" for db
    using assms(4) n(3) by (auto simp: attachDB_def SetDB_def GetByNumber_def)
  obtain db where db: "replayChain V os ?E n db = Some (m, Ok ())"
    using assms(10,12) no(2) by (auto simp: openNode_def split: result.splits)
  from replayChain_outcome [OF db] no(1) assms(11,12) obtain n1 n2 q where n1:
    "nHeadSnap n1 = nHeadSnap n" "nEpochSnaps n1 = nEpochSnaps n" "nStor n1 = nStor m"
    "0 < k \<Longrightarrow> computeSnapshot ?E n1 tip = Some (n2, q) \<and> m = setStatus ?E (case q of Ok snap \<Rightarrow> n2\<lparr>nHeadSnap := snap\<rparr> | _ \<Rightarrow> n2) (hdrHash ?G tip) k"
    using assms(3) by (metis option.inject)
  have "computeSnapshot ?E n1 tip = Some (n1\<lparr>nEpochSnaps := [k \<mapsto> s\<lparr>Recents := []\<rparr>]\<rparr>, Ok (s\<lparr>Recents := []\<rparr>))"
    by (rule epoch_snapshot [OF assms(3-5)]) (use n n1 assms(9,12) cp(1) k1 ep in \<open>simp_all\<close>)
  then have m: "m = setStatus ?E (n1\<lparr>nEpochSnaps := [k \<mapsto> s\<lparr>Recents := []\<rparr>], nHeadSnap := s\<lparr>Recents := []\<rparr>\<rparr>) (hdrHash ?G tip) k"
    using n1(4) assms(4) by (auto simp: word_neq_0_conv)
  have "snHash s = hdrHash ?G tip" using assms(2) by (auto simp: Apply_def apply_snapshot_Ok_iff applyHeader_Ok_iff)
  then show "computeSnapshotAt ?G ?E m tip = Some (m, Ok (s\<lparr>Recents := []\<rparr>))"
    using m a(3) assms(3,4) by (simp add: computeSnapshotAt_def cliqueOps_def setStatus_def)
  show "\<forall>h. VerifyHeader ?G e (s\<lparr>Recents := []\<rparr>) h (Some tip) \<noteq> Err ErrRecentlySigned"
    by (auto simp: no_recents_verify)
  have "HasRecentlySigned s (k + 1) a"
  proof -
    have "unat (k + limitOf s) = unat k + (card (Signers s) div 2 + 1)"
      using roomy_unat(2) [OF assms(6)] assms(6) a(3) by (simp add: roomy_def unat_word_ariths)
    then have "k + 1 < k + limitOf s"
      using assms(7) roomy_unat(1) [OF assms(6)] a(3) by (simp add: word_less_nat_alt)
    then show ?thesis using a(2) by (force simp: HasRecentlySigned_def list_ex_iff)
  qed
  then show "\<exists>a. SignerFromHeader ?G tip = Ok a \<and>
      (\<forall>h. hnum h = Some (k + 1) \<and> SignerFromHeader ?G h = Ok a \<longrightarrow> VerifyHeader ?G e s h (Some tip) \<noteq> Ok ())"
    using a(1) by (auto simp: VerifyHeader_Ok_iff valid_header_def)
qed

theorem node_restart_forgets_recents_witness:
  "\<exists>n r m s. ndRunning = Some (n, r) \<and> ndOpened (ndFile n) = Some (m, Ok ()) \<and>
     computeSnapshotAt ndG ndOps m ndBlock2 = Some (m, Ok (s\<lparr>Recents := []\<rparr>)) \<and>
     VerifyHeader ndG ndEngine s ndBlock3 (Some ndBlock2) \<noteq> Ok ()"
proof -
  have ev: "evG ndEnv = ndG" by (simp add: ndEnv_def)
  have "is_ok (rbind (NewGenesisSnapshot ndG ndGenesis) (\<lambda>g. rbind (Apply ndG ndEngine g [ndBlock1]) (\<lambda>s0.
      rbind (VerifyHeader ndG ndEngine s0 ndBlock2 (Some ndBlock1)) (\<lambda>_. rbind (Apply ndG ndEngine s0 [ndBlock2]) (\<lambda>s.
        if snNumber s = 2 \<and> card (Signers s) = 2 then Ok () else Panic)))))" by code_simp
  then obtain s0 s where s: "VerifyHeader ndG ndEngine s0 ndBlock2 (Some ndBlock1) = Ok ()" "Apply ndG ndEngine s0 [ndBlock2] = Ok s"
    "snNumber s = 2" "card (Signers s) = 2" by (auto simp: is_ok_iff split: if_splits)
  have "map_option (\<lambda>(n, r). map_option (\<lambda>(m, r). (r, Head (nStor m), GetByNumber (nStor m) 2)) (ndOpened (ndFile n))) ndRunning =
      Some (Some (Ok (), Some ndBlock2, Some ndBlock2))" by code_simp
  then obtain n r m where m: "ndRunning = Some (n, r)" "ndOpened (ndFile n) = Some (m, Ok ())" "Head (nStor m) = Some ndBlock2" "GetByNumber (nStor m) 2 = Some ndBlock2"
    by auto
  then obtain n0 where n0: "newNode ndOps ndG ndGenesis 1 None = Ok n0" "openNode ndEnv (\<lambda>_. True) ndOps n0 (Some (ndFile n)) = Some (m, Ok ())"
    by (auto simp: ndOpened_def split: result.splits)
  have g: "snNumber (nGenesisSnap n0) = 0"
  proof -
    have "map_option snNumber (okVal (NewGenesisSnapshot ndG ndGenesis)) = Some 0" by code_simp
    then show ?thesis using n0(1) by (auto simp: newNode_def ndOps_def cliqueOps_def)
  qed
  have k: "hnum ndBlock2 = Some 2" "(2 :: u64) \<noteq> 0" "(2 :: u64) mod clEpoch ndEngine = 0" by code_simp+
  have "roomy s" using s(3,4) by (simp add: roomy_def)
  from node_restart_forgets_recents [where V = ndEnv, unfolded ev, OF s(1,2) k this _ n0(1) [unfolded ndOps_def] _ n0(2) [unfolded ndOps_def] m(3,4)] s(4) g
  have r: "computeSnapshotAt ndG ndOps m ndBlock2 = Some (m, Ok (s\<lparr>Recents := []\<rparr>))"
    "\<exists>a. SignerFromHeader ndG ndBlock2 = Ok a \<and>
       (\<forall>h. hnum h = Some (2 + 1) \<and> SignerFromHeader ndG h = Ok a \<longrightarrow> VerifyHeader ndG ndEngine s h (Some ndBlock2) \<noteq> Ok ())"
    by (simp_all add: ndOps_def)
  have "hnum ndBlock3 = Some (2 + 1)" "SignerFromHeader ndG ndBlock3 = SignerFromHeader ndG ndBlock2" by code_simp+
  then have "VerifyHeader ndG ndEngine s ndBlock3 (Some ndBlock2) \<noteq> Ok ()" using r(2) by metis
  then show ?thesis using m(1,2) r(1) by blast
qed

text \<open>
  A block the execution client rejects stays the head. When \<^verbatim>\<open>handleBlock\<close> ends because the payload is
  \<^verbatim>\<open>INVALID\<close> (or does not decode, or the call failed), the store already has the block as its canonical
  head, while the head snapshot is still that of the previous head.
\<close>

theorem node_rejected_payload_stays_head:
  assumes "handleBlock V E n blk = Some (n', Err err)" and "payload_error err"
  shows "\<exists>h. dec (evH V) (cbHeader blk) = Some h \<and> Head (nStor n') = Some h \<and> nHeadSnap n' = nHeadSnap n"
proof -
  from assms obtain h num parent where h: "dec (evH V) (cbHeader blk) = Some h" "hnum h = Some num"
    "GetByHash (nStor n) (ParentHash h) = Some parent" "\<not> nSyncing n"
    by (auto simp: handleBlock_def split: option.splits if_splits)
  note run = assms(1) [unfolded handleBlock_def h option.case if_not_P [OF h(4)]]
  then obtain n1 snap where n1: "computeSnapshotAt (evG V) E n parent = Some (n1, Ok snap)"
    and ver: "nbind (Some (n1, mapErr NErrVerify (opVerifyHeader E snap h (Some parent)))) (\<lambda>n _.
      nbind (addToStore V n h (cbExecutionPayloadHash blk) (cbPayloadJSON blk)) (\<lambda>n (headChanged, reorgDepth).
        if \<not> headChanged then Some (n, Ok False)
        else deliverHead V E (if reorgDepth > 0 then n\<lparr>nEpochSnaps := Map.empty\<rparr> else n) h num blk)) = Some (n', Err err)"
    using assms(2) computeSnapshotAt_err unfolding nbind_Some [of "computeSnapshotAt (evG V) E n parent"] by blast
  from ver assms(2) have add: "nbind (addToStore V n1 h (cbExecutionPayloadHash blk) (cbPayloadJSON blk)) (\<lambda>n (headChanged, reorgDepth).
        if \<not> headChanged then Some (n, Ok False)
        else deliverHead V E (if reorgDepth > 0 then n\<lparr>nEpochSnaps := Map.empty\<rparr> else n) h num blk) = Some (n', Err err)"
    by (cases "opVerifyHeader E snap h (Some parent)") auto
  then obtain s d where ab: "AddBlock (evG V) (evH V) (evP V) (evIO V) (nStor n1) h (cbExecutionPayloadHash blk) (cbPayloadJSON blk) =
      Some (s, Ok (True, d))"
    and dl: "deliverHead V E (if d > 0 then n1\<lparr>nStor := s, nEpochSnaps := Map.empty\<rparr> else n1\<lparr>nStor := s\<rparr>) h num blk = Some (n', Err err)"
    using assms(2) unfolding nbind_Some addToStore_Some by (auto split: if_splits)
  have "nStor n' = s" "nHeadSnap n' = nHeadSnap n1"
    using deliverHead_payload_error [OF dl assms(2)] by simp_all
  then show ?thesis using AddBlock_head [OF ab] computeSnapshotAt_headSnap [OF n1] h(1) by simp
qed

definition ndReject :: "ExecutionPayloadV3 \<Rightarrow> string option" where "ndReject p = Some PayloadStatusInvalid"

definition ndEnvReject :: Env where
  "ndEnvReject = ndEnv\<lparr>evEL := ndEL\<lparr>elNewPayloadV3 := ndReject\<rparr>\<rparr>"

theorem node_rejected_payload_stays_head_witness:
  "\<exists>n n'. ndOpened [] = Some (n, Ok ()) \<and> handleBlock ndEnvReject ndOps n (ndWire ndBlock1) = Some (n', Err NErrRejected) \<and>
     Head (nStor n') = Some ndBlock1 \<and> nHeadSnap n' = nHeadSnap n"
proof -
  have "map_option (\<lambda>(n, r). (r, map_option snd (handleBlock ndEnvReject ndOps n (ndWire ndBlock1)))) (ndOpened []) =
      Some (Ok (), Some (Err NErrRejected))" by code_simp
  then obtain n n' where n: "ndOpened [] = Some (n, Ok ())" "handleBlock ndEnvReject ndOps n (ndWire ndBlock1) = Some (n', Err NErrRejected)"
    by auto
  have "dec (evH ndEnvReject) (cbHeader (ndWire ndBlock1)) = Some ndBlock1" by code_simp
  with node_rejected_payload_stays_head [OF n(2)] n show ?thesis by (simp add: payload_error_def)
qed

text \<open>The canonical chain as a list: linked, numbered from the genesis block, without repeated hashes.\<close>

definition canonicalList :: "geth \<Rightarrow> header \<Rightarrow> header set \<Rightarrow> header list \<Rightarrow> bool" where
  "canonicalList G gen hs R \<longleftrightarrow>
     R \<noteq> [] \<and> R ! 0 = gen \<and> set R \<subseteq> insert gen hs \<and> length R < 2 ^ 64 \<and>
     (\<forall>i < length R. hnum (R ! i) = Some (word_of_nat i)) \<and>
     (\<forall>i. Suc i < length R \<longrightarrow> ParentHash (R ! Suc i) = hdrHash G (R ! i)) \<and>
     (\<forall>i < length R. \<forall>j < length R. hdrHash G (R ! i) = hdrHash G (R ! j) \<longrightarrow> i = j)"

lemma path_canonicalList:
  assumes "store_inv G (genesisEntry gen) s" "path (stBlocks s) (genesisEntry gen) R" "stHead s = Some (last R)"
    and "set (map beHeader R) \<subseteq> insert gen hs" "length R < 2 ^ 64"
  shows "canonicalList G gen hs (map beHeader R)"
proof -
  have kd: "keyed G (stBlocks s)" using assms(1) by (simp add: store_inv_def blocks_ok_def)
  have mem: "member G (stBlocks s) (last R)" using assms(1,3) unfolding store_inv_def by auto
  note p = pathD [OF assms(2)]
  have "ParentHash (beHeader (R ! Suc i)) = hdrHash G (beHeader (R ! i))" if "Suc i < length R" for i
    using p(5) [OF that] kd by (auto simp: keyed_def)
  moreover have "i = j" if "i < length R" "j < length R" "hdrHash G (beHeader (R ! i)) = hdrHash G (beHeader (R ! j))" for i j
    using path_hash_inj [OF kd assms(2) mem] that by blast
  ultimately show ?thesis using assms(4,5) p unfolding canonicalList_def by (simp add: genesisEntry_def hnum_def)
qed

lemma canonical_headers:
  assumes "path (stBlocks s) g R" "\<And>n. GetByNumber s n = (if unat n < length R then Some (beHeader (R ! unat n)) else None)" "headers_in s hs"
  shows "set (map beHeader R) \<subseteq> hs"
proof
  fix h assume "h \<in> set (map beHeader R)"
  then obtain i where i: "i < length R" "h = beHeader (R ! i)" by (auto simp: in_set_conv_nth)
  then have "GetByNumber s (word_of_nat i) = Some h" using assms(2) path_unat [OF assms(1) i(1)] by simp
  then show "h \<in> hs" using assms(3) by (auto simp: GetByNumber_def headers_in_def split: option.splits bind_splits)
qed

lemma canonical_length:
  assumes "path bl g R" "hnum (beHeader (last R)) = Some m" "m < - 1"
  shows "length R < 2 ^ 64"
proof -
  have ne: "R \<noteq> []" using pathD(1) [OF assms(1)] .
  have "m = word_of_nat (length R - 1)" using pathD(6) [OF assms(1), of "length R - 1"] ne assms(2) by (simp add: last_conv_nth)
  then have um: "unat m = length R - 1" using path_unat [OF assms(1), of "length R - 1"] ne by simp
  have "unat (- 1 :: u64) = 2 ^ 64 - 1" by (simp add: unsigned_minus_1_eq_mask mask_eq_exp_minus_1)
  then show ?thesis using um assms(3) ne by (simp add: word_less_nat_alt)
qed

lemma sync_response:
  assumes "consistent G gen (set (headersOf xs))"
    and "addBlocks G H P (SetDB (New_store G gen epoch) db) xs = Some s"
    and "\<forall>h \<in> insert gen (set (headersOf xs)). \<exists>b. enc H h = Some b \<and> dec H b = Some h"
    and "Head s = Some tip" "hnum tip = Some m" "m < - 1"
  shows "\<exists>R blocks. R \<noteq> [] \<and> last R = tip \<and> canonicalList G gen (set (headersOf xs)) R \<and>
           (\<forall>n. GetByNumber s n = (if unat n < length R then Some (R ! unat n) else None)) \<and>
           (handleSyncRequest G H s req :: ('e, SyncResponseMsg) result option) = Some (Ok \<lparr>srsReset = fst (syncStart G s req), srsBlocks = blocks\<rparr>) \<and>
           map (dec H \<circ> sbHeader) blocks =
             map Some (take 2048 (drop (if fst (syncStart G s req) then 1 else unat (srHeadNumber req) + 1) R)) \<and>
           (fst (syncStart G s req) \<longleftrightarrow>
              srHeadNumber req \<noteq> 0 \<and>
              \<not> (unat (srHeadNumber req) < length R \<and> hdrHash G (R ! unat (srHeadNumber req)) = srHeadHash req))"
proof -
  let ?g = "genesisEntry gen"
  have inv: "store_inv G ?g s" and hin: "headers_in s (insert gen (set (headersOf xs)))"
    using history_headers [OF assms(1) subset_refl assms(2)] by blast+
  from inv obtain R where R: "path (stBlocks s) ?g R" "stHead s = Some (last R)"
    "\<And>n. GetByNumber s n = (if unat n < length R then Some (beHeader (R ! unat n)) else None)"
    and rng: "\<And>lo hi. hi < - 1 \<Longrightarrow> unat lo \<le> unat hi + 1 \<Longrightarrow>
       \<exists>els. BlocksInRange s lo hi = Some (take (unat hi + 1 - unat lo) (drop (unat lo) (map beHeader R)), els) \<and>
         length els = length (take (unat hi + 1 - unat lo) (drop (unat lo) (map beHeader R)))"
    by (rule range_inv) blast
  have ne: "R \<noteq> []" using pathD(1) [OF R(1)] .
  have tip: "beHeader (last R) = tip" using R(2) assms(4) by (simp add: Head_def)
  have len: "length R < 2 ^ 64" by (rule canonical_length [OF R(1) _ assms(6)]) (simp add: tip assms(5))
  have sub: "set (map beHeader R) \<subseteq> insert gen (set (headersOf xs))" by (rule canonical_headers [OF R(1,3) hin])
  then have cod: "\<forall>h \<in> set (map beHeader R). \<exists>b. enc H h = Some b \<and> dec H b = Some h" using assms(3) by blast
  obtain reset startNum where st: "syncStart G s req = (reset, startNum)" by force
  let ?k = "srHeadNumber req"
  have "unat (?k + 1) = unat ?k + 1" if "unat ?k < length R"
    using that len by (subst unat_word_ariths(1)) simp
  then have start: "unat startNum = (if reset then 1 else unat ?k + 1)"
    and reset: "reset \<longleftrightarrow> ?k \<noteq> 0 \<and> \<not> (unat ?k < length R \<and> hdrHash G (map beHeader R ! unat ?k) = srHeadHash req)"
    using st R(3) [of ?k] by (auto simp: syncStart_def split: option.splits if_splits)
  from syncRange [OF inv R(1,2) rng len cod st] obtain blocks where
    blocks: "(handleSyncRequest G H s req :: ('e, SyncResponseMsg) result option) = Some (Ok \<lparr>srsReset = reset, srsBlocks = blocks\<rparr>)"
    "map (dec H \<circ> sbHeader) blocks = map Some (take 2048 (drop (unat startNum) (map beHeader R)))" by blast
  show ?thesis
    unfolding st fst_conv
  proof (intro exI conjI allI)
    show "map beHeader R \<noteq> []" "last (map beHeader R) = tip" using ne tip by (simp_all add: last_map)
    show "canonicalList G gen (set (headersOf xs)) (map beHeader R)" by (rule path_canonicalList [OF inv R(1,2) sub len])
    show "GetByNumber s n = (if unat n < length (map beHeader R) then Some (map beHeader R ! unat n) else None)" for n
      using R(3) by simp
    show "(handleSyncRequest G H s req :: ('e, SyncResponseMsg) result option) = Some (Ok \<lparr>srsReset = reset, srsBlocks = blocks\<rparr>)" by (rule blocks(1))
    show "map (dec H \<circ> sbHeader) blocks = map Some (take 2048 (drop (if reset then 1 else unat ?k + 1) (map beHeader R)))"
      using blocks(2) unfolding start .
    show "reset \<longleftrightarrow> ?k \<noteq> 0 \<and>
       \<not> (unat ?k < length (map beHeader R) \<and> hdrHash G (map beHeader R ! unat ?k) = srHeadHash req)"
      using reset unfolding length_map .
  qed
qed

text \<open>
  C20. What a responder sends. On the store of a consistently numbered history whose headers encode, with a head below the
  maximal number, there is one canonical chain from genesis to the head, linked by parent hashes. A requester that gives
  head number 0 (whatever its head hash), or whose head is the block of its number on that chain, is sent the headers of
  the chain that follow its head, at most 2048 of them, in order and without a reset; any other requester is told to reset
  and is sent the chain from block 1.
\<close>

theorem node_sync_response:
  assumes "consistent G gen (set (headersOf xs))"
    and "addBlocks G H P (SetDB (New_store G gen epoch) db) xs = Some s"
    and "\<forall>h \<in> insert gen (set (headersOf xs)). \<exists>b. enc H h = Some b \<and> dec H b = Some h"
    and "Head s = Some tip" "hnum tip = Some m" "m < - 1"
  shows "\<exists>R blocks. canonicalChain G gen s R \<and>
           (handleSyncRequest G H s req :: ('e, SyncResponseMsg) result option) = Some (Ok \<lparr>srsReset = fst (syncStart G s req), srsBlocks = blocks\<rparr>) \<and>
           map (dec H \<circ> sbHeader) blocks =
             map Some (take 2048 (drop (if fst (syncStart G s req) then 1 else unat (srHeadNumber req) + 1) R)) \<and>
           (fst (syncStart G s req) \<longleftrightarrow>
              srHeadNumber req \<noteq> 0 \<and>
              \<not> (unat (srHeadNumber req) < length R \<and> hdrHash G (R ! unat (srHeadNumber req)) = srHeadHash req))"
proof -
  from sync_response [OF assms, of req, where 'e = 'e] obtain R blocks where R: "last R = tip" "canonicalList G gen (set (headersOf xs)) R"
    "\<forall>n. GetByNumber s n = (if unat n < length R then Some (R ! unat n) else None)"
    "(handleSyncRequest G H s req :: ('e, SyncResponseMsg) result option) = Some (Ok \<lparr>srsReset = fst (syncStart G s req), srsBlocks = blocks\<rparr>)"
    "map (dec H \<circ> sbHeader) blocks = map Some (take 2048 (drop (if fst (syncStart G s req) then 1 else unat (srHeadNumber req) + 1) R))"
    "fst (syncStart G s req) \<longleftrightarrow> srHeadNumber req \<noteq> 0 \<and>
       \<not> (unat (srHeadNumber req) < length R \<and> hdrHash G (R ! unat (srHeadNumber req)) = srHeadHash req)" by blast
  have "canonicalChain G gen s R" using R(1-3) assms(4) by (simp add: canonicalChain_def canonicalList_def)
  then show ?thesis using R(4-6) by blast
qed

theorem node_sync_response_witness:
  "\<exists>s R blocks. fcStore (fcOld @ fcNew) = Some s \<and> canonicalChain demoGeth fcGenesis s R \<and>
     (handleSyncRequest demoGeth fcH s \<lparr>srHeadNumber = 1, srHeadHash = [1]\<rparr> :: (unit, SyncResponseMsg) result option) =
       Some (Ok \<lparr>srsReset = True, srsBlocks = blocks\<rparr>) \<and>
     map (dec fcH \<circ> sbHeader) blocks = map Some (take 2048 (drop 1 R))"
proof -
  let ?req = "\<lparr>srHeadNumber = 1, srHeadHash = [1]\<rparr>"
  have "SetDB (New_store demoGeth fcGenesis 1) None = New_store demoGeth fcGenesis 1"
    by (simp add: SetDB_def New_store_def Let_def)
  then obtain s where s: "fcStore (fcOld @ fcNew) = Some s"
      "addBlocks demoGeth fcH fcP (SetDB (New_store demoGeth fcGenesis 1) None) (map fcRec (fcOld @ fcNew)) = Some s"
    using history_inv [OF fc_consistent subset_refl, of fcH fcP 1 None] by (metis fcStore_def)
  have "map_option (\<lambda>s. (Head s, fst (syncStart demoGeth s ?req))) (fcStore (fcOld @ fcNew)) = Some (Some (fcBlock 13 12 3 1), True)"
    by code_simp
  then have hd: "Head s = Some (fcBlock 13 12 3 1)" and st: "fst (syncStart demoGeth s ?req)" using s(1) by simp_all
  have "list_all (\<lambda>h. fcHeaderDec (TxHash h) = Some h) fcTable" by code_simp
  then have "\<forall>h \<in> set fcTable. \<exists>b. enc fcH h = Some b \<and> dec fcH b = Some h"
    by (simp add: list_all_iff fcH_def fcHeaderEnc_def)
  moreover have "insert fcGenesis (set (headersOf (map fcRec (fcOld @ fcNew)))) = set fcTable" by code_simp
  ultimately have cod: "\<forall>h \<in> insert fcGenesis (set (headersOf (map fcRec (fcOld @ fcNew)))). \<exists>b. enc fcH h = Some b \<and> dec fcH b = Some h"
    by simp
  have "hnum (fcBlock 13 12 3 1) = Some 3" "(3 :: u64) < - 1" by code_simp+
  from node_sync_response [OF fc_consistent s(2) cod hd this, of ?req] obtain R blocks where
    "canonicalChain demoGeth fcGenesis s R"
    "(handleSyncRequest demoGeth fcH s ?req :: (unit, SyncResponseMsg) result option) =
       Some (Ok \<lparr>srsReset = fst (syncStart demoGeth s ?req), srsBlocks = blocks\<rparr>)"
    "map (dec fcH \<circ> sbHeader) blocks =
       map Some (take 2048 (drop (if fst (syncStart demoGeth s ?req) then 1 else unat (srHeadNumber ?req) + 1) R))" by blast
  note this [unfolded eqTrueI [OF st] if_True]
  with s(1) show ?thesis by blast
qed

text \<open>
  C35. One peer can erase the chain. A sync response that asks for a reset and carries a block that does
  not decode makes the node truncate its database and go back to the genesis store before anything
  in the response is checked; the sync then fails and the chain is gone.
\<close>

theorem node_peer_erases_chain:
  fixes n :: "'s Node" and E :: "('s, 'e) EngineOps"
  assumes "\<not> nSyncing n" and "syncRequest (evG V) n = (Ok req :: ('e node_error, SyncRequestMsg) result)"
    and "ask req = Some resp" and "srsReset resp" and "srsBlocks resp = sb # sbs" and "dec (evH V) (sbHeader sb) = None"
  shows "\<exists>n'. syncWithPeer V (\<lambda>_. True) E n (ask # asks) = Some (n', Err NErrDecodeHeader) \<and>
           Head (nStor n') = Some (nGenesisHeader n) \<and> Len (nStor n') = 1 \<and> nHeadSnap n' = nGenesisSnap n \<and>
           (\<forall>db. stDb (nStor n) = Some db \<longrightarrow> (\<exists>db'. stDb (nStor n') = Some db' \<and> dbFile db' = []))"
proof -
  obtain n1 where n1: "(resetChain (\<lambda>_. True) (evG V) (n\<lparr>nSyncing := True\<rparr>) :: ('s, 'e, unit) step) = Some (n1, Ok ())"
    "Head (nStor n1) = Some (nGenesisHeader n)" "Len (nStor n1) = 1" "nHeadSnap n1 = nGenesisSnap n"
    "\<forall>db. stDb (nStor n) = Some db \<longrightarrow> (\<exists>db'. stDb (nStor n1) = Some db' \<and> dbFile db' = [])"
    by (cases "stDb (nStor n)") (simp_all add: resetChain_def Truncate_def Let_def Reset_def Head_def Len_def)
  have "importSyncBlocks V E n1 (sb # sbs) = Some (n1, Err NErrDecodeHeader)" using assms(6) by (simp add: importSyncBlock_def)
  moreover have "(syncRequest (evG V) (n\<lparr>nSyncing := True\<rparr>) :: ('e node_error, SyncRequestMsg) result) = Ok req"
    using assms(2) by (simp add: syncRequest_def)
  ultimately have "syncLoop V (\<lambda>_. True) E (n\<lparr>nSyncing := True\<rparr>) (ask # asks) = Some (n1, Err NErrDecodeHeader)"
    using assms(3-5) n1(1) by simp
  then have "syncWithPeer V (\<lambda>_. True) E n (ask # asks) = Some (n1\<lparr>nSyncing := False\<rparr>, Err NErrDecodeHeader)"
    using assms(1) by (simp add: syncWithPeer_def)
  then show ?thesis using n1 by auto
qed

definition ndReset :: SyncResponseMsg where
  "ndReset = \<lparr>srsReset = True, srsBlocks = [\<lparr>sbHeader = [], sbELHash = [], sbPayloadJSON = []\<rparr>]\<rparr>"

theorem node_peer_erases_chain_witness:
  "\<exists>n r n'. ndRunning = Some (n, r) \<and> map_option TxHash (Head (nStor n)) = Some [2] \<and>
     syncWithPeer ndEnv (\<lambda>_. True) ndOps n [\<lambda>_. Some ndReset] = Some (n', Err NErrDecodeHeader) \<and> Len (nStor n') = 1"
proof -
  have "map_option (\<lambda>(n, r). (nSyncing n, map_option TxHash (Head (nStor n)), is_ok (syncRequest ndG n :: (clique_error node_error, SyncRequestMsg) result))) ndRunning
      = Some (False, Some [2], True)" by code_simp
  then obtain n r req where n: "ndRunning = Some (n, r)" "\<not> nSyncing n" "map_option TxHash (Head (nStor n)) = Some [2]"
    "syncRequest (evG ndEnv) n = (Ok req :: (clique_error node_error, SyncRequestMsg) result)"
    by (auto simp: is_ok_iff ndEnv_def)
  have "dec (evH ndEnv) [] = None" by code_simp
  with node_peer_erases_chain [OF n(2,4), where ?E = ndOps and ?asks = "[]" and ?ask = "\<lambda>_. Some ndReset" and ?resp = ndReset] n
  show ?thesis by (auto simp: ndReset_def)
qed

end
