(* ===== verification/P2p.thy ===== *)
theory P2p
  imports Node_Chain Node_Qbft
begin

text \<open>
  The peer-to-peer layer: \<^verbatim>\<open>p2p/types.go\<close> (encoding and framing), \<^verbatim>\<open>p2p/host.go\<close> (handlers, gossip, the
  status handshake), \<^verbatim>\<open>p2p/sync.go\<close> (the sync exchange) and \<^verbatim>\<open>p2p/discovery.go\<close>. libp2p is a parameter: a
  stream is what the peer sends on it until it closes or the deadline passes, what has been written, and how
  many bytes the peer still takes; a gossip subscription is the list of messages it delivers. RLP is one
  codec per message type.
\<close>

section \<open>Streams and framing\<close>

record Stream =
  sIn :: bytes
  sOut :: bytes
  sRoom :: "nat option"

datatype wire_error =
    WErrEncode | WErrWriteLength | WErrWritePayload | WErrReadLength | WErrTooLarge | WErrReadPayload | WErrDecode
  | WErrOpenStream | WErrTopic | WErrPublish

text \<open>\<^verbatim>\<open>w.Write\<close>: what the peer takes is written, and a short write is an error.\<close>

definition writeBytes :: "Stream \<Rightarrow> bytes \<Rightarrow> Stream \<times> bool" where
  "writeBytes s bs =
     (case sRoom s of
        None \<Rightarrow> (s\<lparr>sOut := sOut s @ bs\<rparr>, True)
      | Some room \<Rightarrow> (s\<lparr>sOut := sOut s @ take room bs, sRoom := Some (room - length bs)\<rparr>, length bs \<le> room))"

text \<open>\<^verbatim>\<open>io.ReadFull\<close>: the bytes that are there are consumed, fewer than asked for is an error.\<close>

definition readFull :: "Stream \<Rightarrow> nat \<Rightarrow> Stream \<times> bytes option" where
  "readFull s n =
     (s\<lparr>sIn := drop n (sIn s)\<rparr>, if length (sIn s) < n then None else Some (take n (sIn s)))"

text \<open>\<^verbatim>\<open>writeMsg\<close>: the length prefix is the length of the payload modulo \<open>2 ^ 32\<close>.\<close>

definition writeMsg :: "'m codec \<Rightarrow> Stream \<Rightarrow> 'm \<Rightarrow> Stream \<times> (wire_error, unit) result" where
  "writeMsg C s msg =
     (case enc C msg of
        None \<Rightarrow> (s, Err WErrEncode)
      | Some payload \<Rightarrow>
          let (s1, ok1) = writeBytes s (be_put32 (word_of_nat (length payload))) in
          if \<not> ok1 then (s1, Err WErrWriteLength)
          else let (s2, ok2) = writeBytes s1 payload in
            if \<not> ok2 then (s2, Err WErrWritePayload) else (s2, Ok ()))"

definition readMsg :: "'m codec \<Rightarrow> Stream \<Rightarrow> u32 \<Rightarrow> Stream \<times> (wire_error, 'm) result" where
  "readMsg C s maxSize =
     (let (s1, lenBuf) = readFull s 4 in
      case lenBuf of
        None \<Rightarrow> (s1, Err WErrReadLength)
      | Some lb \<Rightarrow>
          let n = be_uint32 lb in
          if n > maxSize then (s1, Err WErrTooLarge)
          else let (s2, payload) = readFull s1 (unat n) in
            case payload of
              None \<Rightarrow> (s2, Err WErrReadPayload)
            | Some p \<Rightarrow> (case dec C p of None \<Rightarrow> (s2, Err WErrDecode) | Some msg \<Rightarrow> (s2, Ok msg)))"

definition maxStatusMsgSize :: u32 where "maxStatusMsgSize = 1024"
definition maxSyncMsgSize :: u32 where "maxSyncMsgSize = 33554432"

section \<open>Gossip messages\<close>

record wireCodecs =
  wcBlock :: "CliqueBlock codec"
  wcQBFT :: "QBFTMsg codec"
  wcStatus :: "StatusMsg codec"
  wcSyncRequest :: "SyncRequestMsg codec"
  wcSyncResponse :: "SyncResponseMsg codec"

definition wireResult :: "wire_error \<Rightarrow> 'a option \<Rightarrow> (wire_error, 'a) result" where
  "wireResult e x = (case x of None \<Rightarrow> Err e | Some y \<Rightarrow> Ok y)"

definition DecodePayload :: "ExecutionPayloadV3 codec \<Rightarrow> CliqueBlock \<Rightarrow> (wire_error, ExecutionPayloadV3) result" where
  "DecodePayload J b = wireResult WErrDecode (dec J (cbPayloadJSON b))"

definition DecodeHeader :: "header codec \<Rightarrow> CliqueBlock \<Rightarrow> (wire_error, header) result" where
  "DecodeHeader H b = wireResult WErrDecode (dec H (cbHeader b))"

definition EncodeBlock :: "wireCodecs \<Rightarrow> CliqueBlock \<Rightarrow> (wire_error, bytes) result" where
  "EncodeBlock W b = wireResult WErrEncode (enc (wcBlock W) b)"

definition DecodeCliqueBlock :: "wireCodecs \<Rightarrow> bytes \<Rightarrow> (wire_error, CliqueBlock) result" where
  "DecodeCliqueBlock W data = wireResult WErrDecode (dec (wcBlock W) data)"

definition EncodeQBFT :: "wireCodecs \<Rightarrow> QBFTMsg \<Rightarrow> (wire_error, bytes) result" where
  "EncodeQBFT W m = wireResult WErrEncode (enc (wcQBFT W) m)"

definition DecodeQBFTMsg :: "wireCodecs \<Rightarrow> bytes \<Rightarrow> (wire_error, QBFTMsg) result" where
  "DecodeQBFTMsg W data = wireResult WErrDecode (dec (wcQBFT W) data)"

section \<open>The host\<close>

text \<open>
  Peers are identified by their peer ID. The callbacks of the node act on a state of type \<open>'st\<close>, the sync
  provider is a function from requests to responses. \<open>hoBt\<close> and \<open>hoQt\<close> say whether the topic is joined.
\<close>

type_synonym peerID = string

record 'st Host =
  hoID :: peerID
  hoPs :: bool
  hoBt :: bool
  hoBsub :: bool
  hoQt :: bool
  hoQsub :: bool
  hoStatusStream :: bool
  hoSyncStream :: bool
  hoLocalStatus :: StatusMsg
  hoBlockHandler :: "(peerID \<Rightarrow> CliqueBlock \<Rightarrow> 'st \<Rightarrow> 'st) option"
  hoQbftMsgHandler :: "(QBFTMsg \<Rightarrow> 'st \<Rightarrow> 'st) option"
  hoSyncProvider :: "(SyncRequestMsg \<Rightarrow> SyncResponseMsg) option"
  hoSyncHandler :: "(peerID \<Rightarrow> 'st \<Rightarrow> 'st) option"
  hoMdns :: bool

definition New_host :: "peerID option \<Rightarrow> StatusMsg \<Rightarrow> 'st Host option" where
  "New_host libp2pHost initialStatus =
     map_option (\<lambda>i. \<lparr>hoID = i, hoPs = False, hoBt = False, hoBsub = False, hoQt = False, hoQsub = False,
       hoStatusStream = False, hoSyncStream = False, hoLocalStatus = initialStatus, hoBlockHandler = None,
       hoQbftMsgHandler = None, hoSyncProvider = None, hoSyncHandler = None, hoMdns = False\<rparr>) libp2pHost"

definition SetStatus :: "'st Host \<Rightarrow> StatusMsg \<Rightarrow> 'st Host" where
  "SetStatus h msg = h\<lparr>hoLocalStatus := msg\<rparr>"

definition SetBlockHandler :: "'st Host \<Rightarrow> (peerID \<Rightarrow> CliqueBlock \<Rightarrow> 'st \<Rightarrow> 'st) \<Rightarrow> 'st Host" where
  "SetBlockHandler h fn = h\<lparr>hoBlockHandler := Some fn\<rparr>"

definition SetQBFTMsgHandler :: "'st Host \<Rightarrow> (QBFTMsg \<Rightarrow> 'st \<Rightarrow> 'st) \<Rightarrow> 'st Host" where
  "SetQBFTMsgHandler h fn = h\<lparr>hoQbftMsgHandler := Some fn\<rparr>"

definition SetSyncProvider :: "'st Host \<Rightarrow> (SyncRequestMsg \<Rightarrow> SyncResponseMsg) \<Rightarrow> 'st Host" where
  "SetSyncProvider h fn = h\<lparr>hoSyncProvider := Some fn, hoSyncStream := True\<rparr>"

definition SetSyncHandler :: "'st Host \<Rightarrow> (peerID \<Rightarrow> 'st \<Rightarrow> 'st) \<Rightarrow> 'st Host" where
  "SetSyncHandler h fn = h\<lparr>hoSyncHandler := Some fn\<rparr>"

subsection \<open>Starting\<close>

text \<open>What libp2p answers while the host starts.\<close>

record libp2p =
  lpGossipSub :: bool
  lpJoin :: "string \<Rightarrow> bool"
  lpSubscribe :: "string \<Rightarrow> bool"
  lpMDNS :: bool
  lpAddrInfo :: "string \<Rightarrow> peerID option"      \<comment> \<open>multiaddr and peer information of a boot node, or neither\<close>

datatype host_error =
    HErrGossipSub | HErrJoinBlock | HErrSubscribeBlock | HErrJoinQBFT | HErrSubscribeQBFT | HErrMDNS

definition blockTopic :: string where "blockTopic = ''/consensus/block/1''"
definition qbftTopic :: string where "qbftTopic = ''/qbft/consensus/1''"

text \<open>
  \<^verbatim>\<open>startMDNS\<close> of \<^verbatim>\<open>discovery.go\<close>: the service is returned if it starts.
\<close>

definition startMDNS :: "libp2p \<Rightarrow> (host_error, unit) result" where
  [simp]: "startMDNS L = (if \<not> lpMDNS L then Err HErrMDNS else Ok ())"

text \<open>
  \<^verbatim>\<open>Start\<close>: the host it leaves, with the boot nodes that are then dialled in the background. An
  error leaves what was set before it.
\<close>

definition Start_host :: "libp2p \<Rightarrow> bool \<Rightarrow> string list \<Rightarrow> 'st Host \<Rightarrow> 'st Host \<times> (host_error, peerID list) result" where
  "Start_host L enableMDNS bootNodes h =
     (if \<not> lpGossipSub L then (h, Err HErrGossipSub) else
      let h = h\<lparr>hoPs := True\<rparr> in
      if \<not> lpJoin L blockTopic then (h, Err HErrJoinBlock) else
      let h = h\<lparr>hoBt := True\<rparr> in
      if \<not> lpSubscribe L blockTopic then (h, Err HErrSubscribeBlock) else
      let h = h\<lparr>hoBsub := True\<rparr> in
      if \<not> lpJoin L qbftTopic then (h, Err HErrJoinQBFT) else
      let h = h\<lparr>hoQt := True\<rparr> in
      if \<not> lpSubscribe L qbftTopic then (h, Err HErrSubscribeQBFT) else
      let h = h\<lparr>hoQsub := True, hoStatusStream := True\<rparr> in
      if enableMDNS \<and> startMDNS L \<noteq> Ok () then (h, Err HErrMDNS) else
      let h = h\<lparr>hoMdns := enableMDNS\<rparr> in
      (h, Ok (List.map_filter (lpAddrInfo L) bootNodes)))"

text \<open>\<^verbatim>\<open>Close\<close>: what is released, in order.\<close>

datatype close_action = CancelBlocks | CancelQBFT | CloseMDNS | CloseLibp2p | StopRPC | CloseDB

definition Close_host :: "'st Host \<Rightarrow> close_action list" where
  "Close_host h =
     (if hoBsub h then [CancelBlocks] else []) @ (if hoQsub h then [CancelQBFT] else []) @
     (if hoMdns h then [CloseMDNS] else []) @ [CloseLibp2p]"

text \<open>
  The dial loop of one boot node, with the delays in milliseconds. \<open>cancelled\<close> and \<open>connects\<close> give the state of
  the context and the answer of \<^verbatim>\<open>Connect\<close> at each attempt, \<open>woken\<close> that the context ended during the wait. The
  result is the attempts made and whether a connection stands.
\<close>

definition dialDelays :: "int list" where "dialDelays = [200, 500, 1000, 2000]"

fun dialBootnode :: "(nat \<Rightarrow> bool) \<Rightarrow> (nat \<Rightarrow> bool) \<Rightarrow> (nat \<Rightarrow> bool) \<Rightarrow> nat \<Rightarrow> int list \<Rightarrow> nat \<times> bool" where
  "dialBootnode cancelled connects woken k [] = (k, False)"
| "dialBootnode cancelled connects woken k (delay # delays) =
     (if cancelled k then (k, False)
      else if connects k then (k + 1, True)
      else if delays = [] then (k + 1, False)
      else if woken k then (k + 1, False)
      else dialBootnode cancelled connects woken (k + 1) delays)"

text \<open>\<^verbatim>\<open>HandlePeerFound\<close>: whether mDNS discovery dials the peer.\<close>

definition HandlePeerFound :: "'st Host \<Rightarrow> peerID \<Rightarrow> bool" where
  "HandlePeerFound h info \<longleftrightarrow> info \<noteq> hoID h"

subsection \<open>Gossip\<close>

text \<open>Publishing: the bytes given to the topic. A block topic that is not joined is a nil dereference.\<close>

definition BroadcastQBFTMsg :: "wireCodecs \<Rightarrow> (bytes \<Rightarrow> bool) \<Rightarrow> 'st Host \<Rightarrow> QBFTMsg \<Rightarrow> (wire_error, bytes) result" where
  "BroadcastQBFTMsg W publishes h msg =
     (if \<not> hoQt h then Err WErrTopic
      else rbind (EncodeQBFT W msg) (\<lambda>data. if publishes data then Ok data else Err WErrPublish))"

definition BroadcastBlock :: "wireCodecs \<Rightarrow> (bytes \<Rightarrow> bool) \<Rightarrow> 'st Host \<Rightarrow> CliqueBlock \<Rightarrow> (wire_error, bytes) result" where
  "BroadcastBlock W publishes h block =
     rbind (EncodeBlock W block) (\<lambda>data.
       if \<not> hoBt h then Panic else if publishes data then Ok data else Err WErrPublish)"

text \<open>The subscription loops: one turn per delivered message, ended by the end of the list.\<close>

fun subscribeBlocks :: "wireCodecs \<Rightarrow> 'st Host \<Rightarrow> (peerID \<times> bytes) list \<Rightarrow> 'st \<Rightarrow> 'st" where
  "subscribeBlocks W h [] st = st"
| "subscribeBlocks W h ((receivedFrom, data) # msgs) st =
     (if receivedFrom = hoID h then subscribeBlocks W h msgs st
      else case DecodeCliqueBlock W data of
        Ok blk \<Rightarrow>
          (case hoBlockHandler h of
             None \<Rightarrow> subscribeBlocks W h msgs st
           | Some handler \<Rightarrow> subscribeBlocks W h msgs (handler receivedFrom blk st))
      | _ \<Rightarrow> subscribeBlocks W h msgs st)"

fun subscribeQBFT :: "wireCodecs \<Rightarrow> 'st Host \<Rightarrow> (peerID \<times> bytes) list \<Rightarrow> 'st \<Rightarrow> 'st" where
  "subscribeQBFT W h [] st = st"
| "subscribeQBFT W h ((receivedFrom, data) # msgs) st =
     (if receivedFrom = hoID h then subscribeQBFT W h msgs st
      else case DecodeQBFTMsg W data of
        Ok qmsg \<Rightarrow>
          (case hoQbftMsgHandler h of
             None \<Rightarrow> subscribeQBFT W h msgs st
           | Some handler \<Rightarrow> subscribeQBFT W h msgs (handler qmsg st))
      | _ \<Rightarrow> subscribeQBFT W h msgs st)"

subsection \<open>The status handshake\<close>

datatype peer_action = ClosePeer | StartSync | KeepPeer

definition handlePeerStatus :: "'st Host \<Rightarrow> StatusMsg \<Rightarrow> peer_action" where
  "handlePeerStatus h remote =
     (let local = hoLocalStatus h in
      if smNetworkID remote \<noteq> smNetworkID local \<or> smGenesisHash remote \<noteq> smGenesisHash local then ClosePeer
      else if hoSyncHandler h \<noteq> None \<and> smHeadNumber remote > smHeadNumber local then StartSync
      else KeepPeer)"

text \<open>The dialer writes and then reads; \<^const>\<open>None\<close> is the stream that does not open.\<close>

definition doStatusHandshake ::
    "wireCodecs \<Rightarrow> 'st Host \<Rightarrow> Stream option \<Rightarrow> Stream option \<times> (wire_error, peer_action) result" where
  "doStatusHandshake W h stream =
     (case stream of
        None \<Rightarrow> (None, Err WErrOpenStream)
      | Some s \<Rightarrow>
          let (s1, r1) = writeMsg (wcStatus W) s (hoLocalStatus h) in
          (case r1 of
            Ok _ \<Rightarrow>
              (let (s2, r2) = readMsg (wcStatus W) s1 maxStatusMsgSize
               in (Some s2, rbind r2 (\<lambda>remote. Ok (handlePeerStatus h remote))))
          | Err e \<Rightarrow> (Some s1, Err e)
          | Panic \<Rightarrow> (Some s1, Panic)))"

text \<open>The listener reads and then writes.\<close>

definition handleStatusStream :: "wireCodecs \<Rightarrow> 'st Host \<Rightarrow> Stream \<Rightarrow> Stream \<times> (wire_error, peer_action) result" where
  "handleStatusStream W h s =
     (let (s1, r1) = readMsg (wcStatus W) s maxStatusMsgSize in
      case r1 of
        Ok remote \<Rightarrow>
          (let (s2, r2) = writeMsg (wcStatus W) s1 (hoLocalStatus h)
           in (s2, rbind r2 (\<lambda>_. Ok (handlePeerStatus h remote))))
      | Err e \<Rightarrow> (s1, Err e)
      | Panic \<Rightarrow> (s1, Panic))"

subsection \<open>The sync exchange\<close>

definition RequestSync ::
    "wireCodecs \<Rightarrow> Stream option \<Rightarrow> SyncRequestMsg \<Rightarrow> Stream option \<times> (wire_error, SyncResponseMsg) result" where
  "RequestSync W stream req =
     (case stream of
        None \<Rightarrow> (None, Err WErrOpenStream)
      | Some s \<Rightarrow>
          let (s1, r1) = writeMsg (wcSyncRequest W) s req in
          (case r1 of
            Ok _ \<Rightarrow> (let (s2, r2) = readMsg (wcSyncResponse W) s1 maxSyncMsgSize in (Some s2, r2))
          | Err e \<Rightarrow> (Some s1, Err e)
          | Panic \<Rightarrow> (Some s1, Panic)))"

definition handleSyncStream :: "wireCodecs \<Rightarrow> 'st Host \<Rightarrow> Stream \<Rightarrow> Stream \<times> (wire_error, unit) result" where
  "handleSyncStream W h s =
     (let (s1, r1) = readMsg (wcSyncRequest W) s maxStatusMsgSize in
      case r1 of
        Ok req \<Rightarrow>
          writeMsg (wcSyncResponse W) s1
            (case hoSyncProvider h of None \<Rightarrow> \<lparr>srsReset = False, srsBlocks = []\<rparr> | Some provider \<Rightarrow> provider req)
      | Err e \<Rightarrow> (s1, Err e)
      | Panic \<Rightarrow> (s1, Panic))"

end
