(* ===== verification/Rpc.thy ===== *)
theory Rpc
  imports Clique_Engine Forkchoice
begin

text \<open>
  The JSON-RPC server: \<^verbatim>\<open>rpc/clique_handlers.go\<close>, \<^verbatim>\<open>rpc/node_handlers.go\<close>, \<^verbatim>\<open>rpc/helpers.go\<close> and the state of
  \<^verbatim>\<open>rpc/server.go\<close>. A handler is a function from the state it reads to the HTTP status and the body
  before JSON encoding; a panic is turned into a 500 by the router's recoverer. JSON decoding, the libp2p
  host and the hex functions of go-ethereum are parameters; decimal formatting and parsing are modelled.
\<close>

section \<open>Decimal numbers\<close>

text \<open>\<^verbatim>\<open>fmt.Sprintf("%d", n)\<close> for an unsigned number, and \<^verbatim>\<open>(*big.Int).String\<close>.\<close>

definition digitChar :: "nat \<Rightarrow> char" where
  "digitChar d = char_of (48 + d)"

fun decimal :: "nat \<Rightarrow> string" where
  "decimal n = (if n < 10 then [digitChar n] else decimal (n div 10) @ [digitChar (n mod 10)])"

definition bigString :: "int option \<Rightarrow> string" where
  "bigString b = (case b of None \<Rightarrow> ''<nil>'' | Some x \<Rightarrow> (if x < 0 then ''-'' else []) @ decimal (nat \<bar>x\<bar>))"

text \<open>
  \<^verbatim>\<open>strconv.ParseUint(s, 10, 64)\<close>: the digits are read left to right; any other character and a value of
  \<open>2 ^ 64\<close> or more are errors, and so is the empty string.
\<close>

fun parseDigits :: "nat \<Rightarrow> string \<Rightarrow> nat option" where
  "parseDigits n [] = Some n"
| "parseDigits n (c # cs) =
     (let k = of_char c :: nat in
      if k < 48 \<or> 57 < k then None
      else let n' = 10 * n + (k - 48) in if n' \<ge> 2 ^ 64 then None else parseDigits n' cs)"

definition ParseUint :: "string \<Rightarrow> u64 option" where
  "ParseUint s = (if s = [] then None else map_option word_of_nat (parseDigits 0 s))"

declare decimal.simps [simp del]

lemma of_char_digitChar [simp]: "d < 10 \<Longrightarrow> (of_char (digitChar d) :: nat) = 48 + d"
  by (simp add: digitChar_def)

lemma parseDigits_append:
  "parseDigits n (s @ t) = Option.bind (parseDigits n s) (\<lambda>m. parseDigits m t)"
  by (induction s arbitrary: n) (simp_all add: Let_def)

lemma parseDigits_decimal: "n < 2 ^ 64 \<Longrightarrow> parseDigits 0 (decimal n) = Some n"
proof (induction n rule: decimal.induct)
  case (1 n)
  show ?case
  proof (cases "n < 10")
    case True
    then show ?thesis by (subst decimal.simps) simp
  next
    case False
    have "parseDigits 0 (decimal (n div 10)) = Some (n div 10)" using 1 False by simp
    moreover have "10 * (n div 10) + n mod 10 = n" by simp
    ultimately show ?thesis using False 1(2)
      by (subst decimal.simps) (simp add: parseDigits_append del: mult_div_mod_eq)
  qed
qed

lemma decimal_nonempty [simp]: "decimal n \<noteq> []"
  by (subst decimal.simps) simp

lemma ParseUint_decimal: "ParseUint (decimal (unat n)) = Some n"
proof -
  have "unat n < 2 ^ LENGTH(64)" by (rule unsigned_less)
  then show ?thesis by (simp add: ParseUint_def parseDigits_decimal)
qed

section \<open>Responses\<close>

record NodeIdentity =
  niPeerID :: string
  niENR :: string
  niP2PAddresses :: "string list"

record PeerInfo =
  piPeerID :: string
  piAddress :: string
  piDirection :: string
  piState :: string

record SyncStatus =
  ssHeadSlot :: string
  ssSyncDistance :: string
  ssIsSyncing :: bool

record HeadInfo =
  hiNumber :: string
  hiHash :: string
  hiSigner :: string
  hiTimestamp :: string
  hiTotalDifficulty :: string

record ValidatorsInfo =
  viSigners :: "string list"
  viCount :: nat

record BlockInfo =
  biNumber :: string
  biHash :: string
  biParentHash :: string
  biTimestamp :: string
  biDifficulty :: string
  biSigner :: string
  biExtra :: string

record VoteInfo =
  voSigner :: string
  voAddress :: string
  voAuthorize :: bool
  voBlock :: string

record VoteRequest =
  vqAddress :: string
  vqAuthorize :: bool

record PendingVote =
  pvAddress :: address
  pvAuthorize :: bool

datatype body =
    BEmpty | BError nat string | BIdentity NodeIdentity | BPeers "PeerInfo list" nat | BSyncing SyncStatus
  | BHead HeadInfo | BValidators ValidatorsInfo | BBlock BlockInfo | BVotes "VoteInfo list"
  | BStatus string

type_synonym response = "nat \<times> body"

definition rpcOk :: "body \<Rightarrow> ('e, response) result" where
  "rpcOk b = Ok (200, b)"

definition writeError :: "nat \<Rightarrow> string \<Rightarrow> ('e, response) result" where
  "writeError status msg = Ok (status, BError status msg)"

text \<open>What the handlers call outside the program.\<close>

record rpcLib =
  hashHex :: "hash \<Rightarrow> string"                  \<comment> \<open>\<^verbatim>\<open>(common.Hash).Hex\<close>\<close>
  IsHexAddress :: "string \<Rightarrow> bool"             \<comment> \<open>\<^verbatim>\<open>common.IsHexAddress\<close>\<close>
  HexToAddress :: "string \<Rightarrow> address"          \<comment> \<open>\<^verbatim>\<open>common.HexToAddress\<close>\<close>
  voteRequestJSON :: "bytes \<Rightarrow> string + VoteRequest"  \<comment> \<open>\<^verbatim>\<open>json.Unmarshal\<close> into a \<^verbatim>\<open>VoteRequest\<close>, or the error's text\<close>

record P2PNode =
  pnPeerID :: string
  pnAddrs :: "string list"
  pnPeers :: "(string \<times> string list) list"

record Server =
  pendingVote :: "PendingVote option"

section \<open>Node endpoints\<close>

definition handleNodeIdentity :: "P2PNode \<Rightarrow> ('e, response) result" where
  "handleNodeIdentity p =
     rpcOk (BIdentity \<lparr>niPeerID = pnPeerID p, niENR = [],
                       niP2PAddresses = map (\<lambda>a. a @ ''/p2p/'' @ pnPeerID p) (pnAddrs p)\<rparr>)"

definition handleNodePeers :: "P2PNode \<Rightarrow> ('e, response) result" where
  "handleNodePeers p =
     (let peers = map (\<lambda>(pid, addrs).
            \<lparr>piPeerID = pid, piAddress = (case addrs of [] \<Rightarrow> [] | a # _ \<Rightarrow> a @ ''/p2p/'' @ pid),
             piDirection = ''unknown'', piState = ''connected''\<rparr>) (pnPeers p)
      in Ok (200, BPeers peers (length peers)))"

definition handleNodeHealth :: "P2PNode \<Rightarrow> Store \<Rightarrow> ('e, response) result" where
  "handleNodeHealth p s =
     (case Head s of
        None \<Rightarrow> Ok (503, BEmpty)
      | Some _ \<Rightarrow> if length (pnPeers p) = 0 then Ok (503, BEmpty) else Ok (200, BEmpty))"

definition handleNodeSyncing :: "Store \<Rightarrow> ('e, response) result" where
  "handleNodeSyncing s =
     (let headNum = (case Head s of None \<Rightarrow> 0 | Some h \<Rightarrow> (case hnum h of None \<Rightarrow> 0 | Some n \<Rightarrow> n)) in
      rpcOk (BSyncing \<lparr>ssHeadSlot = decimal (unat headNum), ssSyncDistance = ''0'', ssIsSyncing = False\<rparr>))"

section \<open>Chain endpoints\<close>

text \<open>\<^verbatim>\<open>clique.SignerFromHeader\<close> with its error replaced by the zero address, for either mechanism.\<close>

definition signerOrZero :: "geth \<Rightarrow> header \<Rightarrow> ('e, address) result" where
  "signerOrZero G h = (case SignerFromHeader G h of Ok a \<Rightarrow> Ok a | Err _ \<Rightarrow> Ok zeroAddress | Panic \<Rightarrow> Panic)"

definition handleCliqueHead :: "rpcLib \<Rightarrow> geth \<Rightarrow> Store \<Rightarrow> ('e, response) result" where
  "handleCliqueHead L G s =
     (case Head s of
        None \<Rightarrow> writeError 503 ''no head block available''
      | Some head \<Rightarrow>
          rbind (signerOrZero G head) (\<lambda>signer.
            let tdStr = (case TD s (hdrHash G head) of None \<Rightarrow> ''0'' | Some td \<Rightarrow> bigString (Some td)) in
            rbind (number_of head) (\<lambda>num.
              rpcOk (BHead \<lparr>hiNumber = decimal (unat num), hiHash = hashHex L (hdrHash G head),
                            hiSigner = addrHex G signer, hiTimestamp = decimal (unat (Time head)),
                            hiTotalDifficulty = tdStr\<rparr>))))"

definition handleCliqueValidators :: "geth \<Rightarrow> ('s \<Rightarrow> address list) \<Rightarrow> 's option \<Rightarrow> ('e, response) result" where
  "handleCliqueValidators G signerList snap =
     (case snap of
        None \<Rightarrow> rpcOk (BValidators \<lparr>viSigners = [], viCount = 0\<rparr>)
      | Some s \<Rightarrow>
          let signers = map (addrHex G) (signerList s) in
          rpcOk (BValidators \<lparr>viSigners = signers, viCount = length signers\<rparr>))"

text \<open>\<^verbatim>\<open>fmt.Sprintf("0x%x", b)\<close>: two lower-case hexadecimal digits for each byte.\<close>

definition hexDigit :: "nat \<Rightarrow> char" where
  "hexDigit d = char_of (if d < 10 then 48 + d else 87 + d)"

definition hexBytes :: "bytes \<Rightarrow> string" where
  "hexBytes bs = concat (map (\<lambda>b. [hexDigit (unat b div 16), hexDigit (unat b mod 16)]) bs)"

definition handleCliqueBlock :: "rpcLib \<Rightarrow> geth \<Rightarrow> Store \<Rightarrow> string \<Rightarrow> ('e, response) result" where
  "handleCliqueBlock L G s numStr =
     (case ParseUint numStr of
        None \<Rightarrow> writeError 400 (''invalid block number: '' @ numStr)
      | Some num \<Rightarrow>
          (case GetByNumber s num of
             None \<Rightarrow> writeError 404 (''block '' @ decimal (unat num) @ '' not found'')
           | Some h \<Rightarrow>
               rbind (signerOrZero G h) (\<lambda>signer.
               rbind (number_of h) (\<lambda>n.
                 rpcOk (BBlock \<lparr>biNumber = decimal (unat n), biHash = hashHex L (hdrHash G h),
                                biParentHash = hashHex L (ParentHash h), biTimestamp = decimal (unat (Time h)),
                                biDifficulty = bigString (Difficulty h), biSigner = addrHex G signer,
                                biExtra = ''0x'' @ hexBytes (Extra h)\<rparr>)))))"

definition handleCliqueVotes :: "geth \<Rightarrow> ('s \<Rightarrow> VoteRecord list) \<Rightarrow> 's option \<Rightarrow> ('e, response) result" where
  "handleCliqueVotes G pendingVotes snap =
     (case snap of
        None \<Rightarrow> rpcOk (BVotes [])
      | Some s \<Rightarrow>
          rpcOk (BVotes (map (\<lambda>v. \<lparr>voSigner = addrHex G (vrSigner v), voAddress = addrHex G (vrAddress v),
                                   voAuthorize = vrAuthorize v, voBlock = decimal (unat (vrBlock v))\<rparr>) (pendingVotes s))))"

section \<open>Voting\<close>

text \<open>The ASCII part of \<^verbatim>\<open>strings.ToLower\<close> and \<^verbatim>\<open>strings.TrimPrefix\<close>; no other letter lowers to a zero or an x.\<close>

definition lowerChar :: "char \<Rightarrow> char" where
  "lowerChar c = (let k = of_char c :: nat in if 65 \<le> k \<and> k \<le> 90 then char_of (k + 32) else c)"

definition trimPrefix :: "string \<Rightarrow> string \<Rightarrow> string" where
  "trimPrefix s p = (if take (length p) s = p then drop (length p) s else s)"

definition nonZeroHexAddress :: "string \<Rightarrow> bool" where
  "nonZeroHexAddress s = list_ex (\<lambda>c. c \<noteq> CHR ''0'') (trimPrefix (map lowerChar s) ''0x'')"

text \<open>\<open>reqBody\<close> is the request body, \<^const>\<open>None\<close> when reading it fails; at most 512 bytes are read.\<close>

definition handleCliqueVote :: "rpcLib \<Rightarrow> Server \<Rightarrow> bytes option \<Rightarrow> Server \<times> ('e, response) result" where
  "handleCliqueVote L s reqBody =
     (case reqBody of
        None \<Rightarrow> (s, writeError 400 ''failed to read request body'')
      | Some b \<Rightarrow>
          (case voteRequestJSON L (take 512 b) of
             Inl err \<Rightarrow> (s, writeError 400 (''invalid JSON: '' @ err))
           | Inr req \<Rightarrow>
               if \<not> IsHexAddress L (vqAddress req)
               then (s, writeError 400 ''address must be a 0x-prefixed 20-byte hex string'')
               else let addr = HexToAddress L (vqAddress req) in
                 if addr = zeroAddress \<and> \<not> nonZeroHexAddress (vqAddress req)
                 then (s, writeError 400 ''zero address is not a valid vote target'')
                 else (s\<lparr>pendingVote := Some \<lparr>pvAddress = addr, pvAuthorize = vqAuthorize req\<rparr>\<rparr>,
                       rpcOk (BStatus ''pending vote set''))))"

text \<open>\<^verbatim>\<open>PendingVote\<close> hands the vote out once.\<close>

definition takePendingVote :: "Server \<Rightarrow> PendingVote option \<times> Server" where
  "takePendingVote s = (pendingVote s, s\<lparr>pendingVote := None\<rparr>)"

end
