(* ===== verification/Node_Producer.thy ===== *)
theory Node_Producer
  imports Node_Chain Rpc
begin

text \<open>
  Block production: \<^verbatim>\<open>node/block_producer.go\<close>. The state adds to the node the RPC server's pending vote, the
  production timer and the blocks published so far. Go times are nanoseconds since year 1 and durations
  are signed 64-bit nanoseconds, with the wrap-around and saturation of package \<^verbatim>\<open>time\<close> written out.
  The clock readings, the random jitter and the answers of the execution client are inputs.
\<close>

section \<open>Time\<close>

definition wiggle :: int where "wiggle = 500000000"

definition second :: int where "second = 1000000000"

text \<open>Two's complement 64-bit arithmetic, and the saturation of \<^verbatim>\<open>time.Time.Sub\<close>.\<close>

definition wrap64 :: "int \<Rightarrow> int" where
  "wrap64 x = sint (word_of_int x :: u64)"

definition saturate64 :: "int \<Rightarrow> int" where
  "saturate64 x = max (- (2 ^ 63)) (min (2 ^ 63 - 1) x)"

text \<open>\<^verbatim>\<open>time.Unix(sec, 0)\<close>, \<^verbatim>\<open>Time.Add\<close> (the seconds saturate), \<^verbatim>\<open>time.Until\<close> and \<^verbatim>\<open>Time.Unix\<close>.\<close>

definition unixToInternal :: int where "unixToInternal = 62135596800"

definition unixTime :: "int \<Rightarrow> int" where
  "unixTime sec = wrap64 (sec + unixToInternal) * second"

definition addDuration :: "int \<Rightarrow> int \<Rightarrow> int" where
  "addDuration t d =
     (let s = t + d in max (- (2 ^ 63 - 1)) (min (2 ^ 63 - 1) (s div second)) * second + s mod second)"

definition timeUntil :: "int \<Rightarrow> int \<Rightarrow> int" where
  "timeUntil now t = saturate64 (t - now)"

definition unixSeconds :: "int \<Rightarrow> u64" where
  "unixSeconds t = word_of_int (t div second - unixToInternal)"

text \<open>The readings one run makes: the clock at the guard, the clock and the jitter when it schedules.\<close>

record Clock =
  ckNow :: int
  ckSched :: int
  ckJitter :: int

section \<open>Scheduling\<close>

record 's Producer =
  pdNode :: "'s Node"
  pdRpc :: Server
  pdTimer :: "int option"
  pdSent :: "CliqueBlock list"

fun indexOf :: "'a \<Rightarrow> 'a list \<Rightarrow> nat option" where
  "indexOf x [] = None"
| "indexOf x (y # ys) = (if y = x then Some 0 else map_option Suc (indexOf x ys))"

text \<open>
  The delay until production: at \<^verbatim>\<open>parent.Time + period\<close> when in turn, otherwise \<open>dist\<close> wiggles and the
  jitter later. \<^const>\<open>None\<close> when this node does not produce.
\<close>

definition productionDist :: "nat \<Rightarrow> nat \<Rightarrow> nat \<Rightarrow> int" where
  "productionDist ourIdx inTurnIdx len =
     (let dist = int ourIdx - int inTurnIdx in if dist < 0 then dist + int len else dist)"

definition productionDelay :: "u64 \<Rightarrow> header \<Rightarrow> int \<Rightarrow> int \<Rightarrow> int \<Rightarrow> int" where
  "productionDelay period head dist now jitter =
     (let baseTime = addDuration (unixTime (sint (Time head))) (wrap64 (sint period * second));
          fromBase = timeUntil now baseTime;
          delay = (if dist = 0 then fromBase
                   else wrap64 (wrap64 (max 0 fromBase + wrap64 (dist * wiggle)) + jitter))
      in max 0 delay)"

definition scheduledDelay :: "('s, 'e) EngineOps \<Rightarrow> 's Node \<Rightarrow> Clock \<Rightarrow> ('f, int option) result" where
  "scheduledDelay E n ck =
     (case (nSignerKey n, Head (nStor n)) of
        (Some _, Some head) \<Rightarrow>
          if \<not> opIsAuthorized E (nHeadSnap n) (nSignerAddr n) then Ok None
          else let signers = opSignerList E (nHeadSnap n) in
            rbind (number_of head) (\<lambda>num.
              if length signers = 0 then Panic
              else let inTurnIdx = unat (num + 1) mod length signers in
                Ok (case indexOf (nSignerAddr n) signers of
                      None \<Rightarrow> None
                    | Some ourIdx \<Rightarrow>
                        Some (productionDelay (opPeriod E) head (productionDist ourIdx inTurnIdx (length signers))
                                (ckSched ck) (ckJitter ck))))
      | _ \<Rightarrow> Ok None)"

text \<open>\<^verbatim>\<open>scheduleBlockProduction\<close>: a new timer replaces the old one; without a delay the old one stays.\<close>

definition scheduleBlockProduction ::
    "('s, 'e) EngineOps \<Rightarrow> Clock \<Rightarrow> 's Producer \<Rightarrow> 's Producer \<times> ('f, unit) result" where
  "scheduleBlockProduction E ck p =
     (case scheduledDelay E (pdNode p) ck of
        Ok None \<Rightarrow> (p, Ok ())
      | Ok (Some delay) \<Rightarrow> (p\<lparr>pdTimer := Some delay\<rparr>, Ok ())
      | Err e \<Rightarrow> (p, Err e)
      | Panic \<Rightarrow> (p, Panic))"

section \<open>Producing\<close>

datatype 'e producer_error =
    PErrNoHead | PErrNotAuthorized | PErrRecentlySigned | PErrTooEarly | PErrFCU | PErrStillSyncing | PErrCancelled
  | PErrStatus | PErrNoPayloadID | PErrGetPayload | PErrExtra 'e | PErrSeal 'e | PErrEncode
  | PErrNode "'e node_error"

type_synonym fcuAnswer = "string \<times> bytes option"

text \<open>
  The polling loop: each round either finds the deadline passed, is cancelled while it waits, or gets
  another answer. When the events are used up the loop is still waiting and the value is \<^const>\<open>None\<close>.
\<close>

datatype poll = Expired | Cancelled | Answer "fcuAnswer option"

fun awaitFCU :: "fcuAnswer \<Rightarrow> poll list \<Rightarrow> ('e producer_error, fcuAnswer) result option" where
  "awaitFCU r evs =
     (if fst r \<noteq> PayloadStatusSyncing then Some (Ok r)
      else case evs of
        [] \<Rightarrow> None
      | Expired # _ \<Rightarrow> Some (Err PErrStillSyncing)
      | Cancelled # _ \<Rightarrow> Some (Err PErrCancelled)
      | Answer None # _ \<Rightarrow> Some (Err PErrFCU)
      | Answer (Some r') # evs' \<Rightarrow> awaitFCU r' evs')"

definition buildAttributes :: "('s, 'e) EngineOps \<Rightarrow> address \<Rightarrow> u64 \<Rightarrow> PayloadAttributesV3" where
  "buildAttributes E signerAddr targetTime =
     \<lparr>paTimestamp = targetTime, paPrevRandao = zeroHash, paSuggestedFeeRecipient = signerAddr,
      paParentBeaconBlockRoot = zeroHash, paExtraData = replicate (opExtraVanity E) 0\<rparr>"

text \<open>Steps 2 and 3: start the build, wait while the execution client is syncing, fetch the payload.\<close>

definition fetchPayload :: "Env \<Rightarrow> fcuAnswer \<Rightarrow> ('e producer_error, ExecutionPayloadV3) result" where
  "fetchPayload V r =
     (if fst r \<noteq> PayloadStatusValid then Err PErrStatus
      else case snd r of
        None \<Rightarrow> Err PErrNoPayloadID
      | Some payloadID \<Rightarrow> (case elGetPayloadV3 (evEL V) payloadID of None \<Rightarrow> Err PErrGetPayload | Some ep \<Rightarrow> Ok ep))"

definition requestPayload ::
    "Env \<Rightarrow> 's Node \<Rightarrow> PayloadAttributesV3 \<Rightarrow> poll list \<Rightarrow> ('e producer_error, ExecutionPayloadV3) result option" where
  "requestPayload V n attrs evs =
     (case elForkchoiceUpdatedV3 (evEL V) (ForkchoiceState (evG V) (nStor n)) (Some attrs) of
        None \<Rightarrow> Some (Err PErrFCU)
      | Some r \<Rightarrow> map_option (\<lambda>a. rbind a (fetchPayload V)) (awaitFCU r evs))"

text \<open>\<^verbatim>\<open>types.BytesToBloom\<close>: right-aligned in 256 bytes, a panic when longer.\<close>

definition BytesToBloom :: "bytes \<Rightarrow> ('e, bytes) result" where
  "BytesToBloom bs = (if length bs > 256 then Panic else Ok (replicate (256 - length bs) 0 @ bs))"

text \<open>The vote fields: the zero address and the drop nonce unless a vote is pending.\<close>

definition voteFields :: "('s, 'e) EngineOps \<Rightarrow> PendingVote option \<Rightarrow> address \<times> bytes" where
  "voteFields E vote =
     (case vote of
        None \<Rightarrow> (zeroAddress, opNonceDrop E)
      | Some v \<Rightarrow> (pvAddress v, if pvAuthorize v then opNonceAuth E else opNonceDrop E))"

definition buildHeader ::
    "Env \<Rightarrow> ('s, 'e) EngineOps \<Rightarrow> 's Node \<Rightarrow> header \<Rightarrow> u64 \<Rightarrow> bytes \<Rightarrow> PendingVote option \<Rightarrow> ExecutionPayloadV3
      \<Rightarrow> ('f, header) result" where
  "buildHeader V E n head nextNum clExtra vote ep =
     rbind (BytesToBloom (epLogsBloom ep)) (\<lambda>bloom.
       Ok \<lparr>ParentHash = hdrHash (evG V) head, UncleHash = opEmptyUncleHash E, Coinbase = fst (voteFields E vote),
           Root = epStateRoot ep, TxHash = zeroHash, ReceiptHash = epReceiptsRoot ep, Bloom = bloom,
           Difficulty = Some (opCalcDifficulty E (nHeadSnap n) nextNum (nSignerAddr n)),
           Number = Some (uint nextNum), GasLimit = epGasLimit ep, GasUsed = epGasUsed ep,
           Time = epTimestamp ep, Extra = clExtra, MixDigest = zeroHash, Nonce = snd (voteFields E vote),
           BaseFee = epBaseFeePerGas ep, PostMerge = []\<rparr>)"

definition NewCliqueBlock :: "Env \<Rightarrow> header \<Rightarrow> ExecutionPayloadV3 \<Rightarrow> CliqueBlock option" where
  "NewCliqueBlock V h ep =
     (case (enc (evH V) h, enc (evJ V) ep) of
        (Some raw, Some json) \<Rightarrow>
          Some \<lparr>cbHeader = raw, cbExecutionPayloadHash = epBlockHash ep, cbPayloadJSON = json\<rparr>
      | _ \<Rightarrow> None)"

text \<open>Running a step of the node inside the producer.\<close>

fun liftNode ::
    "'s Producer \<Rightarrow> ('s, 'e, 'a) step \<Rightarrow> ('s Producer \<Rightarrow> 'a \<Rightarrow> ('s Producer \<times> ('e producer_error, 'b) result) option)
      \<Rightarrow> ('s Producer \<times> ('e producer_error, 'b) result) option" where
  "liftNode p None f = None"
| "liftNode p (Some (n, Ok x)) f = f (p\<lparr>pdNode := n\<rparr>) x"
| "liftNode p (Some (n, Err e)) f = Some (p\<lparr>pdNode := n\<rparr>, Err (PErrNode e))"
| "liftNode p (Some (n, Panic)) f = Some (p\<lparr>pdNode := n\<rparr>, Panic)"

text \<open>Advancing the head snapshot by one header; a header that does not apply is only logged.\<close>

definition advanceSnapshot :: "('s, 'e) EngineOps \<Rightarrow> 's Node \<Rightarrow> 's \<Rightarrow> header \<Rightarrow> ('s, 'e, unit) step" where
  "advanceSnapshot E n snap h =
     (case opApply E snap [h] of
        Ok newSnap \<Rightarrow> setHeadSnapshot E n newSnap
      | Err _ \<Rightarrow> Some (n, Ok ())
      | Panic \<Rightarrow> Some (n, Panic))"

text \<open>
  Steps 7 to 9: import into the execution client, add to the store, advance the snapshot, announce and
  reschedule. A failed fork choice update is only logged.
\<close>

definition importProduced ::
    "Env \<Rightarrow> ('s, 'e) EngineOps \<Rightarrow> Clock \<Rightarrow> 's Producer \<Rightarrow> 's \<Rightarrow> header \<Rightarrow> u64 \<Rightarrow> ExecutionPayloadV3
      \<Rightarrow> ('s Producer \<times> ('e producer_error, unit) result) option" where
  "importProduced V E ck p snap h nextNum ep =
     liftNode p (Some (pdNode p, importPayload V ep)) (\<lambda>p _.
       let epJSON = (case enc (evJ V) ep of None \<Rightarrow> [] | Some j \<Rightarrow> j) in
       liftNode p (addToStore V (pdNode p) h (epBlockHash ep) epJSON) (\<lambda>p _.
       liftNode p (advanceSnapshot E (pdNode p) snap h) (\<lambda>p _.
         Some (scheduleBlockProduction E ck (p\<lparr>pdNode := setStatus E (pdNode p) (hdrHash (evG V) h) nextNum\<rparr>)))))"

text \<open>Steps 4 to 9, once there is a payload.\<close>

definition sealAndImport ::
    "Env \<Rightarrow> ('s, 'e) EngineOps \<Rightarrow> Clock \<Rightarrow> 's Producer \<Rightarrow> header \<Rightarrow> u64 \<Rightarrow> bytes \<Rightarrow> ExecutionPayloadV3
      \<Rightarrow> ('s Producer \<times> ('e producer_error, unit) result) option" where
  "sealAndImport V E ck p head nextNum clExtra ep =
     (let n = pdNode p; (vote, srv) = takePendingVote (pdRpc p); p1 = p\<lparr>pdRpc := srv\<rparr> in
      case (nSignerKey n, buildHeader V E n head nextNum clExtra vote ep :: ('e producer_error, header) result) of
        (Some key, Ok h0) \<Rightarrow>
          (case opSealHeader E h0 key of
             Err e \<Rightarrow> Some (p1, Err (PErrSeal e))
           | Panic \<Rightarrow> Some (p1, Panic)
           | Ok h \<Rightarrow>
               (case NewCliqueBlock V h ep of
                  None \<Rightarrow> Some (p1, Err PErrEncode)
                | Some blk \<Rightarrow> importProduced V E ck (p1\<lparr>pdSent := pdSent p1 @ [blk]\<rparr>) (nHeadSnap n) h nextNum ep))
      | _ \<Rightarrow> Some (p1, Panic))"

text \<open>
  \<^verbatim>\<open>produceBlock\<close>. It ends with \<open>PErrTooEarly\<close> or \<open>PErrStillSyncing\<close> on the paths that reschedule.
\<close>

definition reschedule ::
    "('s, 'e) EngineOps \<Rightarrow> Clock \<Rightarrow> 's Producer \<Rightarrow> 'f \<Rightarrow> 's Producer \<times> ('f, unit) result" where
  "reschedule E ck p err =
     (case scheduleBlockProduction E ck p :: 's Producer \<times> ('f, unit) result of
        (p', Ok _) \<Rightarrow> (p', Err err) | (p', r) \<Rightarrow> (p', r))"

definition produceBlock ::
    "Env \<Rightarrow> ('s, 'e) EngineOps \<Rightarrow> Clock \<Rightarrow> poll list \<Rightarrow> 's Producer
      \<Rightarrow> ('s Producer \<times> ('e producer_error, unit) result) option" where
  "produceBlock V E ck evs p =
     (let n = pdNode p; snap = nHeadSnap n in
      case Head (nStor n) of
        None \<Rightarrow> Some (p, Err PErrNoHead)
      | Some head \<Rightarrow>
          (case hnum head of
             None \<Rightarrow> Some (p, Panic)
           | Some num \<Rightarrow>
               let nextNum = num + 1; targetTime = Time head + opPeriod E in
               if \<not> opIsAuthorized E snap (nSignerAddr n) then Some (p, Err PErrNotAuthorized)
               else if opHasRecentlySigned E snap nextNum (nSignerAddr n) then Some (p, Err PErrRecentlySigned)
               else if unixSeconds (ckNow ck) + 1 < targetTime then Some (reschedule E ck p PErrTooEarly)
               else (case opBuildExtra E snap nextNum of
                       Err e \<Rightarrow> Some (p, Err (PErrExtra e))
                     | Panic \<Rightarrow> Some (p, Panic)
                     | Ok clExtra \<Rightarrow>
                         (case requestPayload V n (buildAttributes E (nSignerAddr n) targetTime) evs of
                            None \<Rightarrow> None
                          | Some (Err PErrStillSyncing) \<Rightarrow> Some (reschedule E ck p PErrStillSyncing)
                          | Some (Err e) \<Rightarrow> Some (p, Err e)
                          | Some Panic \<Rightarrow> Some (p, Panic)
                          | Some (Ok ep) \<Rightarrow> sealAndImport V E ck p head nextNum clExtra ep))))"

end
