(* ===== verification/Producer_Properties.thy ===== *)
theory Producer_Properties
  imports Node_Producer Node_Properties
begin

text \<open>
  The properties of block production and of the RPC server: published blocks verify at every peer, a pending
  vote is cast by the next block, the in-turn signer is scheduled first, a QBFT validator that
  is scheduled like a Clique signer publishes a block nobody accepts, and the block endpoint.
\<close>

section \<open>What a production run leaves unchanged\<close>

lemma scheduleBlockProduction_frame:
  assumes "scheduleBlockProduction E ck p = (p', r)"
  shows "pdSent p' = pdSent p" and "pdRpc p' = pdRpc p" and "pdNode p' = pdNode p"
  using assms by (auto simp: scheduleBlockProduction_def split: result.splits option.splits)

lemma reschedule_frame:
  assumes "reschedule E ck p err = (p', r)"
  shows "pdSent p' = pdSent p" and "pdRpc p' = pdRpc p" and "pdNode p' = pdNode p"
  using assms by (auto simp: reschedule_def dest: scheduleBlockProduction_frame split: prod.splits result.splits)

lemma liftNode_Some:
  "liftNode p m f = Some (p', r) \<longleftrightarrow>
     (\<exists>n x. m = Some (n, Ok x) \<and> f (p\<lparr>pdNode := n\<rparr>) x = Some (p', r)) \<or>
     (\<exists>n e. m = Some (n, Err e) \<and> p' = p\<lparr>pdNode := n\<rparr> \<and> r = Err (PErrNode e)) \<or>
     (\<exists>n. m = Some (n, Panic) \<and> p' = p\<lparr>pdNode := n\<rparr> \<and> r = Panic)"
  by (cases "(p, m, f)" rule: liftNode.cases) auto

text \<open>The tail of the run: what it keeps, and that on success the header is in the store.\<close>

lemma AddBlock_stored:
  assumes "AddBlock G H P io s h el pj = Some (s', Ok q)"
  shows "HasBlock s' (hdrHash G h)"
proof -
  have up: "updateSafeFinalized t = Ok t' \<Longrightarrow> stBlocks t' = stBlocks t" for t t'
    by (auto simp: updateSafeFinalized_def Let_def split: option.splits if_splits)
  have re: "reorg G t oh e n = Some (Ok (t', d)) \<Longrightarrow> stBlocks t' = stBlocks t" for t oh e n t' d
    unfolding reorg_def Let_def lbind_Some_Ok by (auto dest!: up)
  have sh: "setHead G t e = Some (Ok (t', d)) \<Longrightarrow> stBlocks t' = stBlocks t" for t e t' d
    unfolding setHead_def lbind_Some_Ok
    by (cases "stHead t") (auto simp: lbind_Some_Ok dest!: up re split: if_splits)
  show ?thesis using assms
    by (auto simp: AddBlock_def Let_def HasBlock_def storeBlock_def dest!: sh
        split: option.splits if_splits result.splits)
qed

text \<open>A header whose parent is known is in the store afterwards, however the call ends.\<close>

lemma AddBlock_known_parent:
  assumes "AddBlock G H P io s h el pj = Some (s', q)" "Number h \<noteq> None" "Difficulty h \<noteq> None" "HasBlock s (ParentHash h)"
  shows "HasBlock s' (hdrHash G h)"
proof (cases q)
  case (Ok x)
  then show ?thesis using assms(1) AddBlock_stored by blast
qed (use assms in \<open>auto simp: AddBlock_def Let_def HasBlock_def storeBlock_def
        split: option.splits if_splits result.splits\<close>)

lemma importProduced_frame:
  assumes "importProduced V E ck p snap h nextNum ep = Some (p', r)"
  shows "pdSent p' = pdSent p" and "pdRpc p' = pdRpc p"
  using assms unfolding importProduced_def Let_def liftNode_Some
  by (auto simp: liftNode_Some dest: scheduleBlockProduction_frame)

lemma advanceSnapshot_store: "advanceSnapshot E n snap h = Some (n', r) \<Longrightarrow> nStor n' = nStor n"
  by (auto simp: advanceSnapshot_def dest: setHeadSnapshot_store split: result.splits)

lemma importProduced_stored:
  fixes E :: "('s, 'e) EngineOps"
  assumes "importProduced V E ck p snap h nextNum ep = Some (p', Ok ())"
  shows "HasBlock (nStor (pdNode p')) (hdrHash (evG V) h)"
proof -
  from assms obtain n1 n2 x and u :: unit where
      n1: "(addToStore V (pdNode p) h (epBlockHash ep) (case enc (evJ V) ep of None \<Rightarrow> [] | Some j \<Rightarrow> j) :: ('s, 'e, bool \<times> u64) step)
        = Some (n1, Ok x)"
    and "advanceSnapshot E n1 snap h = Some (n2, Ok u)" "pdNode p' = setStatus E n2 (hdrHash (evG V) h) nextNum"
    unfolding importProduced_def Let_def
    by (auto simp: liftNode_Some dest!: scheduleBlockProduction_frame(3))
  note n2 = advanceSnapshot_store [OF this(2)] this(3)
  from n1 have "HasBlock (nStor n1) (hdrHash (evG V) h)" by (auto simp: addToStore_Some dest: AddBlock_stored)
  then show ?thesis by (simp add: n2 setStatus_def)
qed

text \<open>How a block comes to be published.\<close>

lemma produceBlock_sent:
  fixes E :: "('s, 'e) EngineOps"
  assumes "produceBlock V E ck evs p = Some (p', r)" "pdSent p' = pdSent p @ [blk]"
    and "Head (nStor (pdNode p)) = Some head" "hnum head = Some num"
  obtains clExtra ep key h0 h payloadID where
    "opIsAuthorized E (nHeadSnap (pdNode p)) (nSignerAddr (pdNode p))"
    "\<not> opHasRecentlySigned E (nHeadSnap (pdNode p)) (num + 1) (nSignerAddr (pdNode p))"
    "opBuildExtra E (nHeadSnap (pdNode p)) (num + 1) = Ok clExtra"
    "elGetPayloadV3 (evEL V) payloadID = Some ep" "nSignerKey (pdNode p) = Some key"
    "(buildHeader V E (pdNode p) head (num + 1) clExtra (pendingVote (pdRpc p)) ep :: ('e producer_error, header) result) = Ok h0"
    "opSealHeader E h0 key = Ok h" "NewCliqueBlock V h ep = Some blk"
    "pendingVote (pdRpc p') = None" "r = Ok () \<Longrightarrow> HasBlock (nStor (pdNode p')) (hdrHash (evG V) h)"
proof -
  let ?n = "pdNode p" and ?E = "nHeadSnap (pdNode p)"
  have ne: "pdSent p' \<noteq> pdSent p" using assms(2) by simp
  note run = assms(1) [unfolded produceBlock_def Let_def assms(3,4) option.case]
  from run ne obtain clExtra ep where c: "opIsAuthorized E ?E (nSignerAddr ?n)"
    "\<not> opHasRecentlySigned E ?E (num + 1) (nSignerAddr ?n)" "opBuildExtra E ?E (num + 1) = Ok clExtra"
    "(requestPayload V ?n (buildAttributes E (nSignerAddr ?n) (Time head + opPeriod E)) evs :: ('e producer_error, ExecutionPayloadV3) result option)
       = Some (Ok ep)"
    and si: "sealAndImport V E ck p head (num + 1) clExtra ep = Some (p', r)"
    by (auto dest: reschedule_frame split: if_splits result.splits option.splits producer_error.splits)
  from c(4) obtain payloadID where pid: "elGetPayloadV3 (evEL V) payloadID = Some ep"
    by (auto simp: requestPayload_def fetchPayload_def split: option.splits if_splits)
  from si ne obtain key h0 h b where k: "nSignerKey ?n = Some key"
    "(buildHeader V E ?n head (num + 1) clExtra (pendingVote (pdRpc p)) ep :: ('e producer_error, header) result) = Ok h0"
    "opSealHeader E h0 key = Ok h" "NewCliqueBlock V h ep = Some b"
    and imp: "importProduced V E ck (p\<lparr>pdRpc := (pdRpc p)\<lparr>pendingVote := None\<rparr>, pdSent := pdSent p @ [b]\<rparr>) ?E h (num + 1) ep = Some (p', r)"
    by (auto simp: sealAndImport_def Let_def takePendingVote_def split: option.splits result.splits)
  have "b = blk" "pendingVote (pdRpc p') = None" using importProduced_frame [OF imp] assms(2) by simp_all
  moreover have "HasBlock (nStor (pdNode p')) (hdrHash (evG V) h)" if "r = Ok ()"
    using importProduced_stored [OF imp [unfolded that]] .
  ultimately show thesis using that c pid k by blast
qed

section \<open>Published blocks\<close>

lemma NewCliqueBlock_dec:
  assumes "NewCliqueBlock V h ep = Some blk" "\<forall>h b. enc (evH V) h = Some b \<longrightarrow> dec (evH V) b = Some h"
  shows "dec (evH V) (cbHeader blk) = Some h"
  using assms by (auto simp: NewCliqueBlock_def split: option.splits prod.splits)

lemma buildHeader_fields:
  assumes "buildHeader V E n head nextNum clExtra vote ep = Ok h"
  shows "ParentHash h = hdrHash (evG V) head" and "UncleHash h = opEmptyUncleHash E" and "Extra h = clExtra"
    and "MixDigest h = zeroHash" and "Time h = epTimestamp ep" and "hnum h = Some nextNum" and "Number h = Some (uint nextNum)"
    and "Difficulty h = Some (opCalcDifficulty E (nHeadSnap n) nextNum (nSignerAddr n))"
    and "Coinbase h = fst (voteFields E vote)" and "Nonce h = snd (voteFields E vote)"
proof -
  have "Uint64 (uint nextNum) = nextNum" by (simp add: Uint64_def)
  then show "hnum h = Some nextNum" using assms by (auto simp: buildHeader_def hnum_def)
qed (use assms in \<open>auto simp: buildHeader_def\<close>)

lemma cliqueOps_simps [simp]:
  "opIsAuthorized (cliqueOps G e) = IsAuthorized" "opHasRecentlySigned (cliqueOps G e) = HasRecentlySigned"
  "opBuildExtra (cliqueOps G e) = BuildExtra e" "opSealHeader (cliqueOps G e) = SealHeader G"
  "opCalcDifficulty (cliqueOps G e) = CalcDifficulty" "opEmptyUncleHash (cliqueOps G e) = emptyUncleHash G"
  "opNonceAuth (cliqueOps G e) = nonceAuth" "opNonceDrop (cliqueOps G e) = nonceNull" "opVerifyHeader (cliqueOps G e) = VerifyHeader G e"
  "opSignerList (cliqueOps G e) = SignerList" "opPeriod (cliqueOps G e) = clPeriod e" "opEpoch (cliqueOps G e) = clEpoch e"
  by (simp_all add: cliqueOps_def)

text \<open>A peer that knows the parent and computes the same snapshot at it stores a header that verifies.\<close>

lemma handleBlock_accepts:
  assumes run: "handleBlock W E m blk = Some (m', q)" and "\<not> nSyncing m"
    and h: "dec (evH W) (cbHeader blk) = Some h" "Number h \<noteq> None" "Difficulty h \<noteq> None"
    and par: "GetByHash (nStor m) (ParentHash h) = Some parent" "computeSnapshotAt (evG W) E m parent = Some (m1, Ok snap)"
    and ver: "opVerifyHeader E snap h (Some parent) = Ok ()"
  shows "HasBlock (nStor m') (hdrHash (evG W) h)"
proof -
  obtain num where num: "hnum h = Some num" using h(2) by (auto simp: hnum_def)
  have st: "nStor m1 = nStor m" using computeSnapshotAt_store [OF par(2)] .
  from run have "nbind (addToStore W m1 h (cbExecutionPayloadHash blk) (cbPayloadJSON blk)) (\<lambda>n (headChanged, reorgDepth).
      if \<not> headChanged then Some (n, Ok False)
      else deliverHead W E (if reorgDepth > 0 then n\<lparr>nEpochSnaps := Map.empty\<rparr> else n) h num blk) = Some (m', q)"
    using assms(2) by (simp add: handleBlock_def h(1) num par ver)
  then have "\<exists>r. AddBlock (evG W) (evH W) (evP W) (evIO W) (nStor m1) h (cbExecutionPayloadHash blk) (cbPayloadJSON blk) = Some (nStor m', r)"
    by (rule addToStore_then) (auto dest: deliverHead_store split: if_splits prod.splits)
  moreover have "HasBlock (nStor m1) (ParentHash h)" using par(1) st by (auto simp: HasBlock_def GetByHash_def split: option.splits)
  ultimately show ?thesis using h(2,3) AddBlock_known_parent by blast
qed

text \<open>
  C11. Published blocks are valid. Whatever the pending vote and however long the execution client synced,
  a block a Clique signer publishes decodes to a header that passes \<^verbatim>\<open>VerifyHeader\<close> against the producer's head
  and snapshot, and any peer that is not syncing, has that head and computes the same snapshot at
  it has the block in its store after handling it. Assumed: payloads carry the requested timestamp,
  signatures recover, and decoding inverts the header encoding.
\<close>

theorem producer_block_verifies:
  assumes "produceBlock V (cliqueOps (evG V) e) ck evs p = Some (p', r)" and "pdSent p' = pdSent p @ [blk]"
    and "Head (nStor (pdNode p)) = Some head" and "hnum head = Some num"
    and "nSignerKey (pdNode p) = Some k" and "nSignerAddr (pdNode p) = key_address (evG V) k" and "ecdsa_ok (evG V) k"
    and "addresses_ok (nHeadSnap (pdNode p))"
    and "\<forall>v. pendingVote (pdRpc p) = Some v \<longrightarrow> pvAddress v \<noteq> zeroAddress"
    and "\<forall>i ep. elGetPayloadV3 (evEL V) i = Some ep \<longrightarrow> epTimestamp ep = Time head + clPeriod e"
    and "\<forall>h b. enc (evH V) h = Some b \<longrightarrow> dec (evH V) b = Some h"
  shows "\<exists>h. dec (evH V) (cbHeader blk) = Some h \<and>
           VerifyHeader (evG V) e (nHeadSnap (pdNode p)) h (Some head) = Ok () \<and>
           (\<forall>W m m1 m' q. evG W = evG V \<and> evH W = evH V \<and> \<not> nSyncing m \<and>
              GetByHash (nStor m) (hdrHash (evG V) head) = Some head \<and>
              computeSnapshotAt (evG V) (cliqueOps (evG V) e) m head = Some (m1, Ok (nHeadSnap (pdNode p))) \<and>
              handleBlock W (cliqueOps (evG V) e) m blk = Some (m', q) \<longrightarrow> HasBlock (nStor m') (hdrHash (evG V) h))"
proof -
  let ?snap = "nHeadSnap (pdNode p)"
  obtain clExtra ep h0 h i where
    b: "IsAuthorized ?snap (key_address (evG V) k)" "\<not> HasRecentlySigned ?snap (num + 1) (key_address (evG V) k)"
       "BuildExtra e ?snap (num + 1) = Ok clExtra" "elGetPayloadV3 (evEL V) i = Some ep"
    and h0: "(buildHeader V (cliqueOps (evG V) e) (pdNode p) head (num + 1) clExtra (pendingVote (pdRpc p)) ep
          :: (clique_error producer_error, header) result) = Ok h0"
    and h: "SealHeader (evG V) h0 k = Ok h" "NewCliqueBlock V h ep = Some blk"
    by (rule produceBlock_sent [OF assms(1-4)], rule that) (auto simp: assms(5,6))
  note f = buildHeader_fields [OF h0, simplified]
  have "Nonce h0 = nonceNull \<or> Nonce h0 = nonceAuth \<and> Coinbase h0 \<noteq> zeroAddress"
    using f assms(9) by (auto simp: voteFields_def split: option.splits)
  from produced_verifies [OF _ assms(8) _ b(2) f(6) f(2) f(4) this _ _ h(1) assms(7), of e "Some head"]
  have ver: "VerifyHeader (evG V) e ?snap h (Some head) = Ok ()"
    using b f assms(6,10) by (simp add: IsAuthorized_def)
  have fr: "ParentHash h = hdrHash (evG V) head" "Number h \<noteq> None" "Difficulty h \<noteq> None"
    using SealHeader_shape [OF h(1) assms(7)] f by auto
  have dec: "dec (evH V) (cbHeader blk) = Some h" using NewCliqueBlock_dec [OF h(2) assms(11)] .
  then show ?thesis using ver fr handleBlock_accepts [where E = "cliqueOps (evG V) e"] by (intro exI [of _ h]) fastforce
qed

section \<open>A concrete producer\<close>

text \<open>
  The network of \<open>ndOps\<close> with the key of signer 1 and a pending vote. The header codec knows the one
  block that is produced; the execution client returns a payload at once.
\<close>

definition ppVote :: PendingVote where
  "ppVote = \<lparr>pvAddress = demoAddr 5, pvAuthorize = True\<rparr>"

definition ppPayload :: ExecutionPayloadV3 where
  "ppPayload = ndPayload\<lparr>epStateRoot := [3], epReceiptsRoot := [4]\<rparr>"

definition ppUnsealed :: header where
  "ppUnsealed = \<lparr>ParentHash = [0], UncleHash = [1], Coinbase = demoAddr 5, Root = [3], TxHash = zeroHash, ReceiptHash = [4],
     Bloom = replicate 256 0, Difficulty = Some 1, Number = Some 1, GasLimit = 0, GasUsed = 0, Time = 0,
     Extra = replicate 97 0, MixDigest = zeroHash, Nonce = nonceAuth, BaseFee = None, PostMerge = []\<rparr>"

definition ppHeader :: header where "ppHeader = ndSealed ppUnsealed 1"

definition ppEnc :: "header \<Rightarrow> bytes option" where "ppEnc h = (if h = ppHeader then Some [1] else None)"
definition ppDec :: "bytes \<Rightarrow> header option" where "ppDec b = (if b = [1] then Some ppHeader else None)"
definition ppFCU :: "ForkchoiceStateV1 \<Rightarrow> PayloadAttributesV3 option \<Rightarrow> (string \<times> bytes option) option" where
  "ppFCU s a = Some (PayloadStatusValid, Some [7])"
definition ppGetPayload :: "bytes \<Rightarrow> ExecutionPayloadV3 option" where "ppGetPayload i = Some ppPayload"

definition ppEnv :: Env where
  "ppEnv = ndEnv\<lparr>evH := \<lparr>enc = ppEnc, dec = ppDec\<rparr>,
     evEL := ndEL\<lparr>elForkchoiceUpdatedV3 := ppFCU, elGetPayloadV3 := ppGetPayload\<rparr>\<rparr>"

definition ppClock :: Clock where
  "ppClock = \<lparr>ckNow = unixToInternal * second, ckSched = unixToInternal * second, ckJitter = 0\<rparr>"

definition ppStart :: "(clique_error, Snapshot Producer) result" where
  "ppStart = rbind (newNode ndOps ndG ndGenesis 1 (Some (demoAddr 1))) (\<lambda>n.
     Ok \<lparr>pdNode = n, pdRpc = \<lparr>pendingVote = Some ppVote\<rparr>, pdTimer = None, pdSent = []\<rparr>)"

definition ppBlock :: CliqueBlock where
  "ppBlock = \<lparr>cbHeader = [1], cbExecutionPayloadHash = [], cbPayloadJSON = []\<rparr>"

lemma nd_ecdsa_ok: "ecdsa_ok ndG k"
  using demo_ecdsa_ok by (simp add: ecdsa_ok_def ndG_def)

lemma ppStart_run:
  "(case ppStart of Ok p \<Rightarrow> (case produceBlock ppEnv ndOps ppClock [] p of
      Some (p', r) \<Rightarrow> pdSent p' = [ppBlock] \<and> r = Ok () \<and> pdTimer p' = Some 0 \<and>
        Head (nStor (pdNode p)) = Some ndGenesis \<and> nSignerKey (pdNode p) = Some (demoAddr 1) \<and>
        nSignerAddr (pdNode p) = demoAddr 1 \<and> Signers (nHeadSnap (pdNode p)) = {demoAddr 1, demoAddr 2} \<and>
        pendingVote (pdRpc p) = Some ppVote
    | None \<Rightarrow> False) | _ \<Rightarrow> False)"
  by code_simp

lemma ppStart_obtain:
  obtains p p' where "produceBlock ppEnv ndOps ppClock [] p = Some (p', Ok ())" "pdSent p = []" "pdSent p' = [ppBlock]"
    "Head (nStor (pdNode p)) = Some ndGenesis" "nSignerKey (pdNode p) = Some (demoAddr 1)"
    "nSignerAddr (pdNode p) = demoAddr 1" "Signers (nHeadSnap (pdNode p)) = {demoAddr 1, demoAddr 2}"
    "pdRpc p = \<lparr>pendingVote = Some ppVote\<rparr>"
proof -
  from ppStart_run obtain p p' where *: "ppStart = Ok p" "produceBlock ppEnv ndOps ppClock [] p = Some (p', Ok ())" "pdSent p' = [ppBlock]"
    "Head (nStor (pdNode p)) = Some ndGenesis" "nSignerKey (pdNode p) = Some (demoAddr 1)"
    "nSignerAddr (pdNode p) = demoAddr 1" "Signers (nHeadSnap (pdNode p)) = {demoAddr 1, demoAddr 2}"
    by (auto split: result.splits option.splits prod.splits)
  have "pdSent p = []" "pdRpc p = \<lparr>pendingVote = Some ppVote\<rparr>" using *(1) by (auto simp: ppStart_def)
  with * show thesis by (intro that [of p p'])
qed

lemma ppEnv_simps [simp]:
  "evG ppEnv = ndG" "enc (evH ppEnv) = ppEnc" "dec (evH ppEnv) = ppDec" "elGetPayloadV3 (evEL ppEnv) = ppGetPayload"
  by (simp_all add: ppEnv_def ndEnv_def)

lemma ppEnv_facts:
  "\<forall>h b. enc (evH ppEnv) h = Some b \<longrightarrow> dec (evH ppEnv) b = Some h"
  "\<forall>i ep. elGetPayloadV3 (evEL ppEnv) i = Some ep \<longrightarrow> epTimestamp ep = Time ndGenesis + clPeriod ndEngine"
  "hnum ndGenesis = Some 0" "key_address ndG (demoAddr 1) = demoAddr 1" "demoAddr 5 \<noteq> zeroAddress"
proof -
  show "\<forall>h b. enc (evH ppEnv) h = Some b \<longrightarrow> dec (evH ppEnv) b = Some h" by (simp add: ppEnc_def ppDec_def)
  have "epTimestamp ppPayload = Time ndGenesis + clPeriod ndEngine" by code_simp
  then show "\<forall>i ep. elGetPayloadV3 (evEL ppEnv) i = Some ep \<longrightarrow> epTimestamp ep = Time ndGenesis + clPeriod ndEngine"
    by (simp add: ppGetPayload_def)
qed code_simp+

theorem producer_block_verifies_witness:
  "\<exists>p p'. produceBlock ppEnv ndOps ppClock [] p = Some (p', Ok ()) \<and> pdSent p' = pdSent p @ [ppBlock] \<and>
     VerifyHeader ndG ndEngine (nHeadSnap (pdNode p)) ppHeader (Some ndGenesis) = Ok ()"
proof -
  obtain p p' where p: "produceBlock ppEnv ndOps ppClock [] p = Some (p', Ok ())" "pdSent p = []" "pdSent p' = [ppBlock]"
    "Head (nStor (pdNode p)) = Some ndGenesis" "nSignerKey (pdNode p) = Some (demoAddr 1)"
    "nSignerAddr (pdNode p) = demoAddr 1" "Signers (nHeadSnap (pdNode p)) = {demoAddr 1, demoAddr 2}"
    "pdRpc p = \<lparr>pendingVote = Some ppVote\<rparr>" by (rule ppStart_obtain)
  have run: "produceBlock ppEnv (cliqueOps (evG ppEnv) ndEngine) ppClock [] p = Some (p', Ok ())" using p(1) by (simp add: ndOps_def)
  have "addresses_ok (nHeadSnap (pdNode p))" by (simp add: addresses_ok_def p(7) demoAddr_def)
  moreover have "dec (evH ppEnv) (cbHeader ppBlock) = Some ppHeader" by (simp add: ppBlock_def ppDec_def)
  ultimately have "VerifyHeader ndG ndEngine (nHeadSnap (pdNode p)) ppHeader (Some ndGenesis) = Ok ()"
    using producer_block_verifies [OF run _ p(4) ppEnv_facts(3) p(5) _ _ _ _ ppEnv_facts(2,1), of ppBlock] p nd_ecdsa_ok ppEnv_facts(4,5)
    by (auto simp: ppVote_def)
  then show ?thesis using p(1-3) by (intro exI [of _ p] exI [of _ p']) simp
qed

text \<open>
  C28. A vote posted to the RPC server is cast by the next block. If the request was accepted, the next
  block a Clique signer publishes carries exactly that vote, and the vote is not used again. On an epoch
  block the vote is consumed and lost: the header carries it and no snapshot counts it.
\<close>

theorem producer_casts_posted_vote:
  assumes "handleCliqueVote L srv (Some reqBody) = (pdRpc p, (Ok (200, resp) :: (unit, response) result))"
    and "\<forall>s. IsHexAddress L s \<and> HexToAddress L s = zeroAddress \<longrightarrow> \<not> nonZeroHexAddress s"
    and "produceBlock V (cliqueOps (evG V) e) ck evs p = Some (p', r)" and "pdSent p' = pdSent p @ [blk]"
    and "Head (nStor (pdNode p)) = Some head" and "hnum head = Some num"
    and "nSignerKey (pdNode p) = Some k" and "ecdsa_ok (evG V) k"
    and "\<forall>h b. enc (evH V) h = Some b \<longrightarrow> dec (evH V) b = Some h"
  shows "\<exists>req h. voteRequestJSON L (take 512 reqBody) = Inr req \<and> dec (evH V) (cbHeader blk) = Some h \<and>
           headerVote (clEpoch e) (num + 1) h =
             (if (num + 1) mod clEpoch e = 0 then None else Some (HexToAddress L (vqAddress req), vqAuthorize req)) \<and>
           pendingVote (pdRpc p') = None"
proof -
  from assms(1) obtain req where req: "voteRequestJSON L (take 512 reqBody) = Inr req"
    "HexToAddress L (vqAddress req) \<noteq> zeroAddress"
    "srv\<lparr>pendingVote := Some \<lparr>pvAddress = HexToAddress L (vqAddress req), pvAuthorize = vqAuthorize req\<rparr>\<rparr> = pdRpc p"
    using assms(2) by (auto simp: handleCliqueVote_def writeError_def Let_def split: option.splits sum.splits if_splits)
  obtain clExtra ep h0 h where
    h0: "(buildHeader V (cliqueOps (evG V) e) (pdNode p) head (num + 1) clExtra (pendingVote (pdRpc p)) ep
          :: (clique_error producer_error, header) result) = Ok h0"
    and h: "SealHeader (evG V) h0 k = Ok h" "NewCliqueBlock V h ep = Some blk" and none: "pendingVote (pdRpc p') = None"
    by (rule produceBlock_sent [OF assms(3-6)], rule that) (auto simp: assms(7))
  note f = buildHeader_fields [OF h0, simplified]
  have n: "be_uint64 nonceAuth = nonceAuthUint64" "be_uint64 nonceNull = nonceDropUint64" "nonceDropUint64 \<noteq> nonceAuthUint64"
    by code_simp+
  have "Coinbase h = HexToAddress L (vqAddress req)" "Nonce h = (if vqAuthorize req then nonceAuth else nonceNull)"
    using SealHeader_frame [OF h(1) assms(8)] f by (simp_all add: req(3) [symmetric] voteFields_def)
  then have "headerVote (clEpoch e) (num + 1) h =
      (if (num + 1) mod clEpoch e = 0 then None else Some (HexToAddress L (vqAddress req), vqAuthorize req))"
    using req(2) n by (simp add: headerVote_def Let_def)
  then show ?thesis using req(1) NewCliqueBlock_dec [OF h(2) assms(9)] none by blast
qed

definition ppRequest :: "bytes \<Rightarrow> string + VoteRequest" where
  "ppRequest b = Inr \<lparr>vqAddress = ''5'', vqAuthorize = True\<rparr>"

definition ppLib :: rpcLib where
  "ppLib = \<lparr>hashHex = hexBytes, IsHexAddress = (\<lambda>s. s = ''5''), HexToAddress = (\<lambda>s. demoAddr 5), voteRequestJSON = ppRequest\<rparr>"

theorem producer_casts_posted_vote_witness:
  "\<exists>p p' resp. handleCliqueVote ppLib \<lparr>pendingVote = None\<rparr> (Some []) = (pdRpc p, (Ok (200, resp) :: (unit, response) result)) \<and>
     produceBlock ppEnv ndOps ppClock [] p = Some (p', Ok ()) \<and>
     headerVote (clEpoch ndEngine) 1 ppHeader = Some (demoAddr 5, True) \<and> pendingVote (pdRpc p') = None"
proof -
  obtain p p' where p: "produceBlock ppEnv ndOps ppClock [] p = Some (p', Ok ())" "pdSent p = []" "pdSent p' = [ppBlock]"
    "Head (nStor (pdNode p)) = Some ndGenesis" "nSignerKey (pdNode p) = Some (demoAddr 1)"
    "nSignerAddr (pdNode p) = demoAddr 1" "Signers (nHeadSnap (pdNode p)) = {demoAddr 1, demoAddr 2}"
    "pdRpc p = \<lparr>pendingVote = Some ppVote\<rparr>" by (rule ppStart_obtain)
  have run: "produceBlock ppEnv (cliqueOps (evG ppEnv) ndEngine) ppClock [] p = Some (p', Ok ())" using p(1) by (simp add: ndOps_def)
  let ?resp = "BStatus ''pending vote set''"
  have post: "handleCliqueVote ppLib \<lparr>pendingVote = None\<rparr> (Some []) = (pdRpc p, (Ok (200, ?resp) :: (unit, response) result))"
    using ppEnv_facts(5) by (simp add: p(8) handleCliqueVote_def ppLib_def ppRequest_def ppVote_def rpcOk_def)
  have "\<forall>s. IsHexAddress ppLib s \<and> HexToAddress ppLib s = zeroAddress \<longrightarrow> \<not> nonZeroHexAddress s"
    using ppEnv_facts(5) by (simp add: ppLib_def)
  from producer_casts_posted_vote [OF post this run _ p(4) ppEnv_facts(3) p(5) _ ppEnv_facts(1), of ppBlock] p(2,3) nd_ecdsa_ok
  have *: "headerVote (clEpoch ndEngine) 1 ppHeader = (if 1 mod clEpoch ndEngine = 0 then None else Some (demoAddr 5, True))"
    "pendingVote (pdRpc p') = None"
    by (auto simp: ppBlock_def ppDec_def ppLib_def ppRequest_def)
  have "(1 :: u64) mod clEpoch ndEngine \<noteq> 0" by code_simp
  then show ?thesis using post p(1) * by (intro exI [of _ p] exI [of _ p'] exI [of _ ?resp]) simp
qed

section \<open>Scheduling\<close>

lemma indexOf_Some: "indexOf x xs = Some i \<Longrightarrow> i < length xs \<and> xs ! i = x"
  by (induction xs arbitrary: i) (auto split: if_splits)

lemma indexOf_mem: "x \<in> set xs \<Longrightarrow> \<exists>i. indexOf x xs = Some i"
  by (induction xs) auto

lemma wrap64_small: "- (2 ^ 63) \<le> x \<Longrightarrow> x < 2 ^ 63 \<Longrightarrow> wrap64 x = x"
  by (simp add: wrap64_def sint_sbintrunc' signed_take_bit_int_eq_self)

lemma productionDelay_out_of_turn:
  assumes "1 \<le> dist" "dist \<le> 2 ^ 32" "0 \<le> jitter" "jitter < wiggle"
    and "timeUntil now (addDuration (unixTime (sint (Time head))) (wrap64 (sint period * second))) \<le> 2 ^ 62"
  shows "productionDelay period head 0 now j + wiggle \<le> productionDelay period head dist now jitter"
proof -
  let ?f = "timeUntil now (addDuration (unixTime (sint (Time head))) (wrap64 (sint period * second)))"
  have d: "wiggle \<le> dist * wiggle" "dist * wiggle \<le> 2 ^ 32 * wiggle" "0 \<le> dist * wiggle"
    using assms(1,2) by (simp_all add: wiggle_def)
  have w: "wrap64 (dist * wiggle) = dist * wiggle"
    by (rule wrap64_small) (use d in \<open>simp_all add: wiggle_def\<close>)
  have s: "wrap64 (max 0 ?f + dist * wiggle) = max 0 ?f + dist * wiggle"
    by (rule wrap64_small) (use d assms(5) in \<open>simp_all add: wiggle_def\<close>)
  have "wrap64 (max 0 ?f + dist * wiggle + jitter) = max 0 ?f + dist * wiggle + jitter"
    by (rule wrap64_small) (use d assms(3-5) in \<open>simp_all add: wiggle_def\<close>)
  then show ?thesis using assms(1,3) d unfolding productionDelay_def Let_def w s by simp
qed

lemma scheduledDelay_Some:
  assumes "scheduledDelay E n ck = Ok (Some d)" "Head (nStor n) = Some head" "hnum head = Some num"
  obtains i where "indexOf (nSignerAddr n) (opSignerList E (nHeadSnap n)) = Some i"
    "d = productionDelay (opPeriod E) head (productionDist i (unat (num + 1) mod length (opSignerList E (nHeadSnap n)))
           (length (opSignerList E (nHeadSnap n)))) (ckSched ck) (ckJitter ck)"
  using assms by (auto simp: scheduledDelay_def Let_def split: option.splits if_splits)

lemma productionDist_range:
  assumes "i < len" "t < len"
  shows "0 \<le> productionDist i t len \<and> productionDist i t len < int len \<and> (productionDist i t len = 0 \<longleftrightarrow> i = t)"
  using assms by (auto simp: productionDist_def Let_def)

text \<open>
  C25. The in-turn signer goes first. When two Clique nodes with the same head and snapshot schedule at the same
  clock reading, one in turn and one not, the second waits at least 500 ms longer, for any
  jitter, as long as there are at most \<open>2 ^ 32\<close> signers and the slot is less than 146 years away.
\<close>

theorem producer_in_turn_first:
  assumes "Head (nStor n) = Some head" and "Head (nStor m) = Some head" and "hnum head = Some num"
    and "nHeadSnap n = snap" and "nHeadSnap m = snap" and "clique_wf snap"
    and "InTurn snap (num + 1) (nSignerAddr n)" and "\<not> InTurn snap (num + 1) (nSignerAddr m)"
    and "scheduledDelay (cliqueOps G e) n ck = (Ok (Some d) :: (unit, int option) result)"
    and "scheduledDelay (cliqueOps G e) m ck' = (Ok (Some d') :: (unit, int option) result)"
    and "ckSched ck = ckSched ck'" and "0 \<le> ckJitter ck'" and "ckJitter ck' < wiggle"
    and "length (SignerList snap) \<le> 2 ^ 32"
    and "timeUntil (ckSched ck) (addDuration (unixTime (sint (Time head))) (wrap64 (sint (clPeriod e) * second))) \<le> 2 ^ 62"
  shows "d + wiggle \<le> d'"
proof -
  let ?l = "SignerList snap" and ?t = "unat (num + 1) mod length (SignerList snap)"
  note del = scheduledDelay_Some [OF assms(9,1,3), simplified] scheduledDelay_Some [OF assms(10,2,3), simplified]
  obtain i where i: "indexOf (nSignerAddr n) ?l = Some i"
    "d = productionDelay (clPeriod e) head (productionDist i ?t (length ?l)) (ckSched ck) (ckJitter ck)"
    using del(1) assms(4) by metis
  obtain j where j: "indexOf (nSignerAddr m) ?l = Some j"
    "d' = productionDelay (clPeriod e) head (productionDist j ?t (length ?l)) (ckSched ck) (ckJitter ck')"
    using del(2) assms(5,11) by metis
  note ij = indexOf_Some [OF i(1)] indexOf_Some [OF j(1)]
  have t: "?t < length ?l" using ij by (intro mod_less_divisor) linarith
  have turn: "?l ! ?t = nSignerAddr n" "?l ! ?t \<noteq> nSignerAddr m"
    using assms(7,8) t ij by (auto simp: clq.in_turn_position [OF assms(6)])
  have "i = ?t" using ij(1) t turn(1) clq.signer_list_distinct [OF assms(6)] by (metis nth_eq_iff_index_eq)
  then have d: "d = productionDelay (clPeriod e) head 0 (ckSched ck) (ckJitter ck)"
    using i(2) productionDist_range [OF _ t, of i] t by simp
  have len: "int (length ?l) \<le> 2 ^ 32" using assms(14) by simp
  have "j \<noteq> ?t" using ij(2) turn(2) by metis
  then have "1 \<le> productionDist j ?t (length ?l)" "productionDist j ?t (length ?l) \<le> 2 ^ 32"
    using productionDist_range [OF conjunct1 [OF ij(2)] t] len by linarith+
  from productionDelay_out_of_turn [OF this assms(12,13,15)] show ?thesis unfolding d j(2) .
qed

theorem producer_in_turn_first_witness:
  "\<exists>n m d d'. newNode ndOps ndG ndGenesis 1 (Some (demoAddr 2)) = (Ok n :: (clique_error, Snapshot Node) result) \<and>
     newNode ndOps ndG ndGenesis 1 (Some (demoAddr 1)) = (Ok m :: (clique_error, Snapshot Node) result) \<and>
     scheduledDelay ndOps n ppClock = (Ok (Some d) :: (unit, int option) result) \<and>
     scheduledDelay ndOps m ppClock = (Ok (Some d') :: (unit, int option) result) \<and> d + wiggle \<le> d'"
proof -
  have "(case newNode ndOps ndG ndGenesis 1 (Some (demoAddr 2)) of
      Ok n \<Rightarrow> Head (nStor n) = Some ndGenesis \<and> SignerList (nHeadSnap n) = [demoAddr 1, demoAddr 2] \<and>
        Signers (nHeadSnap n) = {demoAddr 1, demoAddr 2} \<and> InTurn (nHeadSnap n) 1 (nSignerAddr n) \<and>
        (scheduledDelay ndOps n ppClock :: (unit, int option) result) = Ok (Some 0)
    | _ \<Rightarrow> False)" by code_simp
  then obtain n where n: "newNode ndOps ndG ndGenesis 1 (Some (demoAddr 2)) = (Ok n :: (clique_error, Snapshot Node) result)"
    "Head (nStor n) = Some ndGenesis" "SignerList (nHeadSnap n) = [demoAddr 1, demoAddr 2]" "Signers (nHeadSnap n) = {demoAddr 1, demoAddr 2}"
    "InTurn (nHeadSnap n) 1 (nSignerAddr n)" "scheduledDelay ndOps n ppClock = (Ok (Some 0) :: (unit, int option) result)"
    by (auto split: result.splits)
  have "(case newNode ndOps ndG ndGenesis 1 (Some (demoAddr 1)) of
      Ok m \<Rightarrow> Head (nStor m) = Some ndGenesis \<and> \<not> InTurn (nHeadSnap m) 1 (nSignerAddr m) \<and>
        (scheduledDelay ndOps m ppClock :: (unit, int option) result) = Ok (Some 500000000)
    | _ \<Rightarrow> False)" by code_simp
  then obtain m where m: "newNode ndOps ndG ndGenesis 1 (Some (demoAddr 1)) = (Ok m :: (clique_error, Snapshot Node) result)"
    "Head (nStor m) = Some ndGenesis" "\<not> InTurn (nHeadSnap m) 1 (nSignerAddr m)"
    "scheduledDelay ndOps m ppClock = (Ok (Some 500000000) :: (unit, int option) result)"
    by (auto split: result.splits)
  have snap: "nHeadSnap m = nHeadSnap n" using n(1) m(1) by (auto simp: newNode_def)
  have wf: "clique_wf (nHeadSnap n)" by (simp add: clique_wf_def n(4) demoAddr_def)
  have "timeUntil (ckSched ppClock) (addDuration (unixTime (sint (Time ndGenesis))) (wrap64 (sint (clPeriod ndEngine) * second))) \<le> 2 ^ 62"
    "0 \<le> ckJitter ppClock" "ckJitter ppClock < wiggle" by code_simp+
  from producer_in_turn_first [OF n(2) m(2) ppEnv_facts(3) refl snap wf _ _ n(6) [unfolded ndOps_def] m(4) [unfolded ndOps_def] refl this(2,3) _ this(1)]
  have "0 + wiggle \<le> 500000000" using n(3,5) m(3) snap by simp
  then show ?thesis using n m by (intro exI [of _ n] exI [of _ m]) simp
qed

section \<open>QBFT\<close>

lemma qbftOps_simps [simp]:
  "opIsAuthorized (qbftOps G C e) = IsAuthorized_q" "opBuildExtra (qbftOps G C e) = BuildExtra_q G C e"
  "opSealHeader (qbftOps G C e) = SealHeader_q G C" "opSignerList (qbftOps G C e) = SignerList_q G"
  by (simp_all add: qbftOps_def)

lemma BuildExtra_q_unsealed:
  assumes C: "istanbul_codec C" and b: "BuildExtra_q G C e s n = Ok (Extra h)"
    and ok: "\<forall>a \<in> Validators s. length a = 20" "finite (Validators s)"
  shows "\<exists>ie. extra_is C h (replicate 32 0) ie \<and> ieCommittedSeals ie = []"
proof -
  let ?ie = "\<lparr>ieValidators = (if n mod qbEpoch e = 0 then SignerList_q G s else []), ieVote = [], ieRound = 0, ieSeal = [],
              ieCommittedSeals = []\<rparr>"
  have "ie_ok ?ie" using ok by (simp add: ie_ok_def AddressLength_def)
  from EncodeExtra_Ok [OF C this, of "replicate 32 0"] obtain x where
    x: "EncodeExtra C (replicate 32 0) ?ie = Ok x" "\<forall>h. extra_is C (h\<lparr>Extra := x\<rparr>) (replicate 32 0) ?ie" by auto
  from b x(1) have "x = Extra h" by (simp add: BuildExtra_q_def Let_def qbft_consts split: if_splits)
  with spec [OF x(2), of h] have "extra_is C h (replicate 32 0) ?ie" by simp
  then show ?thesis by (intro exI [of _ ?ie]) simp
qed

text \<open>
  C40. A QBFT validator that handles a gossip block or finishes a sync is scheduled like a Clique signer,
  since \<^verbatim>\<open>scheduleBlockProduction\<close> does not look at the mechanism. The block it then publishes carries no commit
  seals: no node accepts it against any snapshot, yet when the run ends well it is in the
  producer's own store.
\<close>

theorem producer_qbft_block_never_final:
  assumes "produceBlock V (qbftOps (evG V) C e) ck evs p = Some (p', r)" and "pdSent p' = pdSent p @ [blk]"
    and "Head (nStor (pdNode p)) = Some head" and "hnum head = Some num"
    and "istanbul_codec C" and "\<forall>h b. enc (evH V) h = Some b \<longrightarrow> dec (evH V) b = Some h"
    and "\<forall>a \<in> Validators (nHeadSnap (pdNode p)). length a = 20" and "finite (Validators (nHeadSnap (pdNode p)))"
  shows "(\<exists>d. scheduledDelay (qbftOps (evG V) C e) (pdNode p) ck = (Ok (Some d) :: (unit, int option) result)) \<and>
         (\<exists>h. dec (evH V) (cbHeader blk) = Some h \<and>
            (\<forall>snap parent. VerifyHeader_q (evG V) C e snap h parent \<noteq> Ok ()) \<and>
            (r = Ok () \<longrightarrow> HasBlock (nStor (pdNode p')) (hdrHash (evG V) h)))"
proof -
  let ?E = "qbftOps (evG V) C e" and ?snap = "nHeadSnap (pdNode p)"
  obtain clExtra ep key h0 h where au: "IsAuthorized_q ?snap (nSignerAddr (pdNode p))" and bx: "BuildExtra_q (evG V) C e ?snap (num + 1) = Ok clExtra"
    and k: "nSignerKey (pdNode p) = Some key"
    and h0: "(buildHeader V ?E (pdNode p) head (num + 1) clExtra (pendingVote (pdRpc p)) ep
          :: (qbft_error producer_error, header) result) = Ok h0"
    and h: "SealHeader_q (evG V) C h0 key = Ok h" "NewCliqueBlock V h ep = Some blk"
    and st: "r = Ok () \<Longrightarrow> HasBlock (nStor (pdNode p')) (hdrHash (evG V) h)"
    by (rule produceBlock_sent [OF assms(1-4)], rule that) auto
  have mem: "nSignerAddr (pdNode p) \<in> set (SignerList_q (evG V) ?snap)" using au assms(8) by (simp add: IsAuthorized_q_def)
  then obtain i where "indexOf (nSignerAddr (pdNode p)) (SignerList_q (evG V) ?snap) = Some i" using indexOf_mem by metis
  then have sched: "\<exists>d. scheduledDelay ?E (pdNode p) ck = (Ok (Some d) :: (unit, int option) result)"
    using mem au k assms(3,4) number_of_hnum [OF assms(4)] by (auto simp: scheduledDelay_def Let_def)
  have "Extra h0 = clExtra" using buildHeader_fields(3) [OF h0] .
  from BuildExtra_q_unsealed [OF assms(5) _ assms(7,8)] bx this obtain ie where
    ie: "extra_is C h0 (replicate 32 0) ie" "ieCommittedSeals ie = []" by metis
  obtain sig where "extra_is C h (replicate 32 0) (ie\<lparr>ieSeal := sig\<rparr>)" by (rule SealHeader_q_Ok [OF assms(5) ie(1) h(1)])
  then have "DecodeExtra C h = Ok (ie\<lparr>ieSeal := sig\<rparr>)" by (rule extra_is_DecodeExtra)
  then have "VerifyHeader_q (evG V) C e snap h parent \<noteq> Ok ()" for snap parent
    by (simp add: VerifyHeader_q_split ie(2) Quorum_def)
  then show ?thesis using sched NewCliqueBlock_dec [OF h(2) assms(6)] st by blast
qed

definition pqOps :: "(QSnapshot, qbft_error) EngineOps" where
  "pqOps = qbftOps ndG demoIstanbul (New_q 0 30000 4)"

text \<open>The header it publishes: the vanity and an Istanbul extra with the seal of validator 1.\<close>

definition pqHeader :: header where
  "pqHeader =
     (case BuildExtra_q ndG demoIstanbul (New_q 0 30000 4) (newSnapshot_q 0 [0] [demoAddr 1, demoAddr 2]) 1 of
        Ok x \<Rightarrow> (case SealHeader_q ndG demoIstanbul (ppUnsealed\<lparr>Coinbase := zeroAddress, Nonce := nonceNull, Extra := x\<rparr>) (demoAddr 1) of
                   Ok h \<Rightarrow> h | _ \<Rightarrow> ppUnsealed)
      | _ \<Rightarrow> ppUnsealed)"

definition pqEnc :: "header \<Rightarrow> bytes option" where "pqEnc h = (if h = pqHeader then Some [1] else None)"
definition pqDec :: "bytes \<Rightarrow> header option" where "pqDec b = (if b = [1] then Some pqHeader else None)"

definition pqEnv :: Env where "pqEnv = ppEnv\<lparr>evH := \<lparr>enc = pqEnc, dec = pqDec\<rparr>\<rparr>"

definition pqStart :: "(qbft_error, QSnapshot Producer) result" where
  "pqStart = rbind (newNode pqOps ndG ndGenesis 1 (Some (demoAddr 1))) (\<lambda>n.
     Ok \<lparr>pdNode = n, pdRpc = \<lparr>pendingVote = None\<rparr>, pdTimer = None, pdSent = []\<rparr>)"

lemma pqStart_run:
  "(case pqStart of Ok p \<Rightarrow> (case produceBlock pqEnv pqOps ppClock [] p of
      Some (p', r) \<Rightarrow> pdSent p' = [ppBlock] \<and> r = Ok () \<and> Head (nStor (pdNode p)) = Some ndGenesis \<and>
        Validators (nHeadSnap (pdNode p)) = {demoAddr 1, demoAddr 2} \<and> map_option Root (Head (nStor (pdNode p'))) = Some [3]
    | None \<Rightarrow> False) | _ \<Rightarrow> False)"
  by code_simp

theorem producer_qbft_block_never_final_witness:
  "\<exists>p p' h. produceBlock pqEnv pqOps ppClock [] p = Some (p', Ok ()) \<and> pdSent p' = [ppBlock] \<and>
     HasBlock (nStor (pdNode p')) (hdrHash ndG h) \<and>
     (\<forall>snap parent. VerifyHeader_q ndG demoIstanbul (New_q 0 30000 4) snap h parent \<noteq> Ok ())"
proof -
  from pqStart_run obtain p p' where p: "pqStart = Ok p" "produceBlock pqEnv pqOps ppClock [] p = Some (p', Ok ())" "pdSent p' = [ppBlock]"
    "Head (nStor (pdNode p)) = Some ndGenesis" "Validators (nHeadSnap (pdNode p)) = {demoAddr 1, demoAddr 2}"
    by (auto split: result.splits option.splits prod.splits)
  have "pdSent p = []" using p(1) by (auto simp: pqStart_def)
  then have sent: "pdSent p' = pdSent p @ [ppBlock]" using p(3) by simp
  have g: "evG pqEnv = ndG" by (simp add: pqEnv_def)
  have run: "produceBlock pqEnv (qbftOps (evG pqEnv) demoIstanbul (New_q 0 30000 4)) ppClock [] p = Some (p', Ok ())"
    using p(2) by (simp add: pqOps_def g)
  have "\<forall>h b. enc (evH pqEnv) h = Some b \<longrightarrow> dec (evH pqEnv) b = Some h" by (simp add: pqEnv_def pqEnc_def pqDec_def)
  moreover have "\<forall>a \<in> Validators (nHeadSnap (pdNode p)). length a = 20" "finite (Validators (nHeadSnap (pdNode p)))"
    by (simp_all add: p(5) demoAddr_def)
  ultimately obtain h where "HasBlock (nStor (pdNode p')) (hdrHash ndG h)"
      "\<forall>snap parent. VerifyHeader_q ndG demoIstanbul (New_q 0 30000 4) snap h parent \<noteq> Ok ()"
    using producer_qbft_block_never_final [OF run sent p(4) ppEnv_facts(3) demoIstanbul_ok] unfolding g by blast
  then show ?thesis using p(2,3) by blast
qed

section \<open>The block endpoint\<close>

lemma signerOrZero_Ok:
  assumes "\<forall>xs. rlpList G xs \<noteq> None"
  shows "\<exists>a. signerOrZero G h = (Ok a :: ('e, address) result)"
proof -
  have "sigHash G h \<noteq> Panic" if "\<not> length (Extra h) < extraSeal"
    using assms that by (auto simp: sigHash_def slice_def rbind_Panic_iff split: option.splits)
  then have "SignerFromHeader G h \<noteq> Panic"
    by (auto simp: SignerFromHeader_def Let_def rbind_Panic_iff split: option.splits if_splits)
  then show ?thesis by (auto simp: signerOrZero_def split: result.splits)
qed

text \<open>
  The block endpoint serves the canonical chain. On the store of a consistently numbered history, asking for the decimal form of
  a 64-bit number returns 200 and the canonical block of that number, its own number printed back and its
  hash, and 404 beyond the head, whatever the mechanism sealed into the header.
\<close>

theorem rpc_block_endpoint:
  assumes "consistent G gen (set (headersOf xs))"
    and "addBlocks G H P (SetDB (New_store G gen epoch) db) xs = Some s"
    and "\<forall>xs. rlpList G xs \<noteq> None"
  shows "\<exists>R. canonicalChain G gen s R \<and>
           (\<forall>n. if unat n < length R
                then \<exists>b. handleCliqueBlock L G s (decimal (unat n)) = (Ok (200, BBlock b) :: ('e, response) result) \<and>
                  biNumber b = decimal (unat n) \<and> ParseUint (biNumber b) = Some n \<and>
                  biHash b = hashHex L (hdrHash G (R ! unat n)) \<and> biParentHash b = hashHex L (ParentHash (R ! unat n))
                else handleCliqueBlock L G s (decimal (unat n)) =
                  (Ok (404, BError 404 (''block '' @ decimal (unat n) @ '' not found'')) :: ('e, response) result))"
proof -
  let ?g = "genesisEntry gen"
  have inv: "store_inv G ?g s" using history_inv [OF assms(1) subset_refl, of H P epoch db] assms(2) by (metis option.inject)
  from inv obtain R where R: "path (stBlocks s) ?g R" "stHead s = Some (last R)"
    "\<And>n. GetByNumber s n = (if unat n < length R then Some (beHeader (R ! unat n)) else None)"
    by (rule range_inv) blast
  have "canonicalChain G gen s (map beHeader R)" by (rule path_canonicalChain [OF inv R])
  moreover have "if unat n < length R
      then \<exists>b. handleCliqueBlock L G s (decimal (unat n)) = (Ok (200, BBlock b) :: ('e, response) result) \<and>
        biNumber b = decimal (unat n) \<and> ParseUint (biNumber b) = Some n \<and>
        biHash b = hashHex L (hdrHash G (map beHeader R ! unat n)) \<and> biParentHash b = hashHex L (ParentHash (map beHeader R ! unat n))
      else handleCliqueBlock L G s (decimal (unat n)) =
        (Ok (404, BError 404 (''block '' @ decimal (unat n) @ '' not found'')) :: ('e, response) result)" for n
  proof (cases "unat n < length R")
    case True
    obtain a where a: "signerOrZero G (beHeader (R ! unat n)) = (Ok a :: ('e, address) result)" using signerOrZero_Ok [OF assms(3)] by metis
    have "hnum (beHeader (R ! unat n)) = Some n" using pathD(6) [OF R(1) True] by simp
    then have "number_of (beHeader (R ! unat n)) = Ok n" by simp
    then show ?thesis using True by (simp add: handleCliqueBlock_def ParseUint_decimal R(3) a rpcOk_def)
  next
    case False
    then show ?thesis by (simp add: handleCliqueBlock_def ParseUint_decimal R(3) writeError_def)
  qed
  ultimately show ?thesis
    by (intro exI [of _ "map beHeader R"] conjI allI) (assumption | simp only: length_map)+
qed

theorem rpc_block_endpoint_witness:
  "\<exists>s b. fcStore (fcOld @ fcNew) = Some s \<and>
     handleCliqueBlock ppLib demoGeth s (decimal 3) = (Ok (200, BBlock b) :: (unit, response) result) \<and> biNumber b = decimal 3"
proof -
  have "SetDB (New_store demoGeth fcGenesis 1) None = New_store demoGeth fcGenesis 1"
    by (simp add: SetDB_def New_store_def Let_def)
  then obtain s where s: "fcStore (fcOld @ fcNew) = Some s"
      "addBlocks demoGeth fcH fcP (SetDB (New_store demoGeth fcGenesis 1) None) (map fcRec (fcOld @ fcNew)) = Some s"
    using history_inv [OF fc_consistent subset_refl, of fcH fcP 1 None] by (metis fcStore_def)
  have "\<forall>xs. rlpList demoGeth xs \<noteq> None" by (simp add: demoGeth_def)
  from rpc_block_endpoint [OF fc_consistent s(2) this, where L = ppLib and 'e = unit] obtain R where
    R: "\<forall>n. if unat n < length R
        then \<exists>b. handleCliqueBlock ppLib demoGeth s (decimal (unat n)) = (Ok (200, BBlock b) :: (unit, response) result) \<and>
          biNumber b = decimal (unat n) \<and> ParseUint (biNumber b) = Some n \<and>
          biHash b = hashHex ppLib (hdrHash demoGeth (R ! unat n)) \<and> biParentHash b = hashHex ppLib (ParentHash (R ! unat n))
        else handleCliqueBlock ppLib demoGeth s (decimal (unat n)) =
          (Ok (404, BError 404 (''block '' @ decimal (unat n) @ '' not found'')) :: (unit, response) result)" by blast
  have "map_option (\<lambda>s. map_option TxHash (GetByNumber s 3)) (fcStore (fcOld @ fcNew)) = Some (Some [13])" by code_simp
  then have "GetByNumber s 3 \<noteq> None" using s(1) by auto
  then have "handleCliqueBlock ppLib demoGeth s (decimal (unat (3 :: u64))) \<noteq>
      (Ok (404, BError 404 (''block '' @ decimal (unat (3 :: u64)) @ '' not found'')) :: (unit, response) result)"
    unfolding handleCliqueBlock_def ParseUint_decimal option.case
    by (auto simp: rbind_Ok_iff rpcOk_def split: option.splits)
  then have "\<exists>b. handleCliqueBlock ppLib demoGeth s (decimal (unat (3 :: u64))) = (Ok (200, BBlock b) :: (unit, response) result) \<and>
      biNumber b = decimal (unat (3 :: u64))" using R [rule_format, of 3] by (metis (no_types, lifting))
  then show ?thesis using s(1) by auto
qed

end
