(* ===== verification/P2p_Properties.thy ===== *)
theory P2p_Properties
  imports P2p Producer_Properties Qbft_Properties
begin

text \<open>
  The properties of the peer-to-peer layer: framed messages survive any stream, the two sides of a status
  handshake agree, the gossip loop hands on what decodes, and the sync exchange over a stream.
\<close>

section \<open>Framing\<close>

text \<open>
  The interface of a framed channel: what a sender puts on the byte stream for a message, a receiver takes
  off again, whatever follows it; and a receiver never looks beyond the message it returns.
\<close>

locale message_channel =
  fixes send :: "'m \<Rightarrow> bytes option"
    and recv :: "bytes \<Rightarrow> ('m \<times> bytes) option"
    and fits :: "'m \<Rightarrow> bool"
  assumes send_fits: "fits m \<Longrightarrow> \<exists>b. send m = Some b \<and> recv b = Some (m, [])"
    and recv_more: "recv b = Some (m, r) \<Longrightarrow> recv (b @ rest) = Some (m, r @ rest)"

text \<open>Receiving a number of messages.\<close>

fun recvs :: "(bytes \<Rightarrow> ('m \<times> bytes) option) \<Rightarrow> nat \<Rightarrow> bytes \<Rightarrow> ('m list \<times> bytes) option" where
  "recvs recv 0 b = Some ([], b)"
| "recvs recv (Suc n) b =
     (case recv b of
        None \<Rightarrow> None
      | Some (m, r) \<Rightarrow> map_option (\<lambda>(ms, r'). (m # ms, r')) (recvs recv n r))"

context message_channel
begin

lemma recvs_more: "recvs recv n b = Some (ms, r) \<Longrightarrow> recvs recv n (b @ rest) = Some (ms, r @ rest)"
proof (induction n arbitrary: b ms)
  case (Suc n)
  then obtain m b' ms' where "recv b = Some (m, b')" "recvs recv n b' = Some (ms', r)" "ms = m # ms'"
    by (auto split: option.splits)
  then show ?case using recv_more Suc.IH by simp
qed simp

lemma stream_in_order:
  assumes "\<forall>m \<in> set ms. fits m"
  shows "\<exists>bs. map send ms = map Some bs \<and> recvs recv (length ms) (concat bs) = Some (ms, [])"
  using assms
proof (induction ms)
  case Nil
  show ?case by (simp add: exI [of _ "[]"])
next
  case (Cons m ms)
  then obtain bs where bs: "map send ms = map Some bs" "recvs recv (length ms) (concat bs) = Some (ms, [])" by auto
  from Cons.prems send_fits obtain b where b: "send m = Some b" "recv b = Some (m, [])" by (meson list.set_intros(1))
  have "recvs recv (length (m # ms)) (concat (b # bs)) = Some (m # ms, [])"
    using recv_more [OF b(2), of "concat bs"] bs(2) by simp
  then show ?case using bs(1) b(1) by (intro exI [of _ "b # bs"]) simp
qed

text \<open>A stream that breaks off early does not deliver all of them.\<close>

lemma truncated:
  assumes "recvs recv n b = Some (ms, [])" and "k < length b"
  shows "recvs recv n (take k b) = None"
proof (rule ccontr)
  assume "recvs recv n (take k b) \<noteq> None"
  then obtain ms' r where "recvs recv n (take k b) = Some (ms', r)" by auto
  from recvs_more [OF this, of "drop k b"] have "recvs recv n b = Some (ms', r @ drop k b)" by simp
  with assms show False by simp
qed

end

text \<open>The frame \<^const>\<open>writeMsg\<close> puts on a stream and what \<^const>\<open>readMsg\<close> takes off it.\<close>

definition frame :: "'m codec \<Rightarrow> 'm \<Rightarrow> bytes option" where
  "frame C m = map_option (\<lambda>p. be_put32 (word_of_nat (length p)) @ p) (enc C m)"

definition unframe :: "'m codec \<Rightarrow> u32 \<Rightarrow> bytes \<Rightarrow> ('m \<times> bytes) option" where
  "unframe C maxSize b =
     (case readMsg C \<lparr>sIn = b, sOut = [], sRoom = None\<rparr> maxSize of (s, Ok m) \<Rightarrow> Some (m, sIn s) | _ \<Rightarrow> None)"

definition fitsIn :: "'m codec \<Rightarrow> u32 \<Rightarrow> 'm \<Rightarrow> bool" where
  "fitsIn C maxSize m \<longleftrightarrow> (\<exists>p. enc C m = Some p \<and> dec C p = Some m \<and> length p \<le> unat maxSize)"

lemma writeMsg_frame:
  "sRoom s = None \<Longrightarrow> enc C m = Some p \<Longrightarrow>
     writeMsg C s m = (s\<lparr>sOut := sOut s @ be_put32 (word_of_nat (length p)) @ p\<rparr>, Ok ())"
  by (simp add: writeMsg_def writeBytes_def)

lemma unat_length:
  assumes "length p \<le> unat (k :: u32)"
  shows "unat (word_of_nat (length p) :: u32) = length p"
proof -
  have "unat k < 2 ^ LENGTH(32)" by (rule unsigned_less)
  with assms have "length p < 2 ^ 32" by simp
  then show ?thesis by (simp add: unat_of_nat)
qed

text \<open>What reading does, on any stream.\<close>

lemma readMsg_frame:
  assumes "enc C m = Some p" "dec C p = Some m" "length p \<le> unat k" "sIn s = be_put32 (word_of_nat (length p)) @ p @ rest"
  shows "readMsg C s k = (s\<lparr>sIn := rest\<rparr>, Ok m)"
proof -
  have "\<not> k < (word_of_nat (length p) :: u32)" using assms(3) unat_length [OF assms(3)] by (simp add: word_less_nat_alt)
  moreover have "be_uint32 (be_put32 w) = w" for w using be_uint32_put32 [of w "[]"] by simp
  ultimately show ?thesis using assms unat_length [OF assms(3)] by (simp add: readMsg_def readFull_def)
qed

lemma readMsg_large:
  assumes "enc C m = Some p" "unat k < length p" "length p < 2 ^ 32" "sIn s = be_put32 (word_of_nat (length p)) @ rest"
  shows "readMsg C s k = (s\<lparr>sIn := rest\<rparr>, Err WErrTooLarge)"
proof -
  have "unat (word_of_nat (length p) :: u32) = length p" using assms(3) by (simp add: unat_of_nat)
  then have "k < (word_of_nat (length p) :: u32)" using assms(2) by (simp add: word_less_nat_alt)
  moreover have "be_uint32 (be_put32 w) = w" for w using be_uint32_put32 [of w "[]"] by simp
  ultimately show ?thesis using assms(4) by (simp add: readMsg_def readFull_def)
qed

lemma readMsg_Ok:
  "readMsg C s k = (s', Ok m) \<longleftrightarrow>
     4 \<le> length (sIn s) \<and> be_uint32 (sIn s) \<le> k \<and> 4 + unat (be_uint32 (sIn s)) \<le> length (sIn s) \<and>
     dec C (take (unat (be_uint32 (sIn s))) (drop 4 (sIn s))) = Some m \<and>
     s' = s\<lparr>sIn := drop (4 + unat (be_uint32 (sIn s))) (sIn s)\<rparr>"
proof -
  have "be_uint32 (take 4 b) = be_uint32 b" for b by (simp add: be_uint32_def)
  then show ?thesis by (auto simp: readMsg_def readFull_def Let_def not_less le_diff_conv2 ac_simps split: option.splits)
qed

lemma unframe_Some:
  "unframe C k b = Some (m, r) \<longleftrightarrow>
     4 \<le> length b \<and> be_uint32 b \<le> k \<and> 4 + unat (be_uint32 b) \<le> length b \<and>
     dec C (take (unat (be_uint32 b)) (drop 4 b)) = Some m \<and> r = drop (4 + unat (be_uint32 b)) b"
proof -
  have "unframe C k b = Some (m, r) \<longleftrightarrow> (\<exists>s. readMsg C \<lparr>sIn = b, sOut = [], sRoom = None\<rparr> k = (s, Ok m) \<and> sIn s = r)"
    by (auto simp: unframe_def split: prod.splits result.splits)
  then show ?thesis by (auto simp: readMsg_Ok)
qed

interpretation framed: message_channel "frame C" "unframe C maxSize" "fitsIn C maxSize" for C :: "'m codec" and maxSize
proof
  show "\<exists>b. frame C m = Some b \<and> unframe C maxSize b = Some (m, [])" if "fitsIn C maxSize m" for m
    using that readMsg_frame [of C m _ maxSize _ "[]"] by (auto simp: fitsIn_def frame_def unframe_def)
  show "unframe C maxSize (b @ rest) = Some (m, r @ rest)" if "unframe C maxSize b = Some (m, r)" for b m r rest
  proof -
    have "be_uint32 (b @ rest) = be_uint32 b" if "4 \<le> length b" using that by (simp add: be_uint32_def)
    then show ?thesis using that by (auto simp: unframe_Some)
  qed
qed

subsection \<open>Conversations\<close>

fun writeMsgs :: "'m codec \<Rightarrow> Stream \<Rightarrow> 'm list \<Rightarrow> Stream \<times> (wire_error, unit) result" where
  "writeMsgs C s [] = (s, Ok ())"
| "writeMsgs C s (m # ms) =
     (case writeMsg C s m of
        (s', Ok _) \<Rightarrow> writeMsgs C s' ms
      | (s', Err e) \<Rightarrow> (s', Err e)
      | (s', Panic) \<Rightarrow> (s', Panic))"

fun readMsgs :: "'m codec \<Rightarrow> u32 \<Rightarrow> nat \<Rightarrow> Stream \<Rightarrow> Stream \<times> (wire_error, 'm list) result" where
  "readMsgs C k 0 s = (s, Ok [])"
| "readMsgs C k (Suc n) s =
     (case readMsg C s k of
        (s', Ok m) \<Rightarrow> (let (s'', r) = readMsgs C k n s' in (s'', rbind r (\<lambda>ms. Ok (m # ms))))
      | (s', Err e) \<Rightarrow> (s', Err e)
      | (s', Panic) \<Rightarrow> (s', Panic))"

lemma readMsg_unframe: "readMsg C s k = (s', Ok m) \<longleftrightarrow> (\<exists>b. unframe C k (sIn s) = Some (m, b) \<and> s' = s\<lparr>sIn := b\<rparr>)"
  by (auto simp: readMsg_Ok unframe_Some)

lemma readMsgs_recvs:
  "readMsgs C k n s = (s', Ok ms) \<longleftrightarrow> (\<exists>b. recvs (unframe C k) n (sIn s) = Some (ms, b) \<and> s' = s\<lparr>sIn := b\<rparr>)"
proof (induction n arbitrary: s ms)
  case 0
  show ?case by auto
next
  case (Suc n)
  have "readMsgs C k (Suc n) s = (s', Ok ms) \<longleftrightarrow>
      (\<exists>s1 m ms'. readMsg C s k = (s1, Ok m) \<and> readMsgs C k n s1 = (s', Ok ms') \<and> ms = m # ms')"
    by (auto split: prod.splits result.splits)
  also have "\<dots> \<longleftrightarrow> (\<exists>b. recvs (unframe C k) (Suc n) (sIn s) = Some (ms, b) \<and> s' = s\<lparr>sIn := b\<rparr>)"
    unfolding readMsg_unframe Suc.IH by (auto split: option.splits)
  finally show ?case .
qed

lemma writeMsgs_frames:
  assumes "map (frame C) ms = map Some bs" "sRoom s = None"
  shows "writeMsgs C s ms = (s\<lparr>sOut := sOut s @ concat bs\<rparr>, Ok ())"
  using assms
proof (induction ms arbitrary: bs s)
  case (Cons m ms)
  then obtain b bs' p where "bs = b # bs'" "map (frame C) ms = map Some bs'" "enc C m = Some p"
    "b = be_put32 (word_of_nat (length p)) @ p" by (cases "enc C m") (auto simp: frame_def [of C m])
  then show ?case using Cons.IH [of bs' "s\<lparr>sOut := sOut s @ b\<rparr>"] Cons.prems(2) by (simp add: writeMsg_frame)
qed simp

text \<open>
  C22. Framed messages survive the stream. Messages that encode within the reader's limit, written one after
  the other by \<^verbatim>\<open>writeMsg\<close>, are read back by as many calls of \<^verbatim>\<open>readMsg\<close>, in order and with nothing of
  what follows them consumed; when the stream breaks off anywhere before the last byte the reader gets an error,
  never a shorter or different message; and a message over the limit is refused before its payload is read.
\<close>

theorem p2p_stream_roundtrip:
  assumes "\<forall>m \<in> set ms. fitsIn C maxSize m" and "sRoom s = None"
  shows "\<exists>bs. writeMsgs C s ms = (s\<lparr>sOut := sOut s @ bs\<rparr>, Ok ()) \<and>
    (\<forall>r rest. sIn r = bs @ rest \<longrightarrow> readMsgs C maxSize (length ms) r = (r\<lparr>sIn := rest\<rparr>, Ok ms)) \<and>
    (\<forall>k r. k < length bs \<and> sIn r = take k bs \<longrightarrow> \<not> is_ok (snd (readMsgs C maxSize (length ms) r))) \<and>
    (\<forall>big p r rest. enc C big = Some p \<and> unat maxSize < length p \<and> length p < 2 ^ 32 \<and>
       sIn r = be_put32 (word_of_nat (length p)) @ rest \<longrightarrow> readMsg C r maxSize = (r\<lparr>sIn := rest\<rparr>, Err WErrTooLarge))"
proof -
  obtain bs where bs: "map (frame C) ms = map Some bs" "recvs (unframe C maxSize) (length ms) (concat bs) = Some (ms, [])"
    using framed.stream_in_order [OF assms(1)] by blast
  have "readMsgs C maxSize (length ms) r = (r\<lparr>sIn := rest\<rparr>, Ok ms)" if "sIn r = concat bs @ rest" for r rest
    using framed.recvs_more [OF bs(2), of rest] that by (simp add: readMsgs_recvs)
  moreover have "\<not> is_ok (snd (readMsgs C maxSize (length ms) r))" if "k < length (concat bs)" "sIn r = take k (concat bs)" for k r
  proof
    assume "is_ok (snd (readMsgs C maxSize (length ms) r))"
    then obtain r' ms' where "readMsgs C maxSize (length ms) r = (r', Ok ms')" by (metis is_ok_iff prod.collapse)
    then show False using framed.truncated [OF bs(2) that(1)] that(2) by (simp add: readMsgs_recvs)
  qed
  moreover have "\<forall>big p r rest. enc C big = Some p \<and> unat maxSize < length p \<and> length p < 2 ^ 32 \<and>
       sIn r = be_put32 (word_of_nat (length p)) @ rest \<longrightarrow> readMsg C r maxSize = (r\<lparr>sIn := rest\<rparr>, Err WErrTooLarge)"
    by (intro allI impI) (elim conjE, rule readMsg_large)
  ultimately show ?thesis using writeMsgs_frames [OF bs(1) assms(2)] by (intro exI [of _ "concat bs"] conjI allI impI; (elim conjE)?) simp_all
qed

section \<open>A demonstration wire\<close>

fun putStatus :: "StatusMsg \<Rightarrow> bytes option" where
  "putStatus s = Some (ucast (smNetworkID s) # ucast (smHeadNumber s) # smGenesisHash s)"

fun getStatus :: "bytes \<Rightarrow> StatusMsg option" where
  "getStatus (a # b # g) = Some \<lparr>smNetworkID = ucast a, smGenesisHash = g, smHeadHash = [], smHeadNumber = ucast b\<rparr>"
| "getStatus _ = None"

fun putRequest :: "SyncRequestMsg \<Rightarrow> bytes option" where
  "putRequest r = Some (ucast (srHeadNumber r) # srHeadHash r)"

fun getRequest :: "bytes \<Rightarrow> SyncRequestMsg option" where
  "getRequest (a # g) = Some \<lparr>srHeadNumber = ucast a, srHeadHash = g\<rparr>"
| "getRequest _ = None"

text \<open>A response whose every block takes 33 MB.\<close>

fun putResponse :: "SyncResponseMsg \<Rightarrow> bytes option" where
  "putResponse r = Some (replicate (34603008 * length (srsBlocks r)) 0)"

fun getResponse :: "bytes \<Rightarrow> SyncResponseMsg option" where
  "getResponse b = (if b = [] then Some \<lparr>srsReset = False, srsBlocks = []\<rparr> else None)"

definition demoWire :: wireCodecs where
  "demoWire = \<lparr>wcBlock = \<lparr>enc = \<lambda>b. Some (cbHeader b), dec = \<lambda>b. if b = [] then None else Some \<lparr>cbHeader = b, cbExecutionPayloadHash = [], cbPayloadJSON = []\<rparr>\<rparr>,
     wcQBFT = \<lparr>enc = \<lambda>m. Some (qmData m), dec = \<lambda>b. Some \<lparr>qmType = 0, qmData = b, qmSig = []\<rparr>\<rparr>,
     wcStatus = \<lparr>enc = putStatus, dec = getStatus\<rparr>,
     wcSyncRequest = \<lparr>enc = putRequest, dec = getRequest\<rparr>,
     wcSyncResponse = \<lparr>enc = putResponse, dec = getResponse\<rparr>\<rparr>"

definition demoStatusMsg :: "u64 \<Rightarrow> u64 \<Rightarrow> StatusMsg" where
  "demoStatusMsg net num = \<lparr>smNetworkID = net, smGenesisHash = [7], smHeadHash = [], smHeadNumber = num\<rparr>"

lemma demoStatus_fits:
  "fitsIn (wcStatus demoWire) maxStatusMsgSize (demoStatusMsg 1 3)"
  "fitsIn (wcStatus demoWire) maxStatusMsgSize (demoStatusMsg 1 9)"
  by (simp_all add: fitsIn_def demoWire_def demoStatusMsg_def maxStatusMsgSize_def)

definition emptyStream :: Stream where "emptyStream = \<lparr>sIn = [], sOut = [], sRoom = None\<rparr>"

theorem p2p_stream_roundtrip_witness:
  "\<exists>bs. writeMsgs (wcStatus demoWire) emptyStream [demoStatusMsg 1 3, demoStatusMsg 1 9] = (emptyStream\<lparr>sOut := bs\<rparr>, Ok ()) \<and>
     readMsgs (wcStatus demoWire) maxStatusMsgSize 2 (emptyStream\<lparr>sIn := bs @ [42]\<rparr>) =
       (emptyStream\<lparr>sIn := [42]\<rparr>, Ok [demoStatusMsg 1 3, demoStatusMsg 1 9])"
proof -
  have room: "sRoom emptyStream = None" by (simp add: emptyStream_def)
  have "\<forall>m \<in> set [demoStatusMsg 1 3, demoStatusMsg 1 9]. fitsIn (wcStatus demoWire) maxStatusMsgSize m"
    using demoStatus_fits by simp
  from p2p_stream_roundtrip [OF this room] obtain bs where
    "writeMsgs (wcStatus demoWire) emptyStream [demoStatusMsg 1 3, demoStatusMsg 1 9] =
       (emptyStream\<lparr>sOut := sOut emptyStream @ bs\<rparr>, Ok ())"
    "\<And>r rest. sIn r = bs @ rest \<Longrightarrow>
       readMsgs (wcStatus demoWire) maxStatusMsgSize (length [demoStatusMsg 1 3, demoStatusMsg 1 9]) r =
       (r\<lparr>sIn := rest\<rparr>, Ok [demoStatusMsg 1 3, demoStatusMsg 1 9])" by metis
  from this(1) this(2) [of "emptyStream\<lparr>sIn := bs @ [42]\<rparr>" "[42]"] show ?thesis
    by (intro exI [of _ bs]) (simp add: emptyStream_def numeral_2_eq_2)
qed

section \<open>The status handshake\<close>

text \<open>
  The two ends of one status stream: the listener reads what the dialer wrote, the dialer what the listener
  answered.
\<close>

definition handshake ::
    "wireCodecs \<Rightarrow> 'a Host \<Rightarrow> 'b Host \<Rightarrow> (wire_error, peer_action) result \<times> (wire_error, peer_action) result" where
  "handshake W dialer listener =
     (let sent = sOut (fst (writeMsg (wcStatus W) emptyStream (hoLocalStatus dialer)));
          (answer, rl) = handleStatusStream W listener (emptyStream\<lparr>sIn := sent\<rparr>);
          (_, rd) = doStatusHandshake W dialer (Some (emptyStream\<lparr>sIn := sOut answer\<rparr>))
      in (rd, rl))"

lemma handshake_runs:
  assumes "fitsIn (wcStatus W) maxStatusMsgSize (hoLocalStatus d)" "fitsIn (wcStatus W) maxStatusMsgSize (hoLocalStatus l)"
  shows "handshake W d l = (Ok (handlePeerStatus d (hoLocalStatus l)), Ok (handlePeerStatus l (hoLocalStatus d)))"
proof -
  obtain p q where p: "enc (wcStatus W) (hoLocalStatus d) = Some p" "dec (wcStatus W) p = Some (hoLocalStatus d)" "length p \<le> unat maxStatusMsgSize"
    and q: "enc (wcStatus W) (hoLocalStatus l) = Some q" "dec (wcStatus W) q = Some (hoLocalStatus l)" "length q \<le> unat maxStatusMsgSize"
    using assms by (auto simp: fitsIn_def)
  note rd = readMsg_frame [OF p(1-3), where rest = "[]"] readMsg_frame [OF q(1-3), where rest = "[]"]
  show ?thesis
    by (simp add: handshake_def handleStatusStream_def doStatusHandshake_def writeMsg_frame p(1) q(1) emptyStream_def rd)
qed

text \<open>
  C23. Both ends of a status handshake draw compatible conclusions. When the two statuses fit the limit the
  handshake completes on both sides; the dialer drops the listener exactly when the listener drops the dialer,
  which is when their networks or genesis blocks differ; they never both start a sync with each other,
  and with sync handlers registered and equal networks the side whose head is lower starts one.
\<close>

theorem p2p_handshake_agreement:
  assumes "fitsIn (wcStatus W) maxStatusMsgSize (hoLocalStatus d)" and "fitsIn (wcStatus W) maxStatusMsgSize (hoLocalStatus l)"
  shows "\<exists>ad al. handshake W d l = (Ok ad, Ok al) \<and> (ad = ClosePeer \<longleftrightarrow> al = ClosePeer) \<and>
    (ad = ClosePeer \<longleftrightarrow> smNetworkID (hoLocalStatus d) \<noteq> smNetworkID (hoLocalStatus l) \<or>
       smGenesisHash (hoLocalStatus d) \<noteq> smGenesisHash (hoLocalStatus l)) \<and>
    \<not> (ad = StartSync \<and> al = StartSync) \<and>
    (ad \<noteq> ClosePeer \<and> hoSyncHandler d \<noteq> None \<and> hoSyncHandler l \<noteq> None \<longrightarrow>
       (ad = StartSync \<longleftrightarrow> smHeadNumber (hoLocalStatus d) < smHeadNumber (hoLocalStatus l)) \<and>
       (al = StartSync \<longleftrightarrow> smHeadNumber (hoLocalStatus l) < smHeadNumber (hoLocalStatus d)))"
  unfolding handshake_runs [OF assms] by (auto simp: handlePeerStatus_def Let_def)

definition demoHost :: "StatusMsg \<Rightarrow> unit Host" where
  "demoHost st = SetSyncHandler (the (New_host (Some ''peer'') st)) (\<lambda>_ u. u)"

theorem p2p_handshake_agreement_witness:
  "\<exists>al. handshake demoWire (demoHost (demoStatusMsg 1 3)) (demoHost (demoStatusMsg 1 9)) = (Ok StartSync, Ok al) \<and> al \<noteq> StartSync"
proof -
  have st: "hoLocalStatus (demoHost s) = s" "hoSyncHandler (demoHost s) \<noteq> None" for s
    by (simp_all add: demoHost_def SetSyncHandler_def New_host_def)
  have "smNetworkID (demoStatusMsg 1 3) = smNetworkID (demoStatusMsg 1 9)" "smGenesisHash (demoStatusMsg 1 3) = smGenesisHash (demoStatusMsg 1 9)"
    "smHeadNumber (demoStatusMsg 1 3) < smHeadNumber (demoStatusMsg 1 9)" by (simp_all add: demoStatusMsg_def)
  then show ?thesis
    using p2p_handshake_agreement [of demoWire "demoHost (demoStatusMsg 1 3)" "demoHost (demoStatusMsg 1 9)"] demoStatus_fits
    unfolding st(1) using st(2) by auto
qed

section \<open>Gossip\<close>

text \<open>The blocks a subscription hands on: those that decode and do not come from this host.\<close>

definition relayed :: "wireCodecs \<Rightarrow> peerID \<Rightarrow> (peerID \<times> bytes) list \<Rightarrow> (peerID \<times> CliqueBlock) list" where
  "relayed W self msgs =
     List.map_filter (\<lambda>(p, data). if p = self then None else map_option (Pair p) (dec (wcBlock W) data)) msgs"

lemma relayed_simps [simp]:
  "relayed W self [] = []"
  "relayed W self ((p, data) # msgs) =
     (if p = self then relayed W self msgs
      else case dec (wcBlock W) data of None \<Rightarrow> relayed W self msgs | Some blk \<Rightarrow> (p, blk) # relayed W self msgs)"
  by (simp_all add: relayed_def List.map_filter_simps split: option.splits)

lemma subscribeBlocks_fold:
  assumes "hoBlockHandler h = Some handler"
  shows "subscribeBlocks W h msgs st = fold (\<lambda>(p, blk). handler p blk) (relayed W (hoID h) msgs) st"
  using assms
  by (induction W h msgs st rule: subscribeBlocks.induct) (auto simp: DecodeCliqueBlock_def wireResult_def split: option.splits)

text \<open>
  What gossip hands on. What a host publishes for a block decodes at every other host to the
  same block; a receiver whose subscription carries it, before and after any other messages, calls its
  handler on it exactly there, in the order of arrival, skipping what does not decode; and a host does not
  handle its own messages.
\<close>

theorem p2p_gossip_delivery:
  assumes "codec_ok (wcBlock W) {blk}" and "hoBt a" and "hoID a \<noteq> hoID b" and "hoBlockHandler b = Some handler"
    and "\<forall>data. publishes data"
  shows "\<exists>data. BroadcastBlock W publishes a blk = Ok data \<and>
    subscribeBlocks W b (before @ (hoID a, data) # after) st =
      fold (\<lambda>(p, blk). handler p blk) (relayed W (hoID b) before @ (hoID a, blk) # relayed W (hoID b) after) st \<and>
    subscribeBlocks W b (before @ (hoID b, data) # after) st = subscribeBlocks W b (before @ after) st"
proof -
  obtain data where data: "enc (wcBlock W) blk = Some data" "dec (wcBlock W) data = Some blk" using assms(1) by (auto simp: codec_ok_def)
  have "relayed W s (before @ xs) = relayed W s before @ relayed W s xs" for s xs
    by (induction before) (auto split: option.splits)
  then show ?thesis using assms(2,3,5) data
    by (simp add: BroadcastBlock_def EncodeBlock_def wireResult_def subscribeBlocks_fold [OF assms(4)])
qed

definition gossipHost :: "string \<Rightarrow> bytes list Host" where
  "gossipHost i = (SetBlockHandler (the (New_host (Some i) (demoStatusMsg 1 0))) (\<lambda>_ blk seen. seen @ [cbHeader blk]))\<lparr>hoBt := True\<rparr>"

definition gossipBlock :: CliqueBlock where
  "gossipBlock = \<lparr>cbHeader = [5], cbExecutionPayloadHash = [], cbPayloadJSON = []\<rparr>"

theorem p2p_gossip_delivery_witness:
  "\<exists>data. BroadcastBlock demoWire (\<lambda>_. True) (gossipHost ''a'') gossipBlock = Ok data \<and>
     subscribeBlocks demoWire (gossipHost ''b'') [(''c'', []), (''a'', data), (''b'', [8])] [] = [[5]]"
proof -
  have "codec_ok (wcBlock demoWire) {gossipBlock}" by (simp add: codec_ok_def demoWire_def gossipBlock_def)
  moreover have "hoBt (gossipHost i)" "hoID (gossipHost i) = i"
    "hoBlockHandler (gossipHost i) = Some (\<lambda>_ blk seen. seen @ [cbHeader blk])" for i
    by (simp_all add: gossipHost_def SetBlockHandler_def New_host_def)
  moreover have "dec (wcBlock demoWire) [] = None" by (simp add: demoWire_def)
  ultimately show ?thesis
    using p2p_gossip_delivery [of demoWire gossipBlock "gossipHost ''a''" "gossipHost ''b''" _ "\<lambda>_. True" "[(''c'', [])]" "[(''b'', [8])]" "[]"]
    by (fastforce simp add: gossipBlock_def simp del: subscribeBlocks.simps)
qed

section \<open>The sync exchange\<close>

text \<open>The two ends of one sync stream.\<close>

definition syncExchange :: "wireCodecs \<Rightarrow> 'st Host \<Rightarrow> SyncRequestMsg \<Rightarrow> (wire_error, SyncResponseMsg) result" where
  "syncExchange W responder req =
     (let sent = sOut (fst (writeMsg (wcSyncRequest W) emptyStream req));
          (answer, _) = handleSyncStream W responder (emptyStream\<lparr>sIn := sent\<rparr>)
      in snd (RequestSync W (Some (emptyStream\<lparr>sIn := sOut answer\<rparr>)) req))"

definition askPeer :: "wireCodecs \<Rightarrow> 'st Host \<Rightarrow> SyncRequestMsg \<Rightarrow> SyncResponseMsg option" where
  "askPeer W responder req = (case syncExchange W responder req of Ok resp \<Rightarrow> Some resp | _ \<Rightarrow> None)"

lemma syncExchange_runs:
  assumes "fitsIn (wcSyncRequest W) maxStatusMsgSize req" "hoSyncProvider h = Some provider" "enc (wcSyncResponse W) (provider req) = Some p"
  shows "syncExchange W h req =
    snd (readMsg (wcSyncResponse W) (emptyStream\<lparr>sIn := be_put32 (word_of_nat (length p)) @ p,
       sOut := sOut (fst (writeMsg (wcSyncRequest W) emptyStream req))\<rparr>) maxSyncMsgSize)"
proof -
  obtain q where q: "enc (wcSyncRequest W) req = Some q" "dec (wcSyncRequest W) q = Some req" "length q \<le> unat maxStatusMsgSize"
    using assms(1) by (auto simp: fitsIn_def)
  show ?thesis
    by (simp add: syncExchange_def handleSyncStream_def RequestSync_def writeMsg_frame q(1) assms(2,3) emptyStream_def
        readMsg_frame [OF q, where rest = "[]"] split_beta)
qed

lemma askPeer_fits:
  assumes "fitsIn (wcSyncRequest W) maxStatusMsgSize req" "hoSyncProvider h = Some provider"
    and "fitsIn (wcSyncResponse W) maxSyncMsgSize (provider req)"
  shows "askPeer W h req = Some (provider req)"
proof -
  obtain p where p: "enc (wcSyncResponse W) (provider req) = Some p" "dec (wcSyncResponse W) p = Some (provider req)"
    "length p \<le> unat maxSyncMsgSize" using assms(3) by (auto simp: fitsIn_def)
  show ?thesis unfolding askPeer_def syncExchange_runs [OF assms(1,2) p(1)] by (simp add: readMsg_frame [OF p, where rest = "[]"])
qed

text \<open>
  C33. The sync exchange, and the response that is too long for it. Over a stream between two hosts a request that fits
  its limit is answered with exactly what the responder's provider returns, if that encodes to at most 32 MB. A
  longer response (2048 blocks carry their execution payloads) is refused by the requester's \<^verbatim>\<open>readMsg\<close>: its
  \<^verbatim>\<open>syncWithPeer\<close> ends with a failed request and leaves the node as it was, so the next attempt sends the
  same request and fails in the same way.
\<close>

theorem p2p_sync_exchange:
  fixes n :: "'s Node" and E :: "('s, 'e) EngineOps"
  assumes "fitsIn (wcSyncRequest W) maxStatusMsgSize req" and "hoSyncProvider h = Some provider"
  shows "(fitsIn (wcSyncResponse W) maxSyncMsgSize (provider req) \<longrightarrow> askPeer W h req = Some (provider req)) \<and>
    (\<forall>p. enc (wcSyncResponse W) (provider req) = Some p \<and> 32 * 1024 * 1024 < length p \<and> length p < 2 ^ 32 \<and>
       \<not> nSyncing n \<and> syncRequest (evG V) n = (Ok req :: ('e node_error, SyncRequestMsg) result) \<longrightarrow>
       syncWithPeer V os E n (askPeer W h # asks) = Some (n, Err NErrRequest))"
proof (intro conjI impI allI; (elim conjE)?)
  assume "fitsIn (wcSyncResponse W) maxSyncMsgSize (provider req)"
  then show "askPeer W h req = Some (provider req)" by (rule askPeer_fits [OF assms])
next
  fix p
  assume p: "enc (wcSyncResponse W) (provider req) = Some p" "32 * 1024 * 1024 < length p" "length p < 2 ^ 32"
    and n: "\<not> nSyncing n" "syncRequest (evG V) n = (Ok req :: ('e node_error, SyncRequestMsg) result)"
  have "unat maxSyncMsgSize < length p" using p(2) by (simp add: maxSyncMsgSize_def)
  then have "askPeer W h req = None"
    unfolding askPeer_def syncExchange_runs [OF assms p(1)] by (simp add: readMsg_large [OF p(1) _ p(3), where rest = p])
  moreover have "(syncRequest (evG V) (n\<lparr>nSyncing := True\<rparr>) :: ('e node_error, SyncRequestMsg) result) = Ok req"
    using n(2) by (simp add: syncRequest_def)
  moreover have "n\<lparr>nSyncing := False\<rparr> = n" using n(1) by (cases n) simp
  ultimately show "syncWithPeer V os E n (askPeer W h # asks) = Some (n, Err NErrRequest)"
    using n(1) by (simp add: syncWithPeer_def)
qed

definition demoResponse :: SyncResponseMsg where
  "demoResponse = \<lparr>srsReset = False, srsBlocks = [\<lparr>sbHeader = [], sbELHash = [], sbPayloadJSON = []\<rparr>]\<rparr>"

definition syncHost :: "unit Host" where
  "syncHost = SetSyncProvider (the (New_host (Some ''peer'') (demoStatusMsg 1 9))) (\<lambda>_. demoResponse)"

theorem p2p_sync_exchange_witness:
  "\<exists>n r. ndRunning = Some (n, r) \<and>
     syncWithPeer ndEnv (\<lambda>_. True) ndOps n [askPeer demoWire syncHost] = Some (n, Err NErrRequest)"
proof -
  have "map_option (\<lambda>(n, r). (nSyncing n, map_option (\<lambda>h. (TxHash h, hnum h)) (Head (nStor n)))) ndRunning = Some (False, Some ([2], Some 2))" by code_simp
  then obtain n r h where n: "ndRunning = Some (n, r)" "\<not> nSyncing n" "Head (nStor n) = Some h" "hnum h = Some 2" "TxHash h = [2]" by auto
  let ?req = "\<lparr>srHeadNumber = 2, srHeadHash = hdrHash (evG ndEnv) h\<rparr>"
  have "syncRequest (evG ndEnv) n = (Ok ?req :: (clique_error node_error, SyncRequestMsg) result)"
    using n by (simp add: syncRequest_def number_of_def)
  moreover have "fitsIn (wcSyncRequest demoWire) maxStatusMsgSize ?req"
    using n(5) by (simp add: fitsIn_def demoWire_def maxStatusMsgSize_def ndEnv_def ndG_def)
  moreover have "hoSyncProvider syncHost = Some (\<lambda>_. demoResponse)"
    by (simp add: syncHost_def SetSyncProvider_def)
  moreover have "\<exists>p. enc (wcSyncResponse demoWire) demoResponse = Some p \<and> 32 * 1024 * 1024 < length p \<and> length p < 2 ^ 32"
    by (simp add: demoWire_def demoResponse_def)
  ultimately show ?thesis using n(1,2) p2p_sync_exchange [of demoWire ?req syncHost "\<lambda>_. demoResponse"] by blast
qed

end
