(* ===== verification/Sync_Properties.thy ===== *)
theory Sync_Properties
  imports P2p_Properties
begin

text \<open>
  Catching up: a fresh node that syncs with an honest peer over the sync exchange of the peer-to-peer layer
  reaches the peer's head, batch by batch, as long as every batch fits a sync message.
\<close>

section \<open>Extending the head\<close>

lemma AddBlock_extends:
  assumes "consistent G gen hs" "store_inv G (genesisEntry gen) s" "headers_in s (insert gen hs)" "h \<in> hs"
    and "Head s = Some ph" "ParentHash h = hdrHash G ph" "hnum h = Some k" "Difficulty h = Some d" "d > 0" "stBlocks s (hdrHash G h) = None"
  shows "\<exists>s' r. AddBlock G H P io s h el pj = Some (s', Ok r) \<and> store_inv G (genesisEntry gen) s' \<and> Head s' = Some h \<and>
    (\<forall>x e. stBlocks s' x = Some e \<longrightarrow> stBlocks s x = Some e \<or> beHeader e = h)"
proof -
  from assms(2,5) obtain e0 where e0: "stHead s = Some e0" "beHeader e0 = ph" "member G (stBlocks s) e0"
    by (auto simp: store_inv_def Head_def)
  then have par: "stBlocks s (ParentHash h) = Some e0" using assms(6) by (simp add: member_def)
  obtain m where m: "Number h = Some m" using assms(7) by (auto simp: hnum_def)
  let ?e = "\<lparr>beHeader = h, beTD = beTD e0 + d\<rparr>"
  from AddBlock_new [OF assms(2) consistent_admissible [OF assms(1-4)] m assms(8,10) par refl] obtain s' R R' r where
    s': "AddBlock G H P io s h el pj = Some (s', r)" "store_inv G (genesisEntry gen) s'" "abs_store s' = spec_add G h (abs_store s)"
    "stHead s = Some (last R)" "r = Ok (if beTD ?e > beTD (last R) then (True, word_of_nat (branch_depth R R')) else (False, 0))" by blast
  have spec: "spec_add G h (abs_store s) = ((stBlocks s)(hdrHash G h \<mapsto> ?e), ?e)"
    using m assms(8-10) par e0(1) by (simp add: spec_add_def abs_store_def Let_def)
  have "stHead s' \<noteq> None" using s'(2) by (auto simp: store_inv_def)
  then have "Head s' = Some h" "stBlocks s' = (stBlocks s)(hdrHash G h \<mapsto> ?e)"
    using s'(3) spec by (auto simp: abs_store_def Head_def)
  then show ?thesis using s'(1,2,5) by auto
qed

section \<open>An honest peer\<close>

text \<open>
  A chain that verifies: snapshots \<open>S\<close> from the genesis snapshot on, each header valid in the snapshot of
  its parent and leading to the next, the execution client accepting the payloads that go with it.
\<close>

definition validChain :: "geth \<Rightarrow> ('s, 'e) EngineOps \<Rightarrow> header list \<Rightarrow> 's list \<Rightarrow> bool" where
  "validChain G E R S \<longleftrightarrow>
     opEpoch E \<noteq> 0 \<and> length S = length R \<and>
     (\<forall>k < length R. opBlockNumber E (S ! k) = word_of_nat k \<and> opBlockHash E (S ! k) = hdrHash G (R ! k)) \<and>
     (\<forall>k. Suc k < length R \<longrightarrow>
        (\<exists>d > 0. Difficulty (R ! Suc k) = Some d) \<and>
        opVerifyHeader E (S ! k) (R ! Suc k) (Some (R ! k)) = Ok () \<and> opApply E (S ! k) [R ! Suc k] = Ok (S ! Suc k))"

definition deliverable :: "Env \<Rightarrow> bytes \<Rightarrow> bool" where
  "deliverable V pj \<longleftrightarrow>
     pj = [] \<or> (\<exists>p st. dec (evJ V) pj = Some p \<and> elNewPayloadV3 (evEL V) p = Some st \<and> st \<noteq> PayloadStatusInvalid)"

lemma deliverSyncPayload_ok: "deliverable V pj \<Longrightarrow> deliverSyncPayload V n pj = Some (n, Ok ())"
  by (auto simp: deliverable_def deliverSyncPayload_def)

text \<open>The requester has exactly the first \<open>k\<close> blocks after genesis.\<close>

definition hasPrefix :: "geth \<Rightarrow> header \<Rightarrow> header list \<Rightarrow> 's list \<Rightarrow> nat \<Rightarrow> 's Node \<Rightarrow> bool" where
  "hasPrefix G gen R S k n \<longleftrightarrow>
     k < length R \<and> store_inv G (genesisEntry gen) (nStor n) \<and> Head (nStor n) = Some (R ! k) \<and>
     headers_in (nStor n) (set (take (Suc k) R)) \<and> nHeadSnap n = S ! k \<and> nGenesisSnap n = S ! 0"

lemma prefix_new:
  assumes "canonicalList G gen hs R" "keyed G (stBlocks s)" "headers_in s (set (take (Suc k) R))" "Suc k < length R"
  shows "stBlocks s (hdrHash G (R ! Suc k)) = None \<and> R ! Suc k \<in> hs"
proof -
  have inj: "\<And>i j. i < length R \<Longrightarrow> j < length R \<Longrightarrow> hdrHash G (R ! i) = hdrHash G (R ! j) \<Longrightarrow> i = j"
    and can: "R ! 0 = gen" "set R \<subseteq> insert gen hs" using assms(1) unfolding canonicalList_def by blast+
  have "R ! Suc k \<noteq> gen" using can(1) inj [of 0 "Suc k"] assms(4) by fastforce
  then have "R ! Suc k \<in> hs" using can(2) assms(4) nth_mem by blast
  moreover have "False" if e: "stBlocks s (hdrHash G (R ! Suc k)) = Some e" for e
  proof -
    have "beHeader e \<in> set (take (Suc k) R)" "hdrHash G (beHeader e) = hdrHash G (R ! Suc k)"
      using e assms(2,3) unfolding headers_in_def keyed_def by blast+
    then obtain i where "i < Suc k" "hdrHash G (R ! i) = hdrHash G (R ! Suc k)" using assms(4) by (auto simp: in_set_conv_nth)
    then show False using inj [of i "Suc k"] assms(4) by simp
  qed
  ultimately show ?thesis by (cases "stBlocks s (hdrHash G (R ! Suc k))") blast+
qed

text \<open>Adding the next canonical header extends the chain of the store by it.\<close>

lemma prefix_extends:
  assumes "consistent G gen hs" "canonicalList G gen hs R" "hasPrefix G gen R S k n" "Suc k < length R"
    and "Difficulty (R ! Suc k) = Some d" "d > 0"
  shows "\<exists>s' r. AddBlock G H P io (nStor n) (R ! Suc k) el pj = Some (s', Ok r) \<and> store_inv G (genesisEntry gen) s' \<and>
    Head s' = Some (R ! Suc k) \<and> headers_in s' (set (take (Suc (Suc k)) R))"
proof -
  have pre: "store_inv G (genesisEntry gen) (nStor n)" "Head (nStor n) = Some (R ! k)" "headers_in (nStor n) (set (take (Suc k) R))"
    using assms(3) by (simp_all add: hasPrefix_def)
  have can: "set R \<subseteq> insert gen hs" "ParentHash (R ! Suc k) = hdrHash G (R ! k)" "hnum (R ! Suc k) = Some (word_of_nat (Suc k))"
    using assms(2,4) unfolding canonicalList_def by blast+
  have hin: "headers_in (nStor n) (insert gen hs)" using pre(3) can(1) set_take_subset [of "Suc k" R] unfolding headers_in_def by blast
  have keyed: "keyed G (stBlocks (nStor n))" using pre(1) by (simp add: store_inv_def blocks_ok_def)
  obtain s' r where s': "AddBlock G H P io (nStor n) (R ! Suc k) el pj = Some (s', Ok r)"
    "store_inv G (genesisEntry gen) s'" "Head s' = Some (R ! Suc k)" "\<forall>x e. stBlocks s' x = Some e \<longrightarrow> stBlocks (nStor n) x = Some e \<or> beHeader e = R ! Suc k"
    using AddBlock_extends [OF assms(1) pre(1) hin _ pre(2) can(2,3) assms(5,6)] prefix_new [OF assms(2) keyed pre(3) assms(4)] by blast
  have "headers_in s' (set (take (Suc (Suc k)) R))"
    using s'(4) pre(3) assms(4) unfolding headers_in_def by (auto simp: take_Suc_conv_app_nth)
  then show ?thesis using s' by blast
qed

lemma importSyncBlock_next:
  fixes n :: "'s Node" and E :: "('s, 'e) EngineOps"
  assumes "consistent (evG V) gen hs" "canonicalList (evG V) gen hs R" "validChain (evG V) E R S"
    and "hasPrefix (evG V) gen R S k n" "Suc k < length R" "dec (evH V) (sbHeader sb) = Some (R ! Suc k)" "deliverable V (sbPayloadJSON sb)"
  shows "\<exists>n'. importSyncBlock V E n sb = Some (n', Ok ()) \<and> hasPrefix (evG V) gen R S (Suc k) n' \<and>
    nNetworkID n' = nNetworkID n \<and> nSyncing n' = nSyncing n"
proof -
  let ?G = "evG V" and ?h = "R ! Suc k"
  have pre: "store_inv ?G (genesisEntry gen) (nStor n)" "Head (nStor n) = Some (R ! k)" "nHeadSnap n = S ! k" "nGenesisSnap n = S ! 0"
    using assms(4) by (simp_all add: hasPrefix_def)
  have can: "length R < 2 ^ 64" "\<And>i. i < length R \<Longrightarrow> hnum (R ! i) = Some (word_of_nat i)" "ParentHash ?h = hdrHash ?G (R ! k)"
    using assms(2,5) unfolding canonicalList_def by blast+
  obtain d where val: "d > 0" "Difficulty ?h = Some d" "opVerifyHeader E (S ! k) ?h (Some (R ! k)) = Ok ()"
    "opApply E (S ! k) [?h] = Ok (S ! Suc k)" and ep: "opEpoch E \<noteq> 0"
    and pos: "opBlockNumber E (S ! k) = word_of_nat k" "opBlockHash E (S ! k) = hdrHash ?G (R ! k)"
    using assms(3,5) Suc_lessD [OF assms(5)] unfolding validChain_def by blast
  from pre(1,2) obtain e0 where "stHead (nStor n) = Some e0" "beHeader e0 = R ! k" "member ?G (stBlocks (nStor n)) e0"
    by (auto simp: store_inv_def Head_def)
  then have par: "GetByHash (nStor n) (ParentHash ?h) = Some (R ! k)" using can(3) by (simp add: GetByHash_def member_def)
  have kk: "hnum (R ! k) = Some (word_of_nat k)" "hnum ?h = Some (word_of_nat (Suc k))" using can(2) assms(5) by simp_all
  have "unat (word_of_nat k :: u64) = k" using can(1) assms(5) by (simp add: unat_of_nat)
  then have "word_of_nat k = (0 :: u64) \<Longrightarrow> k = 0" by auto
  then have snapAt: "computeSnapshotAt ?G E n (R ! k) = Some (n, Ok (S ! k))"
    using kk(1) pos pre(3,4) by (auto simp: computeSnapshotAt_def)
  obtain s' r where s': "AddBlock ?G (evH V) (evP V) (evIO V) (nStor n) ?h (sbELHash sb) (sbPayloadJSON sb) = Some (s', Ok r)"
    "store_inv ?G (genesisEntry gen) s'" "Head s' = Some ?h" "headers_in s' (set (take (Suc (Suc k)) R))"
    using prefix_extends [OF assms(1,2,4,5) val(2,1)] by blast
  have snap: "computeSnapshot E (n\<lparr>nStor := s'\<rparr>) ?h = Some (n\<lparr>nStor := s'\<rparr>, Ok (S ! Suc k))"
    using kk(2) pos pre(3) can(3) val(4) by (simp add: computeSnapshot_def Let_def add.commute)
  have dl: "(deliverSyncPayload V n (sbPayloadJSON sb) :: ('s, 'e, unit) step) = Some (n, Ok ())" by (rule deliverSyncPayload_ok [OF assms(7)])
  have imp: "importSyncBlock V E n sb = setHeadSnapshot E (n\<lparr>nStor := s'\<rparr>) (S ! Suc k)"
    using snapAt snap val(3) s'(1) par assms(6) dl
    by (simp add: importSyncBlock_def addToStore_def)
  show ?thesis using ep assms(5) s'(2-4) pre(4) unfolding imp
    by (auto simp: setHeadSnapshot_def Let_def hasPrefix_def)
qed

lemma importSyncBlocks_next:
  fixes n :: "'s Node" and E :: "('s, 'e) EngineOps"
  assumes "consistent (evG V) gen hs" "canonicalList (evG V) gen hs R" "validChain (evG V) E R S"
    and "hasPrefix (evG V) gen R S k n" "map (\<lambda>sb. dec (evH V) (sbHeader sb)) sbs = map Some hdrs" "hdrs = take m (drop (Suc k) R)"
    and "\<forall>sb \<in> set sbs. deliverable V (sbPayloadJSON sb)"
  shows "\<exists>n'. importSyncBlocks V E n sbs = Some (n', Ok ()) \<and> hasPrefix (evG V) gen R S (k + length sbs) n' \<and>
    nNetworkID n' = nNetworkID n \<and> nSyncing n' = nSyncing n"
  using assms(4-7)
proof (induction sbs arbitrary: n k hdrs m)
  case Nil
  then show ?case by simp
next
  case (Cons sb sbs)
  obtain h hdrs' where h: "hdrs = h # hdrs'" "dec (evH V) (sbHeader sb) = Some h" "map (\<lambda>sb. dec (evH V) (sbHeader sb)) sbs = map Some hdrs'"
    using Cons.prems(2) by (cases hdrs) simp_all
  have "take m (drop (Suc k) R) \<noteq> []" using Cons.prems(3) h(1) by (metis list.distinct(1))
  then have lt: "Suc k < length R" and m: "m > 0" by auto
  have "drop (Suc k) R = R ! Suc k # drop (Suc (Suc k)) R" using lt by (simp add: Cons_nth_drop_Suc)
  then have "hdrs = R ! Suc k # take (m - 1) (drop (Suc (Suc k)) R)" using Cons.prems(3) m by (simp add: take_Cons')
  then have hd: "h = R ! Suc k" "hdrs' = take (m - 1) (drop (Suc (Suc k)) R)" using h(1) by simp_all
  have dl: "deliverable V (sbPayloadJSON sb)" "\<forall>sb \<in> set sbs. deliverable V (sbPayloadJSON sb)" using Cons.prems(4) by simp_all
  obtain n1 where n1: "importSyncBlock V E n sb = Some (n1, Ok ())" "hasPrefix (evG V) gen R S (Suc k) n1"
    "nNetworkID n1 = nNetworkID n" "nSyncing n1 = nSyncing n"
    using importSyncBlock_next [OF assms(1-3) Cons.prems(1) lt h(2) [unfolded hd(1)] dl(1)] by blast
  obtain n' where "importSyncBlocks V E n1 sbs = Some (n', Ok ())" "hasPrefix (evG V) gen R S (Suc k + length sbs) n'"
    "nNetworkID n' = nNetworkID n1" "nSyncing n' = nSyncing n1"
    using Cons.IH [OF n1(2) h(3) hd(2) dl(2)] by blast
  then show ?case using n1 by simp
qed

section \<open>Batches\<close>

definition honest :: "geth \<Rightarrow> header codec \<Rightarrow> Store \<Rightarrow> SyncRequestMsg \<Rightarrow> SyncResponseMsg option" where
  "honest G H s req =
     (case (handleSyncRequest G H s req :: (unit, SyncResponseMsg) result option) of Some (Ok resp) \<Rightarrow> Some resp | _ \<Rightarrow> None)"

lemma encodeSyncBlocks_payload:
  "sb \<in> set (encodeSyncBlocks G H s xs) \<Longrightarrow> sbPayloadJSON sb = [] \<or> (\<exists>h. GetPayload s h = Some (sbPayloadJSON sb))"
  by (induction xs) (auto split: option.splits)

lemma honest_payload:
  assumes "honest G H s req = Some resp" "sb \<in> set (srsBlocks resp)"
  shows "sbPayloadJSON sb = [] \<or> (\<exists>h. GetPayload s h = Some (sbPayloadJSON sb))"
proof -
  have "(handleSyncRequest G H s req :: (unit, SyncResponseMsg) result option) = Some (Ok resp)"
    using assms(1) by (auto simp: honest_def split: option.splits result.splits)
  note run = this [unfolded handleSyncRequest_def Let_def]
  have "srsBlocks resp = [] \<or> (\<exists>xs. srsBlocks resp = encodeSyncBlocks G H s xs)"
  proof (cases "Head s")
    case None
    then show ?thesis using run by auto
  next
    case (Some a)
    show ?thesis
    proof (cases "number_of a :: (unit, u64) result")
      case (Ok num)
      show ?thesis using run unfolding Some option.case Ok lbind.simps by (auto split: prod.splits if_splits option.splits)
    next
      case Panic
      show ?thesis using run unfolding Some option.case Panic lbind.simps by (auto split: prod.splits)
    qed simp
  qed
  then show ?thesis using assms(2) by (metis empty_iff empty_set encodeSyncBlocks_payload)
qed

text \<open>What an honest peer answers to each request, over one list of canonical headers.\<close>

definition answersWith :: "geth \<Rightarrow> header codec \<Rightarrow> Store \<Rightarrow> header list \<Rightarrow> bool" where
  "answersWith G H s R \<longleftrightarrow>
     (\<forall>k < length R. \<exists>blocks. honest G H s \<lparr>srHeadNumber = word_of_nat k, srHeadHash = hdrHash G (R ! k)\<rparr> =
          Some \<lparr>srsReset = False, srsBlocks = blocks\<rparr> \<and>
        map (\<lambda>sb. dec H (sbHeader sb)) blocks = map Some (take 2048 (drop (Suc k) R)))"

lemma index_list_unique:
  assumes "\<And>n :: u64. f n = (if unat n < length R then Some (R ! unat n) else None)"
    and "\<And>n :: u64. f n = (if unat n < length R' then Some (R' ! unat n) else None)" "length R < 2 ^ 64" "length R' < 2 ^ 64"
  shows "R = R'"
proof -
  have u: "unat (word_of_nat i :: u64) = i" if "i < 2 ^ 64" for i using that by (simp add: unat_of_nat)
  have iff: "i < length R \<longleftrightarrow> i < length R'" if "i < 2 ^ 64" for i
    using assms(1) [of "word_of_nat i"] assms(2) [of "word_of_nat i"] u [OF that] by (simp split: if_splits)
  have "length R = length R'" using iff [of "length R"] iff [of "length R'"] assms(3,4) by (metis less_irrefl linorder_neqE_nat)
  moreover have "R ! i = R' ! i" if "i < length R" for i
    using assms(1) [of "word_of_nat i"] assms(2) [of "word_of_nat i"] u [of i] that calculation assms(3) by simp
  ultimately show ?thesis by (rule nth_equalityI)
qed

lemma honest_answers:
  assumes "consistent G gen (set (headersOf xs))"
    and "addBlocks G H P (SetDB (New_store G gen epoch) db) xs = Some s"
    and "\<forall>h \<in> insert gen (set (headersOf xs)). \<exists>b. enc H h = Some b \<and> dec H b = Some h"
    and "Head s = Some tip" "hnum tip = Some m" "m < - 1"
  shows "\<exists>R. last R = tip \<and> canonicalList G gen (set (headersOf xs)) R \<and>
    (\<forall>n. GetByNumber s n = (if unat n < length R then Some (R ! unat n) else None)) \<and> answersWith G H s R"
proof -
  note sr = sync_response [OF assms]
  from sr obtain R where R: "last R = tip" "canonicalList G gen (set (headersOf xs)) R"
    "\<And>n. GetByNumber s n = (if unat n < length R then Some (R ! unat n) else None)" by blast
  have len: "length R < 2 ^ 64" using R(2) by (simp add: canonicalList_def)
  have "answersWith G H s R" unfolding answersWith_def
  proof (intro allI impI)
    fix k
    assume k: "k < length R"
    let ?req = "\<lparr>srHeadNumber = word_of_nat k, srHeadHash = hdrHash G (R ! k)\<rparr>"
    have uk: "unat (word_of_nat k :: u64) = k" using k len by (simp add: unat_of_nat)
    from sr [of ?req, where 'e = unit] obtain R' blocks where R': "canonicalList G gen (set (headersOf xs)) R'"
      "\<And>n. GetByNumber s n = (if unat n < length R' then Some (R' ! unat n) else None)"
      "(handleSyncRequest G H s ?req :: (unit, SyncResponseMsg) result option) = Some (Ok \<lparr>srsReset = fst (syncStart G s ?req), srsBlocks = blocks\<rparr>)"
      "map (dec H \<circ> sbHeader) blocks = map Some (take 2048 (drop (if fst (syncStart G s ?req) then 1 else unat (srHeadNumber ?req) + 1) R'))"
      "fst (syncStart G s ?req) \<longleftrightarrow> srHeadNumber ?req \<noteq> 0 \<and>
         \<not> (unat (srHeadNumber ?req) < length R' \<and> hdrHash G (R' ! unat (srHeadNumber ?req)) = srHeadHash ?req)" by blast
    have "R' = R" by (rule index_list_unique [OF R'(2) R(3)]) (use R'(1) len in \<open>simp_all add: canonicalList_def\<close>)
    then have "\<not> fst (syncStart G s ?req)" using R'(5) k uk by simp
    then show "\<exists>blocks. honest G H s ?req = Some \<lparr>srsReset = False, srsBlocks = blocks\<rparr> \<and>
        map (\<lambda>sb. dec H (sbHeader sb)) blocks = map Some (take 2048 (drop (Suc k) R))"
      using R'(3,4) \<open>R' = R\<close> uk by (intro exI [of _ blocks]) (simp add: honest_def o_def)
  qed
  then show ?thesis using R by blast
qed

lemma syncLoop_converges:
  fixes n :: "'s Node" and E :: "('s, 'e) EngineOps"
  assumes "consistent (evG V) gen hs" "canonicalList (evG V) gen hs R" "validChain (evG V) E R S" "answersWith (evG V) (evH V) s R"
    and pay: "\<forall>h pj. GetPayload s h = Some pj \<longrightarrow> deliverable V pj"
    and "hasPrefix (evG V) gen R S k n" "length R - 1 - k < m"
    and ask: "\<And>i. i < length R \<Longrightarrow> ask \<lparr>srHeadNumber = word_of_nat i, srHeadHash = hdrHash (evG V) (R ! i)\<rparr> =
           honest (evG V) (evH V) s \<lparr>srHeadNumber = word_of_nat i, srHeadHash = hdrHash (evG V) (R ! i)\<rparr>"
  shows "\<exists>n'. syncLoop V os E n (replicate m ask) = Some (n', Ok ()) \<and>
    hasPrefix (evG V) gen R S (length R - 1) n' \<and> nNetworkID n' = nNetworkID n \<and> nSyncing n' = nSyncing n"
  using assms(6,7)
proof (induction m arbitrary: k n)
  case 0
  then show ?case by simp
next
  case (Suc m)
  have k: "k < length R" "Head (nStor n) = Some (R ! k)" using Suc.prems(1) by (simp_all add: hasPrefix_def)
  let ?req = "\<lparr>srHeadNumber = word_of_nat k, srHeadHash = hdrHash (evG V) (R ! k)\<rparr>"
  have req: "(syncRequest (evG V) n :: ('e node_error, SyncRequestMsg) result) = Ok ?req"
    using k assms(2) by (simp add: syncRequest_def canonicalList_def)
  obtain blocks where hb: "honest (evG V) (evH V) s ?req = Some \<lparr>srsReset = False, srsBlocks = blocks\<rparr>"
    and bl: "map (\<lambda>sb. dec (evH V) (sbHeader sb)) blocks = map Some (take 2048 (drop (Suc k) R))"
    using assms(4) k(1) unfolding answersWith_def by blast
  have b: "ask ?req = Some \<lparr>srsReset = False, srsBlocks = blocks\<rparr>" "map (\<lambda>sb. dec (evH V) (sbHeader sb)) blocks = map Some (take 2048 (drop (Suc k) R))"
    using ask [OF k(1)] hb bl by simp_all
  have lb: "length blocks = min 2048 (length R - Suc k)" using arg_cong [OF b(2), of length] by simp
  have dl: "\<forall>sb \<in> set blocks. deliverable V (sbPayloadJSON sb)"
    using honest_payload [OF hb] pay by (auto simp: deliverable_def)
  obtain n1 where n1: "importSyncBlocks V E n blocks = Some (n1, Ok ())" "hasPrefix (evG V) gen R S (k + length blocks) n1"
    "nNetworkID n1 = nNetworkID n" "nSyncing n1 = nSyncing n"
    using importSyncBlocks_next [OF assms(1-3) Suc.prems(1) b(2) refl dl] by blast
  have um: "unat MaxSyncBlocks = 2048" by (simp add: MaxSyncBlocks_def)
  show ?case
  proof (cases "blocks = []")
    case True
    then have "k = length R - 1" using lb k(1) by simp
    then show ?thesis using True Suc.prems(1) b(1) req by simp
  next
    case False
    show ?thesis
    proof (cases "length blocks < 2048")
      case True
      then have "k + length blocks = length R - 1" using lb k(1) by simp
      then show ?thesis using True False b(1) req n1 um by simp
    next
      case full: False
      then have "length R - 1 - (k + length blocks) < m" using lb Suc.prems(2) by simp
      from Suc.IH [OF n1(2) this] show ?thesis using full False b(1) req n1 um by simp
    qed
  qed
qed

text \<open>The snapshot at the end of a valid chain is that of its last header.\<close>

lemma validChain_tip:
  assumes "validChain G E R S" "canonicalList G gen hs R"
  shows "opBlockHash E (S ! (length R - 1)) = hdrHash G (R ! (length R - 1)) \<and> Some (opBlockNumber E (S ! (length R - 1))) = hnum (R ! (length R - 1))"
proof -
  have "length R - 1 < length R" using assms(2) by (cases R) (simp_all add: canonicalList_def)
  then show ?thesis using assms unfolding validChain_def canonicalList_def by metis
qed

text \<open>A peer that answers more requests than needed changes nothing.\<close>

lemma syncLoop_more: "syncLoop V os E n asks = Some (n', r) \<Longrightarrow> syncLoop V os E n (asks @ rest) = Some (n', r)"
proof (induction asks arbitrary: n)
  case (Cons ask asks)
  show ?case
  proof (cases "syncRequest (evG V) n :: ('b node_error, SyncRequestMsg) result")
    case (Ok req)
    show ?thesis using Cons.prems unfolding append_Cons syncLoop.simps Ok nbind.simps
      by (auto simp: nbind_Some Cons.IH split: option.splits if_splits)
  qed (use Cons.prems in simp_all)
qed simp

text \<open>
  The peer behind the exchange: the host's provider is \<^const>\<open>handleSyncRequest\<close> on its store, and for every canonical
  header the request from it and the response to it fit their message limits.
\<close>

definition servesWithinLimit :: "wireCodecs \<Rightarrow> geth \<Rightarrow> header codec \<Rightarrow> Store \<Rightarrow> (SyncRequestMsg \<Rightarrow> SyncResponseMsg) \<Rightarrow> u64 \<Rightarrow> header \<Rightarrow> bool" where
  "servesWithinLimit W G H s provider num hdr =
     (let req = \<lparr>srHeadNumber = num, srHeadHash = hdrHash G hdr\<rparr>
      in fitsIn (wcSyncRequest W) maxStatusMsgSize req \<and>
         (handleSyncRequest G H s req :: (unit, SyncResponseMsg) result option) = Some (Ok (provider req)) \<and>
         fitsIn (wcSyncResponse W) maxSyncMsgSize (provider req))"

lemma askPeer_honest:
  assumes "hoSyncProvider h = Some provider" "servesWithinLimit W G H s provider num hdr"
  shows "askPeer W h \<lparr>srHeadNumber = num, srHeadHash = hdrHash G hdr\<rparr> = honest G H s \<lparr>srHeadNumber = num, srHeadHash = hdrHash G hdr\<rparr>"
  using assms(2) askPeer_fits [OF _ assms(1)] by (simp add: servesWithinLimit_def Let_def honest_def)

text \<open>
  C6. A fresh node catches up over the sync exchange. Let a peer hold any history of blocks, consistently numbered and
  encodable, with its head below the largest number, whose canonical chain is valid: every header verifies in the
  snapshot of its parent, and the execution client accepts the payloads stored with it. Let the peer's sync provider
  answer from that store, and let the request from each canonical header and the response to it fit their limits, 32 MB
  for the response; a longer one would fail the exchange. Then a node that has just been built on the same
  genesis block and syncs with that peer over \<^verbatim>\<open>RequestSync\<close> and \<^verbatim>\<open>handleSyncStream\<close>, batch by batch, ends without an
  error with the peer's head as its own, the consensus snapshot of that head, the sync lock released, and announces
  that head.
\<close>

theorem node_sync_converges:
  fixes E :: "('s, 'e) EngineOps"
  assumes "consistent (evG V) gen (set (headersOf xs))"
    and "addBlocks (evG V) (evH V) P (SetDB (New_store (evG V) gen epoch) db) xs = Some s"
    and "\<forall>h \<in> insert gen (set (headersOf xs)). \<exists>b. enc (evH V) h = Some b \<and> dec (evH V) b = Some h"
    and "Head s = Some tip" "hnum tip = Some m" "m < - 1"
    and "\<forall>h pj. GetPayload s h = Some pj \<longrightarrow> deliverable V pj"
    and "newNode E (evG V) gen net key = Ok n"
    and "\<forall>R. (\<forall>i. GetByNumber s i = (if unat i < length R then Some (R ! unat i) else None)) \<and> last R = tip \<longrightarrow>
           (\<exists>S. validChain (evG V) E R S \<and> S ! 0 = nGenesisSnap n)"
    and "hoSyncProvider peer = Some provider"
    and "\<forall>num hdr. GetByNumber s num = Some hdr \<longrightarrow> servesWithinLimit W (evG V) (evH V) s provider num hdr"
  shows "\<exists>n' k snap. (\<forall>j \<ge> k. syncWithPeer V os E n (replicate j (askPeer W peer)) = Some (n', Ok ())) \<and>
    Head (nStor n') = Some tip \<and> nHeadSnap n' = snap \<and> opBlockHash E snap = hdrHash (evG V) tip \<and> opBlockNumber E snap = m \<and>
    \<not> nSyncing n' \<and> smHeadHash (nStatus n') = hdrHash (evG V) tip \<and> smHeadNumber (nStatus n') = m \<and> smNetworkID (nStatus n') = net"
proof -
  let ?G = "evG V" and ?ask = "askPeer W peer"
  obtain R where R: "last R = tip" "canonicalList ?G gen (set (headersOf xs)) R"
    "\<forall>i. GetByNumber s i = (if unat i < length R then Some (R ! unat i) else None)" "answersWith ?G (evH V) s R"
    using honest_answers [OF assms(1-6)] by blast
  obtain S where S: "validChain ?G E R S" "S ! 0 = nGenesisSnap n" using assms(9) R(1,3) by blast
  have ne: "R \<noteq> []" "R ! 0 = gen" "length R < 2 ^ 64" using R(2) by (simp_all add: canonicalList_def)
  have ask: "?ask \<lparr>srHeadNumber = word_of_nat i, srHeadHash = hdrHash ?G (R ! i)\<rparr> =
      honest ?G (evH V) s \<lparr>srHeadNumber = word_of_nat i, srHeadHash = hdrHash ?G (R ! i)\<rparr>" if "i < length R" for i
  proof (rule askPeer_honest [OF assms(10)])
    have "GetByNumber s (word_of_nat i) = Some (R ! i)" using R(3) that ne(3) by (simp add: unat_of_nat)
    then show "servesWithinLimit W ?G (evH V) s provider (word_of_nat i) (R ! i)" using assms(11) by blast
  qed
  have tip: "R ! (length R - 1) = tip" using R(1) ne(1) by (simp add: last_conv_nth)
  have g: "genesis_ok ?G gen" using assms(1) by (simp add: consistent_def)
  have n: "nStor n = New_store ?G gen (opEpoch E)" "nHeadSnap n = nGenesisSnap n" "nNetworkID n = net" "\<not> nSyncing n"
    using assms(8) by (auto simp: newNode_def)
  have pre: "hasPrefix ?G gen R S 0 (n\<lparr>nSyncing := True\<rparr>)"
    using n S(2) ne New_store_inv [OF g, of "opEpoch E"] New_store_headers [of ?G gen "opEpoch E" "{}"]
    by (simp add: hasPrefix_def Head_def New_store_def Let_def take_Suc hd_conv_nth)
  have "length R - 1 - 0 < length R" using ne(1) by simp
  from syncLoop_converges [OF assms(1) R(2) S(1) R(4) assms(7) pre this ask] obtain n1 where
    n1: "syncLoop V os E (n\<lparr>nSyncing := True\<rparr>) (replicate (length R) ?ask) = Some (n1, Ok ())"
    "hasPrefix ?G gen R S (length R - 1) n1" "nNetworkID n1 = net" using n(3) by auto
  have hd: "Head (nStor n1) = Some tip" "nHeadSnap n1 = S ! (length R - 1)" using n1(2) tip by (simp_all add: hasPrefix_def)
  define n' where "n' = (setStatus E n1 (hdrHash ?G tip) m)\<lparr>nSyncing := False\<rparr>"
  have fin: "finishSync V E n1 = Some (setStatus E n1 (hdrHash ?G tip) m, Ok ())"
    using hd(1) assms(5) by (simp add: finishSync_def number_of_hnum)
  have "syncWithPeer V os E n (replicate j ?ask) = Some (n', Ok ())" if "length R \<le> j" for j
  proof -
    have "replicate j ?ask = replicate (length R) ?ask @ replicate (j - length R) ?ask"
      using that by (simp add: replicate_add [symmetric])
    then show ?thesis using syncLoop_more [OF n1(1)] fin n(4) by (simp add: syncWithPeer_def n'_def)
  qed
  moreover have "opBlockHash E (S ! (length R - 1)) = hdrHash ?G tip" "opBlockNumber E (S ! (length R - 1)) = m"
    using validChain_tip [OF S(1) R(2)] tip assms(5) by simp_all
  moreover have "Head (nStor n') = Some tip" "nHeadSnap n' = S ! (length R - 1)" "\<not> nSyncing n'"
    "smHeadHash (nStatus n') = hdrHash ?G tip" "smHeadNumber (nStatus n') = m" "smNetworkID (nStatus n') = net"
    using hd n1(3) by (simp_all add: n'_def setStatus_def)
  ultimately show ?thesis by blast
qed

section \<open>A concrete peer\<close>

definition ndSnap0 :: Snapshot where "ndSnap0 = the (okVal (NewGenesisSnapshot ndG ndGenesis))"
definition ndSnap1 :: Snapshot where "ndSnap1 = the (okVal (Apply ndG ndEngine ndSnap0 [ndBlock1]))"
definition ndSnap2 :: Snapshot where "ndSnap2 = the (okVal (Apply ndG ndEngine ndSnap1 [ndBlock2]))"

definition ndChain :: "header list" where "ndChain = [ndGenesis, ndBlock1, ndBlock2]"

definition ndPeer :: "Store option" where
  "ndPeer = addBlocks ndG (evH ndEnv) fcP (SetDB (New_store ndG ndGenesis 2) None) (map fcRec [ndBlock1, ndBlock2])"

lemma okVal_the: "is_ok r \<Longrightarrow> r = Ok (the (okVal r))"
  by (cases r) auto

lemma ndChain_valid: "validChain ndG ndOps ndChain [ndSnap0, ndSnap1, ndSnap2]"
proof -
  have "is_ok (Apply ndG ndEngine ndSnap0 [ndBlock1])" "is_ok (Apply ndG ndEngine ndSnap1 [ndBlock2])" by code_simp+
  then have app: "Apply ndG ndEngine ndSnap0 [ndBlock1] = Ok ndSnap1" "Apply ndG ndEngine ndSnap1 [ndBlock2] = Ok ndSnap2"
    unfolding ndSnap1_def ndSnap2_def by (simp_all add: okVal_the)
  have ver: "VerifyHeader ndG ndEngine ndSnap0 ndBlock1 (Some ndGenesis) = Ok ()"
    "VerifyHeader ndG ndEngine ndSnap1 ndBlock2 (Some ndBlock1) = Ok ()" by code_simp+
  have dif: "Difficulty ndBlock1 = Some 1" "Difficulty ndBlock2 = Some 1" by code_simp+
  have num: "snNumber ndSnap0 = 0" "snNumber ndSnap1 = 1" "snNumber ndSnap2 = 2" by code_simp+
  have hash: "snHash ndSnap0 = hdrHash ndG ndGenesis" "snHash ndSnap1 = hdrHash ndG ndBlock1" "snHash ndSnap2 = hdrHash ndG ndBlock2"
    by code_simp+
  have epoch: "clEpoch ndEngine \<noteq> 0" by code_simp
  show ?thesis using app ver dif num hash epoch
    by (simp add: validChain_def ndOps_def cliqueOps_def ndChain_def All_less_Suc less_Suc_eq)
qed

lemma nd_consistent: "consistent (evG ndEnv) ndGenesis (set (headersOf (map fcRec [ndBlock1, ndBlock2])))"
  by code_simp

text \<open>The canonical index of the peer determines the list of its canonical headers.\<close>

lemma ndPeer_chain:
  assumes "ndPeer = Some s" "\<forall>i. GetByNumber s i = (if unat i < length R then Some (R ! unat i) else None)"
  shows "R = ndChain"
proof -
  have "map_option (\<lambda>s. (GetByNumber s 0, GetByNumber s 1, GetByNumber s 2, GetByNumber s 3)) ndPeer =
      Some (Some ndGenesis, Some ndBlock1, Some ndBlock2, None)" by code_simp
  then have g: "GetByNumber s 0 = Some ndGenesis" "GetByNumber s 1 = Some ndBlock1" "GetByNumber s 2 = Some ndBlock2" "GetByNumber s 3 = None"
    unfolding assms(1) by simp_all
  have idx: "if j < length R then GetByNumber s (word_of_nat j) = Some (R ! j) else GetByNumber s (word_of_nat j) = None" if "j < 4" for j
    using assms(2) that by (simp add: unat_of_nat)
  have len: "length R = 3" using idx [of 2] idx [of 3] g(3,4) by (auto split: if_splits)
  have "R ! 0 = ndGenesis" "R ! 1 = ndBlock1" "R ! 2 = ndBlock2" using idx [of 0] idx [of 1] idx [of 2] g len by simp_all
  then show ?thesis using len by (auto simp: ndChain_def length_Suc_conv numeral_3_eq_3 numeral_2_eq_2)
qed

text \<open>
  The peer's host: its provider answers from the store, and its wire sends the blocks of a response as a count of them,
  the requester telling the three possible batches apart by it.
\<close>

definition ndAnswer :: "SyncRequestMsg \<Rightarrow> SyncResponseMsg" where
  "ndAnswer req =
     (case ndPeer of
        Some s \<Rightarrow> (case honest ndG (evH ndEnv) s req of Some resp \<Rightarrow> resp | None \<Rightarrow> \<lparr>srsReset = False, srsBlocks = []\<rparr>)
      | None \<Rightarrow> \<lparr>srsReset = False, srsBlocks = []\<rparr>)"

definition ndRequest :: "header \<Rightarrow> SyncRequestMsg" where
  "ndRequest h = \<lparr>srHeadNumber = (case hnum h of Some k \<Rightarrow> k | None \<Rightarrow> 0), srHeadHash = hdrHash ndG h\<rparr>"

definition ndCodecs :: wireCodecs where
  "ndCodecs = demoWire\<lparr>wcSyncResponse :=
     \<lparr>enc = \<lambda>r. Some (replicate (length (srsBlocks r)) 0),
      dec = \<lambda>b. find (\<lambda>r. length (srsBlocks r) = length b) (map (ndAnswer \<circ> ndRequest) ndChain)\<rparr>\<rparr>"

definition ndHost :: "unit Host" where
  "ndHost = SetSyncProvider (the (New_host (Some ''peer'') (demoStatusMsg 1 2))) ndAnswer"

lemma ndAnswer_sizes: "map (length \<circ> srsBlocks \<circ> ndAnswer \<circ> ndRequest) ndChain = [2, 1, 0]"
  by code_simp

lemma nd_serves:
  assumes "ndPeer = Some s" "h \<in> set ndChain"
  shows "servesWithinLimit ndCodecs ndG (evH ndEnv) s ndAnswer (srHeadNumber (ndRequest h)) h"
proof -
  have sz: "length (srsBlocks (ndAnswer (ndRequest ndGenesis))) = 2" "length (srsBlocks (ndAnswer (ndRequest ndBlock1))) = 1"
    "length (srsBlocks (ndAnswer (ndRequest ndBlock2))) = 0" using ndAnswer_sizes by (simp_all add: ndChain_def)
  have "find (\<lambda>r. length (srsBlocks r) = length (srsBlocks (ndAnswer (ndRequest h)))) (map (ndAnswer \<circ> ndRequest) ndChain) =
      Some (ndAnswer (ndRequest h)) \<and> length (srsBlocks (ndAnswer (ndRequest h))) \<le> 2"
    using assms(2) sz by (auto simp: ndChain_def)
  then have resp: "fitsIn (wcSyncResponse ndCodecs) maxSyncMsgSize (ndAnswer (ndRequest h))"
    by (simp add: fitsIn_def ndCodecs_def maxSyncMsgSize_def)
  have "list_all (\<lambda>h. getRequest (the (putRequest (ndRequest h))) = Some (ndRequest h) \<and> length (the (putRequest (ndRequest h))) \<le> 2) ndChain"
    by code_simp
  then have req: "fitsIn (wcSyncRequest ndCodecs) maxStatusMsgSize (ndRequest h)"
    using assms(2) by (auto simp: fitsIn_def ndCodecs_def demoWire_def maxStatusMsgSize_def list_all_iff)
  have "list_all (\<lambda>h. map_option (\<lambda>s. map_option is_ok (handleSyncRequest ndG (evH ndEnv) s (ndRequest h) :: (unit, SyncResponseMsg) result option)) ndPeer = Some (Some True)) ndChain"
    by code_simp
  then have "map_option is_ok (handleSyncRequest ndG (evH ndEnv) s (ndRequest h) :: (unit, SyncResponseMsg) result option) = Some True"
    using assms(2) unfolding list_all_iff assms(1) option.map by blast
  then obtain r where "(handleSyncRequest ndG (evH ndEnv) s (ndRequest h) :: (unit, SyncResponseMsg) result option) = Some (Ok r)"
    by (auto simp: is_ok_iff)
  moreover from this have "ndAnswer (ndRequest h) = r" unfolding ndAnswer_def assms(1) option.case honest_def by simp
  ultimately show ?thesis using resp req by (simp add: servesWithinLimit_def Let_def ndRequest_def)
qed

theorem node_sync_converges_witness:
  "\<exists>n n' k. newNode ndOps ndG ndGenesis 1 None = Ok n \<and>
     syncWithPeer ndEnv (\<lambda>_. True) ndOps n (replicate k (askPeer ndCodecs ndHost)) = Some (n', Ok ()) \<and>
     Head (nStor n') = Some ndBlock2 \<and> snNumber (nHeadSnap n') = 2"
proof -
  have ev: "evG ndEnv = ndG" by (simp add: ndEnv_def)
  have "map_option Head ndPeer = Some (Some ndBlock2)" by code_simp
  then obtain s where s: "ndPeer = Some s" "Head s = Some ndBlock2" by auto
  have add: "addBlocks (evG ndEnv) (evH ndEnv) fcP (SetDB (New_store (evG ndEnv) ndGenesis 2) None) (map fcRec [ndBlock1, ndBlock2]) = Some s"
    using s(1) unfolding ndPeer_def ev .
  have cod: "\<forall>h \<in> insert ndGenesis (set (headersOf (map fcRec [ndBlock1, ndBlock2]))). \<exists>b. enc (evH ndEnv) h = Some b \<and> dec (evH ndEnv) b = Some h"
    using nd_codec by (auto simp: ndTable_def fcRec_def headersOf_def)
  have num: "hnum ndBlock2 = Some 2" "(2 :: u64) < - 1" by code_simp+
  have pay: "\<forall>h pj. GetPayload s h = Some pj \<longrightarrow> deliverable ndEnv pj"
    by (simp add: deliverable_def ndEnv_def ndDecPayload_def ndEL_def ndNewPayload_def PayloadStatusValid_def PayloadStatusInvalid_def)
  have "is_ok (NewGenesisSnapshot ndG ndGenesis)" by code_simp
  then have "NewGenesisSnapshot ndG ndGenesis = Ok ndSnap0" unfolding ndSnap0_def by (rule okVal_the)
  then obtain n where n: "newNode ndOps (evG ndEnv) ndGenesis 1 None = Ok n" "nGenesisSnap n = ndSnap0"
    by (simp add: newNode_def ndOps_def cliqueOps_def)
  have val: "\<forall>R. (\<forall>i. GetByNumber s i = (if unat i < length R then Some (R ! unat i) else None)) \<and> last R = ndBlock2 \<longrightarrow>
      (\<exists>S. validChain (evG ndEnv) ndOps R S \<and> S ! 0 = nGenesisSnap n)"
    using ndPeer_chain [OF s(1)] ndChain_valid n(2) unfolding ev by (metis nth_Cons_0)
  have hn: "hnum ndGenesis = Some 0" "hnum ndBlock1 = Some 1" by code_simp+
  obtain R where R: "last R = ndBlock2" "\<forall>i. GetByNumber s i = (if unat i < length R then Some (R ! unat i) else None)"
    using honest_answers [OF nd_consistent add cod s(2) num] by blast
  have "R = ndChain" by (rule ndPeer_chain [OF s(1) R(2)])
  have srv: "servesWithinLimit ndCodecs (evG ndEnv) (evH ndEnv) s ndAnswer i h" if i: "GetByNumber s i = Some h" for i h
  proof -
    have c: "unat i < length ndChain" "h = ndChain ! unat i" using i R(2) unfolding \<open>R = ndChain\<close> by (auto split: if_splits)
    have h: "h \<in> set ndChain" using c by simp
    have "hnum h = Some i"
    proof -
      have "map hnum ndChain ! unat i = [Some 0, Some 1, Some 2] ! unat i" using hn num(1) by (simp add: ndChain_def)
      moreover have "unat i \<in> {0, 1, 2}" using c(1) by (auto simp: ndChain_def)
      ultimately show ?thesis using c by (auto simp: word_unat_eq_iff)
    qed
    then have "srHeadNumber (ndRequest h) = i" by (simp add: ndRequest_def)
    then show ?thesis using nd_serves [OF s(1) h] unfolding ev by simp
  qed
  have prov: "hoSyncProvider ndHost = Some ndAnswer" by (simp add: ndHost_def SetSyncProvider_def)
  from node_sync_converges [OF nd_consistent add cod s(2) num pay n(1) val prov, of ndCodecs "\<lambda>_. True"] srv obtain n' k where
    r: "\<forall>j \<ge> k. syncWithPeer ndEnv (\<lambda>_. True) ndOps n (replicate j (askPeer ndCodecs ndHost)) = Some (n', Ok ())"
    "Head (nStor n') = Some ndBlock2" "opBlockNumber ndOps (nHeadSnap n') = 2" by blast
  then show ?thesis using n(1) unfolding ev by (auto simp: ndOps_def cliqueOps_def)
qed

end
