(* ===== verification/Node_Loop.thy ===== *)
theory Node_Loop
  imports Node_Producer Node_Qbft
begin

text \<open>
  The QBFT protocol loop: \<^verbatim>\<open>node/qbft_loop.go\<close>. The state is the node with the message channel, which holds at
  most 64 messages, and what has been published. What happens around the loop is a list of events: a
  message delivered by the P2P goroutine, the select taking the next message, the round timer, the
  cancellation of the context. A call that does not return (the events are used up, a send blocks on
  the full channel that only this goroutine reads, a loop of the store diverges) is \<^const>\<open>None\<close>.
\<close>

section \<open>State\<close>

record Loop =
  lpNode :: "QSnapshot Node"
  lpChan :: "QBFTMsg list"
  lpSent :: "QBFTMsg list"
  lpBlocks :: "CliqueBlock list"

definition chanCapacity :: nat where "chanCapacity = 64"

text \<open>\<^verbatim>\<open>handleQBFTMsg\<close>: a non-blocking send; the message is dropped when the channel is full.\<close>

definition handleQBFTMsg :: "Loop \<Rightarrow> QBFTMsg \<Rightarrow> Loop" where
  "handleQBFTMsg l m = (if length (lpChan l) < chanCapacity then l\<lparr>lpChan := lpChan l @ [m]\<rparr> else l)"

record qbftDecisionResult =
  drCommittedHeader :: "header option"
  drCommittedPayload :: "ExecutionPayloadV3 option"
  drStartRound :: bool
  drNextRound :: u32
  drPreparedHeader :: "header option"
  drPreparedPayload :: bytes
  drRCC :: "SignedRoundChange list"

datatype loop_error =
    LErrPayload | LErrAddBlock "qbft_error node_error" | LErrFCU | LErrStatus | LErrNoPayloadID | LErrGetPayload
  | LErrSeal qbft_error | LErrMarshal | LErrCancelled

type_synonym 'a loop_result = "(Loop \<times> (loop_error, 'a) result) option"

section \<open>Dispatching decisions\<close>

text \<open>Committing: deliver the payload, store the block, tell the execution client, announce the block.\<close>

definition commitResult :: "header \<Rightarrow> ExecutionPayloadV3 option \<Rightarrow> qbftDecisionResult" where
  "commitResult h ep = \<lparr>drCommittedHeader = Some h, drCommittedPayload = ep, drStartRound = False, drNextRound = 0,
     drPreparedHeader = None, drPreparedPayload = [], drRCC = []\<rparr>"

definition announce :: "Env \<Rightarrow> Loop \<Rightarrow> header \<Rightarrow> ExecutionPayloadV3 option \<Rightarrow> Loop" where
  "announce V l h ep =
     (case ep of
        None \<Rightarrow> l
      | Some p \<Rightarrow> (case NewCliqueBlock V h p of None \<Rightarrow> l | Some blk \<Rightarrow> l\<lparr>lpBlocks := lpBlocks l @ [blk]\<rparr>))"

definition storeCommitted ::
    "Env \<Rightarrow> Loop \<Rightarrow> header \<Rightarrow> ExecutionPayloadV3 option \<Rightarrow> bytes \<Rightarrow> qbftDecisionResult option loop_result" where
  "storeCommitted V l h ep payload =
     (case addToStore V (lpNode l) h (case ep of None \<Rightarrow> zeroHash | Some p \<Rightarrow> epBlockHash p) payload of
        None \<Rightarrow> None
      | Some (n, Err e) \<Rightarrow> Some (l\<lparr>lpNode := n\<rparr>, Err (LErrAddBlock e))
      | Some (n, Panic) \<Rightarrow> Some (l\<lparr>lpNode := n\<rparr>, Panic)
      | Some (n, Ok _) \<Rightarrow> Some (announce V (l\<lparr>lpNode := n\<rparr>) h ep, Ok (Some (commitResult h ep))))"

definition commitDecision :: "Env \<Rightarrow> Loop \<Rightarrow> header \<Rightarrow> bytes \<Rightarrow> qbftDecisionResult option loop_result" where
  "commitDecision V l h payload =
     (if length payload > 0
      then (case dec (evJ V) payload of
              None \<Rightarrow> Some (l, Err LErrPayload)
            | Some ep \<Rightarrow> storeCommitted V l h (Some ep) payload)
      else storeCommitted V l h None payload)"

text \<open>
  \<^verbatim>\<open>dispatchQBFTDecisions\<close>. A broadcast is signed, published and echoed to the node's own channel with a
  blocking send.
\<close>

fun dispatchQBFTDecisions :: "Env \<Rightarrow> Loop \<Rightarrow> Decision list \<Rightarrow> qbftDecisionResult option loop_result" where
  "dispatchQBFTDecisions V l [] = Some (l, Ok None)"
| "dispatchQBFTDecisions V l (DBroadcast ty data # ds) =
     (case nSignerKey (lpNode l) of
        None \<Rightarrow> dispatchQBFTDecisions V l ds
      | Some key \<Rightarrow>
          (case signQBFTMsg (evG V) \<lparr>qmType = ty, qmData = data, qmSig = []\<rparr> key of
             Err _ \<Rightarrow> dispatchQBFTDecisions V l ds
           | Panic \<Rightarrow> Some (l, Panic)
           | Ok m \<Rightarrow>
               if length (lpChan l) < chanCapacity
               then dispatchQBFTDecisions V (l\<lparr>lpChan := lpChan l @ [m], lpSent := lpSent l @ [m]\<rparr>) ds
               else None))"
| "dispatchQBFTDecisions V l (DCommitBlock None payload # ds) = dispatchQBFTDecisions V l ds"
| "dispatchQBFTDecisions V l (DCommitBlock (Some h) payload # ds) = commitDecision V l h payload"
| "dispatchQBFTDecisions V l (DStartRound r ph pp rcc # ds) =
     Some (l, Ok (Some \<lparr>drCommittedHeader = None, drCommittedPayload = None, drStartRound = True, drNextRound = r,
                        drPreparedHeader = ph, drPreparedPayload = pp, drRCC = rcc\<rparr>))"

section \<open>One round\<close>

datatype loop_event = EvDeliver QBFTMsg | EvTake | EvTimer | EvDone

definition terminal :: "qbftDecisionResult option \<Rightarrow> bool" where
  "terminal r \<longleftrightarrow> (case r of None \<Rightarrow> False | Some d \<Rightarrow> drCommittedHeader d \<noteq> None \<or> drStartRound d)"

text \<open>What one message from the channel, or the timer, does to the core and the node.\<close>

definition takeMsg ::
    "Env \<Rightarrow> rlpCodecs \<Rightarrow> (roundChangeRecord list \<Rightarrow> roundChangeRecord list) \<Rightarrow> Core \<Rightarrow> Loop \<Rightarrow> QBFTMsg
      \<Rightarrow> (Core \<times> qbftDecisionResult option loop_result)" where
  "takeMsg V K order core l raw =
     (case incomingOf (evG V) raw of
        Err _ \<Rightarrow> (core, Some (l, Ok None))
      | Panic \<Rightarrow> (core, Some (l, Panic))
      | Ok msg \<Rightarrow>
          (case HandleMsg (evG V) K order core msg of
             Err e \<Rightarrow> (core, Some (l, Ok None))
           | Panic \<Rightarrow> (core, Some (l, Panic))
           | Ok (core', ds) \<Rightarrow> (core', dispatchQBFTDecisions V l ds)))"

text \<open>
  \<^verbatim>\<open>qbftRoundLoop\<close>: the loop returns on a terminal result, an error or cancellation, with the events that are
  left. The timer fires once; taking from an empty channel is not enabled.
\<close>

fun qbftRoundLoop ::
    "Env \<Rightarrow> rlpCodecs \<Rightarrow> (roundChangeRecord list \<Rightarrow> roundChangeRecord list) \<Rightarrow> bool \<Rightarrow> Core \<Rightarrow> Loop \<Rightarrow> loop_event list
      \<Rightarrow> (Core \<times> Loop \<times> (loop_error, qbftDecisionResult option) result \<times> loop_event list) option" where
  "qbftRoundLoop V K order fired core l [] = None"
| "qbftRoundLoop V K order fired core l (EvDone # evs) = Some (core, l, Ok None, EvDone # evs)"
| "qbftRoundLoop V K order fired core l (EvDeliver m # evs) = qbftRoundLoop V K order fired core (handleQBFTMsg l m) evs"
| "qbftRoundLoop V K order fired core l (EvTake # evs) =
     (case lpChan l of
        [] \<Rightarrow> qbftRoundLoop V K order fired core l evs
      | raw # rest \<Rightarrow>
          (case takeMsg V K order core (l\<lparr>lpChan := rest\<rparr>) raw of
             (core', None) \<Rightarrow> None
           | (core', Some (l', Ok r)) \<Rightarrow>
               if terminal r then Some (core', l', Ok r, evs) else qbftRoundLoop V K order fired core' l' evs
           | (core', Some (l', e)) \<Rightarrow> Some (core', l', e, evs)))"
| "qbftRoundLoop V K order fired core l (EvTimer # evs) =
     (if fired then qbftRoundLoop V K order fired core l evs
      else let (core', ds) = Timeout K core in
        case dispatchQBFTDecisions V l ds of
          None \<Rightarrow> None
        | Some (l', Ok r) \<Rightarrow>
            if terminal r then Some (core', l', Ok r, evs) else qbftRoundLoop V K order True core' l' evs
        | Some (l', e) \<Rightarrow> Some (core', l', e, evs))"

section \<open>Building a proposal\<close>

text \<open>\<open>waited\<close> says whether the wait for the block time ended before the context was cancelled.\<close>

definition buildQBFTProposal ::
    "Env \<Rightarrow> (QSnapshot, qbft_error) EngineOps \<Rightarrow> QSnapshot Node \<Rightarrow> header \<Rightarrow> QSnapshot \<Rightarrow> u64 \<Rightarrow> bool
      \<Rightarrow> (loop_error, header \<times> ExecutionPayloadV3) result" where
  "buildQBFTProposal V E n parent snap nextNum waited =
     (let targetTime = Time parent + opPeriod E in
      if \<not> waited then Err LErrCancelled
      else case opBuildExtra E snap nextNum of
        Err _ \<Rightarrow> Panic
      | Panic \<Rightarrow> Panic
      | Ok clExtra \<Rightarrow>
          (case elForkchoiceUpdatedV3 (evEL V) (ForkchoiceState (evG V) (nStor n)) (Some (buildAttributes E (nSignerAddr n) targetTime)) of
             None \<Rightarrow> Err LErrFCU
           | Some (status, payloadID) \<Rightarrow>
               if status \<noteq> PayloadStatusValid then Err LErrStatus
               else (case payloadID of
                       None \<Rightarrow> Err LErrNoPayloadID
                     | Some i \<Rightarrow>
                         (case elGetPayloadV3 (evEL V) i of
                            None \<Rightarrow> Err LErrGetPayload
                          | Some ep \<Rightarrow>
                              rbind (buildHeader V E (n\<lparr>nHeadSnap := snap\<rparr>) parent nextNum clExtra None ep) (\<lambda>h0.
                                case nSignerKey n of
                                  None \<Rightarrow> Panic
                                | Some key \<Rightarrow> rbind (wrap_err LErrSeal (opSealHeader E h0 key)) (\<lambda>h. Ok (h, ep)))))))"

text \<open>\<^verbatim>\<open>json.Marshal\<close> of a nil payload pointer.\<close>

definition nullJSON :: bytes where "nullJSON = [0x6e, 0x75, 0x6c, 0x6c]"

definition marshalPayload :: "Env \<Rightarrow> ExecutionPayloadV3 option \<Rightarrow> (loop_error, bytes) result" where
  "marshalPayload V ep =
     (case ep of
        None \<Rightarrow> Ok nullJSON
      | Some p \<Rightarrow> (case enc (evJ V) p of None \<Rightarrow> Err LErrMarshal | Some j \<Rightarrow> Ok j))"

text \<open>
  The prepared block of the round-change certificate, re-sealed for this round, if it decodes and its
  payload does; \<^const>\<open>None\<close> sends the proposer to a fresh proposal. Nothing verifies the prepared header.
\<close>

definition reusePrepared ::
    "Env \<Rightarrow> IstanbulExtra codec \<Rightarrow> privkey \<Rightarrow> u32 \<Rightarrow> qbftDecisionResult option
      \<Rightarrow> (loop_error, (header \<times> ExecutionPayloadV3 option) option) result" where
  "reusePrepared V C key round prev =
     (case prev of
        None \<Rightarrow> Ok None
      | Some d \<Rightarrow>
          (case drPreparedHeader d of
             None \<Rightarrow> Ok None
           | Some ph \<Rightarrow>
               if round = 0 then Ok None
               else (case reuseQBFTPreparedHeader (evG V) C ph round key of
                       Err _ \<Rightarrow> Ok None
                     | Panic \<Rightarrow> Panic
                     | Ok h \<Rightarrow>
                         if length (drPreparedPayload d) > 0
                         then Ok (map_option (\<lambda>ep. (h, Some ep)) (dec (evJ V) (drPreparedPayload d)))
                         else Ok (Some (h, None)))))"

text \<open>What the proposer of a round starts its core with.\<close>

definition proposerStart ::
    "Env \<Rightarrow> IstanbulExtra codec \<Rightarrow> rlpCodecs \<Rightarrow> QEngine \<Rightarrow> QSnapshot Node \<Rightarrow> header \<Rightarrow> QSnapshot \<Rightarrow> u64 \<Rightarrow> u32 \<Rightarrow> bool
      \<Rightarrow> qbftDecisionResult option \<Rightarrow> Core
      \<Rightarrow> (loop_error, Core \<times> Decision list \<times> ExecutionPayloadV3 option) result" where
  "proposerStart V C K e n parent snap nextNum round waited prev core =
     (case nSignerKey n of
        None \<Rightarrow> Panic
      | Some key \<Rightarrow>
          rbind (reusePrepared V C key round prev) (\<lambda>reused.
          rbind (case reused of
                   Some (h, ep) \<Rightarrow> Ok (h, ep)
                 | None \<Rightarrow> rbind (buildQBFTProposal V (qbftOps (evG V) C e) n parent snap nextNum waited) (\<lambda>(h, ep). Ok (h, Some ep)))
            (\<lambda>(h, ep).
          rbind (marshalPayload V ep) (\<lambda>payloadJSON.
            let (core', ds) = StartProposer (evG V) K core h payloadJSON (case prev of None \<Rightarrow> [] | Some d \<Rightarrow> drRCC d)
            in Ok (core', ds, ep)))))"

section \<open>One instance\<close>

text \<open>The backlog of the previous core is replayed; the decisions of the replay are discarded.\<close>

fun replayBacklog ::
    "geth \<Rightarrow> rlpCodecs \<Rightarrow> (roundChangeRecord list \<Rightarrow> roundChangeRecord list) \<Rightarrow> Core \<Rightarrow> IncomingMsg list \<Rightarrow> (qbft_error, Core) result" where
  "replayBacklog G K order core [] = Ok core"
| "replayBacklog G K order core (m # ms) = rbind (HandleMsg G K order core m) (\<lambda>(core', _). replayBacklog G K order core' ms)"

definition backlogOf :: "Core option \<Rightarrow> u32 \<Rightarrow> IncomingMsg list" where
  "backlogOf prev round = (case prev of None \<Rightarrow> [] | Some c \<Rightarrow> snd (BacklogForRound c round))"

text \<open>
  The opening of a round: a fresh core with the backlog replayed, started with a proposal when the node is the
  proposer, and the initial decisions dispatched. \<open>Ok None\<close> is the return on cancellation while a proposal is built.
  \<open>waited\<close> says whether the proposer's wait for the block time is over before cancellation.
\<close>

definition openRound ::
    "Env \<Rightarrow> IstanbulExtra codec \<Rightarrow> rlpCodecs \<Rightarrow> (roundChangeRecord list \<Rightarrow> roundChangeRecord list) \<Rightarrow> QEngine \<Rightarrow> bool
      \<Rightarrow> header \<Rightarrow> QSnapshot \<Rightarrow> u64 \<Rightarrow> qbftDecisionResult option \<Rightarrow> Core option \<Rightarrow> u32 \<Rightarrow> Loop
      \<Rightarrow> (Core \<times> qbftDecisionResult option \<times> ExecutionPayloadV3 option) option loop_result" where
  "openRound V C K order e waited parent snap nextNum prev prevCore round l =
     (let n = lpNode l;
          signer = map_option (\<lambda>k. (k, nSignerAddr n)) (nSignerKey n) in
      case isQBFTProposerForRound (evG V) snap signer nextNum round of
        Err _ \<Rightarrow> Some (l, Panic)
      | Panic \<Rightarrow> Some (l, Panic)
      | Ok isProposer \<Rightarrow>
          (case replayBacklog (evG V) K order (nodeCore (evG V) C e snap parent (nSignerKey n) nextNum round)
                  (backlogOf prevCore round) of
             Err _ \<Rightarrow> Some (l, Panic)
           | Panic \<Rightarrow> Some (l, Panic)
           | Ok core0 \<Rightarrow>
               (case (if isProposer then proposerStart V C K e n parent snap nextNum round waited prev core0
                      else Ok (core0, [], None)) of
                  Err LErrCancelled \<Rightarrow> Some (l, Ok None)
                | Err err \<Rightarrow> Some (l, Err err)
                | Panic \<Rightarrow> Some (l, Panic)
                | Ok (core, ds, built) \<Rightarrow>
                    (case dispatchQBFTDecisions V l ds of
                       None \<Rightarrow> None
                     | Some (l1, Err err) \<Rightarrow> Some (l1, Err err)
                     | Some (l1, Panic) \<Rightarrow> Some (l1, Panic)
                     | Some (l1, Ok r) \<Rightarrow> Some (l1, Ok (Some (core, r, built)))))))"

text \<open>
  The rounds of one instance: after the opening, a committed header is returned, a start of another round goes there, and
  otherwise the round loop decides in the same way. \<open>waits\<close> gives \<open>waited\<close> for each round.
\<close>

partial_function (option) runQBFTRounds ::
    "Env \<Rightarrow> IstanbulExtra codec \<Rightarrow> rlpCodecs \<Rightarrow> (roundChangeRecord list \<Rightarrow> roundChangeRecord list) \<Rightarrow> QEngine \<Rightarrow> (u32 \<Rightarrow> bool)
      \<Rightarrow> header \<Rightarrow> QSnapshot \<Rightarrow> u64 \<Rightarrow> qbftDecisionResult option \<Rightarrow> Core option \<Rightarrow> u32 \<Rightarrow> Loop \<Rightarrow> loop_event list
      \<Rightarrow> (Loop \<times> (loop_error, (header \<times> ExecutionPayloadV3 option) option) result \<times> loop_event list) option" where
  [code]: "runQBFTRounds V C K order e waits parent snap nextNum prev prevCore round l evs =
     (if (case evs of EvDone # _ \<Rightarrow> True | _ \<Rightarrow> False) then Some (l, Ok None, evs)
      else case openRound V C K order e (waits round) parent snap nextNum prev prevCore round l of
        None \<Rightarrow> None
      | Some (l1, Err err) \<Rightarrow> Some (l1, Err err, evs)
      | Some (l1, Panic) \<Rightarrow> Some (l1, Panic, evs)
      | Some (l1, Ok None) \<Rightarrow> Some (l1, Ok None, evs)
      | Some (l1, Ok (Some (core, r1, built))) \<Rightarrow>
          (case Option.bind r1 drCommittedHeader of
             Some h \<Rightarrow> Some (l1, Ok (Some (h, case Option.bind r1 drCommittedPayload of None \<Rightarrow> built | Some p \<Rightarrow> Some p)), evs)
           | None \<Rightarrow>
               if terminal r1
               then runQBFTRounds V C K order e waits parent snap nextNum r1 (Some core) (drNextRound (the r1)) l1 evs
               else (case qbftRoundLoop V K order False core l1 evs of
                  None \<Rightarrow> None
                | Some (core', l2, Err err, evs') \<Rightarrow> Some (l2, Err err, evs')
                | Some (core', l2, Panic, evs') \<Rightarrow> Some (l2, Panic, evs')
                | Some (core', l2, Ok r2, evs') \<Rightarrow>
                    (case Option.bind r2 drCommittedHeader of
                       Some h \<Rightarrow> Some (l2, Ok (Some (h, Option.bind r2 drCommittedPayload)), evs')
                     | None \<Rightarrow>
                         if terminal r2
                         then runQBFTRounds V C K order e waits parent snap nextNum r2 (Some core') (drNextRound (the r2)) l2 evs'
                         else Some (l2, Ok None, evs')))))"

definition runQBFTInstance ::
    "Env \<Rightarrow> IstanbulExtra codec \<Rightarrow> rlpCodecs \<Rightarrow> (roundChangeRecord list \<Rightarrow> roundChangeRecord list) \<Rightarrow> QEngine \<Rightarrow> (u32 \<Rightarrow> bool)
      \<Rightarrow> header \<Rightarrow> QSnapshot \<Rightarrow> Loop \<Rightarrow> loop_event list
      \<Rightarrow> (Loop \<times> (loop_error, (header \<times> ExecutionPayloadV3 option) option) result \<times> loop_event list) option" where
  "runQBFTInstance V C K order e waits parent snap l evs =
     (case hnum parent of
        None \<Rightarrow> Some (l, Panic, evs)
      | Some num \<Rightarrow> runQBFTRounds V C K order e waits parent snap (num + 1) None None 0 l evs)"

section \<open>The loop over blocks\<close>

text \<open>
  One turn of \<^verbatim>\<open>runQBFTLoop\<close>: \<open>Ok True\<close> goes on with the next block or after an error, \<open>Ok False\<close> is the
  return on cancellation.
\<close>

definition qbftSlot ::
    "Env \<Rightarrow> IstanbulExtra codec \<Rightarrow> rlpCodecs \<Rightarrow> (roundChangeRecord list \<Rightarrow> roundChangeRecord list) \<Rightarrow> QEngine \<Rightarrow> (u32 \<Rightarrow> bool)
      \<Rightarrow> Loop \<Rightarrow> loop_event list \<Rightarrow> (Loop \<times> (loop_error, bool) result \<times> loop_event list) option" where
  "qbftSlot V C K order e waits l evs =
     (let n = lpNode l; snap = nHeadSnap n; E = qbftOps (evG V) C e in
      case Head (nStor n) of
        None \<Rightarrow> Some (l, Ok True, evs)
      | Some parent \<Rightarrow>
          (case runQBFTInstance V C K order e waits parent snap l evs of
             None \<Rightarrow> None
           | Some (l1, Panic, evs1) \<Rightarrow> Some (l1, Panic, evs1)
           | Some (l1, Err _, evs1) \<Rightarrow> Some (l1, Ok True, evs1)
           | Some (l1, Ok None, evs1) \<Rightarrow> Some (l1, Ok False, evs1)
           | Some (l1, Ok (Some (h, _)), evs1) \<Rightarrow>
               (case advanceSnapshot E (lpNode l1) snap h of
                  None \<Rightarrow> None
                | Some (n2, Panic) \<Rightarrow> Some (l1\<lparr>lpNode := n2\<rparr>, Panic, evs1)
                | Some (n2, Err _) \<Rightarrow> Some (l1\<lparr>lpNode := n2\<rparr>, Panic, evs1)
                | Some (n2, Ok _) \<Rightarrow>
                    (case hnum h of
                       None \<Rightarrow> Some (l1\<lparr>lpNode := n2\<rparr>, Panic, evs1)
                     | Some num \<Rightarrow> Some (l1\<lparr>lpNode := setStatus E n2 (hdrHash (evG V) h) num\<rparr>, Ok True, evs1)))))"

partial_function (option) runQBFTLoop ::
    "Env \<Rightarrow> IstanbulExtra codec \<Rightarrow> rlpCodecs \<Rightarrow> (roundChangeRecord list \<Rightarrow> roundChangeRecord list) \<Rightarrow> QEngine \<Rightarrow> (u32 \<Rightarrow> bool)
      \<Rightarrow> Loop \<Rightarrow> loop_event list \<Rightarrow> (Loop \<times> (loop_error, unit) result) option" where
  [code]: "runQBFTLoop V C K order e waits l evs =
     (if (case evs of EvDone # _ \<Rightarrow> True | _ \<Rightarrow> False) then Some (l, Ok ())
      else case qbftSlot V C K order e waits l evs of
        None \<Rightarrow> None
      | Some (l1, Panic, evs1) \<Rightarrow> Some (l1, Panic)
      | Some (l1, Err err, evs1) \<Rightarrow> Some (l1, Err err)
      | Some (l1, Ok continues, evs1) \<Rightarrow>
          if continues then runQBFTLoop V C K order e waits l1 evs1 else Some (l1, Ok ()))"

section \<open>A proof rule for the round loop\<close>

text \<open>
  What one turn of the round loop can be: a message taken from the channel, or the timer, with the outcome of its
  decisions. A turn whose outcome is not terminal is followed by another one.
\<close>

definition loopTurn ::
    "Env \<Rightarrow> rlpCodecs \<Rightarrow> (roundChangeRecord list \<Rightarrow> roundChangeRecord list) \<Rightarrow> Core \<Rightarrow> Loop \<Rightarrow> Core \<Rightarrow> Loop
      \<Rightarrow> (loop_error, qbftDecisionResult option) result \<Rightarrow> bool" where
  "loopTurn V K order c l c' l' q \<longleftrightarrow>
     (\<exists>raw rest. lpChan l = raw # rest \<and> takeMsg V K order c (l\<lparr>lpChan := rest\<rparr>) raw = (c', Some (l', q))) \<or>
     (\<exists>ds. Timeout K c = (c', ds) \<and> dispatchQBFTDecisions V l ds = Some (l', q))"

lemma roundLoop_turn:
  assumes "Q c' l' q \<and> (\<forall>d. q = Ok d \<and> \<not> terminal d \<longrightarrow> I c' l')"
    and "\<And>d. q = Ok d \<Longrightarrow> \<not> terminal d \<Longrightarrow> I c' l' \<Longrightarrow> Q cf lf rf"
    and "(\<forall>d. q = Ok d \<longrightarrow> terminal d) \<Longrightarrow> cf = c' \<and> lf = l' \<and> rf = q"
  shows "Q cf lf rf"
  using assms by (cases "\<exists>d. q = Ok d \<and> \<not> terminal d") blast+

lemma roundLoop_rule:
  assumes "qbftRoundLoop V K order fired c l evs = Some (cf, lf, rf, evs')" "I c l"
    and turn: "\<And>c l c' l' q. I c l \<Longrightarrow> loopTurn V K order c l c' l' q \<Longrightarrow> Q c' l' q \<and> (\<forall>d. q = Ok d \<and> \<not> terminal d \<longrightarrow> I c' l')"
    and deliver: "\<And>c l m. I c l \<Longrightarrow> I c (handleQBFTMsg l m)" and finished: "\<And>c l. I c l \<Longrightarrow> Q c l (Ok None)"
  shows "Q cf lf rf"
  using assms(1,2)
proof (induction evs arbitrary: fired c l)
  case (Cons ev evs)
  show ?case
  proof (cases ev)
    case EvTake
    show ?thesis
    proof (cases "lpChan l")
      case (Cons raw rest)
      obtain c1 x where t: "takeMsg V K order c (l\<lparr>lpChan := rest\<rparr>) raw = (c1, x)" by force
      with Cons.prems(1) EvTake Cons obtain l1 q where x: "x = Some (l1, q)" by (auto split: option.splits)
      have "loopTurn V K order c l c1 l1 q" using Cons t x by (auto simp: loopTurn_def)
      then show ?thesis by (rule roundLoop_turn [of Q _ _ _ I, OF turn [OF Cons.prems(2)]])
        (use Cons.prems(1) EvTake Cons t x Cons.IH in \<open>auto split: result.splits if_splits\<close>)
    qed (use Cons EvTake in simp)
  next
    case EvTimer
    obtain c1 ds where t: "Timeout K c = (c1, ds)" by force
    show ?thesis
    proof (cases fired)
      case False
      with Cons.prems(1) EvTimer t obtain l1 q where x: "dispatchQBFTDecisions V l ds = Some (l1, q)" by (auto split: option.splits)
      have "loopTurn V K order c l c1 l1 q" using t x by (auto simp: loopTurn_def)
      then show ?thesis by (rule roundLoop_turn [of Q _ _ _ I, OF turn [OF Cons.prems(2)]])
        (use Cons.prems(1) EvTimer False t x Cons.IH in \<open>auto split: result.splits if_splits\<close>)
    qed (use Cons EvTimer in simp)
  qed (use Cons deliver finished in auto)
qed simp

end
