(* ===== verification/Loop_Properties.thy ===== *)
theory Loop_Properties
  imports Node_Loop Producer_Properties Qbft_Properties
begin

text \<open>
  The properties of the QBFT protocol loop: what the loop commits is what a run of the core decided, and the
  echo of a broadcast can block the loop for good.
\<close>

section \<open>The backlog\<close>

definition backlog_ok :: "Core \<Rightarrow> bool" where
  "backlog_ok c \<longleftrightarrow> (\<forall>r ms. (r, ms) \<in> set (backlog c) \<longrightarrow> (\<forall>m \<in> set ms. MsgType m = MsgProposal))"

lemma backlog_ok_add:
  assumes "backlog_ok c" "MsgType m = MsgProposal"
  shows "backlog_ok (addBacklog c r m)"
proof -
  have "\<forall>m' \<in> set (case map_of (backlog c) r of None \<Rightarrow> [] | Some ms \<Rightarrow> ms). MsgType m' = MsgProposal"
    using assms(1) by (cases "map_of (backlog c) r") (auto simp: backlog_ok_def dest: map_of_SomeD)
  then show ?thesis using assms set_update_subset by (fastforce simp: backlog_ok_def addBacklog_def)
qed

lemma HandleMsg_backlog:
  assumes "HandleMsg G K ord c m = Ok (c', ds)" "backlog_ok c"
  shows "backlog_ok c'"
  using assms(1)
proof (cases rule: HandleMsg_cases)
  case proposal
  from proposal(3) show ?thesis
  proof (cases rule: handleProposal_cases)
    case (accepted p h)
    with enterPrepared_cases [of G K c h "PayloadJSON p"] show ?thesis using assms(2) by (auto simp: backlog_ok_def)
  qed (use assms(2) proposal(2) backlog_ok_add in auto)
next
  case prepare
  from prepare(3) show ?thesis
    by (cases rule: handlePrepare_cases) (use assms(2) in \<open>auto simp: backlog_ok_def dest: sendCommit_cases split: if_split_asm\<close>)
next
  case commit
  from commit(3) show ?thesis
    by (cases rule: handleCommit_cases) (use assms(2) in \<open>auto simp: backlog_ok_def elim!: finishCommit_cases split: if_split_asm\<close>)
next
  case roundChange
  from roundChange(3) show ?thesis by (cases rule: handleRoundChange_cases) (use assms(2) in \<open>simp_all add: backlog_ok_def\<close>)
qed (use assms(2) in simp)

lemma core_run_backlog:
  assumes "core_run G K c0 es c ds" "backlog_ok c0"
  shows "backlog_ok c"
  using assms
proof (induction rule: core_run.induct)
  case (start es c ds h p rcc c' ds')
  then show ?case using StartProposer_cases [OF start.hyps(5)] by (auto simp: backlog_ok_def)
next
  case (timeout es c ds c' ds')
  then show ?case using Timeout_cases [OF timeout.hyps(2)] by (auto simp: backlog_ok_def)
qed (auto dest: HandleMsg_backlog)

definition fresh :: "Core \<Rightarrow> bool" where
  "fresh c \<longleftrightarrow> prepares c = [] \<and> commits c = [] \<and> cState c \<in> {stateNew, statePrepared}"

lemma HandleMsg_proposal_fresh:
  assumes "HandleMsg G K ord c m = Ok (c', ds)" "MsgType m = MsgProposal" "fresh c"
  shows "fresh c'"
proof -
  have "handleProposal G K c m = Ok (c', ds) \<or> c' = c" using assms by (auto simp: HandleMsg_def split: if_splits)
  moreover have "fresh c'" if "handleProposal G K c m = Ok (c', ds)"
    using that
  proof (cases rule: handleProposal_cases)
    case (accepted p h)
    with enterPrepared_cases [of G K c h "PayloadJSON p"] show ?thesis using assms(3) by (auto simp: fresh_def)
  qed (use assms(3) in \<open>simp_all add: addBacklog_def fresh_def\<close>)
  ultimately show ?thesis using assms(3) by blast
qed

text \<open>Replaying proposals is a run that counts no votes.\<close>

lemma replayBacklog_run:
  assumes "replayBacklog G K ord c ms = Ok c'" "core_run G K c0 es c ds" "map_order ord"
    and "\<forall>m \<in> set ms. MsgType m = MsgProposal" "fresh c"
  shows "\<exists>es' ds'. core_run G K c0 es' c' ds' \<and> fresh c'"
  using assms
proof (induction ms arbitrary: c es ds)
  case Nil
  then show ?case by auto
next
  case (Cons m ms)
  then obtain c1 d1 where h: "HandleMsg G K ord c m = Ok (c1, d1)" "replayBacklog G K ord c1 ms = Ok c'" by auto
  have "core_run G K c0 (es @ [EMsg m]) c1 (ds @ d1)" by (rule core_run.msg [OF Cons.prems(2,3) h(1)])
  then show ?case using Cons.IH [OF h(2)] Cons.prems(3-5) HandleMsg_proposal_fresh [OF h(1)] by auto
qed

section \<open>Dispatch\<close>

lemma announce_node [simp]: "lpNode (announce V l h ep) = lpNode l"
  by (simp add: announce_def split: option.splits)

lemma addToStore_key: "addToStore V n h el pj = Some (n', r) \<Longrightarrow> nSignerKey n' = nSignerKey n"
  by (auto simp: addToStore_Some)

text \<open>What a dispatch keeps, and where its result comes from.\<close>

definition stored :: "Env \<Rightarrow> Loop \<Rightarrow> header \<Rightarrow> bool" where
  "stored V l h \<longleftrightarrow> HasBlock (nStor (lpNode l)) (hdrHash (evG V) h)"

lemma addToStore_stored:
  assumes "addToStore V n h el pj = Some (n', Ok q)"
  shows "HasBlock (nStor n') (hdrHash (evG V) h)"
proof -
  from assms obtain s where "AddBlock (evG V) (evH V) (evP V) (evIO V) (nStor n) h el pj = Some (s, Ok q)" "n' = n\<lparr>nStor := s\<rparr>"
    by (auto simp: addToStore_Some)
  with AddBlock_stored [OF this(1)] show ?thesis by simp
qed

lemma addToStore_facts:
  "addToStore V n h el pj = Some (n', r) \<Longrightarrow>
     nSignerKey n' = nSignerKey n \<and> (\<forall>q. r = Ok q \<longrightarrow> HasBlock (nStor n') (hdrHash (evG V) h))"
  using addToStore_key addToStore_stored by blast

lemma storeCommitted_result:
  assumes "storeCommitted V l h ep pl = Some (l', r)"
  shows "nSignerKey (lpNode l') = nSignerKey (lpNode l)"
    and "r = Ok x \<Longrightarrow> x = Some (commitResult h ep) \<and> stored V l' h"
  using assms
  by (auto simp: storeCommitted_def stored_def dest!: addToStore_facts split: option.splits result.splits)

lemma commitDecision_result:
  assumes "commitDecision V l h pl = Some (l', r)"
  shows "nSignerKey (lpNode l') = nSignerKey (lpNode l)"
    and "r = Ok x \<Longrightarrow> (\<exists>ep. x = Some (commitResult h ep)) \<and> stored V l' h"
  using assms by (auto simp: commitDecision_def dest: storeCommitted_result split: if_splits option.splits)

lemma dispatch_result:
  assumes "dispatchQBFTDecisions V l ds = Some (l', r)"
  shows "nSignerKey (lpNode l') = nSignerKey (lpNode l) \<and>
    (\<forall>d h. r = Ok (Some d) \<and> drCommittedHeader d = Some h \<longrightarrow> (\<exists>pl. DCommitBlock (Some h) pl \<in> set ds) \<and> stored V l' h)"
  using assms
proof (induction V l ds rule: dispatchQBFTDecisions.induct)
  case (2 V l ty data ds)
  then show ?case by (fastforce split: option.splits result.splits if_splits)
next
  case (4 V l h payload ds)
  then have *: "commitDecision V l h payload = Some (l', r)" by simp
  have "drCommittedHeader d = Some h' \<Longrightarrow> h' = h \<and> stored V l' h" if "r = Ok (Some d)" for d h'
    using commitDecision_result(2) [OF * that] by (auto simp: commitResult_def)
  then show ?case using commitDecision_result(1) [OF *] by (metis list.set_intros(1))
qed auto

section \<open>Rounds\<close>

lemma handleQBFTMsg_node [simp]: "lpNode (handleQBFTMsg l m) = lpNode l"
  by (simp add: handleQBFTMsg_def)

text \<open>A result comes from the decisions of a run of the core the round started with.\<close>

definition from_run :: "Env \<Rightarrow> rlpCodecs \<Rightarrow> Core \<Rightarrow> Core \<Rightarrow> Loop \<Rightarrow> (loop_error, qbftDecisionResult option) result \<Rightarrow> bool" where
  "from_run V K c0 c l r \<longleftrightarrow>
     (\<exists>es ds. core_run (evG V) K c0 es c ds \<and>
        (\<forall>d h. r = Ok (Some d) \<and> drCommittedHeader d = Some h \<longrightarrow> (\<exists>pl. DCommitBlock (Some h) pl \<in> set ds) \<and> stored V l h))"

lemma from_run_dispatch:
  assumes "core_run (evG V) K c0 es c (ds0 @ ds)" "dispatchQBFTDecisions V l ds = Some (l', r)"
  shows "from_run V K c0 c l' r" and "nSignerKey (lpNode l') = nSignerKey (lpNode l)"
  using assms(1) dispatch_result [OF assms(2)] unfolding from_run_def by (metis UnI2 set_append, blast)

lemma takeMsg_result:
  assumes "takeMsg V K order c l raw = (c', Some (l', r))" "core_run (evG V) K c0 es c ds" "map_order order"
  shows "from_run V K c0 c' l' r" and "nSignerKey (lpNode l') = nSignerKey (lpNode l)"
proof -
  have "from_run V K c0 c' l' r \<and> nSignerKey (lpNode l') = nSignerKey (lpNode l)"
  proof (cases "incomingOf (evG V) raw")
    case (Ok msg)
    show ?thesis
    proof (cases "HandleMsg (evG V) K order c msg")
      case (Ok p)
      obtain c1 ds1 where p: "p = (c1, ds1)" by force
      then have "dispatchQBFTDecisions V l ds1 = Some (l', r)" "c1 = c'" using assms(1) Ok \<open>incomingOf (evG V) raw = _\<close> by (simp_all add: takeMsg_def)
      then show ?thesis using from_run_dispatch core_run.msg [OF assms(2,3) Ok [unfolded p]] by blast
    qed (use assms(1,2) Ok in \<open>auto simp: takeMsg_def from_run_def\<close>)
  qed (use assms(1,2) in \<open>auto simp: takeMsg_def from_run_def\<close>)
  then show "from_run V K c0 c' l' r" "nSignerKey (lpNode l') = nSignerKey (lpNode l)" by auto
qed

lemma from_run_core: "from_run V K c0 c l r \<Longrightarrow> \<exists>es ds. core_run (evG V) K c0 es c ds"
  by (auto simp: from_run_def)

lemma loopTurn_result:
  assumes "loopTurn V K order c l c' l' q" "core_run (evG V) K c0 es c ds" "map_order order"
  shows "from_run V K c0 c' l' q \<and> nSignerKey (lpNode l') = nSignerKey (lpNode l)"
  using assms(1) unfolding loopTurn_def
proof (elim disjE exE conjE)
  fix raw rest
  assume "takeMsg V K order c (l\<lparr>lpChan := rest\<rparr>) raw = (c', Some (l', q))"
  from takeMsg_result [OF this assms(2,3)] show ?thesis by simp
next
  fix ds'
  assume t: "Timeout K c = (c', ds')" "dispatchQBFTDecisions V l ds' = Some (l', q)"
  from from_run_dispatch [OF core_run.timeout [OF assms(2) t(1)] t(2)] show ?thesis by simp
qed

lemma roundLoop_result:
  assumes "qbftRoundLoop V K order fired core l evs = Some (core', l', r, evs')" "core_run (evG V) K c0 es core ds" "map_order order"
  shows "from_run V K c0 core' l' r \<and> nSignerKey (lpNode l') = nSignerKey (lpNode l)"
proof (rule roundLoop_rule [where I = "\<lambda>c l1. (\<exists>es ds. core_run (evG V) K c0 es c ds) \<and> nSignerKey (lpNode l1) = nSignerKey (lpNode l)"
      and Q = "\<lambda>c l1 q. from_run V K c0 c l1 q \<and> nSignerKey (lpNode l1) = nSignerKey (lpNode l)", OF assms(1)], goal_cases)
  case (2 c l1 c' l' q)
  then show ?case using loopTurn_result [OF 2(2) _ assms(3)] from_run_core by metis
qed (use assms(2) in \<open>auto simp: from_run_def\<close>)

lemma proposerStart_run:
  assumes "proposerStart V C K e n parent snap num round w prev core = Ok (core', ds, built)"
    and "core_run (evG V) K c0 es core ds0" "fresh core"
  shows "\<exists>es'. core_run (evG V) K c0 es' core' (ds0 @ ds)"
proof -
  from assms(1) obtain h pj rcc where "StartProposer (evG V) K core h pj rcc = (core', ds)"
    by (force simp: proposerStart_def Let_def split_beta split: option.splits)
  with core_run.start [OF assms(2)] assms(3) show ?thesis unfolding fresh_def by blast
qed

lemma backlogOf_ok:
  assumes "\<forall>c. prev = Some c \<longrightarrow> backlog_ok c"
  shows "\<forall>m \<in> set (backlogOf prev round). MsgType m = MsgProposal"
proof (cases prev)
  case None
  then show ?thesis by (simp add: backlogOf_def)
next
  case (Some c)
  then show ?thesis using assms
    by (cases "map_of (backlog c) round") (auto simp: backlogOf_def BacklogForRound_def backlog_ok_def dest!: map_of_SomeD)
qed

lemma nodeCore_fresh: "fresh (nodeCore G C e snap parent key num round)" "backlog_ok (nodeCore G C e snap parent key num round)"
  by (simp_all add: fresh_def backlog_ok_def nodeCore_def New_core_def)

text \<open>The core a round starts with: fresh, the backlog replayed, and started when the node is the proposer.\<close>

lemma round_start:
  assumes "replayBacklog (evG V) K order (nodeCore (evG V) C e snap parent key num round) (backlogOf prevCore round) = Ok core0"
    and "(if isProposer then proposerStart V C K e n parent snap num round w prev core0 else Ok (core0, [], None)) = Ok (core, ds, built)"
    and "map_order order" "\<forall>c. prevCore = Some c \<longrightarrow> backlog_ok c"
  shows "\<exists>es ds0. core_run (evG V) K (nodeCore (evG V) C e snap parent key num round) es core (ds0 @ ds)"
proof -
  let ?c0 = "nodeCore (evG V) C e snap parent key num round"
  obtain es ds0 where "core_run (evG V) K ?c0 es core0 ds0" "fresh core0"
    using replayBacklog_run [OF assms(1) core_run.init assms(3) backlogOf_ok [OF assms(4)] nodeCore_fresh(1)] by blast
  then show ?thesis using assms(2) proposerStart_run [of V C K e n parent snap num round w prev core0 core ds built ?c0 es ds0]
    by (auto split: if_splits)
qed

text \<open>A header an instance returns was committed by a run of the core of one of its rounds.\<close>

definition committedBy ::
    "Env \<Rightarrow> IstanbulExtra codec \<Rightarrow> rlpCodecs \<Rightarrow> QEngine \<Rightarrow> header \<Rightarrow> QSnapshot \<Rightarrow> u64 \<Rightarrow> privkey option \<Rightarrow> Loop \<Rightarrow> header \<Rightarrow> bool" where
  "committedBy V C K e parent snap num key l h \<longleftrightarrow>
     (\<exists>round es c ds pl. core_run (evG V) K (nodeCore (evG V) C e snap parent key num round) es c ds \<and>
        DCommitBlock (Some h) pl \<in> set ds \<and> stored V l h)"

lemma from_run_committed:
  assumes "from_run V K (nodeCore (evG V) C e snap parent key num round) c l (Ok r)" "Option.bind r drCommittedHeader = Some h"
  shows "committedBy V C K e parent snap num key l h"
proof -
  from assms(2) obtain d where "r = Some d" "drCommittedHeader d = Some h" by (cases r) auto
  then show ?thesis using assms(1) unfolding from_run_def committedBy_def by blast
qed

lemma openRound_run:
  assumes "openRound V C K order e w parent snap num prev prevCore round l = Some (l1, Ok (Some (core, r1, built)))"
    and "map_order order" "\<forall>c. prevCore = Some c \<longrightarrow> backlog_ok c"
  shows "from_run V K (nodeCore (evG V) C e snap parent (nSignerKey (lpNode l)) num round) core l1 (Ok r1) \<and>
    nSignerKey (lpNode l1) = nSignerKey (lpNode l)"
proof -
  let ?key = "nSignerKey (lpNode l)"
  let ?c0 = "nodeCore (evG V) C e snap parent ?key num round"
  note body = assms(1) [unfolded openRound_def Let_def]
  obtain isP where b1: "isQBFTProposerForRound (evG V) snap (map_option (\<lambda>k. (k, nSignerAddr (lpNode l))) ?key) num round = Ok isP"
    using body by (cases "isQBFTProposerForRound (evG V) snap (map_option (\<lambda>k. (k, nSignerAddr (lpNode l))) ?key) num round") auto
  note body = body [unfolded b1 result.case]
  obtain core0 where b2: "replayBacklog (evG V) K order ?c0 (backlogOf prevCore round) = Ok core0"
    using body by (cases "replayBacklog (evG V) K order ?c0 (backlogOf prevCore round)") auto
  note body = body [unfolded b2 result.case]
  let ?ps = "if isP then proposerStart V C K e (lpNode l) parent snap num round w prev core0 else Ok (core0, [], None)"
  obtain core1 ds b where b3: "?ps = Ok (core1, ds, b)"
    using body by (cases ?ps) (auto split: loop_error.splits)
  note body = body [unfolded b3 result.case prod.case]
  have b4: "dispatchQBFTDecisions V l ds = Some (l1, Ok r1)" and eq: "core1 = core"
    using body by (auto split: option.splits prod.splits result.splits)
  obtain es ds0 where "core_run (evG V) K ?c0 es core (ds0 @ ds)" using round_start [OF b2 b3 assms(2,3)] eq by blast
  from from_run_dispatch [OF this b4] show ?thesis by simp
qed

lemma from_run_backlog: "from_run V K (nodeCore (evG V) C e snap parent key num round) c l r \<Longrightarrow> backlog_ok c"
  using from_run_core core_run_backlog nodeCore_fresh(2) by blast

lemma rounds_commit:
  assumes "runQBFTRounds V C K order e waits parent snap num prev prevCore round l evs = Some y"
    and "map_order order" "\<forall>c. prevCore = Some c \<longrightarrow> backlog_ok c" "y = (l', Ok (Some (h, p)), evs')"
  shows "committedBy V C K e parent snap num (nSignerKey (lpNode l)) l' h"
proof -
  let ?P = "\<lambda>V C K order e waits parent snap num prev prevCore round l evs y.
     map_order order \<longrightarrow> (\<forall>c. prevCore = Some c \<longrightarrow> backlog_ok c) \<longrightarrow>
     (\<forall>l' h p evs'. y = (l', Ok (Some (h, p)), evs') \<longrightarrow> committedBy V C K e parent snap num (nSignerKey (lpNode l)) l' h)"
  have "?P V C K order e waits parent snap num prev prevCore round l evs y"
  proof (rule runQBFTRounds.raw_induct [of ?P, OF _ assms(1)], goal_cases)
    case (1 rec V C K order e waits parent snap num prev prevCore round l evs y)
    show ?case
    proof (intro impI allI)
      fix l' h p evs'
      assume mo: "map_order order" and bl: "\<forall>c. prevCore = Some c \<longrightarrow> backlog_ok c" and y: "y = (l', Ok (Some (h, p)), evs')"
      obtain l1 core r1 built where op: "openRound V C K order e (waits round) parent snap num prev prevCore round l = Some (l1, Ok (Some (core, r1, built)))"
        using 1(2) y by (auto split: if_splits option.splits prod.splits result.splits)
      note o1 = openRound_run [OF op mo bl]
      obtain es ds where run: "core_run (evG V) K (nodeCore (evG V) C e snap parent (nSignerKey (lpNode l)) num round) es core ds"
        using from_run_core o1 by blast
      note rl = roundLoop_result [OF _ run mo]
      show "committedBy V C K e parent snap num (nSignerKey (lpNode l)) l' h"
      proof (cases "terminal r1 \<and> Option.bind r1 drCommittedHeader = None")
        case True
        then have "rec V C K order e waits parent snap num r1 (Some core) (drNextRound (the r1)) l1 evs = Some y"
          using 1(2) y op by (auto split: if_splits)
        from 1(1) [OF this] show ?thesis using mo y o1 from_run_backlog by fastforce
      next
        case F: False
        show ?thesis
        proof (cases "Option.bind r1 drCommittedHeader")
          case (Some h1)
          then have "l' = l1 \<and> h = h1" using 1(2) y op by (auto split: if_splits)
          then show ?thesis using from_run_committed [OF conjunct1 [OF o1] Some] by simp
        next
          case None
          obtain core' l2 r2 evs2 where q: "qbftRoundLoop V K order False core l1 evs = Some (core', l2, Ok r2, evs2)"
            using 1(2) y op None F by (auto split: if_splits option.splits prod.splits result.splits)
          show ?thesis
          proof (cases "Option.bind r2 drCommittedHeader")
            case (Some h2)
            then have "l' = l2 \<and> h = h2" using 1(2) y op None F q by (auto split: if_splits)
            then show ?thesis using from_run_committed [OF conjunct1 [OF rl [OF q]] Some] by simp
          next
            case N: None
            then have "rec V C K order e waits parent snap num r2 (Some core') (drNextRound (the r2)) l2 evs2 = Some y"
              using 1(2) y op None F q by (auto split: if_splits)
            from 1(1) [OF this] show ?thesis using mo y o1 rl [OF q] from_run_backlog by fastforce
          qed
        qed
      qed
    qed
  qed
  then show ?thesis using assms(2-4) by blast
qed

text \<open>
  C8. What an instance of the QBFT loop returns was decided by the core. However messages, timeouts and rounds
  interleave, if \<^verbatim>\<open>runQBFTInstance\<close> returns a committed header then a run of the core it built for one of its
  rounds has the CommitBlock decision for that header, the block is in the store, and when the
  proposals this node started were valid and every counted COMMIT carried a seal, the header
  passes the engine's \<^verbatim>\<open>VerifyHeader\<close> against the snapshot and parent of the instance.
\<close>

theorem qbft_instance_commits_decision:
  assumes "runQBFTInstance V C K order e waits parent snap l evs = Some (l', Ok (Some (h, p)), evs')"
    and "map_order order" and "istanbul_codec C" and "finite (Validators snap)"
  shows "\<exists>num round es c ds pl. hnum parent = Some num \<and>
           core_run (evG V) K (nodeCore (evG V) C e snap parent (nSignerKey (lpNode l)) (num + 1) round) es c ds \<and>
           DCommitBlock (Some h) pl \<in> set ds \<and> HasBlock (nStor (lpNode l')) (hdrHash (evG V) h) \<and>
           ((\<forall>h p rcc. EStart h p rcc \<in> set es \<longrightarrow> VerifyProposal (evG V) C e snap h (Some parent) = Ok ()) \<and>
            (\<forall>(a, seal) \<in> set (commits c). seal \<noteq> []) \<longrightarrow>
              VerifyHeader_q (evG V) C e snap h (Some parent) = Ok ())"
proof -
  from assms(1) obtain num where num: "hnum parent = Some num"
    "runQBFTRounds V C K order e waits parent snap (num + 1) None None 0 l evs = Some (l', Ok (Some (h, p)), evs')"
    by (auto simp: runQBFTInstance_def split: option.splits)
  have "committedBy V C K e parent snap (num + 1) (nSignerKey (lpNode l)) l' h"
    using rounds_commit [OF num(2) assms(2) _ refl] by simp
  then obtain round es c ds pl where c: "core_run (evG V) K (nodeCore (evG V) C e snap parent (nSignerKey (lpNode l)) (num + 1) round) es c ds"
    "DCommitBlock (Some h) pl \<in> set ds" "stored V l' h" unfolding committedBy_def by blast
  have "VerifyHeader_q (evG V) C e snap h (Some parent) = Ok ()"
    if "\<forall>h p rcc. EStart h p rcc \<in> set es \<longrightarrow> VerifyProposal (evG V) C e snap h (Some parent) = Ok ()"
      "\<forall>(a, seal) \<in> set (commits c). seal \<noteq> []"
    using committed_header_verifies [OF assms(3,4) c(1) that c(2)] by simp
  then show ?thesis using num(1) c unfolding stored_def by blast
qed

section \<open>A network of one validator\<close>

definition qlSnap :: QSnapshot where "qlSnap = newSnapshot_q 0 [] [demoAddr 2]"

definition qlNode :: "QSnapshot Node" where
  "qlNode = \<lparr>nStor = New_store demoGeth demoHeader 30000, nGenesisHeader = demoHeader, nGenesisSnap = qlSnap,
     nHeadSnap = qlSnap, nEpochSnaps = Map.empty, nSignerKey = Some (demoAddr 2), nSignerAddr = demoAddr 2, nSyncing = False,
     nStatus = \<lparr>smNetworkID = 1, smGenesisHash = [], smHeadHash = [], smHeadNumber = 0\<rparr>, nNetworkID = 1\<rparr>"

definition qlEnv :: Env where "qlEnv = ppEnv\<lparr>evG := demoGeth, evH := fcH\<rparr>"

definition qlLoop :: Loop where "qlLoop = \<lparr>lpNode = qlNode, lpChan = [], lpSent = [], lpBlocks = []\<rparr>"

definition qlWaits :: "u32 \<Rightarrow> bool" where "qlWaits r = True"

definition qlOrder :: "roundChangeRecord list \<Rightarrow> roundChangeRecord list" where "qlOrder xs = xs"

definition qlRun :: "(Loop \<times> (loop_error, (header \<times> ExecutionPayloadV3 option) option) result \<times> loop_event list) option" where
  "qlRun = runQBFTInstance qlEnv demoIstanbul demoRlp qlOrder demoQEngine qlWaits demoHeader qlSnap qlLoop [EvTake, EvTake, EvTake]"

text \<open>The proposer's own PREPARE and COMMIT, echoed through the channel, are enough.\<close>

lemma qlRun_commits:
  "(case qlRun of
      Some (l, Ok (Some (h, p)), evs) \<Rightarrow>
        Number h = Some 1 \<and> map qmType (lpSent l) = [1, 2, 3] \<and> lpChan l = [] \<and> map_option Number (Head (nStor (lpNode l))) = Some (Some 1)
    | _ \<Rightarrow> False)"
  by code_simp


theorem qbft_instance_commits_decision_witness:
  "\<exists>l h p evs round es c ds pl.
     runQBFTInstance qlEnv demoIstanbul demoRlp qlOrder demoQEngine qlWaits demoHeader qlSnap qlLoop [EvTake, EvTake, EvTake]
       = Some (l, Ok (Some (h, p)), evs) \<and>
     core_run (evG qlEnv) demoRlp (nodeCore (evG qlEnv) demoIstanbul demoQEngine qlSnap demoHeader (nSignerKey (lpNode qlLoop)) 1 round) es c ds \<and>
     DCommitBlock (Some h) pl \<in> set ds \<and> HasBlock (nStor (lpNode l)) (hdrHash (evG qlEnv) h)"
proof -
  obtain l h p evs where run: "qlRun = Some (l, Ok (Some (h, p)), evs)"
    using qlRun_commits by (auto split: option.splits prod.splits result.splits)
  have "map_order qlOrder" by (simp add: map_order_def qlOrder_def)
  moreover have "finite (Validators qlSnap)" by (simp add: qlSnap_def newSnapshot_q_def)
  moreover have "hnum demoHeader = Some 0" by code_simp
  ultimately show ?thesis
    using qbft_instance_commits_decision [OF run [unfolded qlRun_def] _ demoIstanbul_ok] run [unfolded qlRun_def] by fastforce
qed

section \<open>A full channel\<close>

lemma deliver_all:
  "qbftRoundLoop V K order fired core l (map EvDeliver ms @ evs) = qbftRoundLoop V K order fired core (foldl handleQBFTMsg l ms) evs"
  by (induction ms arbitrary: l) simp_all

lemma handleQBFTMsg_chan:
  "lpChan (handleQBFTMsg l m) = lpChan l @ take (chanCapacity - length (lpChan l)) [m]"
  by (cases "chanCapacity - length (lpChan l)") (auto simp: handleQBFTMsg_def)

lemma foldl_deliver:
  "lpChan (foldl handleQBFTMsg l ms) = lpChan l @ take (chanCapacity - length (lpChan l)) ms"
  by (induction ms arbitrary: l) (auto simp: handleQBFTMsg_chan take_Cons' Suc_diff_Suc split: nat.splits)

lemma foldl_deliver_node [simp]: "lpNode (foldl handleQBFTMsg l ms) = lpNode l"
  by (induction ms arbitrary: l) simp_all

lemma Timeout_broadcasts:
  assumes "cState core \<noteq> stateCommitted" "\<forall>x. enc (cRoundChange K) x \<noteq> None"
  shows "\<exists>data. Timeout K core = (core\<lparr>cState := stateRoundChange\<rparr>, [DBroadcast MsgRoundChange data])"
proof -
  have "\<exists>data. enc (cRoundChange K) x = Some data" for x using assms(2) by simp
  then show ?thesis using assms(1) unfolding Timeout_def Let_def by (metis option.case(2))
qed

text \<open>
  C39. The echo of a broadcast can block the protocol loop for good. A timeout of a round that has not committed
  echoes the signed ROUND-CHANGE to the node's own channel. On a channel with room the loop goes on, and a
  cancelled context makes it return. When peers have filled the 64 places before the timer fires, the send waits for
  a reader and the only reader is the goroutine that sends: whatever happens afterwards, cancellation
  included, the loop does not return.
\<close>

theorem qbft_echo_deadlock:
  assumes "cState core \<noteq> stateCommitted" and "\<forall>x. enc (cRoundChange K) x \<noteq> None"
    and "nSignerKey (lpNode l) = Some key" and "\<forall>m. \<exists>m'. signQBFTMsg (evG V) m key = Ok m'"
    and "lpChan l = []" and "chanCapacity \<le> length ms"
  shows "qbftRoundLoop V K order False core l (map EvDeliver ms @ EvTimer # evs) = None \<and>
    (\<exists>core' l'. qbftRoundLoop V K order False core l (EvTimer # EvDone # evs) = Some (core', l', Ok None, EvDone # evs))"
proof -
  obtain data where t: "Timeout K core = (core\<lparr>cState := stateRoundChange\<rparr>, [DBroadcast MsgRoundChange data])"
    using Timeout_broadcasts [OF assms(1,2)] by blast
  obtain m where m: "signQBFTMsg (evG V) \<lparr>qmType = MsgRoundChange, qmData = data, qmSig = []\<rparr> key = Ok m" using assms(4) by blast
  let ?full = "foldl handleQBFTMsg l ms"
  have "length (lpChan ?full) = chanCapacity" using assms(5,6) by (simp add: foldl_deliver)
  then have "dispatchQBFTDecisions V ?full [DBroadcast MsgRoundChange data] = None" using assms(3) m by (simp add: foldl_deliver)
  moreover have "chanCapacity > 0" by (simp add: chanCapacity_def)
  ultimately show ?thesis using assms(3,5) t m by (simp add: deliver_all terminal_def)
qed

definition qlSpam :: QBFTMsg where "qlSpam = \<lparr>qmType = 0, qmData = [], qmSig = []\<rparr>"

lemma ql_signs: "\<forall>m. \<exists>m'. signQBFTMsg (evG qlEnv) m (demoAddr 2) = Ok m'"
  by (simp add: signQBFTMsg_def qbftMsgHash_def qlEnv_def demoGeth_def)

theorem qbft_echo_deadlock_witness:
  "qbftRoundLoop qlEnv demoRlp qlOrder False (nodeCore (evG qlEnv) demoIstanbul demoQEngine qlSnap demoHeader (Some (demoAddr 2)) 1 0) qlLoop
     (map EvDeliver (replicate 64 qlSpam) @ [EvTimer, EvDone]) = None"
proof -
  let ?core = "nodeCore (evG qlEnv) demoIstanbul demoQEngine qlSnap demoHeader (Some (demoAddr 2)) 1 0"
  have "cState ?core \<noteq> stateCommitted" by (simp add: nodeCore_def New_core_def)
  moreover have "\<forall>x. enc (cRoundChange demoRlp) x \<noteq> None" by (simp add: demoRlp_def putRoundChange_def)
  moreover have "nSignerKey (lpNode qlLoop) = Some (demoAddr 2)" "lpChan qlLoop = []" by (simp_all add: qlLoop_def qlNode_def)
  moreover have "chanCapacity \<le> length (replicate 64 qlSpam)" by (simp add: chanCapacity_def)
  ultimately show ?thesis using qbft_echo_deadlock [OF _ _ _ ql_signs] by blast
qed

end
