(* ===== verification/Engine_Client.thy ===== *)
theory Engine_Client
  imports Node_Producer
begin

text \<open>
  The Engine API client: \<^verbatim>\<open>engine/jwt.go\<close> (the shared secret and the token cache) and \<^verbatim>\<open>engine/client.go\<close> (the
  JSON-RPC call and the four methods). The clock readings of a call are arguments, in nanoseconds since year 1;
  the JWT library, JSON and the HTTP transport are parameters. Trimming is modelled on ASCII text.
\<close>

section \<open>Hex\<close>

definition isSpace :: "char \<Rightarrow> bool" where
  "isSpace c \<longleftrightarrow> (let k = of_char c :: nat in (9 \<le> k \<and> k \<le> 13) \<or> k = 32)"

definition TrimSpace :: "string \<Rightarrow> string" where
  "TrimSpace s = rev (dropWhile isSpace (rev (dropWhile isSpace s)))"

definition fromHexChar :: "char \<Rightarrow> nat option" where
  "fromHexChar c =
     (let k = of_char c :: nat in
      if 48 \<le> k \<and> k \<le> 57 then Some (k - 48)
      else if 97 \<le> k \<and> k \<le> 102 then Some (k - 87)
      else if 65 \<le> k \<and> k \<le> 70 then Some (k - 55)
      else None)"

text \<open>\<^verbatim>\<open>hex.DecodeString\<close>: pairs of digits of either case; an odd length is an error.\<close>

fun decodeHex :: "string \<Rightarrow> bytes option" where
  "decodeHex [] = Some []"
| "decodeHex [c] = None"
| "decodeHex (a # b # cs) =
     (case (fromHexChar a, fromHexChar b) of
        (Some x, Some y) \<Rightarrow> map_option ((#) (word_of_nat (16 * x + y))) (decodeHex cs)
      | _ \<Rightarrow> None)"

section \<open>Tokens\<close>

record JWTProvider =
  jwSecret :: bytes
  jwCachedToken :: string
  jwExpiresAt :: int

datatype jwt_error = JErrRead | JErrDecode | JErrLength | JErrSign

text \<open>\<^verbatim>\<open>NewJWTProvider\<close>; the content of the file, or \<^const>\<open>None\<close> when it cannot be read. The expiry is the zero time.\<close>

definition NewJWTProvider :: "string option \<Rightarrow> (jwt_error, JWTProvider) result" where
  "NewJWTProvider raw =
     (case raw of
        None \<Rightarrow> Err JErrRead
      | Some text \<Rightarrow>
          (case decodeHex (trimPrefix (TrimSpace text) ''0x'') of
             None \<Rightarrow> Err JErrDecode
           | Some secret \<Rightarrow>
               if length secret \<noteq> 32 then Err JErrLength
               else Ok \<lparr>jwSecret = secret, jwCachedToken = [], jwExpiresAt = 0\<rparr>))"

definition unixOf :: "int \<Rightarrow> int" where "unixOf t = sint (unixSeconds t)"

text \<open>
  \<^verbatim>\<open>Token\<close> reads the clock for the check and again when it signs. \<open>signer secret iat\<close> is the HS256 token with
  that \<^verbatim>\<open>iat\<close> claim.
\<close>

definition Token :: "(bytes \<Rightarrow> int \<Rightarrow> string option) \<Rightarrow> int \<Rightarrow> int \<Rightarrow> JWTProvider \<Rightarrow> JWTProvider \<times> (jwt_error, string) result" where
  "Token signer now1 now2 p =
     (if now1 < addDuration (jwExpiresAt p) (- 10 * second) then (p, Ok (jwCachedToken p))
      else case signer (jwSecret p) (unixOf now2) of
        None \<Rightarrow> (p, Err JErrSign)
      | Some tok \<Rightarrow> (p\<lparr>jwCachedToken := tok, jwExpiresAt := addDuration now2 (60 * second)\<rparr>, Ok tok))"

section \<open>The client\<close>

record Client =
  clURL :: string
  clJWT :: JWTProvider
  clReqID :: u64

definition New_client :: "string \<Rightarrow> JWTProvider \<Rightarrow> Client" where
  "New_client url jwt = \<lparr>clURL = url, clJWT = jwt, clReqID = 0\<rparr>"

record 'j jsonRPCRequest =
  rqJSONRPC :: string
  rqMethod :: string
  rqParams :: "'j list"
  rqID :: u64

record 'j jsonRPCResponse =
  rsResult :: 'j
  rsError :: "(int \<times> string) option"
  rsID :: u64

datatype http_result = HTTPFail | HTTPBodyFail nat | HTTPResponse nat bytes

datatype call_error =
    CErrMarshal | CErrBuild | CErrToken jwt_error | CErrHTTP | CErrReadBody | CErrStatus nat bytes | CErrUnmarshal
  | CErrRPC int string | CErrResult

text \<open>A request as it leaves: its identifier, the bearer token and the body.\<close>

record httpRequest =
  hrURL :: string
  hrBearer :: string
  hrBody :: bytes

record 'j transport =
  tpSigner :: "bytes \<Rightarrow> int \<Rightarrow> string option"
  tpMarshal :: "'j jsonRPCRequest \<Rightarrow> bytes option"
  tpBuildable :: "string \<Rightarrow> bool"
  tpDo :: "httpRequest \<Rightarrow> http_result"
  tpUnmarshal :: "bytes \<Rightarrow> 'j jsonRPCResponse option"

text \<open>
  \<^verbatim>\<open>call\<close>: the client it leaves, the request that was sent, if any, and the result. \<open>readings\<close> are the clock readings
  of \<^const>\<open>Token\<close>, \<open>out\<close> decodes the result.
\<close>

definition call ::
    "'j transport \<Rightarrow> int \<times> int \<Rightarrow> ('j \<Rightarrow> 'r option) \<Rightarrow> Client \<Rightarrow> string \<Rightarrow> 'j list
      \<Rightarrow> Client \<times> httpRequest option \<times> (call_error, 'r) result" where
  "call T readings out c method params =
     (let c1 = c\<lparr>clReqID := clReqID c + 1\<rparr>; id = clReqID c1 in
      case tpMarshal T \<lparr>rqJSONRPC = ''2.0'', rqMethod = method, rqParams = params, rqID = id\<rparr> of
        None \<Rightarrow> (c1, None, Err CErrMarshal)
      | Some reqBytes \<Rightarrow>
          if \<not> tpBuildable T (clURL c1) then (c1, None, Err CErrBuild)
          else let (jwt, tok) = Token (tpSigner T) (fst readings) (snd readings) (clJWT c1); c2 = c1\<lparr>clJWT := jwt\<rparr> in
            (case tok of
               Err e \<Rightarrow> (c2, None, Err (CErrToken e))
             | Panic \<Rightarrow> (c2, None, Panic)
             | Ok token \<Rightarrow>
                 let req = \<lparr>hrURL = clURL c2, hrBearer = token, hrBody = reqBytes\<rparr> in
                 (c2, Some req,
                  case tpDo T req of
                    HTTPFail \<Rightarrow> Err CErrHTTP
                  | HTTPBodyFail _ \<Rightarrow> Err CErrReadBody
                  | HTTPResponse status body \<Rightarrow>
                      if status \<noteq> 200 then Err (CErrStatus status body)
                      else (case tpUnmarshal T body of
                              None \<Rightarrow> Err CErrUnmarshal
                            | Some resp \<Rightarrow>
                                (case rsError resp of
                                   Some (code, message) \<Rightarrow> Err (CErrRPC code message)
                                 | None \<Rightarrow> (case out (rsResult resp) of None \<Rightarrow> Err CErrResult | Some r \<Rightarrow> Ok r))))))"

subsection \<open>Methods\<close>

definition supportedCapabilities :: "string list" where
  "supportedCapabilities =
     [''engine_newPayloadV1'', ''engine_newPayloadV2'', ''engine_newPayloadV3'',
      ''engine_forkchoiceUpdatedV1'', ''engine_forkchoiceUpdatedV2'', ''engine_forkchoiceUpdatedV3'',
      ''engine_getPayloadV1'', ''engine_getPayloadV2'', ''engine_getPayloadV3'']"

text \<open>The JSON forms of the parameters and results.\<close>

record 'j engineJSON =
  ejStrings :: "string list \<Rightarrow> 'j"
  ejPayload :: "ExecutionPayloadV3 \<Rightarrow> 'j"
  ejHashes :: "hash list \<Rightarrow> 'j"
  ejHash :: "hash \<Rightarrow> 'j"
  ejState :: "ForkchoiceStateV1 \<Rightarrow> 'j"
  ejAttrs :: "PayloadAttributesV3 option \<Rightarrow> 'j"
  ejID :: "bytes \<Rightarrow> 'j"
  ejOutStrings :: "'j \<Rightarrow> string list option"
  ejOutStatus :: "'j \<Rightarrow> string option"
  ejOutForkchoice :: "'j \<Rightarrow> (string \<times> bytes option) option"
  ejOutPayload :: "'j \<Rightarrow> ExecutionPayloadV3 option"

definition ExchangeCapabilities :: "'j transport \<Rightarrow> 'j engineJSON \<Rightarrow> int \<times> int \<Rightarrow> Client \<Rightarrow> Client \<times> httpRequest option \<times> (call_error, string list) result" where
  "ExchangeCapabilities T J readings c =
     call T readings (ejOutStrings J) c ''engine_exchangeCapabilities'' [ejStrings J supportedCapabilities]"

text \<open>A nil list of versioned hashes is sent as the empty list.\<close>

definition NewPayloadV3 ::
    "'j transport \<Rightarrow> 'j engineJSON \<Rightarrow> int \<times> int \<Rightarrow> Client \<Rightarrow> ExecutionPayloadV3 \<Rightarrow> hash list option \<Rightarrow> hash
      \<Rightarrow> Client \<times> httpRequest option \<times> (call_error, string) result" where
  "NewPayloadV3 T J readings c payload versionedHashes parentBeaconBlockRoot =
     call T readings (ejOutStatus J) c ''engine_newPayloadV3''
       [ejPayload J payload, ejHashes J (case versionedHashes of None \<Rightarrow> [] | Some hs \<Rightarrow> hs), ejHash J parentBeaconBlockRoot]"

definition ForkchoiceUpdatedV3 ::
    "'j transport \<Rightarrow> 'j engineJSON \<Rightarrow> int \<times> int \<Rightarrow> Client \<Rightarrow> ForkchoiceStateV1 \<Rightarrow> PayloadAttributesV3 option
      \<Rightarrow> Client \<times> httpRequest option \<times> (call_error, string \<times> bytes option) result" where
  "ForkchoiceUpdatedV3 T J readings c state attrs =
     call T readings (ejOutForkchoice J) c ''engine_forkchoiceUpdatedV3'' [ejState J state, ejAttrs J attrs]"

definition GetPayloadV3 ::
    "'j transport \<Rightarrow> 'j engineJSON \<Rightarrow> int \<times> int \<Rightarrow> Client \<Rightarrow> bytes \<Rightarrow> Client \<times> httpRequest option \<times> (call_error, ExecutionPayloadV3) result" where
  "GetPayloadV3 T J readings c payloadID = call T readings (ejOutPayload J) c ''engine_getPayloadV3'' [ejID J payloadID]"

text \<open>\<^verbatim>\<open>UnmarshalText\<close> of a payload identifier (the JSON string without its quotes): exactly eight bytes of 0x-prefixed hex.\<close>

definition unmarshalPayloadID :: "(string \<Rightarrow> bytes option) \<Rightarrow> string \<Rightarrow> bytes option" where
  "unmarshalPayloadID hexutilDecode input =
     (case hexutilDecode input of None \<Rightarrow> None | Some b \<Rightarrow> if length b \<noteq> 8 then None else Some b)"

text \<open>\<^verbatim>\<open>MarshalText\<close> and \<^verbatim>\<open>String\<close> of a payload identifier.\<close>

definition marshalPayloadID :: "(bytes \<Rightarrow> string) \<Rightarrow> bytes \<Rightarrow> string" where
  "marshalPayloadID hexutilEncode payloadID = hexutilEncode payloadID"

text \<open>
  With codecs that invert each other, exactly the identifiers of eight bytes survive the way to the execution client and
  back, and nothing else is read.
\<close>

lemma payloadID_roundtrip:
  assumes "\<And>b. hexDecode (hexEncode b) = Some b"
  shows "unmarshalPayloadID hexDecode (marshalPayloadID hexEncode i) = Some j \<longleftrightarrow> j = i \<and> length i = 8"
  using assms by (auto simp: unmarshalPayloadID_def marshalPayloadID_def)

end
