(* ===== verification/Engine_Properties.thy ===== *)
theory Engine_Properties
  imports Engine_Client Producer_Properties
begin

text \<open>
  The properties of the Engine API client: the secret file is read back exactly, every request carries a token that
  was issued less than a minute ago and its own identifier, and a call succeeds exactly when every stage does.
\<close>

section \<open>The secret\<close>

lemma fromHexChar_digit [simp]: "d < 16 \<Longrightarrow> fromHexChar (hexDigit d) = Some d"
  by (auto simp: fromHexChar_def hexDigit_def)

lemma hexDigit_no_space: "d < 16 \<Longrightarrow> \<not> isSpace (hexDigit d)"
  by (auto simp: isSpace_def hexDigit_def)

lemma byte_digits: "unat (b :: byte) div 16 < 16" "16 * (unat b div 16) + unat b mod 16 = unat b"
proof -
  have "unat b < 2 ^ LENGTH(8)" by (rule unsigned_less)
  then show "unat b div 16 < 16" by simp
qed simp

lemma decodeHex_hexBytes: "decodeHex (hexBytes bs) = Some bs"
proof (induction bs)
  case (Cons b bs)
  have "(word_of_nat (16 * (unat b div 16) + unat b mod 16) :: byte) = b" by (simp only: byte_digits) simp
  then show ?case using Cons by (simp add: hexBytes_def byte_digits del: mult_div_mod_eq)
qed (simp add: hexBytes_def)

lemma hexBytes_chars: "c \<in> set (hexBytes bs) \<Longrightarrow> \<not> isSpace c \<and> fromHexChar c \<noteq> None"
  by (auto simp: hexBytes_def hexDigit_no_space byte_digits)

lemma TrimSpace_padded:
  assumes "list_all isSpace pre" "list_all isSpace post" "\<forall>c \<in> set s. \<not> isSpace c" "s \<noteq> []"
  shows "TrimSpace (pre @ s @ post) = s"
proof -
  have dw: "dropWhile isSpace (p @ x) = x" if "list_all isSpace p" "x = [] \<or> \<not> isSpace (hd x)" for p x
    using that by (cases x) (auto simp: dropWhile_append list_all_iff)
  have "dropWhile isSpace (pre @ s @ post) = s @ post" using assms by (intro dw) (auto simp: hd_append)
  moreover have "dropWhile isSpace (rev post @ rev s) = rev s" using assms by (intro dw) (auto simp: list_all_iff hd_rev)
  ultimately show ?thesis by (simp add: TrimSpace_def)
qed

text \<open>
  The secret file round trip. A file that holds 32 bytes in lower-case hex, with or without the 0x prefix and with any
  white space around it (what the set-up program writes ends with a newline), gives a provider with exactly these
  bytes; and whatever the file holds, a provider that is created has a 32-byte secret and no usable cached token.
\<close>

theorem jwt_secret_roundtrip:
  assumes "list_all isSpace pre" and "list_all isSpace post" and "prefix \<in> {[], ''0x''}"
  shows "(length secret = 32 \<longrightarrow>
      NewJWTProvider (Some (pre @ prefix @ hexBytes secret @ post)) = Ok \<lparr>jwSecret = secret, jwCachedToken = [], jwExpiresAt = 0\<rparr>) \<and>
    (\<forall>raw p. NewJWTProvider raw = Ok p \<longrightarrow> length (jwSecret p) = 32 \<and> jwExpiresAt p = 0)"
proof (intro conjI impI allI)
  assume len: "length secret = 32"
  let ?s = "prefix @ hexBytes secret"
  have hx: "hexBytes secret \<noteq> []" using len by (cases secret) (auto simp: hexBytes_def)
  have "\<forall>c \<in> set ?s. \<not> isSpace c" using assms(3) hexBytes_chars by (auto simp: isSpace_def)
  then have "TrimSpace (pre @ ?s @ post) = ?s" using assms(1,2) hx by (intro TrimSpace_padded) auto
  moreover have "trimPrefix ?s ''0x'' = hexBytes secret"
  proof (cases "prefix = []")
    case True
    have "take 2 (hexBytes secret) \<noteq> ''0x''"
    proof
      assume "take 2 (hexBytes secret) = ''0x''"
      then have "CHR ''x'' \<in> set (hexBytes secret)" by (metis in_set_takeD list.set_intros)
      then show False using hexBytes_chars by (fastforce simp: fromHexChar_def)
    qed
    then show ?thesis using True by (simp add: trimPrefix_def numeral_2_eq_2)
  next
    case False
    then show ?thesis using assms(3) by (simp add: trimPrefix_def)
  qed
  ultimately show "NewJWTProvider (Some (pre @ prefix @ hexBytes secret @ post)) = Ok \<lparr>jwSecret = secret, jwCachedToken = [], jwExpiresAt = 0\<rparr>"
    using len by (simp add: NewJWTProvider_def decodeHex_hexBytes)
next
  fix raw p
  assume "NewJWTProvider raw = Ok p"
  then show "length (jwSecret p) = 32" "jwExpiresAt p = 0" by (auto simp: NewJWTProvider_def split: option.splits)
qed

definition demoSecret :: bytes where "demoSecret = replicate 31 0 @ [0xab]"

theorem jwt_secret_roundtrip_witness:
  "NewJWTProvider (Some (''0x'' @ hexBytes demoSecret @ [char_of (10 :: nat)])) = Ok \<lparr>jwSecret = demoSecret, jwCachedToken = [], jwExpiresAt = 0\<rparr>"
  using jwt_secret_roundtrip [of "[]" "[char_of (10 :: nat)]" "''0x''" demoSecret] by (simp add: isSpace_def demoSecret_def)


section \<open>Tokens\<close>

text \<open>Times for which the arithmetic of package \<^verbatim>\<open>time\<close> is exact.\<close>

definition inRange :: "int \<Rightarrow> bool" where
  "inRange t \<longleftrightarrow> 0 \<le> t \<and> t div second < 2 ^ 62"

lemma addDuration_exact:
  assumes "0 \<le> t" "t div second < 2 ^ 62 + 60" "- 60 * second \<le> d" "d \<le> 60 * second"
  shows "addDuration t d = t + d"
proof -
  have s: "second = 1000000000" by (simp add: second_def)
  have "- 60 \<le> (t + d) div second" using zdiv_mono1 [of "- 60 * second" "t + d" second] assms by (simp add: inRange_def s)
  moreover have "(t + d) div second \<le> t div second + 60" using zdiv_mono1 [of "t + d" "t + 60 * second" second] assms by (simp add: s)
  ultimately have "max (- (2 ^ 63 - 1)) (min (2 ^ 63 - 1) ((t + d) div second)) = (t + d) div second"
    using assms(2) by simp
  then show ?thesis by (simp add: addDuration_def Let_def)
qed

lemma unixOf_exact:
  assumes "inRange t"
  shows "unixOf t = t div second - unixToInternal"
  unfolding unixOf_def unixSeconds_def wrap64_def [symmetric]
  by (rule wrap64_small) (use assms in \<open>auto simp: inRange_def unixToInternal_def second_def\<close>)

text \<open>The cached token is one that was issued at a past time with the secret and expires 60 s after it.\<close>

definition tokenInv :: "(bytes \<Rightarrow> int \<Rightarrow> string option) \<Rightarrow> int \<Rightarrow> JWTProvider \<Rightarrow> bool" where
  "tokenInv signer now p \<longleftrightarrow>
     jwExpiresAt p = 0 \<or>
     (\<exists>t. inRange t \<and> t \<le> now \<and> jwExpiresAt p = t + 60 * second \<and> signer (jwSecret p) (unixOf t) = Some (jwCachedToken p))"

definition freshToken :: "(bytes \<Rightarrow> int \<Rightarrow> string option) \<Rightarrow> bytes \<Rightarrow> int \<times> int \<Rightarrow> string \<Rightarrow> bool" where
  "freshToken signer secret readings tok \<longleftrightarrow>
     (\<exists>iat. signer secret iat = Some tok \<and> iat \<le> unixOf (snd readings) \<and> unixOf (fst readings) \<le> iat + 50)"

lemma unixOf_mono: "inRange a \<Longrightarrow> inRange b \<Longrightarrow> a \<le> b + k * second \<Longrightarrow> unixOf a \<le> unixOf b + k"
  by (simp add: unixOf_exact second_def)

lemma Token_step:
  assumes "tokenInv signer t0 p" "t0 \<le> a" "0 \<le> t0" "a \<le> b" "inRange b" "Token signer a b p = (p', r)"
  shows "tokenInv signer b p' \<and> jwSecret p' = jwSecret p \<and> (\<forall>tok. r = Ok tok \<longrightarrow> freshToken signer (jwSecret p) (a, b) tok)"
proof (cases "a < addDuration (jwExpiresAt p) (- 10 * second)")
  case True
  then have pr: "p' = p" "r = Ok (jwCachedToken p)" using assms(6) by (auto simp: Token_def)
  have "addDuration 0 (- 10 * second) \<le> 0" using addDuration_exact [of 0 "- 10 * second"] by (simp add: second_def)
  then have "jwExpiresAt p \<noteq> 0" using True assms(2,3) by auto
  then obtain t where t: "inRange t" "t \<le> t0" "jwExpiresAt p = t + 60 * second" "signer (jwSecret p) (unixOf t) = Some (jwCachedToken p)"
    using assms(1) by (auto simp: tokenInv_def)
  have "(t + 60 * second) div second = t div second + 60" by (simp add: second_def)
  then have "addDuration (t + 60 * second) (- 10 * second) = t + 50 * second"
    using addDuration_exact [of "t + 60 * second" "- 10 * second"] t(1) by (simp add: inRange_def second_def)
  then have "a \<le> t + 50 * second" using True t(3) by simp
  moreover have "inRange a" using assms(2-5) by (auto simp: inRange_def second_def intro: order_le_less_trans [OF zdiv_mono1])
  ultimately have "unixOf a \<le> unixOf t + 50" "unixOf t \<le> unixOf b"
    using unixOf_mono [of a t 50] unixOf_mono [of t b 0] t(1,2) assms(2,4,5) by auto
  then show ?thesis using pr t assms(2,4) by (auto simp: tokenInv_def freshToken_def)
next
  case False
  have "inRange a" using assms(2-5) by (auto simp: inRange_def second_def intro: order_le_less_trans [OF zdiv_mono1])
  then have "unixOf a \<le> unixOf b + 50" using unixOf_mono [of a b 50] assms(4,5) by (simp add: second_def)
  moreover have "addDuration b (60 * second) = b + 60 * second" using assms(5) by (intro addDuration_exact) (auto simp: second_def inRange_def)
  ultimately show ?thesis using False assms(1,2,4-6)
    by (auto simp: Token_def tokenInv_def freshToken_def split: option.splits)
qed

section \<open>Calls\<close>

text \<open>A session: calls one after the other, with what each sent and how it ended.\<close>

fun session ::
    "'j transport \<Rightarrow> ('j \<Rightarrow> 'r option) \<Rightarrow> Client \<Rightarrow> ((int \<times> int) \<times> string \<times> 'j list) list \<Rightarrow> (httpRequest option \<times> (call_error, 'r) result) list" where
  "session T out c [] = []"
| "session T out c ((readings, method, params) # calls) =
     (let (c', sent, r) = call T readings out c method params in (sent, r) # session T out c' calls)"

fun clockOrdered :: "int \<Rightarrow> ((int \<times> int) \<times> string \<times> 'j list) list \<Rightarrow> bool" where
  "clockOrdered t [] = True"
| "clockOrdered t (((a, b), _) # calls) \<longleftrightarrow> t \<le> a \<and> a \<le> b \<and> inRange b \<and> clockOrdered b calls"

definition authenticated :: "'j transport \<Rightarrow> bytes \<Rightarrow> string \<Rightarrow> u64 \<Rightarrow> (int \<times> int) \<times> string \<times> 'j list \<Rightarrow> httpRequest \<Rightarrow> bool" where
  "authenticated T secret url reqID c req \<longleftrightarrow>
     (case c of (readings, method, params) \<Rightarrow>
        hrURL req = url \<and> freshToken (tpSigner T) secret readings (hrBearer req) \<and>
        tpMarshal T \<lparr>rqJSONRPC = ''2.0'', rqMethod = method, rqParams = params, rqID = reqID\<rparr> = Some (hrBody req))"

lemma call_step:
  assumes "tokenInv (tpSigner T) t (clJWT c)" "0 \<le> t" "t \<le> a" "a \<le> b" "inRange b" "call T (a, b) out c method params = (c', sent, r)"
  shows "tokenInv (tpSigner T) b (clJWT c') \<and> clURL c' = clURL c \<and> clReqID c' = clReqID c + 1 \<and> jwSecret (clJWT c') = jwSecret (clJWT c) \<and>
    (\<forall>req. sent = Some req \<longrightarrow> authenticated T (jwSecret (clJWT c)) (clURL c) (clReqID c + 1) ((a, b), method, params) req)"
proof -
  obtain jwt tok where tk: "Token (tpSigner T) a b (clJWT c) = (jwt, tok)" by force
  note st = Token_step [OF assms(1,3,2,4,5) tk]
  have keep: "tokenInv (tpSigner T) b (clJWT c)" using assms(1,3,4) by (auto simp: tokenInv_def)
  show ?thesis using assms(6) st keep tk
    by (auto simp: call_def Let_def authenticated_def split: option.splits if_splits result.splits)
qed

lemma session_authenticated:
  assumes "tokenInv (tpSigner T) t (clJWT c)" "0 \<le> t" "clockOrdered t calls"
    and "i < length calls" "fst (session T out c calls ! i) = Some req"
  shows "authenticated T (jwSecret (clJWT c)) (clURL c) (clReqID c + 1 + word_of_nat i) (calls ! i) req"
  using assms
proof (induction calls arbitrary: t c i)
  case (Cons x calls)
  obtain a b meth ps where x: "x = ((a, b), meth, ps)" by (cases x) auto
  obtain c' sent r where cl: "call T (a, b) out c meth ps = (c', sent, r)" by (cases "call T (a, b) out c meth ps") auto
  have ord: "t \<le> a" "a \<le> b" "inRange b" "clockOrdered b calls" using Cons.prems(3) x by simp_all
  note st = call_step [OF Cons.prems(1,2) ord(1-3) cl]
  show ?case
  proof (cases i)
    case 0
    then show ?thesis using Cons.prems(5) st x cl by simp
  next
    case (Suc k)
    have "0 \<le> b" using ord(1,2) Cons.prems(2) by simp
    from Cons.IH [OF _ this ord(4), of c' k] show ?thesis using Cons.prems(4,5) st x cl Suc by (simp add: add.assoc)
  qed
qed simp

text \<open>
  C21. Every Engine API request is authenticated afresh and identified. Over any session of calls at times that do not go back,
  starting from the client built on a secret file, the request the \<open>i\<close>-th call sends goes to the configured
  URL, its body is the JSON-RPC request of that call with identifier \<open>i + 1\<close>, and its bearer token was signed
  with the secret of the file and issued no later than the call and at most 50 seconds before it, within the
  60 seconds the execution client accepts. A cached token is reused, never past its time.
\<close>

theorem engine_requests_authenticated:
  assumes "NewJWTProvider raw = Ok jwt" and "clockOrdered 0 calls" and "i < length calls"
    and "fst (session T out (New_client url jwt) calls ! i) = Some req"
  shows "length (jwSecret jwt) = 32 \<and> authenticated T (jwSecret jwt) url (word_of_nat (i + 1)) (calls ! i) req"
proof -
  have jwt: "length (jwSecret jwt) = 32" "jwExpiresAt jwt = 0"
    using assms(1) by (auto simp: NewJWTProvider_def split: option.splits if_splits)
  then have "tokenInv (tpSigner T) 0 (clJWT (New_client url jwt))" by (simp add: tokenInv_def New_client_def)
  from session_authenticated [OF this _ assms(2-4)] jwt(1) show ?thesis by (simp add: New_client_def add.commute)
qed

definition demoTransport :: "bytes transport" where
  "demoTransport = \<lparr>tpSigner = \<lambda>secret iat. Some (decimal (nat iat)), tpMarshal = \<lambda>r. Some [ucast (rqID r)],
     tpBuildable = \<lambda>_. True, tpDo = \<lambda>req. HTTPResponse 200 (hrBody req),
     tpUnmarshal = \<lambda>b. Some \<lparr>rsResult = b, rsError = None, rsID = 0\<rparr>\<rparr>"

definition demoJWT :: JWTProvider where
  "demoJWT = \<lparr>jwSecret = demoSecret, jwCachedToken = [], jwExpiresAt = 0\<rparr>"

definition at :: "int \<Rightarrow> int" where "at sec = (unixToInternal + sec) * second"

definition demoCalls :: "((int \<times> int) \<times> string \<times> bytes list) list" where
  "demoCalls = [((at 100, at 100), ''engine_exchangeCapabilities'', []), ((at 149, at 149), ''engine_getPayloadV3'', [])]"

lemma at_inRange: "inRange (at 100)" "inRange (at 149)"
  by (simp_all add: inRange_def at_def unixToInternal_def second_def)

theorem engine_requests_authenticated_witness:
  "\<exists>req. fst (session demoTransport Some (New_client ''http://localhost:8551'' demoJWT) demoCalls ! 1) = Some req \<and>
     hrBearer req = ''100'' \<and> authenticated demoTransport demoSecret ''http://localhost:8551'' 2 (demoCalls ! 1) req"
proof -
  have raw: "NewJWTProvider (Some (hexBytes demoSecret)) = Ok demoJWT" by code_simp
  have ord: "clockOrdered 0 demoCalls" using at_inRange by (simp add: demoCalls_def at_def unixToInternal_def second_def)
  have "map_option hrBearer (fst (session demoTransport Some (New_client ''http://localhost:8551'' demoJWT) demoCalls ! 1)) = Some ''100''"
    by code_simp
  then obtain req where req: "fst (session demoTransport Some (New_client ''http://localhost:8551'' demoJWT) demoCalls ! 1) = Some req" "hrBearer req = ''100''"
    by auto
  have "1 < length demoCalls" by (simp add: demoCalls_def)
  from engine_requests_authenticated [OF raw ord this req(1)] req show ?thesis by (simp add: demoJWT_def)
qed

text \<open>
  A call succeeds exactly when every stage does: the request encodes, a token is signed, the answer is HTTP 200 and decodes. In particular
  a response that is not HTTP 200 or carries a JSON-RPC error never yields a result, and the request
  identifier is used up in every case.
\<close>

theorem engine_call_exact:
  "fst (call T (a, b) out c method params) = c\<lparr>clReqID := clReqID c + 1, clJWT := clJWT (fst (call T (a, b) out c method params))\<rparr> \<and>
   (snd (snd (call T (a, b) out c method params)) = Ok r \<longleftrightarrow>
      (\<exists>body token response resp.
         tpMarshal T \<lparr>rqJSONRPC = ''2.0'', rqMethod = method, rqParams = params, rqID = clReqID c + 1\<rparr> = Some body \<and>
         tpBuildable T (clURL c) \<and> snd (Token (tpSigner T) a b (clJWT c)) = Ok token \<and>
         tpDo T \<lparr>hrURL = clURL c, hrBearer = token, hrBody = body\<rparr> = HTTPResponse 200 response \<and>
         tpUnmarshal T response = Some resp \<and> rsError resp = None \<and> out (rsResult resp) = Some r))"
  by (cases "Token (tpSigner T) a b (clJWT c)")
     (auto simp: call_def Let_def split: option.splits result.splits http_result.splits prod.splits)

end
