(* ===== verification/Node_Config.thy ===== *)
theory Node_Config
  imports Engine_Client P2p Node_Loop
begin

text \<open>
  Configuration and start-up: \<^verbatim>\<open>config/config.go\<close>, \<^verbatim>\<open>cmd/clique-node/main.go\<close>, \<^verbatim>\<open>log/log.go\<close> and the construction and start of
  the node in \<^verbatim>\<open>node/node.go\<close>. The file system, TOML, the key parser of go-ethereum, the execution client's
  genesis block and libp2p are parameters. Durations are signed 64-bit nanoseconds.
\<close>

section \<open>Configuration\<close>

record NodeConfig =
  ncDataDir :: string
  ncNetworkID :: u64

record EngineConfig =
  ecURL :: string
  ecJWTSecretPath :: string
  ecELRPCUrl :: string
  ecDialTimeout :: int
  ecCallTimeout :: int

record P2PConfig =
  pcListenAddr :: string
  pcBootNodes :: "string list"
  pcMaxPeers :: int
  pcEnableMDNS :: bool

record RPCConfig =
  rcListenAddr :: string
  rcReadTimeout :: int
  rcWriteTimeout :: int

record QBFTConfig =
  qcValidatorKeyPath :: string
  qcPeriod :: u64
  qcEpoch :: u64
  qcRequestTimeoutMs :: u64

record CliqueConfig =
  ccSignerKeyPath :: string
  ccPeriod :: u64
  ccEpoch :: u64
  ccGenesisHash :: string

record ConsensusConfig =
  csType :: string
  csClique :: CliqueConfig
  csQBFT :: QBFTConfig

record LoggingConfig =
  lcLevel :: string
  lcFormat :: string

record ClientConfig =
  cfNode :: NodeConfig
  cfEngine :: EngineConfig
  cfP2P :: P2PConfig
  cfRPC :: RPCConfig
  cfConsensus :: ConsensusConfig
  cfLogging :: LoggingConfig

definition DefaultConfig :: ClientConfig where
  "DefaultConfig =
     \<lparr>cfNode = \<lparr>ncDataDir = ''./data'', ncNetworkID = 1\<rparr>,
      cfEngine = \<lparr>ecURL = ''http://localhost:8551'', ecJWTSecretPath = ''./jwt.hex'', ecELRPCUrl = ''http://localhost:8545'',
                  ecDialTimeout = 10 * second, ecCallTimeout = 5 * second\<rparr>,
      cfP2P = \<lparr>pcListenAddr = ''/ip4/0.0.0.0/tcp/9000'', pcBootNodes = [], pcMaxPeers = 50, pcEnableMDNS = False\<rparr>,
      cfRPC = \<lparr>rcListenAddr = ''0.0.0.0:5052'', rcReadTimeout = 10 * second, rcWriteTimeout = 10 * second\<rparr>,
      cfConsensus = \<lparr>csType = ''clique'',
                     csClique = \<lparr>ccSignerKeyPath = [], ccPeriod = 15, ccEpoch = 30000, ccGenesisHash = []\<rparr>,
                     csQBFT = \<lparr>qcValidatorKeyPath = [], qcPeriod = 0, qcEpoch = 0, qcRequestTimeoutMs = 0\<rparr>\<rparr>,
      cfLogging = \<lparr>lcLevel = ''info'', lcFormat = ''pretty''\<rparr>\<rparr>"

datatype config_error =
    CfgErrURL | CfgErrJWTSecretPath | CfgErrCliqueEpoch | CfgErrQBFTEpoch | CfgErrType string | CfgErrMaxPeers

definition Validate :: "ClientConfig \<Rightarrow> (config_error, unit) result" where
  "Validate c =
     (if ecURL (cfEngine c) = [] then Err CfgErrURL
      else if ecJWTSecretPath (cfEngine c) = [] then Err CfgErrJWTSecretPath
      else
        let cs = cfConsensus c in
        rbind (if csType cs = [] \<or> csType cs = ''clique''
               then (if ccEpoch (csClique cs) = 0 then Err CfgErrCliqueEpoch else Ok ())
               else if csType cs = ''qbft''
               then (if qcEpoch (csQBFT cs) = 0 then Err CfgErrQBFTEpoch else Ok ())
               else Err (CfgErrType (csType cs)))
          (\<lambda>_. if pcMaxPeers (cfP2P c) \<le> 0 then Err CfgErrMaxPeers else Ok ()))"

text \<open>Reading a file, and what the TOML decoder makes of the text on top of the given values.\<close>

datatype file_result = FileData string | FileNotExist | FileError

datatype load_error = LoadNotExist | LoadRead | LoadParse | LoadInvalid config_error

record World =
  wdReadFile :: "string \<Rightarrow> file_result"
  wdToml :: "string \<Rightarrow> ClientConfig \<Rightarrow> ClientConfig option"
  wdHexToECDSA :: "string \<Rightarrow> privkey option"
  wdDial :: "string \<Rightarrow> bool"
  wdGenesis :: "string \<Rightarrow> header option"
  wdLibp2p :: "string \<Rightarrow> peerID option"
  wdChainDB :: "string \<Rightarrow> bytes"            \<comment> \<open>the content of \<^verbatim>\<open>cl-headers.db\<close> in a data directory\<close>

definition Load :: "World \<Rightarrow> string \<Rightarrow> (load_error, ClientConfig) result" where
  "Load W path =
     (case wdReadFile W path of
        FileNotExist \<Rightarrow> Err LoadNotExist
      | FileError \<Rightarrow> Err LoadRead
      | FileData text \<Rightarrow>
          (case wdToml W text DefaultConfig of
             None \<Rightarrow> Err LoadParse
           | Some conf \<Rightarrow> (case Validate conf of Ok _ \<Rightarrow> Ok conf | Err e \<Rightarrow> Err (LoadInvalid e) | Panic \<Rightarrow> Panic)))"

section \<open>The command\<close>

text \<open>\<^verbatim>\<open>log.Init\<close>: pretty output or JSON, and the level, information if it does not parse.\<close>

definition logInit :: "(string \<Rightarrow> 'l option) \<Rightarrow> 'l \<Rightarrow> string \<Rightarrow> string \<Rightarrow> bool \<times> 'l" where
  "logInit ParseLevel InfoLevel level format =
     (map lowerChar format = ''pretty'', case ParseLevel (map lowerChar level) of None \<Rightarrow> InfoLevel | Some l \<Rightarrow> l)"

text \<open>The flags: the path of the configuration file and the logging flags that were given.\<close>

record Flags =
  flConfig :: string
  flLogLevel :: "string option"
  flLogFormat :: "string option"

text \<open>
  \<^verbatim>\<open>runNode\<close> up to \<^verbatim>\<open>node.New\<close>: a missing configuration file falls back to the defaults, the logging flags
  override the file.
\<close>

definition runConfig :: "World \<Rightarrow> Flags \<Rightarrow> (load_error, ClientConfig) result" where
  "runConfig W fl =
     rbind (case Load W (flConfig fl) of
              Err e \<Rightarrow> (if e = LoadNotExist then Ok DefaultConfig else Err e)
            | r \<Rightarrow> r)
       (\<lambda>conf. let lg = cfLogging conf;
                  lg1 = (case flLogLevel fl of None \<Rightarrow> lg | Some l \<Rightarrow> lg\<lparr>lcLevel := l\<rparr>);
                  lg2 = (case flLogFormat fl of None \<Rightarrow> lg1 | Some f \<Rightarrow> lg1\<lparr>lcFormat := f\<rparr>)
              in Ok (conf\<lparr>cfLogging := lg2\<rparr>))"

section \<open>Building the node\<close>

definition fileText :: "file_result \<Rightarrow> string option" where
  "fileText r = (case r of FileData s \<Rightarrow> Some s | _ \<Rightarrow> None)"

definition loadSignerKey :: "World \<Rightarrow> string \<Rightarrow> privkey option" where
  "loadSignerKey W path =
     Option.bind (fileText (wdReadFile W path)) (\<lambda>data. wdHexToECDSA W (trimPrefix (TrimSpace data) ''0x''))"

definition signerKeyPath :: "ClientConfig \<Rightarrow> string" where
  "signerKeyPath conf =
     (let cs = cfConsensus conf in
      if csType cs = ''qbft'' then qcValidatorKeyPath (csQBFT cs) else ccSignerKeyPath (csClique cs))"

datatype boot_error =
    BootSignerKey | BootJWT jwt_error | BootDial | BootGenesis | BootConsensusType string
  | BootCliqueSnapshot clique_error | BootQBFTSnapshot qbft_error | BootP2P

text \<open>The configured engine; the timeout is the conversion to a signed duration times a millisecond.\<close>

datatype AnyEngine = UseClique Engine | UseQBFT QEngine

definition configuredEngine :: "ClientConfig \<Rightarrow> (boot_error, AnyEngine) result" where
  "configuredEngine conf =
     (let cs = cfConsensus conf in
      if csType cs = [] \<or> csType cs = ''clique''
      then Ok (UseClique (New (ccPeriod (csClique cs)) (ccEpoch (csClique cs))))
      else if csType cs = ''qbft''
      then Ok (UseQBFT (New_q (qcPeriod (csQBFT cs)) (qcEpoch (csQBFT cs)) (wrap64 (sint (qcRequestTimeoutMs (csQBFT cs)) * 1000000))))
      else Err (BootConsensusType (csType cs)))"

text \<open>The round timeout of the protocol loop: four seconds when none is configured.\<close>

definition roundTimeout :: "QEngine \<Rightarrow> int" where
  "roundTimeout e = (if qbTimeout e = 0 then 4 * second else qbTimeout e)"

text \<open>The node for one engine: built, given a P2P host, and its chain replayed from the database.\<close>

datatype 's booted = Booted "'s Node" Client peerID | BootFailed boot_error | BootPanic

definition bootNode ::
    "Env \<Rightarrow> (os_call \<Rightarrow> bool) \<Rightarrow> World \<Rightarrow> ClientConfig \<Rightarrow> ('s, 'e) EngineOps \<Rightarrow> ('e \<Rightarrow> boot_error) \<Rightarrow> header \<Rightarrow> privkey option \<Rightarrow> Client
      \<Rightarrow> 's booted option" where
  "bootNode V os W conf E snapErr genesis key eng =
     (case newNode E (evG V) genesis (ncNetworkID (cfNode conf)) key of
        Err e \<Rightarrow> Some (BootFailed (snapErr e))
      | Panic \<Rightarrow> Some BootPanic
      | Ok n \<Rightarrow>
          (case wdLibp2p W (pcListenAddr (cfP2P conf)) of
             None \<Rightarrow> Some (BootFailed BootP2P)
           | Some pid \<Rightarrow>
               (case openNode V os E n
                       (if ncDataDir (cfNode conf) = [] then None else Some (wdChainDB W (ncDataDir (cfNode conf)))) of
                  None \<Rightarrow> None
                | Some (n', Panic) \<Rightarrow> Some BootPanic
                | Some (n', _) \<Rightarrow> Some (Booted n' eng pid))))"

datatype AnyNode =
    CliqueNode Engine "Snapshot booted option"
  | QBFTNode QEngine "QSnapshot booted option"

text \<open>\<^verbatim>\<open>New\<close>, in the order of the source: key, secret, genesis block, engine, and the rest with that engine.\<close>

definition New_node ::
    "Env \<Rightarrow> IstanbulExtra codec \<Rightarrow> (os_call \<Rightarrow> bool) \<Rightarrow> World \<Rightarrow> ClientConfig \<Rightarrow> (boot_error, AnyNode) result" where
  "New_node V C os W conf =
     rbind (if signerKeyPath conf = [] then Ok None
            else case loadSignerKey W (signerKeyPath conf) of None \<Rightarrow> Err BootSignerKey | Some k \<Rightarrow> Ok (Some k)) (\<lambda>key.
     rbind (case NewJWTProvider (fileText (wdReadFile W (ecJWTSecretPath (cfEngine conf)))) of
              Ok j \<Rightarrow> Ok j | Err e \<Rightarrow> Err (BootJWT e) | Panic \<Rightarrow> Panic) (\<lambda>jwt.
     if \<not> wdDial W (ecELRPCUrl (cfEngine conf)) then Err BootDial
     else case wdGenesis W (ecELRPCUrl (cfEngine conf)) of
       None \<Rightarrow> Err BootGenesis
     | Some genesis \<Rightarrow>
         rbind (configuredEngine conf) (\<lambda>eng.
           let client = New_client (ecURL (cfEngine conf)) jwt in
           case eng of
             UseClique e \<Rightarrow> Ok (CliqueNode e (bootNode V os W conf (cliqueOps (evG V) e) BootCliqueSnapshot genesis key client))
           | UseQBFT e \<Rightarrow> Ok (QBFTNode e (bootNode V os W conf (qbftOps (evG V) C e) BootQBFTSnapshot genesis key client)))))"

section \<open>Starting\<close>

datatype start_error = StartHandshake call_error | StartP2P host_error

text \<open>What runs after the start: the protocol loop, the production timer, or nothing of either.\<close>

datatype activity = RunQBFTLoop | ScheduleProduction | FollowOnly

definition startActivity :: "bool \<Rightarrow> 's Node \<Rightarrow> activity" where
  "startActivity isBFT n =
     (if isBFT then (if nSignerKey n \<noteq> None then RunQBFTLoop else FollowOnly) else ScheduleProduction)"

text \<open>
  \<^verbatim>\<open>Start\<close>: the handshake with the execution client, the callbacks, the P2P host, and the activity. \<open>handshake\<close> is the
  outcome of \<^const>\<open>ExchangeCapabilities\<close>.
\<close>

definition Start_node ::
    "libp2p \<Rightarrow> ClientConfig \<Rightarrow> (call_error, string list) result \<Rightarrow> bool \<Rightarrow> 's Node
      \<Rightarrow> (peerID \<Rightarrow> CliqueBlock \<Rightarrow> 'st \<Rightarrow> 'st) \<Rightarrow> (QBFTMsg \<Rightarrow> 'st \<Rightarrow> 'st) \<Rightarrow> (SyncRequestMsg \<Rightarrow> SyncResponseMsg) \<Rightarrow> (peerID \<Rightarrow> 'st \<Rightarrow> 'st)
      \<Rightarrow> 'st Host \<Rightarrow> 'st Host \<times> (start_error, activity) result" where
  "Start_node L conf handshake isBFT n onBlock onQBFT onSyncRequest onAhead h =
     (case handshake of
        Err e \<Rightarrow> (h, Err (StartHandshake e))
      | Panic \<Rightarrow> (h, Panic)
      | Ok _ \<Rightarrow>
          let h1 = SetSyncHandler (SetSyncProvider (SetQBFTMsgHandler (SetBlockHandler h onBlock) onQBFT) onSyncRequest) onAhead;
              (h2, r) = Start_host L (pcEnableMDNS (cfP2P conf)) (pcBootNodes (cfP2P conf)) h1
          in (h2, case r of
                    Err e \<Rightarrow> Err (StartP2P e)
                  | Panic \<Rightarrow> Panic
                  | Ok _ \<Rightarrow> Ok (startActivity isBFT n)))"

text \<open>
  \<^verbatim>\<open>shutdown\<close>: the production timer is cancelled, then the server, the host and the database are closed; an error of
  one of them is only logged.
\<close>

definition shutdown :: "'st Host \<Rightarrow> 's Producer \<Rightarrow> 's Producer \<times> close_action list" where
  "shutdown h p =
     (p\<lparr>pdTimer := None\<rparr>, [StopRPC] @ Close_host h @ (if stDb (nStor (pdNode p)) = None then [] else [CloseDB]))"

definition SetBootNodes :: "ClientConfig \<Rightarrow> string list \<Rightarrow> ClientConfig" where
  "SetBootNodes conf addrs = conf\<lparr>cfP2P := (cfP2P conf)\<lparr>pcBootNodes := addrs\<rparr>\<rparr>"

definition HeadNumber :: "'s Node \<Rightarrow> u64" where
  "HeadNumber n =
     (case Head (nStor n) of
        None \<Rightarrow> 0
      | Some h \<Rightarrow> (case Number h of None \<Rightarrow> 0 | Some num \<Rightarrow> Uint64 num))"

definition P2PAddr :: "string list \<Rightarrow> peerID \<Rightarrow> string" where
  "P2PAddr addrs pid = (case addrs of [] \<Rightarrow> [] | a # _ \<Rightarrow> a @ ''/p2p/'' @ pid)"

end
