(* ===== verification/Config_Properties.thy ===== *)
theory Config_Properties
  imports Node_Config Loop_Properties Engine_Properties P2p_Properties
begin

text \<open>
  The node keeps its type: what start-up establishes of a node (a usable engine, its identity, the network and
  genesis block it announces) holds after every handler.
\<close>

section \<open>What a handler keeps\<close>

definition kept :: "('s Node \<Rightarrow> bool) \<Rightarrow> ('s, 'e, 'a) step \<Rightarrow> bool" where
  "kept P st \<longleftrightarrow> (\<forall>n r. st = Some (n, r) \<longrightarrow> P n)"

named_theorems kept_intros "handlers that keep a predicate of the node"

lemma kept_simps [simp]: "kept P None" "kept P (Some (n, r)) \<longleftrightarrow> P n"
  by (simp_all add: kept_def)

lemma kept_nbind [kept_intros]: "kept P st \<Longrightarrow> (\<And>n x. P n \<Longrightarrow> kept P (f n x)) \<Longrightarrow> kept P (nbind st f)"
  by (cases "(st, f)" rule: nbind.cases) auto

lemma kept_D: "kept P st \<Longrightarrow> st = Some (n, r) \<Longrightarrow> P n"
  by (simp add: kept_def)

definition keptP :: "('s Node \<Rightarrow> bool) \<Rightarrow> ('s Producer \<times> 'r) option \<Rightarrow> bool" where
  "keptP P st \<longleftrightarrow> (\<forall>p r. st = Some (p, r) \<longrightarrow> P (pdNode p))"

lemma keptP_simps [simp]: "keptP P None" "keptP P (Some x) \<longleftrightarrow> P (pdNode (fst x))"
  by (cases x, auto simp: keptP_def)+

lemma keptP_liftNode:
  "P (pdNode p) \<Longrightarrow> kept P st \<Longrightarrow> (\<And>p x. P (pdNode p) \<Longrightarrow> keptP P (f p x)) \<Longrightarrow> keptP P (liftNode p st f)"
  by (cases "(p, st, f)" rule: liftNode.cases) auto

text \<open>
  The fields handlers write: the store, the snapshots, the sync lock, and the status, which they only
  set to one with the node's own network and genesis hash. What these writes keep, every handler keeps.
\<close>

locale node_predicate =
  fixes E :: "('s, 'e) EngineOps" and P :: "'s Node \<Rightarrow> bool"
  assumes P_stor: "P n \<Longrightarrow> P (n\<lparr>nStor := s\<rparr>)"
    and P_headSnap: "P n \<Longrightarrow> P (n\<lparr>nHeadSnap := snap\<rparr>)"
    and P_epochSnaps: "P n \<Longrightarrow> P (n\<lparr>nEpochSnaps := m\<rparr>)"
    and P_syncing: "P n \<Longrightarrow> P (n\<lparr>nSyncing := b\<rparr>)"
    and P_status: "P n \<Longrightarrow> P (setStatus E n h num)"
begin

lemmas writes = P_stor P_headSnap P_epochSnaps P_syncing P_status

lemma setHeadSnapshot_kept [kept_intros]: "P n \<Longrightarrow> kept P (setHeadSnapshot E n snap)"
  by (simp add: setHeadSnapshot_def Let_def writes)

lemma baseSnapshot_kept [kept_intros]: "P n \<Longrightarrow> kept P (baseSnapshot E n k)"
  by (auto simp: baseSnapshot_def writes intro!: kept_intros split: option.split)

lemma replayFrom_kept [kept_intros]: "P n \<Longrightarrow> kept P (replayFrom E n base k num :: ('s, 'e, 's) step)"
  by (auto simp: replayFrom_def split: option.split)

lemma computeSnapshot_kept [kept_intros]: "P n \<Longrightarrow> kept P (computeSnapshot E n h)"
  by (auto simp: computeSnapshot_def Let_def intro!: kept_intros split: option.split)

lemma computeSnapshotAt_kept [kept_intros]: "P n \<Longrightarrow> kept P (computeSnapshotAt G E n h)"
  by (auto simp: computeSnapshotAt_def intro!: kept_intros split: option.split)

lemma addToStore_kept [kept_intros]: "P n \<Longrightarrow> kept P (addToStore V n h el pj :: ('s, 'e, bool \<times> u64) step)"
  by (auto simp: addToStore_def writes split: option.split)

lemma deliverHead_kept [kept_intros]: "P n \<Longrightarrow> kept P (deliverHead V E n h num blk)"
  by (auto simp: deliverHead_def writes intro!: kept_intros split: option.split)

lemma handleBlock_kept: "P n \<Longrightarrow> kept P (handleBlock V E n blk)"
  by (auto simp: handleBlock_def writes intro!: kept_intros split: option.split)

lemma resetChain_kept [kept_intros]: "P n \<Longrightarrow> kept P (resetChain os G n :: ('s, 'e, unit) step)"
  by (auto simp: resetChain_def Let_def writes split_beta intro!: kept_intros P_headSnap P_epochSnaps)

lemma deliverSyncPayload_kept [kept_intros]: "P n \<Longrightarrow> kept P (deliverSyncPayload V n pj :: ('s, 'e, unit) step)"
  by (auto simp: deliverSyncPayload_def split: option.split)

lemma importSyncBlock_kept [kept_intros]: "P n \<Longrightarrow> kept P (importSyncBlock V E n sb)"
  by (auto simp: importSyncBlock_def intro!: kept_intros split: option.split)

lemma importSyncBlocks_kept [kept_intros]: "P n \<Longrightarrow> kept P (importSyncBlocks V E n sbs)"
  by (induction sbs arbitrary: n) (auto intro!: kept_intros)

lemma syncLoop_kept [kept_intros]: "P n \<Longrightarrow> kept P (syncLoop V os E n asks)"
  by (induction asks arbitrary: n) (auto intro!: kept_intros split: option.split)

lemma finishSync_kept [kept_intros]: "P n \<Longrightarrow> kept P (finishSync V E n)"
  by (auto simp: finishSync_def writes intro!: kept_intros split: option.split)

lemma syncWithPeer_kept:
  assumes "P n"
  shows "kept P (syncWithPeer V os E n asks)"
proof -
  have "kept P (nbind (syncLoop V os E (n\<lparr>nSyncing := True\<rparr>) asks) (\<lambda>n _. finishSync V E n))"
    using assms by (intro kept_intros writes)
  then show ?thesis using assms by (auto simp: syncWithPeer_def kept_def writes)
qed

lemma replayRecords_kept [kept_intros]: "P n \<Longrightarrow> kept P (replayRecords V n rs :: ('s, 'e, unit) step)"
  by (induction rs arbitrary: n) (auto simp: writes split: option.split result.split)

lemma attachDB_kept: "P n \<Longrightarrow> P (attachDB n db)"
  by (simp add: attachDB_def writes)

lemma computeSnapshot_P: "computeSnapshot E n h = Some (n', r) \<Longrightarrow> P n \<Longrightarrow> P n'"
  using kept_D [OF computeSnapshot_kept] by blast

lemma replayChain_kept [kept_intros]: "P n \<Longrightarrow> kept P (replayChain V os E n db)"
  by (auto simp: replayChain_def Let_def attachDB_kept intro!: kept_intros writes
      split: option.split result.split) (metis computeSnapshot_P)+

lemma openNode_kept: "P n \<Longrightarrow> kept P (openNode V os E n f)"
  by (auto simp: openNode_def intro!: kept_intros split: option.split result.split)

lemma scheduleBlockProduction_node [simp]: "pdNode (fst (scheduleBlockProduction E ck p)) = pdNode p"
  by (auto simp: scheduleBlockProduction_def split: result.split option.split)

lemma reschedule_node [simp]: "pdNode (fst (reschedule E ck p err)) = pdNode p"
  by (simp add: reschedule_def split_beta split: result.split)

text \<open>Producing.\<close>

lemma advanceSnapshot_kept [kept_intros]: "P n \<Longrightarrow> kept P (advanceSnapshot E n snap h)"
  by (auto simp: advanceSnapshot_def intro!: kept_intros split: result.split)

lemma importProduced_kept: "P (pdNode p) \<Longrightarrow> keptP P (importProduced V E ck p snap h num ep)"
  by (auto simp: importProduced_def Let_def writes intro!: keptP_liftNode kept_intros)

lemma sealAndImport_kept: "P (pdNode p) \<Longrightarrow> keptP P (sealAndImport V E ck p head num extra ep)"
  by (auto simp: sealAndImport_def Let_def split_beta intro!: importProduced_kept split: option.split result.split)

lemma produceBlock_kept: "P (pdNode p) \<Longrightarrow> keptP P (produceBlock V E ck evs p)"
  by (auto simp: produceBlock_def Let_def intro!: sealAndImport_kept split: option.split result.split producer_error.split)

end

section \<open>What the protocol loop keeps\<close>

definition keptL :: "(QSnapshot Node \<Rightarrow> bool) \<Rightarrow> (Loop \<times> 'r) option \<Rightarrow> bool" where
  "keptL P st \<longleftrightarrow> (\<forall>l r. st = Some (l, r) \<longrightarrow> P (lpNode l))"

lemma keptL_simps [simp]: "keptL P None" "keptL P (Some (l, r)) \<longleftrightarrow> P (lpNode l)"
  by (simp_all add: keptL_def)

lemma keptL_D: "keptL P st \<Longrightarrow> st = Some (l, r) \<Longrightarrow> P (lpNode l)"
  by (simp add: keptL_def)

locale loop_predicate = node_predicate E P for E :: "(QSnapshot, qbft_error) EngineOps" and P :: "QSnapshot Node \<Rightarrow> bool"
begin

lemma addToStore_P: "addToStore V n h el pj = Some (n', r :: (qbft_error node_error, bool \<times> u64) result) \<Longrightarrow> P n \<Longrightarrow> P n'"
  using kept_D [OF addToStore_kept] by blast

lemma storeCommitted_kept: "P (lpNode l) \<Longrightarrow> keptL P (storeCommitted V l h ep pl)"
  unfolding storeCommitted_def by (auto split: option.split result.split dest!: addToStore_P)

lemma commitDecision_kept: "P (lpNode l) \<Longrightarrow> keptL P (commitDecision V l h pl)"
  by (auto simp: commitDecision_def intro: storeCommitted_kept split: option.split)

lemma dispatch_kept: "P (lpNode l) \<Longrightarrow> keptL P (dispatchQBFTDecisions V l ds)"
  by (induction V l ds rule: dispatchQBFTDecisions.induct) (auto intro: commitDecision_kept split: option.split result.split)

lemma dispatch_P: "dispatchQBFTDecisions V l ds = Some (l', r) \<Longrightarrow> P (lpNode l) \<Longrightarrow> P (lpNode l')"
  using keptL_D [OF dispatch_kept] by blast

lemma takeMsg_P:
  assumes "takeMsg V K order core l raw = (core', Some (l', r))" "P (lpNode l)"
  shows "P (lpNode l')"
  using assms by (auto simp: takeMsg_def dest: dispatch_P split: result.splits)

lemma loopTurn_P: "loopTurn V K order c l c' l' q \<Longrightarrow> P (lpNode l) \<Longrightarrow> P (lpNode l')"
  using takeMsg_P dispatch_P by (fastforce simp: loopTurn_def)

lemma roundLoop_P:
  assumes "qbftRoundLoop V K order fired core l evs = Some (core', l', r, evs')" "P (lpNode l)"
  shows "P (lpNode l')"
  by (rule roundLoop_rule [where I = "\<lambda>c l. P (lpNode l)" and Q = "\<lambda>c l q. P (lpNode l)", OF assms(1)])
    (use assms(2) loopTurn_P in \<open>auto simp: handleQBFTMsg_def\<close>)

lemma openRound_P:
  "openRound V C K order e w parent snap num prev prevCore round l = Some (l', r) \<Longrightarrow> P (lpNode l) \<Longrightarrow> P (lpNode l')"
  by (auto simp: openRound_def Let_def dest!: dispatch_P split: if_splits result.splits option.splits prod.splits loop_error.splits)

lemma rounds_kept: "P (lpNode l) \<Longrightarrow> keptL P (runQBFTRounds V C K order e waits parent snap num prev prevCore round l evs)"
proof (unfold keptL_def, intro allI impI)
  fix l' r
  assume "P (lpNode l)" and run: "runQBFTRounds V C K order e waits parent snap num prev prevCore round l evs = Some (l', r)"
  let ?Q = "\<lambda>V C K order e waits parent snap num prev prevCore round l evs y. P (lpNode l) \<longrightarrow> P (lpNode (fst y))"
  have "?Q V C K order e waits parent snap num prev prevCore round l evs (l', r)"
  proof (rule runQBFTRounds.raw_induct [of ?Q, OF _ run], goal_cases)
    case (1 rec V C K order e waits parent snap num prev prevCore round l evs y)
    show ?case
    proof
      assume "P (lpNode l)"
      then show "P (lpNode (fst y))" using 1(2)
        by (auto simp: Let_def split: if_splits result.splits option.splits prod.splits
            dest!: openRound_P roundLoop_P 1(1) [rule_format])
    qed
  qed
  then show "P (lpNode l')" using \<open>P (lpNode l)\<close> by simp
qed

lemma instance_P:
  "runQBFTInstance V C K order e waits parent snap l evs = Some (l', r) \<Longrightarrow> P (lpNode l) \<Longrightarrow> P (lpNode l')"
  using keptL_D [OF rounds_kept] by (auto simp: runQBFTInstance_def split: option.splits)

lemma advanceSnapshot_P: "advanceSnapshot E n snap h = Some (n', r) \<Longrightarrow> P n \<Longrightarrow> P n'"
  using kept_D [OF advanceSnapshot_kept] by blast

lemma slot_P:
  assumes "E = qbftOps (evG V) C e" "qbftSlot V C K order e waits l evs = Some (l', r)" "P (lpNode l)"
  shows "P (lpNode l')"
  using assms(2,3) unfolding qbftSlot_def assms(1) [symmetric]
  by (auto simp: Let_def dest!: instance_P advanceSnapshot_P intro: P_status split: option.splits prod.splits result.splits)

end

section \<open>Well-formed nodes\<close>

text \<open>
  The type of a running node: the epoch length divides, the genesis snapshot is that of the genesis header,
  the signer address belongs to the key, and the announced network and genesis hash are the node's own.
\<close>

definition node_ok :: "geth \<Rightarrow> ('s, 'e) EngineOps \<Rightarrow> u64 \<Rightarrow> 's Node \<Rightarrow> bool" where
  "node_ok G E net n \<longleftrightarrow>
     opEpoch E \<noteq> 0 \<and> opNewGenesisSnapshot E (nGenesisHeader n) = Ok (nGenesisSnap n) \<and>
     opBlockHash E (nGenesisSnap n) = hdrHash G (nGenesisHeader n) \<and>
     nSignerAddr n = (case nSignerKey n of None \<Rightarrow> zeroAddress | Some k \<Rightarrow> key_address G k) \<and>
     nNetworkID n = net \<and> smNetworkID (nStatus n) = net \<and> smGenesisHash (nStatus n) = hdrHash G (nGenesisHeader n)"

interpretation ok: node_predicate E "node_ok G E net" for E :: "('s, 'e) EngineOps" and G net
  by unfold_locales (simp_all add: node_ok_def setStatus_def)

interpretation okq: loop_predicate "qbftOps G C e" "node_ok G (qbftOps G C e) net" for G C e net
  by unfold_locales (simp_all add: node_ok_def setStatus_def)

lemma node_ok_new:
  assumes "newNode E G genesis net key = Ok n" "opEpoch E \<noteq> 0"
    and "\<And>s. opNewGenesisSnapshot E genesis = Ok s \<Longrightarrow> opBlockHash E s = hdrHash G genesis"
  shows "node_ok G E net n"
  using assms by (auto simp: newNode_def node_ok_def)

lemma clique_genesis_hash: "NewGenesisSnapshot G g = Ok s \<Longrightarrow> snHash s = hdrHash G g"
  by (auto simp: NewGenesisSnapshot_def Let_def newSnapshot_def)

lemma qbft_genesis_hash: "NewGenesisSnapshot_q G C g = Ok s \<Longrightarrow> qsHash s = hdrHash G g"
  by (auto simp: NewGenesisSnapshot_q_def cliqueGenesis_def newSnapshot_q_def Let_def split: result.splits if_splits)

lemma bootNode_Booted:
  assumes "bootNode V os W conf E snapErr genesis key eng = Some (Booted n client pid)"
  shows "\<exists>n0 r. newNode E (evG V) genesis (ncNetworkID (cfNode conf)) key = Ok n0 \<and>
    openNode V os E n0 (if ncDataDir (cfNode conf) = [] then None else Some (wdChainDB W (ncDataDir (cfNode conf)))) = Some (n, r)"
  using assms by (auto simp: bootNode_def split: result.splits option.splits prod.splits)

lemma booted_ok:
  assumes "bootNode V os W conf E snapErr genesis key eng = Some (Booted n client pid)" "opEpoch E \<noteq> 0"
    and "\<And>s. opNewGenesisSnapshot E genesis = Ok s \<Longrightarrow> opBlockHash E s = hdrHash (evG V) genesis"
  shows "node_ok (evG V) E (ncNetworkID (cfNode conf)) n"
proof -
  from bootNode_Booted [OF assms(1)] obtain n0 f r where n0: "newNode E (evG V) genesis (ncNetworkID (cfNode conf)) key = Ok n0"
    "openNode V os E n0 f = Some (n, r)" by blast
  from kept_D [OF ok.openNode_kept [OF node_ok_new [OF n0(1) assms(2,3)]] n0(2)] show ?thesis .
qed

lemma New_node_Ok:
  assumes "New_node V C os W conf = Ok a"
  shows "\<exists>eng genesis key client. configuredEngine conf = Ok eng \<and>
    a = (case eng of
           UseClique e \<Rightarrow> CliqueNode e (bootNode V os W conf (cliqueOps (evG V) e) BootCliqueSnapshot genesis key client)
         | UseQBFT e \<Rightarrow> QBFTNode e (bootNode V os W conf (qbftOps (evG V) C e) BootQBFTSnapshot genesis key client))"
proof -
  from assms obtain key jwt where "(if \<not> wdDial W (ecELRPCUrl (cfEngine conf)) then Err BootDial
     else case wdGenesis W (ecELRPCUrl (cfEngine conf)) of
       None \<Rightarrow> Err BootGenesis
     | Some genesis \<Rightarrow>
         rbind (configuredEngine conf) (\<lambda>eng.
           let client = New_client (ecURL (cfEngine conf)) jwt in
           case eng of
             UseClique e \<Rightarrow> Ok (CliqueNode e (bootNode V os W conf (cliqueOps (evG V) e) BootCliqueSnapshot genesis key client))
           | UseQBFT e \<Rightarrow> Ok (QBFTNode e (bootNode V os W conf (qbftOps (evG V) C e) BootQBFTSnapshot genesis key client)))) = Ok a"
    unfolding New_node_def rbind_Ok_iff by blast
  note body = this
  obtain genesis where g: "wdGenesis W (ecELRPCUrl (cfEngine conf)) = Some genesis"
    using body by (cases "wdGenesis W (ecELRPCUrl (cfEngine conf))") (auto split: if_splits)
  obtain eng where e: "configuredEngine conf = Ok eng"
    using body g by (cases "configuredEngine conf") (auto split: if_splits)
  show ?thesis using body g e by (cases eng) (auto simp: Let_def split: if_splits)
qed

lemma New_node_Clique:
  assumes "New_node V C os W conf = Ok (CliqueNode e b)"
  shows "\<exists>genesis key client. configuredEngine conf = Ok (UseClique e) \<and>
    bootNode V os W conf (cliqueOps (evG V) e) BootCliqueSnapshot genesis key client = b"
proof -
  from New_node_Ok [OF assms] obtain eng genesis key client where "configuredEngine conf = Ok eng"
    "CliqueNode e b = (case eng of
       UseClique e \<Rightarrow> CliqueNode e (bootNode V os W conf (cliqueOps (evG V) e) BootCliqueSnapshot genesis key client)
     | UseQBFT e \<Rightarrow> QBFTNode e (bootNode V os W conf (qbftOps (evG V) C e) BootQBFTSnapshot genesis key client))" by blast
  then show ?thesis by (cases eng) auto
qed

lemma New_node_QBFT:
  assumes "New_node V C os W conf = Ok (QBFTNode e b)"
  shows "\<exists>genesis key client. configuredEngine conf = Ok (UseQBFT e) \<and>
    bootNode V os W conf (qbftOps (evG V) C e) BootQBFTSnapshot genesis key client = b"
proof -
  from New_node_Ok [OF assms] obtain eng genesis key client where "configuredEngine conf = Ok eng"
    "QBFTNode e b = (case eng of
       UseClique e \<Rightarrow> CliqueNode e (bootNode V os W conf (cliqueOps (evG V) e) BootCliqueSnapshot genesis key client)
     | UseQBFT e \<Rightarrow> QBFTNode e (bootNode V os W conf (qbftOps (evG V) C e) BootQBFTSnapshot genesis key client))" by blast
  then show ?thesis by (cases eng) auto
qed

lemma runConfig_valid:
  assumes "runConfig W fl = Ok conf"
  shows "Validate conf = Ok ()"
proof -
  have "Validate DefaultConfig = Ok ()" by (simp add: Validate_def DefaultConfig_def Let_def)
  moreover have "Validate (c\<lparr>cfLogging := lg\<rparr>) = Validate c" for c lg by (simp add: Validate_def)
  moreover have "Validate c = Ok ()" if "Load W p = Ok c" for p c
    using that by (auto simp: Load_def split: file_result.splits option.splits result.splits)
  ultimately show ?thesis using assms by (auto simp: runConfig_def Let_def split: result.splits if_splits)
qed

lemma configured_epoch:
  assumes "Validate conf = Ok ()"
  shows "configuredEngine conf = Ok (UseClique e) \<Longrightarrow> clEpoch e \<noteq> 0" "configuredEngine conf = Ok (UseQBFT q) \<Longrightarrow> qbEpoch q \<noteq> 0"
    "\<exists>eng. configuredEngine conf = Ok eng"
  using assms by (auto simp: Validate_def configuredEngine_def Let_def New_def New_q_def split: if_splits)

text \<open>
  The steps of a running node. The environment (the answers of the execution client, the outcome of writes) may
  differ from step to step; hashing does not.
\<close>

inductive client_step :: "geth \<Rightarrow> ('s, 'e) EngineOps \<Rightarrow> 's Node \<Rightarrow> 's Node \<Rightarrow> bool" for G E where
  block: "evG V = G \<Longrightarrow> handleBlock V E n blk = Some (n', r) \<Longrightarrow> client_step G E n n'"
| sync: "evG V = G \<Longrightarrow> syncWithPeer V os E n asks = Some (n', r) \<Longrightarrow> client_step G E n n'"
| produce: "evG V = G \<Longrightarrow> produceBlock V E ck evs p = Some (p', r) \<Longrightarrow> client_step G E (pdNode p) (pdNode p')"

inductive qbft_step :: "geth \<Rightarrow> IstanbulExtra codec \<Rightarrow> QEngine \<Rightarrow> QSnapshot Node \<Rightarrow> QSnapshot Node \<Rightarrow> bool" for G C e where
  node: "client_step G (qbftOps G C e) n n' \<Longrightarrow> qbft_step G C e n n'"
| slot: "evG V = G \<Longrightarrow> qbftSlot V C K order e waits l evs = Some (l', r) \<Longrightarrow> qbft_step G C e (lpNode l) (lpNode l')"

context node_predicate
begin

lemma client_step_P:
  assumes "client_step G E n n'" "P n"
  shows "P n'"
  using assms(1)
proof cases
  case (block V blk r)
  then show ?thesis using kept_D [OF handleBlock_kept [OF assms(2)]] by blast
next
  case (sync V os asks r)
  then show ?thesis using kept_D [OF syncWithPeer_kept [OF assms(2)]] by blast
next
  case (produce V ck evs p p' r)
  then show ?thesis using produceBlock_kept [of p V ck evs] assms(2) by (simp add: keptP_def)
qed

lemma client_steps_P: "(client_step G E)\<^sup>*\<^sup>* n n' \<Longrightarrow> P n \<Longrightarrow> P n'"
  by (induction rule: rtranclp_induct) (auto dest: client_step_P)

end

lemma qbft_steps_ok:
  assumes "(qbft_step G C e)\<^sup>*\<^sup>* n n'" "node_ok G (qbftOps G C e) net n"
  shows "node_ok G (qbftOps G C e) net n'"
  using assms
proof (induction rule: rtranclp_induct)
  case (step n1 n2)
  from step.hyps(2) step.IH [OF step.prems] show ?case
  proof cases
    case node
    then show ?thesis using ok.client_step_P step.IH [OF step.prems] by blast
  next
    case (slot V K order waits l evs l' r)
    obtain r1 r2 where "r = (r1, r2)" by force
    with slot show ?thesis using okq.slot_P [of G C e V C e K order waits l evs l'] step.IH [OF step.prems] by auto
  qed
qed

lemma node_ok_consequences:
  assumes "node_ok G E net n"
  shows "length (nSignerAddr n) = 20 \<and> smNetworkID (nStatus n) = net \<and> smGenesisHash (nStatus n) = hdrHash G (nGenesisHeader n) \<and>
    (\<forall>s. \<exists>n'. setHeadSnapshot E n s = Some (n', Ok ()))"
proof -
  have "length (nSignerAddr n) = 20"
    using assms by (auto simp: node_ok_def zeroAddress_def split: option.splits)
  then show ?thesis using assms by (auto simp: node_ok_def setHeadSnapshot_def Let_def)
qed

definition typed :: "geth \<Rightarrow> ('s, 'e) EngineOps \<Rightarrow> u64 \<Rightarrow> 's Node \<Rightarrow> bool" where
  "typed G E net n \<longleftrightarrow> node_ok G E net n \<and> length (nSignerAddr n) = 20 \<and> (\<forall>s. \<exists>n'. setHeadSnapshot E n s = Some (n', Ok ()))"

lemma node_ok_typed: "node_ok G E net n \<Longrightarrow> typed G E net n"
  using node_ok_consequences unfolding typed_def by blast

lemma clique_node_typed:
  assumes "Validate conf = Ok ()" "New_node V C os W conf = Ok (CliqueNode e (Some (Booted n client pid)))"
    and "(client_step (evG V) (cliqueOps (evG V) e))\<^sup>*\<^sup>* n n'"
  shows "typed (evG V) (cliqueOps (evG V) e) (ncNetworkID (cfNode conf)) n'"
proof -
  obtain genesis key eng where cf: "configuredEngine conf = Ok (UseClique e)"
    "bootNode V os W conf (cliqueOps (evG V) e) BootCliqueSnapshot genesis key eng = Some (Booted n client pid)"
    using New_node_Clique [OF assms(2)] by metis
  have "node_ok (evG V) (cliqueOps (evG V) e) (ncNetworkID (cfNode conf)) n"
    by (rule booted_ok [OF cf(2)]) (use configured_epoch(1) [OF assms(1) cf(1)] in \<open>auto simp: cliqueOps_def intro: clique_genesis_hash\<close>)
  from node_ok_typed [OF ok.client_steps_P [OF assms(3) this]] show ?thesis .
qed

lemma qbft_node_typed:
  assumes "Validate conf = Ok ()" "New_node V C os W conf = Ok (QBFTNode e (Some (Booted n client pid)))"
    and "(qbft_step (evG V) C e)\<^sup>*\<^sup>* n n'"
  shows "typed (evG V) (qbftOps (evG V) C e) (ncNetworkID (cfNode conf)) n'"
proof -
  obtain genesis key eng where cf: "configuredEngine conf = Ok (UseQBFT e)"
    "bootNode V os W conf (qbftOps (evG V) C e) BootQBFTSnapshot genesis key eng = Some (Booted n client pid)"
    using New_node_QBFT [OF assms(2)] by metis
  have "node_ok (evG V) (qbftOps (evG V) C e) (ncNetworkID (cfNode conf)) n"
    by (rule booted_ok [OF cf(2)]) (use configured_epoch(2) [OF assms(1) cf(1)] in \<open>auto simp: qbftOps_def intro: qbft_genesis_hash\<close>)
  from node_ok_typed [OF qbft_steps_ok [OF assms(3) this]] show ?thesis .
qed

text \<open>
  C13. A started node is well-typed and stays so. From any command line whose configuration loads (or whose
  configuration file is missing), the node \<^verbatim>\<open>New\<close> builds, and every node reached from it by gossip blocks, sync sessions,
  block production and, with QBFT, slots of the protocol loop, in any order and with any answers of the
  execution client and the disk, has a nonzero epoch length (so \<^verbatim>\<open>setHeadSnapshot\<close> never divides by zero), a 20-byte
  signer address that is its key's or zero, the genesis snapshot of its genesis header, and announces to its peers
  the configured network and the hash of its genesis block.
\<close>

theorem config_node_stays_typed:
  assumes "runConfig W fl = Ok conf"
  shows "(\<forall>e n client pid n'. New_node V C os W conf = Ok (CliqueNode e (Some (Booted n client pid))) \<and>
       (client_step (evG V) (cliqueOps (evG V) e))\<^sup>*\<^sup>* n n' \<longrightarrow> typed (evG V) (cliqueOps (evG V) e) (ncNetworkID (cfNode conf)) n') \<and>
     (\<forall>e n client pid n'. New_node V C os W conf = Ok (QBFTNode e (Some (Booted n client pid))) \<and>
       (qbft_step (evG V) C e)\<^sup>*\<^sup>* n n' \<longrightarrow> typed (evG V) (qbftOps (evG V) C e) (ncNetworkID (cfNode conf)) n')"
  using clique_node_typed [OF runConfig_valid [OF assms]] qbft_node_typed [OF runConfig_valid [OF assms]] by blast

definition demoReadFile :: "string \<Rightarrow> file_result" where
  "demoReadFile p = (if p = ''./jwt.hex'' then FileData (hexBytes demoSecret) else FileNotExist)"

definition demoWorld :: World where
  "demoWorld = \<lparr>wdReadFile = demoReadFile, wdToml = \<lambda>_ _. None, wdHexToECDSA = \<lambda>_. None, wdDial = \<lambda>_. True,
     wdGenesis = \<lambda>_. Some ndGenesis, wdLibp2p = \<lambda>_. Some ''peer'', wdChainDB = \<lambda>_. []\<rparr>"

definition demoFlags :: Flags where "demoFlags = \<lparr>flConfig = ''config.toml'', flLogLevel = Some ''debug'', flLogFormat = None\<rparr>"

definition demoOs :: "os_call \<Rightarrow> bool" where "demoOs c = True"

definition demoBoot :: "(Engine \<times> Snapshot Node \<times> Client \<times> peerID) option" where
  "demoBoot =
     (case runConfig demoWorld demoFlags of
        Ok conf \<Rightarrow>
          (case New_node ndEnv demoIstanbul demoOs demoWorld conf of
             Ok (CliqueNode e (Some (Booted n client pid))) \<Rightarrow> Some (e, n, client, pid)
           | _ \<Rightarrow> None)
      | _ \<Rightarrow> None)"

theorem config_node_stays_typed_witness:
  "\<exists>conf e n client pid n' r. runConfig demoWorld demoFlags = Ok conf \<and>
     New_node ndEnv demoIstanbul demoOs demoWorld conf = Ok (CliqueNode e (Some (Booted n client pid))) \<and>
     handleBlock ndEnv (cliqueOps (evG ndEnv) e) n (ndWire ndBlock1) = Some (n', r) \<and>
     typed (evG ndEnv) (cliqueOps (evG ndEnv) e) (ncNetworkID (cfNode conf)) n'"
proof -
  have "map_option (\<lambda>(e, n, _, _). handleBlock ndEnv (cliqueOps (evG ndEnv) e) n (ndWire ndBlock1) \<noteq> None) demoBoot = Some True"
    by code_simp
  then obtain conf e n client pid n' r where run: "runConfig demoWorld demoFlags = Ok conf"
    "New_node ndEnv demoIstanbul demoOs demoWorld conf = Ok (CliqueNode e (Some (Booted n client pid)))"
    "handleBlock ndEnv (cliqueOps (evG ndEnv) e) n (ndWire ndBlock1) = Some (n', r)"
    by (auto simp: demoBoot_def split: result.splits AnyNode.splits option.splits booted.splits)
  then have "(client_step (evG ndEnv) (cliqueOps (evG ndEnv) e))\<^sup>*\<^sup>* n n'" by (intro r_into_rtranclp client_step.block) simp_all
  then show ?thesis using run config_node_stays_typed [OF run(1)] by blast
qed

end
