(* ===== verification/Json.thy ===== *)
theory Json
  imports Rpc
begin

text \<open>
  The part of \<^verbatim>\<open>encoding/json\<close> the program writes with: \<^verbatim>\<open>Marshal\<close> and \<^verbatim>\<open>Encoder.Encode\<close> for the responses of the HTTP server
  (\<^verbatim>\<open>rpc/server.go\<close>), \<^verbatim>\<open>MarshalIndent\<close> for the files of the set-up program (\<^verbatim>\<open>scripts/demo/init/main.go\<close>). Go strings are
  any bytes; the encoder replaces what is not UTF-8. A reference reader reads both forms back, which shows that the
  text determines the value up to these replacements whatever the strings in it contain.
\<close>

section \<open>Printing\<close>

text \<open>A Go map is printed with its keys in order, a nil slice as \<^verbatim>\<open>null\<close>; what HTML or JSON treat specially is escaped.\<close>

datatype json = JNull | JBool bool | JInt int | JString string | JArray "json list" | JObject "(string \<times> json) list"

definition newline :: string where "newline = [char_of (10 :: nat)]"

definition jsonChar :: "char \<Rightarrow> string" where
  "jsonChar c =
     (let k = of_char c :: nat; esc = (\<lambda>x. [CHR 0x5C, x]) in
      if k = 34 \<or> k = 92 then esc c
      else if k = 8 then esc (CHR ''b'')
      else if k = 9 then esc (CHR ''t'')
      else if k = 10 then esc (CHR ''n'')
      else if k = 12 then esc (CHR ''f'')
      else if k = 13 then esc (CHR ''r'')
      else if k < 32 \<or> c \<in> set ''<>&'' then esc (CHR ''u'') @ ''00'' @ hexBytes [word_of_nat k]
      else [c])"

text \<open>
  The length of the UTF-8 encoding at the front of a string as \<^verbatim>\<open>utf8.DecodeRuneInString\<close> finds it: 0 stands for an
  invalid byte, which Go reports as \<^verbatim>\<open>RuneError\<close> of width 1.
\<close>

definition within :: "nat \<Rightarrow> nat \<Rightarrow> char \<Rightarrow> bool" where
  "within lo hi c \<longleftrightarrow> lo \<le> of_char c \<and> of_char c \<le> hi"

definition runeLen :: "string \<Rightarrow> nat" where
  "runeLen t =
     (case t of
        [] \<Rightarrow> 0
      | c # cs \<Rightarrow>
          if within 0 127 c then 1
          else if within 194 223 c then (case cs of b # _ \<Rightarrow> if within 128 191 b then 2 else 0 | _ \<Rightarrow> 0)
          else if within 224 239 c then
            (case cs of
               b # b' # _ \<Rightarrow>
                 if within (if c = CHR 0xE0 then 160 else 128) (if c = CHR 0xED then 159 else 191) b \<and> within 128 191 b' then 3 else 0
             | _ \<Rightarrow> 0)
          else if within 240 244 c then
            (case cs of
               b # b' # b'' # _ \<Rightarrow>
                 if within (if c = CHR 0xF0 then 144 else 128) (if c = CHR 0xF4 then 143 else 191) b \<and> within 128 191 b' \<and> within 128 191 b''
                 then 4 else 0
             | _ \<Rightarrow> 0)
          else 0)"

text \<open>\<^verbatim>\<open>appendString\<close>: an invalid byte and the two line separators are written as escapes.\<close>

definition unicodeEscape :: "string \<Rightarrow> string" where
  "unicodeEscape ds = CHR 0x5C # CHR ''u'' # ds"

definition jsonRune :: "string \<Rightarrow> string" where
  "jsonRune u =
     (if u = [CHR 0xE2, CHR 0x80, CHR 0xA8] then unicodeEscape ''2028''
      else if u = [CHR 0xE2, CHR 0x80, CHR 0xA9] then unicodeEscape ''2029'' else u)"

fun escape :: "string \<Rightarrow> string" where
  "escape [] = []"
| "escape (c # cs) =
     (if within 0 127 c then jsonChar c @ escape cs
      else (case runeLen (c # cs) of
              0 \<Rightarrow> unicodeEscape ''fffd'' @ escape cs
            | Suc k \<Rightarrow> jsonRune (c # take k cs) @ escape (drop k cs)))"

definition quoted :: "string \<Rightarrow> string" where
  "quoted s = [CHR 0x22] @ escape s @ [CHR 0x22]"

fun compact :: "json \<Rightarrow> string"
  and compactItems :: "json list \<Rightarrow> string"
  and compactFields :: "(string \<times> json) list \<Rightarrow> string" where
  "compact JNull = ''null''"
| "compact (JBool b) = (if b then ''true'' else ''false'')"
| "compact (JInt n) = bigString (Some n)"
| "compact (JString s) = quoted s"
| "compact (JArray xs) = ''['' @ compactItems xs @ '']''"
| "compact (JObject kvs) = ''{'' @ compactFields kvs @ ''}''"
| "compactItems [] = []"
| "compactItems (x # xs) = compact x @ (if xs = [] then [] else '','' @ compactItems xs)"
| "compactFields [] = []"
| "compactFields ((k, v) # kvs) = quoted k @ '':'' @ compact v @ (if kvs = [] then [] else '','' @ compactFields kvs)"

text \<open>\<^verbatim>\<open>json.NewEncoder(w).Encode(v)\<close>\<close>

definition encodeJSON :: "json \<Rightarrow> string" where
  "encodeJSON v = compact v @ newline"

definition indentLine :: "nat \<Rightarrow> string" where
  "indentLine depth = newline @ concat (replicate depth ''  '')"

fun printJSON :: "nat \<Rightarrow> json \<Rightarrow> string"
  and printItems :: "nat \<Rightarrow> json list \<Rightarrow> string"
  and printFields :: "nat \<Rightarrow> (string \<times> json) list \<Rightarrow> string" where
  "printJSON d JNull = ''null''"
| "printJSON d (JBool b) = (if b then ''true'' else ''false'')"
| "printJSON d (JInt n) = bigString (Some n)"
| "printJSON d (JString s) = quoted s"
| "printJSON d (JArray xs) = (if xs = [] then ''[]'' else ''['' @ printItems (Suc d) xs @ indentLine d @ '']'')"
| "printJSON d (JObject kvs) = (if kvs = [] then ''{}'' else ''{'' @ printFields (Suc d) kvs @ indentLine d @ ''}'')"
| "printItems d [] = []"
| "printItems d (x # xs) = indentLine d @ printJSON d x @ (if xs = [] then [] else '','' @ printItems d xs)"
| "printFields d [] = []"
| "printFields d ((k, v) # kvs) = indentLine d @ quoted k @ '': '' @ printJSON d v @ (if kvs = [] then [] else '','' @ printFields d kvs)"

definition MarshalIndent :: "json \<Rightarrow> string" where
  "MarshalIndent v = printJSON 0 v"

section \<open>Reading\<close>

text \<open>
  Reference definitions: a reader of JSON without white space, and the removal of white space outside strings. They model
  no code of the program.
\<close>

definition nibble :: "char \<Rightarrow> nat" where
  "nibble c = (let k = of_char c in if k < 58 then k - 48 else k - 87)"

definition unescape :: "char \<Rightarrow> char option" where
  "unescape c =
     (if c = CHR 0x22 \<or> c = CHR 0x5C then Some c
      else if c = CHR ''b'' then Some (CHR 0x08) else if c = CHR ''t'' then Some (CHR 0x09) else if c = CHR ''n'' then Some (CHR 0x0A)
      else if c = CHR ''f'' then Some (CHR 0x0C) else if c = CHR ''r'' then Some (CHR 0x0D) else None)"

definition hexVal :: "char \<Rightarrow> char \<Rightarrow> char \<Rightarrow> char \<Rightarrow> nat" where
  "hexVal a b h l = ((nibble a * 16 + nibble b) * 16 + nibble h) * 16 + nibble l"

definition utf8 :: "nat \<Rightarrow> string" where
  "utf8 k =
     (if k < 128 then [char_of k]
      else if k < 2048 then [char_of (192 + k div 64), char_of (128 + k mod 64)]
      else [char_of (224 + k div 4096), char_of (128 + k div 64 mod 64), char_of (128 + k mod 64)])"

fun readChars :: "string \<Rightarrow> (string \<times> string) option" where
  "readChars [] = None"
| "readChars (c # cs) =
     (if c = CHR 0x22 then Some ([], cs)
      else if c = CHR 0x5C then
        (case cs of
           [] \<Rightarrow> None
         | e # ds \<Rightarrow>
             if e = CHR ''u'' then
               (case ds of
                  a # b # h # l # rest \<Rightarrow> map_option (\<lambda>(s, r). (utf8 (hexVal a b h l) @ s, r)) (readChars rest)
                | _ \<Rightarrow> None)
             else (case unescape e of None \<Rightarrow> None | Some x \<Rightarrow> map_option (\<lambda>(s, r). (x # s, r)) (readChars ds)))
      else map_option (\<lambda>(s, r). (c # s, r)) (readChars cs))"

definition isDigit :: "char \<Rightarrow> bool" where
  "isDigit c = (let k = of_char c :: nat in 48 \<le> k \<and> k \<le> 57)"

definition digitsVal :: "string \<Rightarrow> nat" where
  "digitsVal s = foldl (\<lambda>n c. 10 * n + (of_char c - 48)) 0 s"

definition readNat :: "string \<Rightarrow> (nat \<times> string) option" where
  "readNat t = (let ds = takeWhile isDigit t in if ds = [] then None else Some (digitsVal ds, dropWhile isDigit t))"

definition expect :: "string \<Rightarrow> string \<Rightarrow> string option" where
  "expect p t = (if take (length p) t = p then Some (drop (length p) t) else None)"

fun readVal :: "nat \<Rightarrow> string \<Rightarrow> (json \<times> string) option"
  and readItems :: "nat \<Rightarrow> string \<Rightarrow> (json list \<times> string) option"
  and readFields :: "nat \<Rightarrow> string \<Rightarrow> ((string \<times> json) list \<times> string) option" where
  "readVal 0 t = None"
| "readVal (Suc f) [] = None"
| "readVal (Suc f) (c # cs) =
     (if c = CHR ''n'' then map_option (\<lambda>r. (JNull, r)) (expect ''ull'' cs)
      else if c = CHR ''t'' then map_option (\<lambda>r. (JBool True, r)) (expect ''rue'' cs)
      else if c = CHR ''f'' then map_option (\<lambda>r. (JBool False, r)) (expect ''alse'' cs)
      else if c = CHR 0x22 then map_option (\<lambda>(s, r). (JString s, r)) (readChars cs)
      else if c = CHR ''['' then
        (case cs of
           d # r \<Rightarrow> if d = CHR '']'' then Some (JArray [], r) else map_option (\<lambda>(xs, r). (JArray xs, r)) (readItems f cs)
         | [] \<Rightarrow> None)
      else if c = CHR ''{'' then
        (case cs of
           d # r \<Rightarrow> if d = CHR ''}'' then Some (JObject [], r) else map_option (\<lambda>(xs, r). (JObject xs, r)) (readFields f cs)
         | [] \<Rightarrow> None)
      else if c = CHR ''-'' then map_option (\<lambda>(n, r). (JInt (- int n), r)) (readNat cs)
      else map_option (\<lambda>(n, r). (JInt (int n), r)) (readNat (c # cs)))"
| "readItems 0 t = None"
| "readItems (Suc f) t =
     Option.bind (readVal f t) (\<lambda>(x, r).
       case r of
         d # r' \<Rightarrow>
           if d = CHR '','' then map_option (\<lambda>(xs, r). (x # xs, r)) (readItems f r')
           else if d = CHR '']'' then Some ([x], r') else None
       | [] \<Rightarrow> None)"
| "readFields 0 t = None"
| "readFields (Suc f) t =
     Option.bind (expect [CHR 0x22] t) (\<lambda>t1.
     Option.bind (readChars t1) (\<lambda>(k, t2).
     Option.bind (expect '':'' t2) (\<lambda>t3.
     Option.bind (readVal f t3) (\<lambda>(v, r).
       case r of
         d # r' \<Rightarrow>
           if d = CHR '','' then map_option (\<lambda>(xs, r). ((k, v) # xs, r)) (readFields f r')
           else if d = CHR ''}'' then Some ([(k, v)], r') else None
       | [] \<Rightarrow> None))))"

definition readJSON :: "string \<Rightarrow> (json \<times> string) option" where
  "readJSON t = readVal (Suc (length t)) t"

fun strip :: "string \<Rightarrow> string"
  and stripString :: "string \<Rightarrow> string" where
  "strip [] = []"
| "strip (c # cs) =
     (if c = CHR 0x22 then c # stripString cs else if c = CHR '' '' \<or> c = CHR 0x0A then strip cs else c # strip cs)"
| "stripString [] = []"
| "stripString (c # cs) =
     (if c = CHR 0x22 then c # strip cs
      else if c = CHR 0x5C then (case cs of [] \<Rightarrow> [c] | d # ds \<Rightarrow> c # d # stripString ds)
      else c # stripString cs)"

definition readText :: "string \<Rightarrow> (json \<times> string) option" where
  "readText t = readJSON (strip t)"

text \<open>What a string denotes after its invalid bytes have been replaced by U+FFFD.\<close>

fun cleaned :: "string \<Rightarrow> string" where
  "cleaned [] = []"
| "cleaned (c # cs) =
     (if within 0 127 c then c # cleaned cs
      else (case runeLen (c # cs) of
              0 \<Rightarrow> [CHR 0xEF, CHR 0xBF, CHR 0xBD] @ cleaned cs
            | Suc k \<Rightarrow> (c # take k cs) @ cleaned (drop k cs)))"

fun cleanJSON :: "json \<Rightarrow> json" where
  "cleanJSON (JString s) = JString (cleaned s)"
| "cleanJSON (JArray xs) = JArray (map cleanJSON xs)"
| "cleanJSON (JObject kvs) = JObject (map (\<lambda>(k, v). (cleaned k, cleanJSON v)) kvs)"
| "cleanJSON v = v"

abbreviation cleanField :: "string \<times> json \<Rightarrow> string \<times> json" where
  "cleanField \<equiv> (\<lambda>(k, v). (cleaned k, cleanJSON v))"

section \<open>Reading back what was printed\<close>

lemma nibble_hexDigit: "d < 16 \<Longrightarrow> nibble (hexDigit d) = d"
  by (auto simp: nibble_def hexDigit_def Let_def)

lemma of_char_less: "(of_char c :: nat) < 256"
  using of_char_of [where ?'a = nat, of "of_char c"] by (metis char_of_char mod_less_divisor of_char_of zero_less_numeral)

lemma readChars_jsonChar: "within 0 127 c \<Longrightarrow> readChars (jsonChar c @ t) = map_option (\<lambda>(s, r). (c # s, r)) (readChars t)"
proof -
  let ?k = "of_char c :: nat"
  assume "within 0 127 c"
  then have k: "?k < 128" by (simp add: within_def)
  consider (esc) "?k \<in> {34, 92, 8, 9, 10, 12, 13}" | (hex) "?k \<notin> {34, 92, 8, 9, 10, 12, 13}" "?k < 32 \<or> c \<in> set ''<>&''"
    | (plain) "?k \<notin> {34, 92, 8, 9, 10, 12, 13}" "\<not> (?k < 32 \<or> c \<in> set ''<>&'')" by blast
  then show ?thesis
  proof cases
    case esc
    then have "?k \<in> of_char ` {CHR 0x22, CHR 0x5C, CHR 0x08, CHR 0x09, CHR 0x0A, CHR 0x0C, CHR 0x0D}" by simp
    then obtain d where d: "d \<in> {CHR 0x22, CHR 0x5C, CHR 0x08, CHR 0x09, CHR 0x0A, CHR 0x0C, CHR 0x0D}" "?k = of_char d" by blast
    then have "c \<in> {CHR 0x22, CHR 0x5C, CHR 0x08, CHR 0x09, CHR 0x0A, CHR 0x0C, CHR 0x0D}" by (simp only: of_char_eq_iff)
    then show ?thesis by (elim insertE emptyE) (simp_all add: jsonChar_def unescape_def)
  next
    case hex
    have b: "unat (word_of_nat ?k :: byte) = ?k" using k by (simp add: unat_of_nat)
    have j: "jsonChar c = [CHR 0x5C, CHR ''u'', CHR ''0'', CHR ''0'', hexDigit (?k div 16), hexDigit (?k mod 16)]"
      using hex by (simp add: jsonChar_def Let_def hexBytes_def b)
    have "?k div 16 < 16" using k by linarith
    then have "nibble (hexDigit (?k div 16)) = ?k div 16" "nibble (hexDigit (?k mod 16)) = ?k mod 16" "nibble (CHR ''0'') = 0"
      by (simp_all add: nibble_hexDigit) (simp add: nibble_def)
    then have "hexVal (CHR ''0'') (CHR ''0'') (hexDigit (?k div 16)) (hexDigit (?k mod 16)) = ?k"
      by (simp only: hexVal_def mult_0 add_0 div_mult_mod_eq)
    then show ?thesis using k unfolding j by (simp add: utf8_def)
  next
    case plain
    then have j: "jsonChar c = [c]" by (simp add: jsonChar_def Let_def)
    have "c \<noteq> CHR 0x22" "c \<noteq> CHR 0x5C" using plain(1) by auto
    then show ?thesis unfolding j by simp
  qed
qed

lemma runeLen_high:
  assumes "runeLen (c # cs) = Suc k" and "\<not> within 0 127 c"
  shows "k \<le> length cs" and "\<forall>d \<in> set (c # take k cs). \<not> within 0 127 d"
proof -
  have "k \<le> length cs \<and> (\<forall>d \<in> set (take k cs). \<not> within 0 127 d)"
    using assms by (auto simp: runeLen_def within_def split: list.splits if_splits)
  then show "k \<le> length cs" "\<forall>d \<in> set (c # take k cs). \<not> within 0 127 d" using assms(2) by auto
qed

lemma readChars_high: "\<forall>d \<in> set u. \<not> within 0 127 d \<Longrightarrow> readChars (u @ t) = map_option (\<lambda>(s, r). (u @ s, r)) (readChars t)"
proof (induction u)
  case Nil
  show ?case by (cases "readChars t") auto
next
  case (Cons d u)
  then have "d \<noteq> CHR 0x22" "d \<noteq> CHR 0x5C" by (auto simp: within_def)
  then show ?case using Cons by (cases "readChars t") auto
qed

lemma utf8_escapes:
  "utf8 (hexVal (CHR ''f'') (CHR ''f'') (CHR ''f'') (CHR ''d'')) = [CHR 0xEF, CHR 0xBF, CHR 0xBD]"
  "utf8 (hexVal (CHR ''2'') (CHR ''0'') (CHR ''2'') (CHR ''8'')) = [CHR 0xE2, CHR 0x80, CHR 0xA8]"
  "utf8 (hexVal (CHR ''2'') (CHR ''0'') (CHR ''2'') (CHR ''9'')) = [CHR 0xE2, CHR 0x80, CHR 0xA9]"
proof -
  have c: "char_of (239 :: nat) = CHR 0xEF" "char_of (191 :: nat) = CHR 0xBF" "char_of (189 :: nat) = CHR 0xBD"
    "char_of (226 :: nat) = CHR 0xE2" "char_of (128 :: nat) = CHR 0x80" "char_of (168 :: nat) = CHR 0xA8" "char_of (169 :: nat) = CHR 0xA9"
    by code_simp+
  show "utf8 (hexVal (CHR ''f'') (CHR ''f'') (CHR ''f'') (CHR ''d'')) = [CHR 0xEF, CHR 0xBF, CHR 0xBD]"
    "utf8 (hexVal (CHR ''2'') (CHR ''0'') (CHR ''2'') (CHR ''8'')) = [CHR 0xE2, CHR 0x80, CHR 0xA8]"
    "utf8 (hexVal (CHR ''2'') (CHR ''0'') (CHR ''2'') (CHR ''9'')) = [CHR 0xE2, CHR 0x80, CHR 0xA9]"
    by (simp_all add: hexVal_def nibble_def utf8_def c)
qed

lemma readChars_jsonRune:
  "\<forall>d \<in> set u. \<not> within 0 127 d \<Longrightarrow> readChars (jsonRune u @ t) = map_option (\<lambda>(s, r). (u @ s, r)) (readChars t)"
  using readChars_high [of u t]
  by (simp add: jsonRune_def unicodeEscape_def utf8_escapes)

lemma readChars_quoted: "readChars (escape s @ CHR 0x22 # t) = Some (cleaned s, t)"
proof (induction s rule: escape.induct)
  case 1
  show ?case by simp
next
  case (2 c cs)
  show ?case
  proof (cases "within 0 127 c")
    case True
    then show ?thesis using 2(1) by (simp add: readChars_jsonChar)
  next
    case high: False
    show ?thesis
    proof (cases "runeLen (c # cs)")
      case 0
      then show ?thesis using 2(2) high by (simp add: unicodeEscape_def utf8_escapes)
    next
      case (Suc k)
      then show ?thesis using 2(3) [OF high Suc] high readChars_jsonRune [OF runeLen_high(2) [OF Suc high]] by simp
    qed
  qed
qed

lemma digits_decimal: "c \<in> set (decimal n) \<Longrightarrow> isDigit c"
proof (induction n rule: decimal.induct)
  case (1 n)
  have d: "isDigit (digitChar k)" if "k < 10" for k using that by (simp add: isDigit_def)
  show ?case
  proof (cases "n < 10")
    case True
    then show ?thesis using 1(2) d by (subst (asm) decimal.simps) simp
  next
    case False
    then show ?thesis using 1 d [of "n mod 10"] by (subst (asm) (2) decimal.simps) auto
  qed
qed

lemma digitsVal_snoc: "digitsVal (s @ [c]) = 10 * digitsVal s + (of_char c - 48)"
  by (simp add: digitsVal_def)

lemma digitsVal_decimal: "digitsVal (decimal n) = n"
proof (induction n rule: decimal.induct)
  case (1 n)
  show ?case
  proof (cases "n < 10")
    case True
    then show ?thesis by (subst decimal.simps) (simp add: digitsVal_def)
  next
    case False
    then show ?thesis using 1 by (subst decimal.simps) (simp add: digitsVal_snoc)
  qed
qed

text \<open>Text that does not go on with a digit.\<close>

definition stops :: "string \<Rightarrow> bool" where
  "stops t \<longleftrightarrow> (t = [] \<or> \<not> isDigit (hd t))"

lemma readNat_decimal:
  assumes "stops t"
  shows "readNat (decimal n @ t) = Some (n, t)"
proof -
  have "takeWhile isDigit (decimal n @ t) = decimal n \<and> dropWhile isDigit (decimal n @ t) = t"
    using assms digits_decimal [of _ n] by (cases t) (auto simp: stops_def takeWhile_append2 dropWhile_append2)
  then show ?thesis by (simp add: readNat_def digitsVal_decimal)
qed

lemma decimal_Cons:
  obtains c cs where "decimal n = c # cs" and "isDigit c"
  using decimal_nonempty [of n] digits_decimal [of _ n] by (cases "decimal n") auto

lemma compact_first:
  obtains c cs where "compact v = c # cs" and "c \<noteq> CHR '']''" and "c \<noteq> CHR ''}''"
proof (cases v)
  case (JBool b)
  then show ?thesis using that by (cases b) simp_all
next
  case (JInt n)
  obtain c cs where "decimal (nat \<bar>n\<bar>) = c # cs" "isDigit c" by (rule decimal_Cons)
  moreover from this(2) have "c \<noteq> CHR '']''" "c \<noteq> CHR ''}''" by (auto simp: isDigit_def)
  ultimately show ?thesis using that JInt by (cases "n < 0") (auto simp: bigString_def)
qed (use that in \<open>auto simp: quoted_def split: if_split_asm\<close>)

lemma readVal_digit:
  assumes "isDigit c"
  shows "readVal (Suc f) (c # cs) = map_option (\<lambda>(n, r). (JInt (int n), r)) (readNat (c # cs))"
proof -
  have "c \<notin> {CHR ''n'', CHR ''t'', CHR ''f'', CHR 0x22, CHR ''['', CHR ''{'', CHR ''-''}" using assms by (auto simp: isDigit_def)
  then show ?thesis by simp
qed

lemma read_back_int:
  assumes "stops t"
  shows "readVal (Suc f) (compact (JInt n) @ t) = Some (JInt n, t)"
proof (cases "n < 0")
  case True
  then show ?thesis using readNat_decimal [OF assms, of "nat (- n)"] by (simp add: bigString_def)
next
  case False
  obtain c cs where c: "decimal (nat \<bar>n\<bar>) = c # cs" "isDigit c" by (rule decimal_Cons)
  then show ?thesis using False readNat_decimal [OF assms, of "nat \<bar>n\<bar>"] readVal_digit [OF c(2), of f "cs @ t"]
    by (simp add: bigString_def)
qed

lemma read_back:
  "length (compact v) < f \<Longrightarrow> stops t \<Longrightarrow> readVal f (compact v @ t) = Some (cleanJSON v, t)"
  "Suc (length (compactItems xs)) < f \<Longrightarrow> xs \<noteq> [] \<Longrightarrow> readItems f (compactItems xs @ CHR '']'' # t) = Some (map cleanJSON xs, t)"
  "Suc (length (compactFields kvs)) < f \<Longrightarrow> kvs \<noteq> [] \<Longrightarrow> readFields f (compactFields kvs @ CHR ''}'' # t) = Some (map cleanField kvs, t)"
proof (induction v and xs and kvs arbitrary: f t and f t and f t rule: compact_compactItems_compactFields.induct)
  case 1
  then show ?case by (cases f) (simp_all add: expect_def)
next
  case (2 b)
  then show ?case by (cases f) (simp_all add: expect_def)
next
  case (3 n)
  then show ?case using read_back_int by (cases f) simp_all
next
  case (4 s)
  then show ?case using readChars_quoted [of s t] by (cases f) (simp_all add: quoted_def)
next
  case (5 xs)
  then obtain g where f: "f = Suc g" by (cases f) auto
  show ?case
  proof (cases xs)
    case Nil
    then show ?thesis by (simp add: f)
  next
    case (Cons y ys)
    obtain c cs where c: "compact y = c # cs" "c \<noteq> CHR '']''" by (rule compact_first)
    have "readItems g (compactItems xs @ CHR '']'' # t) = Some (map cleanJSON xs, t)" using 5 Cons by (simp add: f)
    then show ?thesis using c by (simp add: f Cons)
  qed
next
  case (6 kvs)
  then obtain g where f: "f = Suc g" by (cases f) auto
  show ?case
  proof (cases kvs)
    case Nil
    then show ?thesis by (simp add: f)
  next
    case (Cons kv r)
    obtain k v where kv: "kv = (k, v)" by (cases kv)
    have "readFields g (compactFields kvs @ CHR ''}'' # t) = Some (map cleanField kvs, t)" using 6 Cons by (simp add: f)
    then show ?thesis by (simp add: f Cons kv quoted_def)
  qed
next
  case 7
  then show ?case by simp
next
  case (8 x xs)
  then obtain g where f: "f = Suc g" by (cases f) auto
  have v: "readVal g (compact x @ r) = Some (cleanJSON x, r)" if "stops r" for r using 8(1) [of g r] 8(3) that by (simp add: f)
  show ?case
  proof (cases "xs = []")
    case True
    then show ?thesis using v [of "CHR '']'' # t"] by (simp add: f stops_def isDigit_def)
  next
    case False
    have "readItems g (compactItems xs @ CHR '']'' # t) = Some (map cleanJSON xs, t)" using 8(2) [of g t] 8(3) False by (simp add: f)
    then show ?thesis using False v [of "CHR '','' # compactItems xs @ CHR '']'' # t"] by (simp add: f stops_def isDigit_def)
  qed
next
  case 9
  then show ?case by simp
next
  case (10 k v kvs)
  then obtain g where f: "f = Suc g" by (cases f) auto
  have q: "expect [CHR 0x22] (quoted k @ r) = Some (escape k @ CHR 0x22 # r)" for r by (simp add: quoted_def expect_def)
  have vv: "readVal g (compact v @ r) = Some (cleanJSON v, r)" if "stops r" for r using 10(1) [of g r] 10(3) that by (simp add: f)
  show ?case
  proof (cases "kvs = []")
    case True
    then show ?thesis using vv [of "CHR ''}'' # t"] q [of "'':'' @ compact v @ CHR ''}'' # t"]
      by (simp add: f stops_def isDigit_def readChars_quoted expect_def [of "'':''"])
  next
    case False
    have "readFields g (compactFields kvs @ CHR ''}'' # t) = Some (map cleanField kvs, t)" using 10(2) [of g t] 10(3) False by (simp add: f)
    then show ?thesis using False vv [of "CHR '','' # compactFields kvs @ CHR ''}'' # t"] q [of "'':'' @ compact v @ CHR '','' # compactFields kvs @ CHR ''}'' # t"]
      by (simp add: f stops_def isDigit_def readChars_quoted expect_def [of "'':''"])
  qed
qed

lemma readJSON_encode: "readJSON (encodeJSON v) = Some (cleanJSON v, newline)"
  using read_back(1) [of v "Suc (length (encodeJSON v))" newline]
  by (simp add: readJSON_def encodeJSON_def stops_def newline_def isDigit_def)

lemma readJSON_compact: "readJSON (compact v) = Some (cleanJSON v, [])"
  using read_back(1) [of v "Suc (length (compact v))" "[]"] by (simp add: readJSON_def stops_def)

section \<open>Values without replacements\<close>

definition ascii :: "string \<Rightarrow> bool" where
  "ascii s \<longleftrightarrow> list_all (within 0 127) s"

lemma ascii_simps [simp]: "ascii []" "ascii (c # s) \<longleftrightarrow> within 0 127 c \<and> ascii s" "ascii (s @ t) \<longleftrightarrow> ascii s \<and> ascii t"
  by (simp_all add: ascii_def)

lemma cleaned_ascii: "ascii s \<Longrightarrow> cleaned s = s"
  by (induction s) simp_all

fun asciiJSON :: "json \<Rightarrow> bool" where
  "asciiJSON (JString s) = ascii s"
| "asciiJSON (JArray xs) = list_all asciiJSON xs"
| "asciiJSON (JObject kvs) = list_all (\<lambda>(k, v). ascii k \<and> asciiJSON v) kvs"
| "asciiJSON v = True"

lemma cleanJSON_ascii: "asciiJSON v \<Longrightarrow> cleanJSON v = v"
proof (induction v rule: asciiJSON.induct)
  case (2 xs)
  then show ?case by (auto simp: list_all_iff intro: map_idI)
next
  case (3 kvs)
  then show ?case by (auto simp: list_all_iff cleaned_ascii intro!: map_idI)
qed (simp_all add: cleaned_ascii)

lemma ascii_decimal: "ascii (decimal n)"
  using digits_decimal [of _ n] by (fastforce simp: ascii_def list_all_iff within_def isDigit_def Let_def)

lemma ascii_bigString: "ascii (bigString n)"
  by (auto simp: bigString_def ascii_decimal within_def split: option.split)

lemma hexDigit_plain: "d < 16 \<Longrightarrow> within 0 127 (hexDigit d) \<and> hexDigit d \<noteq> CHR 0x22 \<and> hexDigit d \<noteq> CHR 0x5C"
proof -
  have "list_all (\<lambda>d. within 0 127 (hexDigit d) \<and> hexDigit d \<noteq> CHR 0x22 \<and> hexDigit d \<noteq> CHR 0x5C) [0..<16]" by code_simp
  then show "d < 16 \<Longrightarrow> within 0 127 (hexDigit d) \<and> hexDigit d \<noteq> CHR 0x22 \<and> hexDigit d \<noteq> CHR 0x5C" by (simp add: list_all_iff)
qed

lemma byte_nibbles: "unat (b :: byte) div 16 < 16" "unat (b :: byte) mod 16 < 16"
  using unsigned_less [of b, where 'a = nat] by simp_all

lemma ascii_hexBytes: "ascii (hexBytes bs)"
  by (induction bs) (simp_all add: hexBytes_def hexDigit_plain byte_nibbles)

section \<open>The indented form\<close>

lemma stripString_jsonChar: "stripString (jsonChar c @ r) = jsonChar c @ stripString r"
proof -
  let ?b = "word_of_nat (of_char c) :: byte"
  have x: "stripString (hexBytes [?b] @ r) = hexBytes [?b] @ stripString r"
    using hexDigit_plain [OF byte_nibbles(1) [of ?b]] hexDigit_plain [OF byte_nibbles(2) [of ?b]] by (simp add: hexBytes_def)
  consider (e) d where "jsonChar c = [CHR 0x5C, d]" | (u) "jsonChar c = CHR 0x5C # CHR ''u'' # CHR ''0'' # CHR ''0'' # hexBytes [?b]"
    | (p) "jsonChar c = [c]" "(of_char c :: nat) \<notin> {34, 92}"
    by (cases "(of_char c :: nat) \<in> {34, 92, 8, 9, 10, 12, 13}"; cases "(of_char c :: nat) < 32 \<or> c \<in> set ''<>&''")
      (auto simp: jsonChar_def Let_def split: if_split_asm)
  then show ?thesis
  proof cases
    case p
    then have "c \<noteq> CHR 0x22" "c \<noteq> CHR 0x5C" by auto
    then show ?thesis using p(1) by simp
  qed (use x in simp_all)
qed

lemma stripString_escape: "stripString (escape s @ t) = escape s @ stripString t"
proof (induction s rule: escape.induct)
  case 1
  show ?case by simp
next
  case (2 c cs)
  have j: "stripString (jsonChar c @ r) = jsonChar c @ stripString r" for r by (rule stripString_jsonChar)
  have h: "stripString (u @ r) = u @ stripString r" if "\<forall>d \<in> set u. \<not> within 0 127 d" for u r
    using that by (induction u) (auto simp: within_def)
  then have ru: "stripString (jsonRune u @ r) = jsonRune u @ stripString r" if "\<forall>d \<in> set u. \<not> within 0 127 d" for u r
    using that by (simp add: jsonRune_def unicodeEscape_def)
  show ?case
  proof (cases "within 0 127 c")
    case True
    then show ?thesis using 2(1) by (simp add: j)
  next
    case high: False
    show ?thesis
    proof (cases "runeLen (c # cs)")
      case 0
      then show ?thesis using 2(2) high by (simp add: unicodeEscape_def)
    next
      case (Suc k)
      then show ?thesis using 2(3) [OF high Suc] high ru [OF runeLen_high(2) [OF Suc high]] by simp
    qed
  qed
qed

lemma strip_quoted: "strip (quoted s @ t) = quoted s @ strip t"
  by (simp add: quoted_def stripString_escape)

lemma newline_char: "newline = [CHR 0x0A]"
  by code_simp

lemma strip_indentLine: "strip (indentLine d @ t) = strip t"
proof -
  have "strip (concat (replicate d ''  '') @ t) = strip t" for d by (induction d) simp_all
  then show ?thesis by (simp add: indentLine_def newline_char)
qed

lemma strip_number: "strip (bigString (Some n) @ t) = bigString (Some n) @ strip t"
proof -
  have d: "strip (ds @ t) = ds @ strip t" if "\<forall>c \<in> set ds. isDigit c" for ds
    using that by (induction ds) (auto simp: isDigit_def)
  then have "strip (decimal m @ t) = decimal m @ strip t" for m using digits_decimal by blast
  then show ?thesis by (simp add: bigString_def)
qed

lemma strip_print:
  "strip (printJSON d v @ t) = compact v @ strip t"
  "strip (printItems d xs @ t) = compactItems xs @ strip t"
  "strip (printFields d kvs @ t) = compactFields kvs @ strip t"
  by (induction d v and d xs and d kvs arbitrary: t and t and t rule: printJSON_printItems_printFields.induct)
     (simp_all add: strip_number strip_quoted strip_indentLine)

lemma readText_indent: "readText (MarshalIndent v @ newline) = Some (cleanJSON v, [])"
  by (simp add: readText_def MarshalIndent_def strip_print newline_char readJSON_compact)

end
