(* ===== verification/Setup.thy ===== *)
theory Setup
  imports Engine_Properties Json
begin

text \<open>
  The program that sets up the demonstration network: \<^verbatim>\<open>scripts/demo/init/main.go\<close>. The generated keys and secrets are
  arguments (three signer keys, four node keys, four secrets); the scalar encoding of a key is a parameter. The result is the list of files in the order they are written, up to the first
  write that fails; a failing random source is not modelled.
\<close>

section \<open>JSON values\<close>

text \<open>A Go map is printed with its keys in order, a nil slice as \<^verbatim>\<open>null\<close>; printing is in theory \<open>Json\<close>.\<close>

definition goMap :: "(string \<times> json) list \<Rightarrow> json" where
  "goMap kvs = JObject (sort_key fst kvs)"

definition goSlice :: "string list \<Rightarrow> json" where
  "goSlice xs = (if xs = [] then JNull else JArray (map JString xs))"

section \<open>Pieces\<close>

definition fileNumber :: "string \<Rightarrow> nat \<Rightarrow> string \<Rightarrow> string" where
  "fileNumber pre i post = pre @ decimal i @ post"

record setupLib =
  slFromECDSA :: "privkey \<Rightarrow> bytes"

definition enodeURL :: "geth \<Rightarrow> nat \<Rightarrow> privkey \<Rightarrow> string" where
  "enodeURL G i k = ''enode://'' @ hexBytes (drop 1 (Pubkey G k)) @ ''@geth-'' @ decimal (i + 1) @ '':30303''"

text \<open>The peers of node \<open>i\<close>: all enodes but its own.\<close>

definition staticPeers :: "string list \<Rightarrow> nat \<Rightarrow> string list" where
  "staticPeers enodes i = map snd (filter (\<lambda>(j, e). j \<noteq> i) (enumerate 0 enodes))"

text \<open>The extra data of the genesis block: vanity, the sorted lower-case addresses, an empty seal.\<close>

definition lowerAddr :: "string \<Rightarrow> string" where
  "lowerAddr a = map lowerChar (drop 2 a)"

definition genesisExtra :: "string list \<Rightarrow> string" where
  "genesisExtra signerAddrs =
     ''0x'' @ concat (replicate 32 ''00'') @ concat (sort (map lowerAddr signerAddrs)) @ concat (replicate 65 ''00'')"

text \<open>The genesis document: chain configuration, header fields and the funded addresses (a map, so each once).\<close>

definition genesisConfig :: json where
  "genesisConfig = goMap
     ([(''chainId'', JInt 12345)] @
      map (\<lambda>k. (k, JInt 0))
        [''homesteadBlock'', ''eip150Block'', ''eip155Block'', ''eip158Block'', ''byzantiumBlock'', ''constantinopleBlock'',
         ''petersburgBlock'', ''istanbulBlock'', ''muirGlacierBlock'', ''berlinBlock'', ''londonBlock'', ''arrowGlacierBlock'',
         ''grayGlacierBlock'', ''mergeNetsplitBlock'', ''shanghaiTime'', ''cancunTime'', ''terminalTotalDifficulty''] @
      [(''terminalTotalDifficultyPassed'', JBool True),
       (''blobSchedule'', goMap [(''cancun'', goMap [(''target'', JInt 3), (''max'', JInt 6), (''baseFeeUpdateFraction'', JInt 3338477)])]),
       (''clique'', goMap [(''period'', JInt 5), (''epoch'', JInt 30000)])])"

definition genesisAlloc :: "string list \<Rightarrow> json" where
  "genesisAlloc signerAddrs = goMap (map (\<lambda>a. (a, goMap [(''balance'', JString ''10000000000000000000000'')])) (remdups signerAddrs))"

definition genesisDoc :: "string list \<Rightarrow> json" where
  "genesisDoc signerAddrs = goMap
     [(''config'', genesisConfig), (''nonce'', JString ''0x0''), (''timestamp'', JString ''0x0''),
      (''extraData'', JString (genesisExtra signerAddrs)), (''gasLimit'', JString ''0x1C9C380''), (''difficulty'', JString ''0x1''),
      (''mixHash'', JString (''0x'' @ replicate 64 (CHR ''0''))), (''coinbase'', JString (''0x'' @ replicate 40 (CHR ''0''))),
      (''alloc'', genesisAlloc signerAddrs)]"

definition emDash :: string where "emDash = map char_of [0xE2, 0x80, 0x94 :: nat]"

definition signerLine :: "nat \<Rightarrow> string" where
  \<open>signerLine i =
     (if i < 3 then ''signer_key_path = "/generated/signer-'' @ decimal (i + 1) @ ''.hex"''
      else ''# no signer_key_path '' @ emDash @ '' running in follower / observer mode'')\<close>

definition configText :: "nat \<Rightarrow> string" where
  \<open>configText i =
     (let num = decimal (i + 1) in
      concat (map (\<lambda>l. l @ newline)
        [''[node]'', ''network_id = 12345'', ''data_dir   = "/data/cl"'', [],
         ''[engine]'', ''url            = "http://geth-'' @ num @ '':8551"'',
         ''jwt_secret_path = "/generated/jwt-'' @ num @ ''.hex"'',
         ''el_rpc_url     = "http://geth-'' @ num @ '':8545"'',
         ''dial_timeout   = "30s"'', ''call_timeout   = "10s"'', [],
         ''[p2p]'', ''listen_addr  = "/ip4/0.0.0.0/tcp/9000"'', ''boot_nodes   = []'', ''max_peers    = 50'', ''enable_mdns  = true'', [],
         ''[rpc]'', ''listen_addr   = "0.0.0.0:5052"'', ''read_timeout  = "10s"'', ''write_timeout = "10s"'', [],
         ''[clique]'', signerLine i, ''period = 5'', ''epoch  = 30000'', [],
         ''[logging]'', ''level  = "debug"'', ''format = "json"'']))\<close>

definition infoText :: "string list \<Rightarrow> string list \<Rightarrow> string" where
  "infoText signerAddrs enodes =
     ''# Demo network '' @ emDash @ '' generated keys'' @ newline @
     ''# DO NOT use these keys on any real network.'' @ newline @ newline @
     ''## Signer addresses (funded with 10 000 ETH each)'' @ newline @ newline @
     concat (map (\<lambda>(i, a). ''  Node '' @ decimal (i + 1) @ '': '' @ a @ newline) (enumerate 0 signerAddrs)) @
     newline @ ''## Geth devp2p enode URLs'' @ newline @ newline @
     concat (map (\<lambda>(i, e). ''  geth-'' @ decimal (i + 1) @ '': '' @ e @ newline) (enumerate 0 enodes)) @
     newline @ ''## Chain'' @ newline @ newline @
     ''  chainId  : 12345'' @ newline @ ''  period   : 5 s'' @ newline @ ''  epoch    : 30000 blocks'' @ newline"

section \<open>The files\<close>

definition setupFiles :: "geth \<Rightarrow> setupLib \<Rightarrow> privkey list \<Rightarrow> privkey list \<Rightarrow> bytes list \<Rightarrow> (string \<times> string) list" where
  "setupFiles G L signerKeys nodeKeys secrets =
     (let signerAddrs = map (\<lambda>k. addrHex G (key_address G k)) signerKeys;
          enodes = map (\<lambda>(i, k). enodeURL G i k) (enumerate 0 nodeKeys)
      in map (\<lambda>(i, k). (fileNumber ''signer-'' (i + 1) ''.hex'', hexBytes (slFromECDSA L k) @ newline)) (enumerate 0 signerKeys) @
         map (\<lambda>(i, k). (fileNumber ''geth-'' (i + 1) ''/nodekey'', hexBytes (slFromECDSA L k))) (enumerate 0 nodeKeys) @
         map (\<lambda>i. (fileNumber ''geth-'' (i + 1) ''/static-nodes.json'', MarshalIndent (goSlice (staticPeers enodes i)) @ newline)) [0..<4] @
         map (\<lambda>(i, s). (fileNumber ''jwt-'' (i + 1) ''.hex'', hexBytes s @ newline)) (enumerate 0 secrets) @
         [(''genesis.json'', MarshalIndent (genesisDoc signerAddrs) @ newline)] @
         map (\<lambda>i. (fileNumber ''config/clique-'' (i + 1) ''.toml'', configText i)) [0..<4] @
         [(''info.txt'', infoText signerAddrs enodes)])"

text \<open>\<^verbatim>\<open>run\<close>: the directories, then the files; what was written, and whether all of it was.\<close>

fun writeFiles :: "(string \<Rightarrow> bool) \<Rightarrow> (string \<times> string) list \<Rightarrow> (string \<times> string) list \<times> bool" where
  "writeFiles writable [] = ([], True)"
| "writeFiles writable ((p, content) # fs) =
     (if writable p then (let (ws, ok) = writeFiles writable fs in ((p, content) # ws, ok)) else ([], False))"

definition setupDirs :: "string list" where
  "setupDirs = ['''', ''config'', ''geth-1'', ''geth-2'', ''geth-3'', ''geth-4'']"

definition run_setup ::
    "geth \<Rightarrow> setupLib \<Rightarrow> (string \<Rightarrow> bool) \<Rightarrow> (string \<Rightarrow> bool) \<Rightarrow> privkey list \<Rightarrow> privkey list \<Rightarrow> bytes list
      \<Rightarrow> (string \<times> string) list \<times> bool" where
  "run_setup G L mkdir writable signerKeys nodeKeys secrets =
     (if list_all mkdir setupDirs then writeFiles writable (setupFiles G L signerKeys nodeKeys secrets) else ([], False))"

end
