(* ===== verification/Setup_Properties.thy ===== *)
theory Setup_Properties
  imports Setup Config_Properties
begin

text \<open>The properties of the set-up program: what it writes is what the client reads.\<close>

lemma hexBytes_append: "hexBytes (xs @ ys) = hexBytes xs @ hexBytes ys"
  by (simp add: hexBytes_def)

lemma hexBytes_concat: "hexBytes (concat xs) = concat (map hexBytes xs)"
  by (induction xs) (simp_all add: hexBytes_append hexBytes_def)

lemma hexBytes_zeros: "hexBytes (replicate n 0) = concat (replicate n ''00'')"
proof -
  have "char_of (48 :: nat) = CHR ''0''" by code_simp
  then show ?thesis by (induction n) (simp_all add: hexBytes_def hexDigit_def)
qed

lemma sort_map_key: "sort (map f xs) = map f (sort_key f xs)"
  by (rule properties_for_sort) simp_all

lemma trimmed_hex:
  assumes "bs \<noteq> []"
  shows "trimPrefix (TrimSpace (hexBytes bs @ newline)) ''0x'' = hexBytes bs"
proof -
  have ne: "hexBytes bs \<noteq> []" using assms by (cases bs) (simp_all add: hexBytes_def)
  have sp: "\<forall>c \<in> set (hexBytes bs). \<not> isSpace c" using hexBytes_chars by blast
  have "TrimSpace (hexBytes bs @ newline) = hexBytes bs"
    using TrimSpace_padded [of "[]" newline "hexBytes bs"] ne sp by (simp add: newline_def isSpace_def)
  moreover have "take 2 (hexBytes bs) \<noteq> ''0x''"
  proof
    assume "take 2 (hexBytes bs) = ''0x''"
    then have "CHR ''x'' \<in> set (hexBytes bs)" by (metis in_set_takeD list.set_intros)
    then show False using hexBytes_chars by (fastforce simp: fromHexChar_def)
  qed
  ultimately show ?thesis by (simp add: trimPrefix_def numeral_2_eq_2)
qed

text \<open>Documented: \<^verbatim>\<open>Address.Hex\<close> is the 0x-prefixed hex form, with the case of letters as checksum.\<close>

definition hex_ok :: "geth \<Rightarrow> bool" where
  "hex_ok G \<longleftrightarrow> (\<forall>a. length a = 20 \<longrightarrow> map lowerChar (addrHex G a) = ''0x'' @ hexBytes a)"

lemma lowerAddr_hex: "hex_ok G \<Longrightarrow> length a = 20 \<Longrightarrow> lowerAddr (addrHex G a) = hexBytes a"
  by (simp add: lowerAddr_def hex_ok_def drop_map [symmetric])

lemma ascii_lower: "ascii (map lowerChar s) \<Longrightarrow> ascii s"
  by (induction s) (auto simp: lowerChar_def Let_def within_def split: if_splits)

lemma addrHex_ascii: "hex_ok G \<Longrightarrow> length a = 20 \<Longrightarrow> ascii (addrHex G a)"
  by (rule ascii_lower) (simp add: hex_ok_def ascii_hexBytes within_def)

lemma asciiJSON_goMap: "asciiJSON (goMap kvs) \<longleftrightarrow> list_all (\<lambda>(k, v). ascii k \<and> asciiJSON v) kvs"
  by (simp add: goMap_def list_all_iff)

lemma genesisDoc_ascii:
  assumes "\<forall>a \<in> set as. ascii a" and "ascii (genesisExtra as)"
  shows "asciiJSON (genesisDoc as)"
proof -
  have "asciiJSON genesisConfig" by code_simp
  moreover have "asciiJSON (genesisAlloc as)" using assms(1) by (auto simp: genesisAlloc_def asciiJSON_goMap list_all_iff within_def)
  moreover have "ascii (replicate n (CHR ''0''))" for n by (induction n) (simp_all add: within_def)
  ultimately show ?thesis using assms(2) by (simp add: genesisDoc_def asciiJSON_goMap within_def)
qed

lemma genesisExtra_hex:
  assumes "hex_ok G" "\<forall>a \<in> set as. length a = 20"
  shows "\<exists>bs. mset bs = mset as \<and> genesisExtra (map (addrHex G) as) = ''0x'' @ hexBytes (replicate 32 0 @ concat bs @ replicate 65 0)"
proof -
  let ?bs = "sort_key hexBytes as"
  have "map lowerAddr (map (addrHex G) as) = map hexBytes as" using assms by (auto simp: lowerAddr_hex)
  then have "genesisExtra (map (addrHex G) as) = ''0x'' @ hexBytes (replicate 32 0 @ concat ?bs @ replicate 65 0)"
    unfolding genesisExtra_def by (simp only: sort_map_key hexBytes_append hexBytes_concat hexBytes_zeros)
  then show ?thesis by (intro exI [of _ ?bs]) simp
qed

lemma genesis_signers:
  assumes "Extra h = replicate 32 0 @ concat bs @ replicate 65 0" "\<forall>a \<in> set bs. length a = 20" "bs \<noteq> []" "Number h = Some 0"
  shows "\<exists>s. NewGenesisSnapshot G h = Ok s \<and> Signers s = set bs"
proof -
  have len: "length (concat bs) = 20 * length bs" by (rule length_concat_addrs [OF assms(2)])
  have "map (\<lambda>i. copy_fixed 20 (drop (i * 20) (concat bs))) [0..<length bs] = bs"
    using addrs_of_indexed [OF len] addrs_of_concat [OF assms(2)] by simp
  then have "(\<lambda>i. copy_fixed 20 (drop (i * 20) (concat bs))) ` {0..<length bs} = set bs" by (metis atLeastLessThan_upt list.set_map)
  moreover have "\<exists>xs \<in> set bs. xs \<noteq> []" using assms(2,3) by (cases bs) auto
  ultimately show ?thesis using assms(3,4) len
    by (simp add: NewGenesisSnapshot_def Let_def assms(1) extraVanity_def extraSeal_def AddressLength_def number_of_def newSnapshot_def)
qed

lemma enumerate_mem: "i < length xs \<Longrightarrow> (i, xs ! i) \<in> set (enumerate 0 xs)"
  by (simp add: in_set_enumerate_eq)

lemma setup_jwt_file: "i < length secrets \<Longrightarrow> (fileNumber ''jwt-'' (i + 1) ''.hex'', hexBytes (secrets ! i) @ newline) \<in> set (setupFiles G L ks ns secrets)"
  by (force simp: setupFiles_def Let_def intro: rev_image_eqI [OF enumerate_mem])

lemma setup_signer_file: "i < length ks \<Longrightarrow> (fileNumber ''signer-'' (i + 1) ''.hex'', hexBytes (slFromECDSA L (ks ! i)) @ newline) \<in> set (setupFiles G L ks ns secrets)"
  by (force simp: setupFiles_def Let_def intro: rev_image_eqI [OF enumerate_mem])

lemma setup_genesis_file:
  "(''genesis.json'', MarshalIndent (genesisDoc (map (\<lambda>k. addrHex G (key_address G k)) ks)) @ newline)
     \<in> set (setupFiles G L ks ns secrets)"
  by (simp add: setupFiles_def Let_def)

lemma sort_key_map_of: "distinct (map fst kvs) \<Longrightarrow> map_of (sort_key fst kvs) = map_of kvs"
  by (rule map_of_inject_set [THEN iffD2]) (simp_all add: distinct_map inj_on_def)

lemma genesisDoc_extra: "\<exists>doc. genesisDoc as = JObject doc \<and> map_of doc ''extraData'' = Some (JString (genesisExtra as))"
  by (simp add: genesisDoc_def goMap_def sort_key_map_of)

lemma writeFiles_all: "\<forall>p. writable p \<Longrightarrow> writeFiles writable fs = (fs, True)"
  by (induction fs) auto

text \<open>
  C27. What the set-up program writes is what its readers read. Each secret file gives a JWT provider with exactly that
  secret; each signer key file, at whatever path the client is told to read it, is parsed to exactly that key; and the text of
  \<^verbatim>\<open>genesis.json\<close>, indentation and escapes included, reads back as exactly the genesis document, whose extra data decodes to a
  header field from which the Clique engine builds a genesis snapshot whose signers are exactly the addresses of the
  generated signer keys. The path of the key file is not part of this: the generated configuration names it in a
  section the client does not read.
\<close>

theorem setup_files_read_back:
  assumes "hex_ok G" and "ks \<noteq> []" and "\<forall>s \<in> set secrets. length s = 32"
    and "\<forall>k \<in> set ks. slFromECDSA L k \<noteq> [] \<and> wdHexToECDSA W (hexBytes (slFromECDSA L k)) = Some k"
    and "\<forall>p. writable p" and "\<forall>p. mkdir p"
  shows "\<exists>files. run_setup G L mkdir writable ks ns secrets = (files, True) \<and>
    (\<forall>i < length secrets. \<exists>content. (fileNumber ''jwt-'' (i + 1) ''.hex'', content) \<in> set files \<and>
       NewJWTProvider (Some content) = Ok \<lparr>jwSecret = secrets ! i, jwCachedToken = [], jwExpiresAt = 0\<rparr>) \<and>
    (\<forall>i < length ks. \<exists>content. (fileNumber ''signer-'' (i + 1) ''.hex'', content) \<in> set files \<and>
       (\<forall>p. wdReadFile W p = FileData content \<longrightarrow> loadSignerKey W p = Some (ks ! i))) \<and>
    (\<exists>content doc extra bytes. (''genesis.json'', content) \<in> set files \<and> readText content = Some (JObject doc, []) \<and>
       JObject doc = genesisDoc (map (addrHex G) (map (key_address G) ks)) \<and>
       map_of doc ''extraData'' = Some (JString extra) \<and> decodeHex (drop 2 extra) = Some bytes \<and>
       (\<forall>h. Extra h = bytes \<and> Number h = Some 0 \<longrightarrow>
          (\<exists>s. NewGenesisSnapshot G h = Ok s \<and> Signers s = key_address G ` set ks)))"
proof -
  let ?fs = "setupFiles G L ks ns secrets"
  let ?as = "map (key_address G) ks"
  have run: "run_setup G L mkdir writable ks ns secrets = (?fs, True)"
    using assms(5,6) by (simp add: run_setup_def writeFiles_all list_all_iff)
  have jwt: "NewJWTProvider (Some (hexBytes (secrets ! i) @ newline)) = Ok \<lparr>jwSecret = secrets ! i, jwCachedToken = [], jwExpiresAt = 0\<rparr>"
    if "i < length secrets" for i
  proof -
    have "length (secrets ! i) = 32" using assms(3) that by simp
    moreover from this have "secrets ! i \<noteq> []" by auto
    ultimately show ?thesis by (simp add: NewJWTProvider_def trimmed_hex decodeHex_hexBytes)
  qed
  have key: "loadSignerKey W p = Some (ks ! i)" if "i < length ks" "wdReadFile W p = FileData (hexBytes (slFromECDSA L (ks ! i)) @ newline)" for i p
    using assms(4) that by (simp add: loadSignerKey_def fileText_def trimmed_hex)
  obtain bs where bs: "mset bs = mset ?as" "genesisExtra (map (addrHex G) ?as) = ''0x'' @ hexBytes (replicate 32 0 @ concat bs @ replicate 65 0)"
    using genesisExtra_hex [OF assms(1), of ?as] by auto
  let ?extra = "genesisExtra (map (addrHex G) ?as)"
  have dec: "decodeHex (drop 2 ?extra) = Some (replicate 32 0 @ concat bs @ replicate 65 0)"
    unfolding bs(2) by (simp add: decodeHex_hexBytes)
  obtain doc where doc: "genesisDoc (map (addrHex G) ?as) = JObject doc" "map_of doc ''extraData'' = Some (JString ?extra)"
    using genesisDoc_extra by blast
  have set: "set bs = key_address G ` set ks" using mset_eq_setD [OF bs(1)] by simp
  have "\<exists>s. NewGenesisSnapshot G h = Ok s \<and> Signers s = key_address G ` set ks"
    if "Extra h = replicate 32 0 @ concat bs @ replicate 65 0" "Number h = Some 0" for h
    using genesis_signers [OF that(1) _ _ that(2), of G] set assms(2) by fastforce
  moreover have "(''genesis.json'', MarshalIndent (JObject doc) @ newline) \<in> set ?fs"
    using setup_genesis_file [of G ks L ns secrets] doc(1) by (simp add: o_def)
  moreover have "readText (MarshalIndent (JObject doc) @ newline) = Some (JObject doc, [])"
  proof -
    have "asciiJSON (JObject doc)" unfolding doc(1) [symmetric]
      by (rule genesisDoc_ascii) (use assms(1) addrHex_ascii bs(2) ascii_hexBytes in \<open>auto simp: within_def\<close>)
    then show ?thesis unfolding readText_indent by (simp only: cleanJSON_ascii)
  qed
  ultimately show ?thesis
    using run jwt key setup_jwt_file [of _ secrets G L ks ns] setup_signer_file [of _ ks L G ns secrets] dec doc by metis
qed

definition setupG :: geth where
  "setupG = demoGeth\<lparr>addrHex := \<lambda>a. ''0x'' @ hexBytes a\<rparr>"

lemma lower_hexDigit: "d < 16 \<Longrightarrow> lowerChar (hexDigit d) = hexDigit d"
  by (auto simp: lowerChar_def hexDigit_def)

lemma setupG_hex: "hex_ok setupG"
proof -
  have "map lowerChar (hexBytes bs) = hexBytes bs" for bs
    by (induction bs) (simp_all add: hexBytes_def lower_hexDigit byte_digits)
  then show ?thesis by (simp add: hex_ok_def setupG_def lowerChar_def)
qed

definition setupLibDemo :: setupLib where
  "setupLibDemo = \<lparr>slFromECDSA = \<lambda>k. k\<rparr>"

definition setupWorld :: World where
  "setupWorld = demoWorld\<lparr>wdHexToECDSA := decodeHex\<rparr>"

theorem setup_files_read_back_witness:
  "\<exists>files content. run_setup setupG setupLibDemo (\<lambda>_. True) (\<lambda>_. True) [demoAddr 1, demoAddr 2, demoAddr 3] [] [demoSecret] = (files, True) \<and>
     (''jwt-1.hex'', content) \<in> set files \<and>
     NewJWTProvider (Some content) = Ok \<lparr>jwSecret = demoSecret, jwCachedToken = [], jwExpiresAt = 0\<rparr>"
proof -
  have "\<forall>k \<in> set [demoAddr 1, demoAddr 2, demoAddr 3]. slFromECDSA setupLibDemo k \<noteq> [] \<and>
      wdHexToECDSA setupWorld (hexBytes (slFromECDSA setupLibDemo k)) = Some k"
    by (simp add: setupLibDemo_def setupWorld_def decodeHex_hexBytes demoAddr_def)
  moreover have "\<forall>s \<in> set [demoSecret]. length s = 32" by (simp add: demoSecret_def)
  moreover have "fileNumber ''jwt-'' (0 + 1) ''.hex'' = ''jwt-1.hex''" by code_simp
  ultimately show ?thesis
    using setup_files_read_back [OF setupG_hex, of "[demoAddr 1, demoAddr 2, demoAddr 3]" "[demoSecret]" setupLibDemo setupWorld "\<lambda>_. True" "\<lambda>_. True" "[]"]
    by fastforce
qed

end
