(* ===== verification/Qbft_Network.thy ===== *)
theory Qbft_Network
  imports Qbft_Liveness Node_Loop
begin

text \<open>
  One round of the protocol across the network: the cores of the correct validators, what each has sent, signed as
  \<^verbatim>\<open>dispatchQBFTDecisions\<close> signs it (\<^verbatim>\<open>node/qbft_loop.go\<close>), and what each has handled. A step hands one sent message,
  or one of a faulty validator, to one core, as the body of \<^verbatim>\<open>qbftRoundLoop\<close> does; messages are delivered in any
  order and any number of times, except that a core sees the PROPOSAL first. No timer fires.
\<close>

section \<open>The network\<close>

text \<open>The parameters of a round; the keys are those of the correct validators.\<close>

record QRound =
  qrG :: geth
  qrC :: "IstanbulExtra codec"
  qrK :: rlpCodecs
  qrOrd :: "roundChangeRecord list \<Rightarrow> roundChangeRecord list"
  qrEngine :: QEngine
  qrSnap :: QSnapshot
  qrParent :: header
  qrSeq :: u64
  qrRound :: u32
  qrKeys :: "privkey list"
  qrHeader :: header
  qrPayload :: bytes
  qrRCC :: "SignedRoundChange list"

record Net =
  ntCores :: "Core list"
  ntDecs :: "Decision list list"
  ntPool :: "QBFTMsg list"
  ntGot :: "QBFTMsg list list"

text \<open>The messages a node with this key publishes for its decisions.\<close>

fun signOut :: "geth \<Rightarrow> privkey \<Rightarrow> Decision list \<Rightarrow> QBFTMsg list" where
  "signOut G k [] = []"
| "signOut G k (DBroadcast ty data # ds) =
     (case signQBFTMsg G \<lparr>qmType = ty, qmData = data, qmSig = []\<rparr> k of Ok m \<Rightarrow> m # signOut G k ds | _ \<Rightarrow> signOut G k ds)"
| "signOut G k (_ # ds) = signOut G k ds"

definition core0 :: "QRound \<Rightarrow> nat \<Rightarrow> Core" where
  "core0 R i = nodeCore (qrG R) (qrC R) (qrEngine R) (qrSnap R) (qrParent R) (Some (qrKeys R ! i)) (qrSeq R) (qrRound R)"

abbreviation size_of :: "QRound \<Rightarrow> nat" where
  "size_of R \<equiv> length (qrKeys R)"

text \<open>The proposer has started its core; every other core is fresh.\<close>

definition netInit :: "QRound \<Rightarrow> nat \<Rightarrow> Net" where
  "netInit R p =
     (let (c, ds) = StartProposer (qrG R) (qrK R) (core0 R p) (qrHeader R) (qrPayload R) (qrRCC R)
      in \<lparr>ntCores = (map (core0 R) [0..<size_of R])[p := c],
          ntDecs = (replicate (size_of R) [])[p := ds],
          ntPool = signOut (qrG R) (qrKeys R ! p) ds,
          ntGot = replicate (size_of R) []\<rparr>)"

text \<open>One message handled by one core; \<^const>\<open>None\<close> when the sender is not recovered or the handler panics.\<close>

definition netDeliver :: "QRound \<Rightarrow> nat \<Rightarrow> QBFTMsg \<Rightarrow> Net \<Rightarrow> Net option" where
  "netDeliver R i raw s =
     (case incomingOf (qrG R) raw of
        Ok m \<Rightarrow>
          (case HandleMsg (qrG R) (qrK R) (qrOrd R) (ntCores s ! i) m of
             Ok (c, ds) \<Rightarrow> Some \<lparr>ntCores = (ntCores s)[i := c], ntDecs = (ntDecs s)[i := ntDecs s ! i @ ds],
                                 ntPool = ntPool s @ signOut (qrG R) (qrKeys R ! i) ds,
                                 ntGot = (ntGot s)[i := ntGot s ! i @ [raw]]\<rparr>
           | _ \<Rightarrow> None)
      | _ \<Rightarrow> None)"

inductive net_steps :: "QRound \<Rightarrow> QBFTMsg set \<Rightarrow> Net \<Rightarrow> Net \<Rightarrow> bool"
  for R :: QRound and B :: "QBFTMsg set" and s0 :: Net where
  refl: "net_steps R B s0 s0"
| step: "net_steps R B s0 s \<Longrightarrow> i < size_of R \<Longrightarrow> raw \<in> set (ntPool s) \<union> B \<Longrightarrow>
    (cState (ntCores s ! i) = stateNew \<Longrightarrow> raw = hd (ntPool s)) \<Longrightarrow> netDeliver R i raw s = Some s' \<Longrightarrow>
    net_steps R B s0 s'"

definition quiet :: "QRound \<Rightarrow> Net \<Rightarrow> bool" where
  "quiet R s \<longleftrightarrow> (\<forall>i < size_of R. set (ntPool s) \<subseteq> set (ntGot s ! i))"

text \<open>
  What the round starts from: the proposal verifies, the RLP functions round-trip the messages of this view, signing
  with the validators' keys succeeds and is recovered, the signers are validators and enough for a quorum, and after
  round 0 the certificate is accepted.
\<close>

definition good_round :: "QRound \<Rightarrow> nat \<Rightarrow> bool" where
  "good_round R p \<longleftrightarrow>
     istanbul_codec (qrC R) \<and> finite (Validators (qrSnap R)) \<and> map_order (qrOrd R) \<and>
     VerifyProposal (qrG R) (qrC R) (qrEngine R) (qrSnap R) (qrHeader R) (Some (qrParent R)) = Ok () \<and>
     codec_ok (cHeader (qrK R)) {qrHeader R} \<and>
     codec_ok (cProposal (qrK R)) {\<lparr>Sequence = qrSeq R, Round = qrRound R, propHeader = b, PayloadJSON = qrPayload R,
       propRCC = qrRCC R\<rparr> | b. True} \<and>
     codec_ok (cPrepare (qrK R)) {\<lparr>Sequence = qrSeq R, Round = qrRound R, prepBlockHash = b\<rparr> | b. True} \<and>
     codec_ok (cCommit (qrK R)) {\<lparr>Sequence = qrSeq R, Round = qrRound R, commBlockHash = b, CommitSeal = s\<rparr> | b s. True} \<and>
     (\<forall>t d. \<exists>b. rlpList (qrG R) [RUint t, RBytes d] = Some b) \<and>
     (\<forall>k \<in> set (qrKeys R). ecdsa_ok (qrG R) k \<and> (\<forall>x. \<exists>sig. Sign (qrG R) (Keccak256 (qrG R) x) k = Some sig) \<and>
        key_address (qrG R) k \<in> Validators (qrSnap R)) \<and>
     distinct (map (key_address (qrG R)) (qrKeys R)) \<and>
     Quorum (card (Validators (qrSnap R))) \<le> size_of R \<and> p < size_of R \<and>
     (0 < qrRound R \<longrightarrow> verifyRCC (qrK R) (core0 R p) (qrRCC R) = Ok True)"

text \<open>The nodes publish the same messages: dispatching broadcasts appends them to what was sent and to the own channel.\<close>

lemma dispatch_publishes:
  assumes "nSignerKey (lpNode l) = Some k" and "\<forall>d \<in> set ds. \<exists>ty x. d = DBroadcast ty x"
    and "length (lpChan l) + length ds \<le> chanCapacity" and "\<forall>t d. \<exists>b. rlpList (evG V) [RUint t, RBytes d] = Some b"
  shows "dispatchQBFTDecisions V l ds =
    Some (l\<lparr>lpChan := lpChan l @ signOut (evG V) k ds, lpSent := lpSent l @ signOut (evG V) k ds\<rparr>, Ok None)"
  using assms
proof (induction ds arbitrary: l)
  case Nil
  then show ?case by simp
next
  case (Cons d ds)
  then obtain ty x where d: "d = DBroadcast ty x" by auto
  show ?case
  proof (cases "signQBFTMsg (evG V) \<lparr>qmType = ty, qmData = x, qmSig = []\<rparr> k")
    case (Ok m)
    let ?l = "l\<lparr>lpChan := lpChan l @ [m], lpSent := lpSent l @ [m]\<rparr>"
    have "dispatchQBFTDecisions V ?l ds =
      Some (?l\<lparr>lpChan := lpChan ?l @ signOut (evG V) k ds, lpSent := lpSent ?l @ signOut (evG V) k ds\<rparr>, Ok None)"
      by (rule Cons.IH) (use Cons.prems in auto)
    then show ?thesis using Cons.prems Ok by (simp add: d)
  next
    case (Err e)
    then show ?thesis using Cons.prems Cons.IH [of l] by (simp add: d)
  next
    case Panic
    obtain b where "rlpList (evG V) [RUint (ucast ty), RBytes x] = Some b" using Cons.prems(4) by blast
    then show ?thesis using Panic by (simp add: signQBFTMsg_def qbftMsgHash_def split: option.split_asm)
  qed
qed

section \<open>Messages of the correct validators\<close>

definition commitSealOf :: "QRound \<Rightarrow> nat \<Rightarrow> bytes" where
  "commitSealOf R i = (case CreateCommitSeal (qrG R) (qrC R) (qrHeader R) (qrKeys R ! i) of Ok s \<Rightarrow> s | _ \<Rightarrow> [])"

definition prepareData :: "QRound \<Rightarrow> bytes" where
  "prepareData R = the (enc (cPrepare (qrK R)) \<lparr>Sequence = qrSeq R, Round = qrRound R, prepBlockHash = hdrHash (qrG R) (qrHeader R)\<rparr>)"

definition commitData :: "QRound \<Rightarrow> nat \<Rightarrow> bytes" where
  "commitData R i = the (enc (cCommit (qrK R)) \<lparr>Sequence = qrSeq R, Round = qrRound R,
     commBlockHash = hdrHash (qrG R) (qrHeader R), CommitSeal = commitSealOf R i\<rparr>)"

definition proposalData :: "QRound \<Rightarrow> bytes" where
  "proposalData R = the (enc (cProposal (qrK R)) \<lparr>Sequence = qrSeq R, Round = qrRound R,
     propHeader = the (enc (cHeader (qrK R)) (qrHeader R)), PayloadJSON = qrPayload R, propRCC = qrRCC R\<rparr>)"

definition sentMsg :: "QRound \<Rightarrow> byte \<Rightarrow> bytes \<Rightarrow> nat \<Rightarrow> QBFTMsg" where
  "sentMsg R ty data i = hd (signOut (qrG R) (qrKeys R ! i) [DBroadcast ty data])"

abbreviation addressOf :: "QRound \<Rightarrow> nat \<Rightarrow> address" where
  "addressOf R i \<equiv> key_address (qrG R) (qrKeys R ! i)"

lemma good_key:
  assumes "good_round R p" and "i < size_of R"
  shows "ecdsa_ok (qrG R) (qrKeys R ! i)" and "\<exists>sig. Sign (qrG R) (Keccak256 (qrG R) x) (qrKeys R ! i) = Some sig"
    and "addressOf R i \<in> Validators (qrSnap R)"
  using assms unfolding good_round_def by (meson nth_mem)+

lemma sentMsg:
  assumes "good_round R p" and "i < size_of R"
  shows "signOut (qrG R) (qrKeys R ! i) (DBroadcast ty data # ds) = sentMsg R ty data i # signOut (qrG R) (qrKeys R ! i) ds"
    and "\<exists>sig. incomingOf (qrG R) (sentMsg R ty data i) = Ok \<lparr>MsgType = ty, From = addressOf R i, Data = data, Sig = sig\<rparr>"
    and "qmType (sentMsg R ty data i) = ty"
proof -
  let ?m = "\<lparr>qmType = ty, qmData = data, qmSig = []\<rparr>"
  from assms(1) obtain b where b: "rlpList (qrG R) [RUint (ucast ty), RBytes data] = Some b"
    unfolding good_round_def by blast
  from good_key(2) [OF assms, of b] obtain sig where sig: "Sign (qrG R) (Keccak256 (qrG R) b) (qrKeys R ! i) = Some sig" by blast
  have sgn: "signQBFTMsg (qrG R) ?m (qrKeys R ! i) = Ok (?m\<lparr>qmSig := sig\<rparr>)" using b sig by (simp add: signQBFTMsg_def qbftMsgHash_def)
  then show "signOut (qrG R) (qrKeys R ! i) (DBroadcast ty data # ds) = sentMsg R ty data i # signOut (qrG R) (qrKeys R ! i) ds"
    and "qmType (sentMsg R ty data i) = ty" by (simp_all add: sentMsg_def)
  from signed_msg_sender [OF good_key(1) [OF assms] sgn]
  show "\<exists>sig. incomingOf (qrG R) (sentMsg R ty data i) = Ok \<lparr>MsgType = ty, From = addressOf R i, Data = data, Sig = sig\<rparr>"
    using sgn by (simp add: sentMsg_def incomingOf_def)
qed

lemma good_seal:
  assumes "good_round R p" and "i < size_of R"
  shows "CreateCommitSeal (qrG R) (qrC R) (qrHeader R) (qrKeys R ! i) = Ok (commitSealOf R i)"
    and "RecoverCommitSealSigner (qrG R) (qrC R) (qrHeader R) (commitSealOf R i) = Ok (addressOf R i)"
    and "commitSealOf R i \<noteq> []"
proof -
  from assms(1) have C: "istanbul_codec (qrC R)" and vp: "VerifyProposal (qrG R) (qrC R) (qrEngine R) (qrSnap R) (qrHeader R) (Some (qrParent R)) = Ok ()"
    by (simp_all add: good_round_def)
  from vp obtain v ie where ex: "extra_is (qrC R) (qrHeader R) v ie" unfolding VerifyProposal_Ok_iff by blast
  obtain x where x: "commitSealHash (qrG R) (qrC R) (qrHeader R) = Ok (Keccak256 (qrG R) x)"
    using commitSealHash_Ok [OF C ex, of "qrG R"] by (auto simp: commitSealHash_def Let_def)
  from good_key(2) [OF assms, of x] obtain sig where sig: "Sign (qrG R) (Keccak256 (qrG R) x) (qrKeys R ! i) = Some sig" by blast
  show c: "CreateCommitSeal (qrG R) (qrC R) (qrHeader R) (qrKeys R ! i) = Ok (commitSealOf R i)"
    using x sig by (simp add: commitSealOf_def CreateCommitSeal_def)
  then show "RecoverCommitSealSigner (qrG R) (qrC R) (qrHeader R) (commitSealOf R i) = Ok (addressOf R i)"
    using CreateCommitSeal_signer good_key(1) [OF assms] by blast
  have "commitSealOf R i = sig" using x sig by (simp add: commitSealOf_def CreateCommitSeal_def)
  then show "commitSealOf R i \<noteq> []" using recoverAddress_signed(2) [OF good_key(1) [OF assms] sig] by auto
qed

lemma good_codecs:
  assumes "good_round R p"
  shows "enc (cHeader (qrK R)) (qrHeader R) = Some hb \<Longrightarrow> dec (cHeader (qrK R)) hb = Some (qrHeader R)"
    and "\<exists>hb. enc (cHeader (qrK R)) (qrHeader R) = Some hb"
    and "let x = \<lparr>Sequence = qrSeq R, Round = qrRound R, propHeader = the (enc (cHeader (qrK R)) (qrHeader R)), PayloadJSON = qrPayload R, propRCC = qrRCC R\<rparr>
      in enc (cProposal (qrK R)) x = Some (proposalData R) \<and> dec (cProposal (qrK R)) (proposalData R) = Some x"
    and "let x = \<lparr>Sequence = qrSeq R, Round = qrRound R, prepBlockHash = hdrHash (qrG R) (qrHeader R)\<rparr>
      in enc (cPrepare (qrK R)) x = Some (prepareData R) \<and> dec (cPrepare (qrK R)) (prepareData R) = Some x"
    and "let x = \<lparr>Sequence = qrSeq R, Round = qrRound R, commBlockHash = hdrHash (qrG R) (qrHeader R), CommitSeal = commitSealOf R i\<rparr>
      in enc (cCommit (qrK R)) x = Some (commitData R i) \<and> dec (cCommit (qrK R)) (commitData R i) = Some x"
proof -
  from assms have c: "codec_ok (cHeader (qrK R)) {qrHeader R}"
    "codec_ok (cProposal (qrK R)) {\<lparr>Sequence = qrSeq R, Round = qrRound R, propHeader = b, PayloadJSON = qrPayload R, propRCC = qrRCC R\<rparr> | b. True}"
    "codec_ok (cPrepare (qrK R)) {\<lparr>Sequence = qrSeq R, Round = qrRound R, prepBlockHash = b\<rparr> | b. True}"
    "codec_ok (cCommit (qrK R)) {\<lparr>Sequence = qrSeq R, Round = qrRound R, commBlockHash = b, CommitSeal = s\<rparr> | b s. True}"
    unfolding good_round_def by blast+
  show "enc (cHeader (qrK R)) (qrHeader R) = Some hb \<Longrightarrow> dec (cHeader (qrK R)) hb = Some (qrHeader R)"
    and "\<exists>hb. enc (cHeader (qrK R)) (qrHeader R) = Some hb" using c(1) by (auto simp: codec_ok_def)
  show "let x = \<lparr>Sequence = qrSeq R, Round = qrRound R, propHeader = the (enc (cHeader (qrK R)) (qrHeader R)), PayloadJSON = qrPayload R, propRCC = qrRCC R\<rparr>
      in enc (cProposal (qrK R)) x = Some (proposalData R) \<and> dec (cProposal (qrK R)) (proposalData R) = Some x"
    using codec_ok_enc [OF c(2), of "\<lparr>Sequence = qrSeq R, Round = qrRound R, propHeader = the (enc (cHeader (qrK R)) (qrHeader R)), PayloadJSON = qrPayload R, propRCC = qrRCC R\<rparr>"]
    by (auto simp: Let_def proposalData_def)
  show "let x = \<lparr>Sequence = qrSeq R, Round = qrRound R, prepBlockHash = hdrHash (qrG R) (qrHeader R)\<rparr>
      in enc (cPrepare (qrK R)) x = Some (prepareData R) \<and> dec (cPrepare (qrK R)) (prepareData R) = Some x"
    using codec_ok_enc [OF c(3), of "\<lparr>Sequence = qrSeq R, Round = qrRound R, prepBlockHash = hdrHash (qrG R) (qrHeader R)\<rparr>"]
    by (auto simp: Let_def prepareData_def)
  show "let x = \<lparr>Sequence = qrSeq R, Round = qrRound R, commBlockHash = hdrHash (qrG R) (qrHeader R), CommitSeal = commitSealOf R i\<rparr>
      in enc (cCommit (qrK R)) x = Some (commitData R i) \<and> dec (cCommit (qrK R)) (commitData R i) = Some x"
    using codec_ok_enc [OF c(4), of "\<lparr>Sequence = qrSeq R, Round = qrRound R, commBlockHash = hdrHash (qrG R) (qrHeader R), CommitSeal = commitSealOf R i\<rparr>"]
    by (auto simp: Let_def commitData_def)
qed

section \<open>A core that recorded the proposal\<close>

definition active :: "QRound \<Rightarrow> nat \<Rightarrow> Core \<Rightarrow> bool" where
  "active R i c \<longleftrightarrow>
     same_instance c (core0 R i) \<and> cState c \<in> {statePrepared, stateCommitSent, stateCommitted} \<and>
     proposalHeader c = Some (qrHeader R) \<and> proposalHash c = hdrHash (qrG R) (qrHeader R) \<and> proposalPayload c = qrPayload R \<and>
     distinct (map fst (prepares c)) \<and> distinct (map fst (commits c)) \<and>
     (cState c = statePrepared \<longrightarrow> length (prepares c) < cQuorum c) \<and>
     (cState c \<noteq> stateCommitted \<longrightarrow> length (commits c) < cQuorum c)"

text \<open>The votes one message adds, and what the core decides on it.\<close>

definition counts :: "rlpCodecs \<Rightarrow> Core \<Rightarrow> IncomingMsg \<Rightarrow> Core \<Rightarrow> bool" where
  "counts K c m c' \<longleftrightarrow>
     fst ` set (prepares c) \<subseteq> fst ` set (prepares c') \<and> fst ` set (commits c) \<subseteq> fst ` set (commits c') \<and>
     (prepareFor K c m \<and> cState c' \<noteq> stateCommitted \<longrightarrow> From m \<in> fst ` set (prepares c')) \<and>
     (commitFor K c m \<and> cState c' \<noteq> stateCommitted \<longrightarrow> From m \<in> fst ` set (commits c')) \<and>
     (\<forall>(a, s) \<in> set (commits c'). (a, s) \<in> set (commits c) \<or>
        a = From m \<and> MsgType m = MsgCommit \<and> (\<exists>cm. dec (cCommit K) (Data m) = Some cm \<and> CommitSeal cm = s))"

definition decides :: "QRound \<Rightarrow> nat \<Rightarrow> Core \<Rightarrow> Core \<Rightarrow> Decision list \<Rightarrow> bool" where
  "decides R i c c' ds \<longleftrightarrow>
     cState c' = cState c \<and> (\<forall>k. signOut (qrG R) k ds = []) \<or>
     cState c = statePrepared \<and> cState c' = stateCommitSent \<and> ds = [DBroadcast MsgCommit (commitData R i)] \<or>
     cState c \<noteq> stateCommitted \<and> cState c' = stateCommitted \<and> (\<exists>h. ds = [DCommitBlock (Some h) (qrPayload R)])"

lemma core0_simps [simp]:
  "cSeq (core0 R i) = qrSeq R" "cRound (core0 R i) = qrRound R"
  "cfg (core0 R i) = nodeConfig (qrG R) (qrC R) (qrEngine R) (qrSnap R) (qrParent R) (Some (qrKeys R ! i))"
  "cState (core0 R i) = stateNew" "prepares (core0 R i) = []" "commits (core0 R i) = []"
  "proposalHeader (core0 R i) = None"
  "cQuorum (core0 R i) = Quorum (card (Validators (qrSnap R)))"
  "finite (Validators (qrSnap R)) \<Longrightarrow> cValidators (core0 R i) = Validators (qrSnap R)"
  by (simp_all add: core0_def nodeCore_def New_core_def)

lemma good_extra:
  assumes "good_round R p"
  obtains v ie where "extra_is (qrC R) (qrHeader R) v ie"
  using assms unfolding good_round_def VerifyProposal_Ok_iff by blast

lemma active_sendCommit:
  assumes g: "good_round R p" and i: "i < size_of R" and c: "same_instance c (core0 R i)"
    "proposalHeader c = Some (qrHeader R)" "proposalHash c = hdrHash (qrG R) (qrHeader R)"
  shows "sendCommit (qrK R) c = Ok (c\<lparr>cState := stateCommitSent\<rparr>, [DBroadcast MsgCommit (commitData R i)])"
  using good_codecs(5) [OF g, of i] c
  by (simp add: sendCommit_def Let_def same_instance_def node_callbacks good_seal(1) [OF g i])

lemma active_finishCommit:
  assumes g: "good_round R p" and c: "same_instance c (core0 R i)" "proposalHeader c = Some (qrHeader R)"
  shows "\<exists>h. finishCommit c = Ok (c\<lparr>cState := stateCommitted\<rparr>, [DCommitBlock (Some h) (proposalPayload c)])"
proof -
  obtain v ie where ex: "extra_is (qrC R) (qrHeader R) v ie" by (rule good_extra [OF g])
  have "istanbul_codec (qrC R)" using g by (simp add: good_round_def)
  from node_finishCommit_Ok [OF this ex _ c(2)] c(1) show ?thesis by (simp add: same_instance_def)
qed

lemma keys_update: "fst ` set (AList.update k v m) = insert k (fst ` set m)"
  by (induction m) auto

lemma handlePrepare_ignores:
  assumes "cState c = stateCommitted \<or> \<not> prepareFor K c m" and "MsgType m = MsgPrepare" and "From m \<in> cValidators c"
  shows "handlePrepare K c m = Ok (c, [])"
proof (cases "dec (cPrepare K) (Data m)")
  case None
  then show ?thesis by (simp add: handlePrepare_def)
next
  case (Some p)
  then have "cState c = stateCommitted \<or> Sequence p \<noteq> cSeq c \<or> Round p \<noteq> cRound c \<or> prepBlockHash p \<noteq> proposalHash c"
    using assms by (simp add: prepareFor_def)
  then show ?thesis using Some by (elim disjE) (simp_all add: handlePrepare_def)
qed

lemma handlePrepare_counts:
  assumes "prepareFor K c m" and "cState c \<in> {statePrepared, stateCommitSent}"
  shows "handlePrepare K c m =
    (let c1 = c\<lparr>prepares := AList.update (From m) (proposalHash c) (prepares c)\<rparr> in
     if cState c = statePrepared \<and> cQuorum c \<le> length (prepares c1) then sendCommit K c1 else Ok (c1, []))"
proof -
  from assms(1) obtain p where "dec (cPrepare K) (Data m) = Some p" "Sequence p = cSeq c" "Round p = cRound c"
    "prepBlockHash p = proposalHash c" unfolding prepareFor_def by blast
  moreover have "cState c \<noteq> stateNew" "cState c \<noteq> stateCommitted" using assms(2) by auto
  ultimately show ?thesis unfolding handlePrepare_def Let_def by simp
qed

lemma counts_refl:
  assumes "cState c = stateCommitted \<or> \<not> prepareFor K c m \<and> \<not> commitFor K c m"
  shows "counts K c m c"
  using assms unfolding counts_def by fast

lemma active_prepare:
  assumes g: "good_round R p" and i: "i < size_of R" and a: "active R i c" and m: "MsgType m = MsgPrepare" "From m \<in> cValidators c"
  shows "\<exists>c' ds. handlePrepare (qrK R) c m = Ok (c', ds) \<and> active R i c' \<and> counts (qrK R) c m c' \<and> decides R i c c' ds"
proof (cases "cState c = stateCommitted \<or> \<not> prepareFor (qrK R) c m")
  case True
  have "\<not> commitFor (qrK R) c m" using m(1) by (simp add: commitFor_def msg_types)
  then have "counts (qrK R) c m c" using True by (intro counts_refl) blast
  moreover have "decides R i c c []" by (simp add: decides_def)
  ultimately show ?thesis using handlePrepare_ignores [OF True m] a by blast
next
  case False
  let ?c1 = "c\<lparr>prepares := AList.update (From m) (proposalHash c) (prepares c)\<rparr>"
  have st: "cState c \<in> {statePrepared, stateCommitSent}" using False a by (simp add: active_def)
  have h: "handlePrepare (qrK R) c m =
      (if cState c = statePrepared \<and> cQuorum c \<le> length (prepares ?c1) then sendCommit (qrK R) ?c1 else Ok (?c1, []))"
    using handlePrepare_counts [OF _ st] False by (simp add: Let_def)
  have cs: "counts (qrK R) c m (?c1\<lparr>cState := s\<rparr>)" for s
    using m(1) unfolding counts_def commitFor_def by (simp add: keys_update msg_types) blast
  have s1: "same_instance ?c1 (core0 R i)" "proposalHeader ?c1 = Some (qrHeader R)" "proposalHash ?c1 = hdrHash (qrG R) (qrHeader R)"
    using a by (simp_all add: active_def same_instance_def)
  have "distinct (map fst (prepares c))" using a by (simp add: active_def)
  then have d: "distinct (map fst (prepares ?c1))" by (simp add: distinct_fst_update)
  show ?thesis
  proof (cases "cState c = statePrepared \<and> cQuorum c \<le> length (prepares ?c1)")
    case True
    have "active R i (?c1\<lparr>cState := stateCommitSent\<rparr>)" using a st d by (auto simp: active_def same_instance_def)
    moreover have "decides R i c (?c1\<lparr>cState := stateCommitSent\<rparr>) [DBroadcast MsgCommit (commitData R i)]"
      using True by (simp add: decides_def)
    moreover have "handlePrepare (qrK R) c m = Ok (?c1\<lparr>cState := stateCommitSent\<rparr>, [DBroadcast MsgCommit (commitData R i)])"
      unfolding h if_P [OF True] by (rule active_sendCommit [OF g i s1])
    ultimately show ?thesis using cs by blast
  next
    case False
    have "active R i ?c1" using a st d False by (auto simp: active_def same_instance_def)
    moreover have "decides R i c ?c1 []" by (simp add: decides_def)
    moreover have "counts (qrK R) c m ?c1" using cs [of "cState c"] by simp
    ultimately show ?thesis unfolding h if_not_P [OF False] by blast
  qed
qed

lemma active_seal_check:
  assumes g: "good_round R p" and a: "active R i c"
  shows "\<exists>b. sealMatches c m cm = Ok b"
proof -
  have C: "istanbul_codec (qrC R)" using g by (simp add: good_round_def)
  obtain v ie where ex: "extra_is (qrC R) (qrHeader R) v ie" by (rule good_extra [OF g])
  obtain d where d: "commitSealHash (qrG R) (qrC R) (qrHeader R) = Ok d" using commitSealHash_Ok [OF C ex] by blast
  have "RecoverCommitSealSigner (qrG R) (qrC R) (qrHeader R) s \<noteq> Panic" for s
    by (simp add: RecoverCommitSealSigner_def d recoverAddress_def split: option.split)
  then have "\<exists>r. attempt (RecoverCommitSealSigner (qrG R) (qrC R) (qrHeader R) s) = (Ok r :: (qbft_error, address option) result)" for s
    by (cases "RecoverCommitSealSigner (qrG R) (qrC R) (qrHeader R) s") auto
  then obtain r where r: "attempt (RecoverCommitSealSigner (qrG R) (qrC R) (qrHeader R) (CommitSeal cm)) =
      (Ok r :: (qbft_error, address option) result)" by blast
  show ?thesis using a r
    by (cases r) (simp_all add: sealMatches_def active_def same_instance_def node_callbacks ex_bool_eq del: rbind_Ok_iff)
qed

lemma active_commit:
  assumes g: "good_round R p" and i: "i < size_of R" and a: "active R i c" and m: "MsgType m = MsgCommit" "From m \<in> cValidators c"
  shows "\<exists>c' ds. handleCommit (qrK R) c m = Ok (c', ds) \<and> active R i c' \<and> counts (qrK R) c m c' \<and> decides R i c c' ds"
proof (cases "cState c = stateCommitted \<or> \<not> commitFor (qrK R) c m")
  case True
  have "handleCommit (qrK R) c m = Ok (c, [])"
  proof (cases "dec (cCommit (qrK R)) (Data m)")
    case None
    then show ?thesis by (simp add: handleCommit_def)
  next
    case (Some cm)
    obtain b where b: "sealMatches c m cm = Ok b" using active_seal_check [OF g a] by blast
    have "cState c = stateCommitted \<or> Sequence cm \<noteq> cSeq c \<or> Round cm \<noteq> cRound c \<or> commBlockHash cm \<noteq> proposalHash c \<or> \<not> b"
      using True m b Some by (auto simp: commitFor_def sealMatches_iff [symmetric])
    then show ?thesis using Some b by (elim disjE) (simp_all add: handleCommit_def)
  qed
  moreover have "\<not> prepareFor (qrK R) c m" using m(1) by (simp add: prepareFor_def msg_types)
  then have "counts (qrK R) c m c" using True by (intro counts_refl) blast
  moreover have "decides R i c c []" by (simp add: decides_def)
  ultimately show ?thesis using a by blast
next
  case False
  then obtain cm where cm: "dec (cCommit (qrK R)) (Data m) = Some cm" "Sequence cm = cSeq c" "Round cm = cRound c"
    "commBlockHash cm = proposalHash c" "sealMatches c m cm = Ok True"
    unfolding commitFor_def sealMatches_iff by blast
  let ?c1 = "c\<lparr>commits := AList.update (From m) (CommitSeal cm) (commits c)\<rparr>"
  have st: "cState c \<noteq> stateNew" "cState c \<noteq> stateCommitted" using False a by (auto simp: active_def)
  have h: "handleCommit (qrK R) c m = (if cQuorum c \<le> length (commits ?c1) then finishCommit ?c1 else Ok (?c1, []))"
    using cm st unfolding handleCommit_def Let_def by simp
  have "distinct (map fst (commits c))" using a by (simp add: active_def)
  then have d: "distinct (map fst (commits ?c1))" and
    u: "set (commits ?c1) = insert (From m, CommitSeal cm) {x \<in> set (commits c). fst x \<noteq> From m}"
    by (simp_all add: distinct_fst_update set_alist_update)
  have cs: "counts (qrK R) c m (?c1\<lparr>cState := s\<rparr>)" for s
    using m(1) cm(1) u unfolding counts_def prepareFor_def by (simp add: keys_update msg_types) blast
  have s1: "same_instance ?c1 (core0 R i)" "proposalHeader ?c1 = Some (qrHeader R)" "proposalPayload ?c1 = qrPayload R"
    using a by (simp_all add: active_def same_instance_def)
  show ?thesis
  proof (cases "cQuorum c \<le> length (commits ?c1)")
    case True
    from active_finishCommit [OF g s1(1,2)] obtain hd' where
      f: "finishCommit ?c1 = Ok (?c1\<lparr>cState := stateCommitted\<rparr>, [DCommitBlock (Some hd') (qrPayload R)])" using s1(3) by auto
    have "active R i (?c1\<lparr>cState := stateCommitted\<rparr>)" using a d by (auto simp: active_def same_instance_def)
    moreover have "decides R i c (?c1\<lparr>cState := stateCommitted\<rparr>) [DCommitBlock (Some hd') (qrPayload R)]"
      using st by (simp add: decides_def)
    ultimately show ?thesis unfolding h if_P [OF True] f using cs by blast
  next
    case False
    have "active R i ?c1" using a d False by (auto simp: active_def same_instance_def)
    moreover have "decides R i c ?c1 []" by (simp add: decides_def)
    moreover have "counts (qrK R) c m ?c1" using cs [of "cState c"] by simp
    ultimately show ?thesis unfolding h if_not_P [OF False] by blast
  qed
qed

text \<open>Whatever message an active core handles, it does not panic, and it stays active.\<close>

lemma active_step:
  assumes g: "good_round R p" and i: "i < size_of R" and a: "active R i c"
  shows "\<exists>c' ds. HandleMsg (qrG R) (qrK R) (qrOrd R) c m = Ok (c', ds) \<and> active R i c' \<and> counts (qrK R) c m c' \<and> decides R i c c' ds"
proof -
  have st: "cState c \<noteq> stateNew" using a by (auto simp: active_def)
  have same: ?thesis if "HandleMsg (qrG R) (qrK R) (qrOrd R) c m = Ok (c, [])" "\<not> prepareFor (qrK R) c m" "\<not> commitFor (qrK R) c m"
    using that a counts_refl by (auto simp: decides_def)
  consider "From m \<notin> cValidators c" | "From m \<in> cValidators c" "MsgType m = MsgProposal" | "From m \<in> cValidators c" "MsgType m = MsgPrepare"
    | "From m \<in> cValidators c" "MsgType m = MsgCommit" | "From m \<in> cValidators c" "MsgType m = MsgRoundChange"
    | "From m \<in> cValidators c" "MsgType m \<notin> {MsgProposal, MsgPrepare, MsgCommit, MsgRoundChange}" by blast
  then show ?thesis
  proof cases
    case 1
    then show ?thesis by (intro same) (simp_all add: HandleMsg_def prepareFor_def commitFor_def)
  next
    case 2
    then show ?thesis using st by (intro same) (simp_all add: HandleMsg_def prepareFor_def commitFor_def msg_types handleProposal_def)
  next
    case 3
    then show ?thesis using active_prepare [OF g i a] by (simp add: HandleMsg_def msg_types)
  next
    case 4
    then show ?thesis using active_commit [OF g i a] by (simp add: HandleMsg_def msg_types)
  next
    case 5
    have no: "\<not> prepareFor (qrK R) c m" "\<not> commitFor (qrK R) c m" using 5 by (simp_all add: prepareFor_def commitFor_def msg_types)
    have "\<exists>r. handleRoundChange (qrK R) (qrOrd R) c m = Ok r" by (simp add: handleRoundChange_def Let_def split: option.split)
    then obtain c' ds where r: "handleRoundChange (qrK R) (qrOrd R) c m = Ok (c', ds)" by auto
    then have h: "HandleMsg (qrG R) (qrK R) (qrOrd R) c m = Ok (c', ds)" using 5 by (simp add: HandleMsg_def msg_types)
    from r show ?thesis
    proof (cases rule: handleRoundChange_cases)
      case ignored
      then show ?thesis using h no by (intro same) simp_all
    next
      case (counted rc)
      have "active R i c'" using a unfolding counted(4) by (auto simp: active_def same_instance_def)
      moreover have "counts (qrK R) c m c'" unfolding counts_def counted(4) using no by auto
      moreover have "decides R i c c' ds" unfolding decides_def counted(5) by (simp add: counted(4) startRound_def Let_def split: prod.split)
      ultimately show ?thesis using h by blast
    qed
  next
    case 6
    then show ?thesis by (intro same) (simp_all add: HandleMsg_def prepareFor_def commitFor_def msg_types)
  qed
qed

section \<open>The invariant of the network\<close>

abbreviation prepareOf :: "QRound \<Rightarrow> nat \<Rightarrow> QBFTMsg" where
  "prepareOf R i \<equiv> sentMsg R MsgPrepare (prepareData R) i"

abbreviation commitOf :: "QRound \<Rightarrow> nat \<Rightarrow> QBFTMsg" where
  "commitOf R i \<equiv> sentMsg R MsgCommit (commitData R i) i"

abbreviation proposalOf :: "QRound \<Rightarrow> nat \<Rightarrow> QBFTMsg" where
  "proposalOf R p \<equiv> sentMsg R MsgProposal (proposalData R) p"

lemma active_validators: "good_round R p \<Longrightarrow> active R i c \<Longrightarrow> cValidators c = Validators (qrSnap R)"
  by (simp add: good_round_def active_def same_instance_def)

lemma prepareOf_counts:
  assumes g: "good_round R p" and j: "j < size_of R" and a: "active R i c"
  shows "\<exists>m. incomingOf (qrG R) (prepareOf R j) = Ok m \<and> From m = addressOf R j \<and> prepareFor (qrK R) c m"
proof -
  from sentMsg(2) [OF g j] obtain sig where
    "incomingOf (qrG R) (prepareOf R j) = Ok \<lparr>MsgType = MsgPrepare, From = addressOf R j, Data = prepareData R, Sig = sig\<rparr>" by blast
  moreover have "prepareFor (qrK R) c \<lparr>MsgType = MsgPrepare, From = addressOf R j, Data = prepareData R, Sig = sig\<rparr>"
    using good_codecs(4) [OF g] good_key(3) [OF g j] active_validators [OF g a] a
    by (simp add: prepareFor_def active_def same_instance_def Let_def)
  ultimately show ?thesis by simp
qed

lemma commitOf_counts:
  assumes g: "good_round R p" and j: "j < size_of R" and a: "active R i c"
  shows "\<exists>m. incomingOf (qrG R) (commitOf R j) = Ok m \<and> From m = addressOf R j \<and> commitFor (qrK R) c m \<and>
    (\<forall>cm. dec (cCommit (qrK R)) (Data m) = Some cm \<longrightarrow> CommitSeal cm = commitSealOf R j)"
proof -
  from sentMsg(2) [OF g j] obtain sig where
    "incomingOf (qrG R) (commitOf R j) = Ok \<lparr>MsgType = MsgCommit, From = addressOf R j, Data = commitData R j, Sig = sig\<rparr>" by blast
  moreover have "sealOk c (addressOf R j) (commitSealOf R j)"
    using good_seal(2) [OF g j] a by (simp add: sealOk_def active_def same_instance_def node_callbacks)
  then have "commitFor (qrK R) c \<lparr>MsgType = MsgCommit, From = addressOf R j, Data = commitData R j, Sig = sig\<rparr>"
    using good_codecs(5) [OF g, of j] good_key(3) [OF g j] active_validators [OF g a] a
    by (simp add: commitFor_def active_def same_instance_def Let_def)
  ultimately show ?thesis using good_codecs(5) [OF g, of j] by (simp add: Let_def)
qed

text \<open>The proposal starts the proposer's core and moves every fresh core to the prepared state.\<close>

definition preparedCore :: "QRound \<Rightarrow> nat \<Rightarrow> Core" where
  "preparedCore R i = (core0 R i)\<lparr>proposalHeader := Some (qrHeader R), proposalPayload := qrPayload R,
     proposalHash := hdrHash (qrG R) (qrHeader R), cState := statePrepared\<rparr>"

lemma proposer_starts:
  assumes "good_round R p"
  shows "StartProposer (qrG R) (qrK R) (core0 R p) (qrHeader R) (qrPayload R) (qrRCC R) =
    (preparedCore R p, [DBroadcast MsgProposal (proposalData R), DBroadcast MsgPrepare (prepareData R)])"
proof -
  obtain hb where "enc (cHeader (qrK R)) (qrHeader R) = Some hb" using good_codecs(2) [OF assms] by blast
  then show ?thesis using good_codecs(3,4) [OF assms]
    by (simp add: StartProposer_def Let_def preparedCore_def)
qed

lemma verifyRCC_key: "verifyRCC (qrK R) (core0 R i) rcc = verifyRCC (qrK R) (core0 R j) rcc"
proof -
  have v: "cValidators (core0 R i) = cValidators (core0 R j)" by (simp add: core0_def nodeCore_def New_core_def)
  have "countRCC (qrK R) (core0 R i) f seen n rcc = countRCC (qrK R) (core0 R j) f seen n rcc" for f seen n
    by (induction rcc arbitrary: seen n) (simp_all add: v cong: option.case_cong if_cong)
  then show ?thesis by (simp add: verifyRCC_def)
qed

lemma proposal_accepted:
  assumes g: "good_round R p" and i: "i < size_of R"
  shows "\<exists>m. incomingOf (qrG R) (proposalOf R p) = Ok m \<and>
    HandleMsg (qrG R) (qrK R) ord (core0 R i) m = Ok (preparedCore R i, [DBroadcast MsgPrepare (prepareData R)])"
proof -
  have p: "p < size_of R" using g by (simp add: good_round_def)
  from sentMsg(2) [OF g p] obtain sig where
    m: "incomingOf (qrG R) (proposalOf R p) = Ok \<lparr>MsgType = MsgProposal, From = addressOf R p, Data = proposalData R, Sig = sig\<rparr>" by blast
  obtain hb where hb: "enc (cHeader (qrK R)) (qrHeader R) = Some hb" "dec (cHeader (qrK R)) hb = Some (qrHeader R)"
    using good_codecs(1,2) [OF g] by blast
  let ?p = "\<lparr>Sequence = qrSeq R, Round = qrRound R, propHeader = hb, PayloadJSON = qrPayload R, propRCC = qrRCC R\<rparr>"
  have d: "dec (cProposal (qrK R)) (proposalData R) = Some ?p" using good_codecs(3) [OF g] hb(1) by (simp add: Let_def)
  have rcc: "0 < qrRound R \<longrightarrow> verifyRCC (qrK R) (core0 R i) (qrRCC R) = Ok True"
    using g verifyRCC_key [of R i "qrRCC R" p] by (simp add: good_round_def)
  have vp: "VerifyProposal (qrG R) (qrC R) (qrEngine R) (qrSnap R) (qrHeader R) (Some (qrParent R)) = Ok ()"
    and fin: "finite (Validators (qrSnap R))" using g by (simp_all add: good_round_def)
  have "acceptable (qrK R) (core0 R i) ?p = Ok (Some (qrHeader R))"
    unfolding acceptable_Some using rcc hb(2) vp by (simp add: node_callbacks)
  moreover have "enterPrepared (qrG R) (qrK R) (core0 R i) (qrHeader R) (qrPayload R) = (preparedCore R i, [DBroadcast MsgPrepare (prepareData R)])"
    using good_codecs(4) [OF g] by (simp add: enterPrepared_def Let_def preparedCore_def)
  ultimately have "handleProposal (qrG R) (qrK R) (core0 R i) \<lparr>MsgType = MsgProposal, From = addressOf R p, Data = proposalData R, Sig = sig\<rparr> =
      Ok (preparedCore R i, [DBroadcast MsgPrepare (prepareData R)])" using d by (simp add: handleProposal_def)
  then show ?thesis unfolding m using good_key(3) [OF g p] fin by (simp add: HandleMsg_def)
qed

lemma preparedCore_active:
  assumes "good_round R p"
  shows "active R i (preparedCore R i)"
proof -
  have "0 < Quorum (card (Validators (qrSnap R)))" using Quorum_bounds(1) [of "card (Validators (qrSnap R))"] by simp
  then show ?thesis by (simp add: active_def preparedCore_def same_instance_def)
qed

text \<open>What is known of one core: its run, what it has sent, and whose votes it holds.\<close>

definition own_run :: "QRound \<Rightarrow> nat \<Rightarrow> Core \<Rightarrow> Decision list \<Rightarrow> bool" where
  "own_run R i c ds \<longleftrightarrow>
     (\<exists>es. core_run (qrG R) (qrK R) (core0 R i) es c ds \<and> (\<forall>h x rcc. EStart h x rcc \<in> set es \<longrightarrow> h = qrHeader R))"

definition votes_from :: "QRound \<Rightarrow> QBFTMsg set \<Rightarrow> QBFTMsg set \<Rightarrow> Core \<Rightarrow> bool" where
  "votes_from R B pool c \<longleftrightarrow>
     (\<forall>(a, s) \<in> set (commits c). (\<exists>j < size_of R. a = addressOf R j \<and> commitOf R j \<in> pool \<and> s \<noteq> []) \<or>
        (\<exists>raw \<in> B. qmType raw = MsgCommit))"

definition caught_up :: "QRound \<Rightarrow> QBFTMsg set \<Rightarrow> Core \<Rightarrow> bool" where
  "caught_up R got c \<longleftrightarrow> cState c = stateCommitted \<or>
     (\<forall>j < size_of R. (prepareOf R j \<in> got \<longrightarrow> addressOf R j \<in> fst ` set (prepares c)) \<and>
        (commitOf R j \<in> got \<longrightarrow> addressOf R j \<in> fst ` set (commits c)))"

definition has_sent :: "QRound \<Rightarrow> nat \<Rightarrow> QBFTMsg set \<Rightarrow> Core \<Rightarrow> Decision list \<Rightarrow> bool" where
  "has_sent R i pool c ds \<longleftrightarrow> prepareOf R i \<in> pool \<and> (cState c = stateCommitSent \<longrightarrow> commitOf R i \<in> pool) \<and>
     (cState c = stateCommitted \<longrightarrow> (\<exists>h. DCommitBlock (Some h) (qrPayload R) \<in> set ds))"

definition core_inv :: "QRound \<Rightarrow> QBFTMsg set \<Rightarrow> Net \<Rightarrow> nat \<Rightarrow> bool" where
  "core_inv R B s i \<longleftrightarrow>
     (let c = ntCores s ! i; ds = ntDecs s ! i; got = set (ntGot s ! i); pool = set (ntPool s) in
      own_run R i c ds \<and>
      (c = core0 R i \<and> got = {} \<or> active R i c \<and> has_sent R i pool c ds \<and> caught_up R got c \<and> votes_from R B pool c))"

definition net_inv :: "QRound \<Rightarrow> nat \<Rightarrow> QBFTMsg set \<Rightarrow> Net \<Rightarrow> bool" where
  "net_inv R p B s \<longleftrightarrow>
     length (ntCores s) = size_of R \<and> length (ntDecs s) = size_of R \<and> length (ntGot s) = size_of R \<and>
     (\<exists>tl. ntPool s = proposalOf R p # tl \<and> set tl \<subseteq> prepareOf R ` {..<size_of R} \<union> commitOf R ` {..<size_of R}) \<and>
     (\<forall>i < size_of R. core_inv R B s i)"

lemma votes_from_pool: "votes_from R B pool c \<Longrightarrow> pool \<subseteq> pool' \<Longrightarrow> votes_from R B pool' c"
  unfolding votes_from_def by blast

lemma has_sent_pool: "has_sent R i pool c ds \<Longrightarrow> pool \<subseteq> pool' \<Longrightarrow> has_sent R i pool' c ds"
  unfolding has_sent_def by blast

lemma msg_kinds_differ:
  assumes g: "good_round R p" and j: "j < size_of R"
  shows "prepareOf R j \<noteq> proposalOf R p" "commitOf R j \<noteq> proposalOf R p"
proof -
  have p: "p < size_of R" using g by (simp add: good_round_def)
  have "qmType (proposalOf R p) = MsgProposal" "qmType (prepareOf R j) = MsgPrepare" "qmType (commitOf R j) = MsgCommit"
    by (rule sentMsg(3) [OF g p] sentMsg(3) [OF g j])+
  moreover have "MsgPrepare \<noteq> MsgProposal" "MsgCommit \<noteq> MsgProposal" by (simp_all add: msg_types)
  ultimately show "prepareOf R j \<noteq> proposalOf R p" "commitOf R j \<noteq> proposalOf R p" by metis+
qed

lemma prepared_inv:
  assumes g: "good_round R p" and i: "i < size_of R" and run: "own_run R i (preparedCore R i) ds"
    and pool: "prepareOf R i \<in> pool" and got: "got \<subseteq> {proposalOf R p}"
  shows "active R i (preparedCore R i) \<and> has_sent R i pool (preparedCore R i) ds \<and> caught_up R got (preparedCore R i) \<and>
    votes_from R B pool (preparedCore R i)"
proof -
  have "cState (preparedCore R i) = statePrepared" "commits (preparedCore R i) = []" by (simp_all add: preparedCore_def)
  moreover have "prepareOf R j \<notin> got" "commitOf R j \<notin> got" if "j < size_of R" for j
    using got msg_kinds_differ [OF g that] by auto
  ultimately show ?thesis using preparedCore_active [OF g] pool by (simp add: has_sent_def caught_up_def votes_from_def)
qed

lemma net_inv_init:
  assumes g: "good_round R p"
  shows "net_inv R p B (netInit R p)"
proof -
  let ?ds = "[DBroadcast MsgProposal (proposalData R), DBroadcast MsgPrepare (prepareData R)]"
  have p: "p < size_of R" using g by (simp add: good_round_def)
  have init: "netInit R p = \<lparr>ntCores = (map (core0 R) [0..<size_of R])[p := preparedCore R p],
      ntDecs = (replicate (size_of R) [])[p := ?ds], ntPool = [proposalOf R p, prepareOf R p], ntGot = replicate (size_of R) []\<rparr>"
    by (simp add: netInit_def proposer_starts [OF g] sentMsg(1) [OF g p] del: signOut.simps(2))
  have "core_run (qrG R) (qrK R) (core0 R p) ([] @ [EStart (qrHeader R) (qrPayload R) (qrRCC R)]) (preparedCore R p) ([] @ ?ds)"
    by (rule core_run.start [OF core_run.init _ _ _ proposer_starts [OF g]]) simp_all
  then have run: "own_run R p (preparedCore R p) ?ds" unfolding own_run_def by fastforce
  have fresh: "own_run R i (core0 R i) []" for i unfolding own_run_def using core_run.init by fastforce
  have "core_inv R B (netInit R p) i" if i: "i < size_of R" for i
  proof (cases "i = p")
    case True
    then show ?thesis unfolding init core_inv_def Let_def
      using run p prepared_inv [OF g p run, of "{proposalOf R p, prepareOf R p}" "{}" B] by simp
  next
    case False
    then show ?thesis unfolding init core_inv_def Let_def using fresh i by simp
  qed
  then show ?thesis unfolding net_inv_def using p by (simp add: init)
qed

text \<open>One delivery at an active core.\<close>

lemma deliver_kept:
  assumes g: "good_round R p" and i: "i < size_of R" and a: "active R i c" and m: "incomingOf (qrG R) raw = Ok m"
    and h: "active R i c'" "counts (qrK R) c m c'" "decides R i c c' ds"
    and cu: "caught_up R got c"
  shows "caught_up R (insert raw got) c'"
proof (cases "cState c' = stateCommitted")
  case True
  then show ?thesis by (simp add: caught_up_def)
next
  case False
  then have nc: "cState c \<noteq> stateCommitted" using h(3) by (auto simp: decides_def)
  have "addressOf R j \<in> fst ` set (prepares c')" if "j < size_of R" "prepareOf R j \<in> insert raw got" for j
  proof (cases "prepareOf R j = raw")
    case True
    then show ?thesis using prepareOf_counts [OF g that(1) a] m h(2) False unfolding counts_def by auto
  next
    case False
    then have "addressOf R j \<in> fst ` set (prepares c)" using that cu nc unfolding caught_up_def by blast
    then show ?thesis using h(2) unfolding counts_def by blast
  qed
  moreover have "addressOf R j \<in> fst ` set (commits c')" if "j < size_of R" "commitOf R j \<in> insert raw got" for j
  proof (cases "commitOf R j = raw")
    case True
    then show ?thesis using commitOf_counts [OF g that(1) a] m h(2) False unfolding counts_def by auto
  next
    case False
    then have "addressOf R j \<in> fst ` set (commits c)" using that cu nc unfolding caught_up_def by blast
    then show ?thesis using h(2) unfolding counts_def by blast
  qed
  ultimately show ?thesis unfolding caught_up_def by blast
qed

lemma deliver_votes:
  assumes g: "good_round R p" and a: "active R i c" and m: "incomingOf (qrG R) raw = Ok m"
    and src: "raw \<in> insert (proposalOf R p) (prepareOf R ` {..<size_of R} \<union> commitOf R ` {..<size_of R}) \<inter> pool \<union> B"
    and h: "counts (qrK R) c m c'" and vf: "votes_from R B pool c"
  shows "votes_from R B pool c'"
proof -
  have ty: "qmType raw = MsgType m" using m by (auto simp: incomingOf_def)
  have p: "p < size_of R" using g by (simp add: good_round_def)
  have new: "(\<exists>j < size_of R. From m = addressOf R j \<and> commitOf R j \<in> pool \<and> s \<noteq> []) \<or> (\<exists>raw \<in> B. qmType raw = MsgCommit)"
    if mt: "MsgType m = MsgCommit" and cm: "dec (cCommit (qrK R)) (Data m) = Some cm" "CommitSeal cm = s" for s cm
  proof (cases "raw \<in> B")
    case True
    then show ?thesis using ty mt by auto
  next
    case False
    have "raw \<noteq> proposalOf R p" "raw \<notin> prepareOf R ` {..<size_of R}"
      using sentMsg(3) [OF g p, of MsgProposal] sentMsg(3) [OF g, of _ MsgPrepare] ty mt by (auto simp: msg_types)
    then obtain j where j: "j < size_of R" "raw = commitOf R j" "commitOf R j \<in> pool" using src False by blast
    from commitOf_counts [OF g j(1) a] m cm have "From m = addressOf R j" "s = commitSealOf R j" unfolding j(2) by auto
    then show ?thesis using j good_seal(3) [OF g j(1)] by blast
  qed
  show ?thesis unfolding votes_from_def
  proof (clarify, goal_cases)
    case (1 a s)
    then have "(a, s) \<in> set (commits c) \<or> a = From m \<and> MsgType m = MsgCommit \<and> (\<exists>cm. dec (cCommit (qrK R)) (Data m) = Some cm \<and> CommitSeal cm = s)"
      using h unfolding counts_def by blast
    then show ?case using vf new 1 unfolding votes_from_def by blast
  qed
qed

text \<open>What one delivery at an active core sends, and the invariant of that core afterwards.\<close>

lemma deliver_sends:
  assumes g: "good_round R p" and i: "i < size_of R" and a: "active R i c" and d: "decides R i c c' ds"
    and hs: "has_sent R i pool c xs"
  shows "set (signOut (qrG R) (qrKeys R ! i) ds) \<subseteq> {commitOf R i} \<and>
    has_sent R i (pool \<union> set (signOut (qrG R) (qrKeys R ! i) ds)) c' (xs @ ds)"
proof -
  note out = sentMsg(1) [OF g i, of MsgCommit "commitData R i" "[]"]
  consider (same) "cState c' = cState c" "signOut (qrG R) (qrKeys R ! i) ds = []"
    | (sent) "cState c' = stateCommitSent" "ds = [DBroadcast MsgCommit (commitData R i)]"
    | (finished) h where "cState c' = stateCommitted" "ds = [DCommitBlock (Some h) (qrPayload R)]"
    using d unfolding decides_def by blast
  then show ?thesis
  proof cases
    case same
    then show ?thesis using hs by (auto simp: has_sent_def)
  next
    case sent
    then show ?thesis using hs out by (simp add: has_sent_def del: signOut.simps(2))
  next
    case finished
    then show ?thesis using hs by (auto simp: has_sent_def)
  qed
qed

lemma own_run_step:
  assumes "own_run R i c ds" and "HandleMsg (qrG R) (qrK R) (qrOrd R) c m = Ok (c', ds')" and "map_order (qrOrd R)"
  shows "own_run R i c' (ds @ ds')"
proof -
  from assms(1) obtain es where "core_run (qrG R) (qrK R) (core0 R i) es c ds" "\<forall>h x rcc. EStart h x rcc \<in> set es \<longrightarrow> h = qrHeader R"
    unfolding own_run_def by blast
  from core_run.msg [OF this(1) assms(3,2)] this(2) show ?thesis unfolding own_run_def by fastforce
qed

lemma net_inv_step:
  assumes g: "good_round R p" and I: "net_inv R p B s" and i: "i < size_of R" and src: "raw \<in> set (ntPool s) \<union> B"
    and first: "cState (ntCores s ! i) = stateNew \<Longrightarrow> raw = hd (ntPool s)" and st: "netDeliver R i raw s = Some s'"
  shows "net_inv R p B s'"
proof -
  let ?c = "ntCores s ! i"
  from st obtain m c' ds where m: "incomingOf (qrG R) raw = Ok m" and h: "HandleMsg (qrG R) (qrK R) (qrOrd R) ?c m = Ok (c', ds)"
    and s': "s' = \<lparr>ntCores = (ntCores s)[i := c'], ntDecs = (ntDecs s)[i := ntDecs s ! i @ ds],
       ntPool = ntPool s @ signOut (qrG R) (qrKeys R ! i) ds, ntGot = (ntGot s)[i := ntGot s ! i @ [raw]]\<rparr>"
    by (auto simp: netDeliver_def split: result.split_asm prod.split_asm)
  from I obtain xs where len: "length (ntCores s) = size_of R" "length (ntDecs s) = size_of R" "length (ntGot s) = size_of R"
    and pool: "ntPool s = proposalOf R p # xs" "set xs \<subseteq> prepareOf R ` {..<size_of R} \<union> commitOf R ` {..<size_of R}"
    and inv: "\<And>k. k < size_of R \<Longrightarrow> core_inv R B s k" by (auto simp: net_inv_def)
  let ?out = "set (signOut (qrG R) (qrKeys R ! i) ds)"
  have run: "own_run R i c' (ntDecs s ! i @ ds)"
    using inv [OF i] own_run_step [OF _ h] g by (simp add: core_inv_def Let_def good_round_def)
  have mine: "?out \<subseteq> {prepareOf R i, commitOf R i} \<and> active R i c' \<and> has_sent R i (set (ntPool s) \<union> ?out) c' (ntDecs s ! i @ ds) \<and>
      caught_up R (insert raw (set (ntGot s ! i))) c' \<and> votes_from R B (set (ntPool s) \<union> ?out) c'"
  proof (cases "?c = core0 R i \<and> set (ntGot s ! i) = {}")
    case True
    then have raw: "raw = proposalOf R p" using first pool(1) by simp
    from proposal_accepted [OF g i, of "qrOrd R"] m h True have c': "c' = preparedCore R i" "ds = [DBroadcast MsgPrepare (prepareData R)]"
      unfolding raw by auto
    have out: "?out = {prepareOf R i}" using sentMsg(1) [OF g i, of MsgPrepare "prepareData R" "[]"] by (simp add: c' del: signOut.simps(2))
    show ?thesis unfolding out using prepared_inv [OF g i run [unfolded c'(1)], of "set (ntPool s) \<union> {prepareOf R i}" "insert raw (set (ntGot s ! i))" B] True raw
      by (simp add: c'(1))
  next
    case False
    then have a: "active R i ?c" and hs: "has_sent R i (set (ntPool s)) ?c (ntDecs s ! i)" and cu: "caught_up R (set (ntGot s ! i)) ?c"
      and vf: "votes_from R B (set (ntPool s)) ?c" using inv [OF i] by (auto simp: core_inv_def Let_def)
    from active_step [OF g i a, of m] h have act: "active R i c'" "counts (qrK R) ?c m c'" "decides R i ?c c' ds" by auto
    have "votes_from R B (set (ntPool s)) c'"
      using deliver_votes [OF g a m _ act(2) vf] src pool by (auto simp: subset_iff)
    then have "votes_from R B (set (ntPool s) \<union> ?out) c'" by (rule votes_from_pool) blast
    then show ?thesis
      using deliver_kept [OF g i a m act cu] deliver_sends [OF g i a act(3) hs] act(1) by blast
  qed
  have "core_inv R B s' k" if k: "k < size_of R" for k
  proof (cases "k = i")
    case True
    then show ?thesis using mine run k len by (simp add: core_inv_def s' Let_def)
  next
    case False
    then show ?thesis using inv [OF k] k len votes_from_pool [of R B "set (ntPool s)" _ "set (ntPool s) \<union> ?out"]
        has_sent_pool [of R k "set (ntPool s)" _ _ "set (ntPool s) \<union> ?out"]
      by (auto simp: core_inv_def s' Let_def)
  qed
  moreover have "?out \<subseteq> prepareOf R ` {..<size_of R} \<union> commitOf R ` {..<size_of R}" using mine i by blast
  ultimately show ?thesis using len pool by (auto simp: net_inv_def s')
qed

lemma net_inv_steps:
  assumes "good_round R p" and "net_steps R B s0 s" and "net_inv R p B s0"
  shows "net_inv R p B s"
  using assms(2,3) by (induction) (auto intro: net_inv_step [OF assms(1)])

section \<open>When every message has arrived\<close>

lemma core_inv_active:
  assumes "core_inv R B s i" and "ntGot s ! i \<noteq> []"
  shows "active R i (ntCores s ! i)" "has_sent R i (set (ntPool s)) (ntCores s ! i) (ntDecs s ! i)"
    "caught_up R (set (ntGot s ! i)) (ntCores s ! i)" "votes_from R B (set (ntPool s)) (ntCores s ! i)"
  using assms by (auto simp: core_inv_def Let_def)

lemma quiet_active:
  assumes "net_inv R p B s" and "quiet R s" and "i < size_of R"
  shows "active R i (ntCores s ! i)" "has_sent R i (set (ntPool s)) (ntCores s ! i) (ntDecs s ! i)"
    "caught_up R (set (ntPool s)) (ntCores s ! i)" "votes_from R B (set (ntPool s)) (ntCores s ! i)"
proof -
  have inv: "core_inv R B s i" and ne: "ntGot s ! i \<noteq> []" and sub: "set (ntPool s) \<subseteq> set (ntGot s ! i)"
    using assms by (auto simp: net_inv_def quiet_def)
  note c = core_inv_active [OF inv ne]
  show "active R i (ntCores s ! i)" "has_sent R i (set (ntPool s)) (ntCores s ! i) (ntDecs s ! i)"
    "votes_from R B (set (ntPool s)) (ntCores s ! i)" by (fact c)+
  show "caught_up R (set (ntPool s)) (ntCores s ! i)" using c(3) sub unfolding caught_up_def by blast
qed

text \<open>Votes of enough validators make a quorum.\<close>

lemma distinct_votes: "distinct (map fst xs) \<Longrightarrow> finite A \<Longrightarrow> A \<subseteq> fst ` set xs \<Longrightarrow> card A \<le> length xs"
  by (metis card_mono distinct_card finite_set length_map set_map)

lemma quorum_of_all:
  assumes g: "good_round R p" and d: "distinct (map fst xs)" and all: "\<forall>j < size_of R. addressOf R j \<in> fst ` set xs"
  shows "Quorum (card (Validators (qrSnap R))) \<le> length xs"
proof -
  have dk: "distinct (map (key_address (qrG R)) (qrKeys R))" using g by (simp add: good_round_def)
  have "set (map (key_address (qrG R)) (qrKeys R)) \<subseteq> fst ` set xs" using all by (auto simp: in_set_conv_nth)
  from distinct_votes [OF d _ this] have "size_of R \<le> length xs" using distinct_card [OF dk] by simp
  then show ?thesis using g by (simp add: good_round_def)
qed

lemma active_bounds:
  assumes "active R i c" and "cState c \<noteq> stateCommitted"
  shows "length (commits c) < Quorum (card (Validators (qrSnap R)))"
    and "cState c = statePrepared \<Longrightarrow> length (prepares c) < Quorum (card (Validators (qrSnap R)))"
  using assms by (auto simp: active_def same_instance_def)

lemma quiet_some_committed:
  assumes g: "good_round R p" and I: "net_inv R p B s" and q: "quiet R s"
  shows "\<exists>i < size_of R. cState (ntCores s ! i) = stateCommitted"
proof (rule ccontr)
  assume none: "\<not> ?thesis"
  have prep: "prepareOf R j \<in> set (ntPool s)" if "j < size_of R" for j using quiet_active(2) [OF I q that] by (simp add: has_sent_def)
  have sent: "commitOf R i \<in> set (ntPool s)" if i: "i < size_of R" for i
  proof -
    note c = quiet_active [OF I q i]
    have nc: "cState (ntCores s ! i) \<noteq> stateCommitted" using none i by blast
    have "\<forall>j < size_of R. addressOf R j \<in> fst ` set (prepares (ntCores s ! i))" using c(3) nc prep unfolding caught_up_def by blast
    from quorum_of_all [OF g _ this] have "Quorum (card (Validators (qrSnap R))) \<le> length (prepares (ntCores s ! i))"
      using c(1) unfolding active_def by blast
    then have "cState (ntCores s ! i) \<noteq> statePrepared" using active_bounds(2) [OF c(1) nc] by linarith
    then have "cState (ntCores s ! i) = stateCommitSent" using c(1) nc unfolding active_def by blast
    then show ?thesis using c(2) unfolding has_sent_def by blast
  qed
  have p: "p < size_of R" using g by (simp add: good_round_def)
  note c = quiet_active [OF I q p]
  have nc: "cState (ntCores s ! p) \<noteq> stateCommitted" using none p by blast
  have "\<forall>j < size_of R. addressOf R j \<in> fst ` set (commits (ntCores s ! p))" using c(3) nc sent unfolding caught_up_def by blast
  from quorum_of_all [OF g _ this] have "Quorum (card (Validators (qrSnap R))) \<le> length (commits (ntCores s ! p))"
    using c(1) unfolding active_def by blast
  then show False using active_bounds(1) [OF c(1) nc] by linarith
qed

lemma own_run_quorum:
  assumes "own_run R i c ds" and "cState c = stateCommitted"
  shows "Quorum (card (Validators (qrSnap R))) \<le> length (commits c)"
proof -
  from assms(1) obtain es where "core_run (qrG R) (qrK R) (core0 R i) es c ds" unfolding own_run_def by blast
  from core_run_inv [OF this [unfolded core0_def nodeCore_def]] assms(2) show ?thesis
    by (simp add: phase_inv_def same_instance_def New_core_def)
qed

lemma quiet_all_committed:
  assumes g: "good_round R p" and I: "net_inv R p B s" and q: "quiet R s" and B: "\<forall>raw \<in> B. qmType raw \<noteq> MsgCommit"
    and i: "i < size_of R"
  shows "cState (ntCores s ! i) = stateCommitted"
proof (rule ccontr)
  assume nc: "cState (ntCores s ! i) \<noteq> stateCommitted"
  from quiet_some_committed [OF g I q] obtain k where k: "k < size_of R" "cState (ntCores s ! k) = stateCommitted" by blast
  let ?c = "ntCores s ! k"
  note ck = quiet_active [OF I q k(1)] and ci = quiet_active [OF I q i]
  have "own_run R k ?c (ntDecs s ! k)" using I k(1) by (simp add: net_inv_def core_inv_def Let_def)
  from own_run_quorum [OF this k(2)] have n: "Quorum (card (Validators (qrSnap R))) \<le> length (commits ?c)" .
  have "fst ` set (commits ?c) \<subseteq> fst ` set (commits (ntCores s ! i))"
  proof
    fix a assume "a \<in> fst ` set (commits ?c)"
    then obtain x where "(a, x) \<in> set (commits ?c)" by auto
    then obtain j where "j < size_of R" "a = addressOf R j" "commitOf R j \<in> set (ntPool s)"
      using ck(4) B unfolding votes_from_def by blast
    then show "a \<in> fst ` set (commits (ntCores s ! i))" using ci(3) nc unfolding caught_up_def by blast
  qed
  then have "card (fst ` set (commits ?c)) \<le> length (commits (ntCores s ! i))"
    using distinct_votes ci(1) unfolding active_def by blast
  moreover have "card (fst ` set (commits ?c)) = length (commits ?c)"
    using ck(1) distinct_card [of "map fst (commits ?c)"] by (simp add: active_def)
  ultimately show False using n active_bounds(1) [OF ci(1) nc] by simp
qed

text \<open>Without COMMITs of faulty validators, what the cores commit verifies.\<close>

lemma committed_block_verifies:
  assumes g: "good_round R p" and I: "net_inv R p B s" and B: "\<forall>raw \<in> B. qmType raw \<noteq> MsgCommit" and i: "i < size_of R"
    and com: "DCommitBlock f x \<in> set (ntDecs s ! i)" and act: "active R i (ntCores s ! i)"
  shows "\<exists>h. f = Some h \<and> VerifyHeader_q (qrG R) (qrC R) (qrEngine R) (qrSnap R) h (Some (qrParent R)) = Ok ()"
proof -
  have inv: "core_inv R B s i" using I i by (simp add: net_inv_def)
  have "ntCores s ! i \<noteq> core0 R i" using act by (auto simp: active_def)
  then have vf: "votes_from R B (set (ntPool s)) (ntCores s ! i)" and run: "own_run R i (ntCores s ! i) (ntDecs s ! i)"
    using inv by (simp_all add: core_inv_def Let_def)
  from run obtain es where es: "core_run (qrG R) (qrK R) (core0 R i) es (ntCores s ! i) (ntDecs s ! i)"
    "\<forall>h x rcc. EStart h x rcc \<in> set es \<longrightarrow> h = qrHeader R" unfolding own_run_def by blast
  have seals: "\<forall>(a, seal) \<in> set (commits (ntCores s ! i)). seal \<noteq> []" using vf B unfolding votes_from_def by blast
  show ?thesis
  proof (rule committed_header_verifies [OF _ _ es(1) [unfolded core0_def] _ seals com])
    show "istanbul_codec (qrC R)" "finite (Validators (qrSnap R))" using g by (simp_all add: good_round_def)
    show "\<forall>h x rcc. EStart h x rcc \<in> set es \<longrightarrow> VerifyProposal (qrG R) (qrC R) (qrEngine R) (qrSnap R) h (Some (qrParent R)) = Ok ()"
      using es(2) g unfolding good_round_def by blast
  qed
qed

section \<open>Every run can be completed\<close>

fun rank :: "core_state \<Rightarrow> nat" where
  "rank stateNew = 0"
| "rank statePrepared = 1"
| "rank stateCommitSent = 2"
| "rank stateCommitted = 3"
| "rank stateRoundChange = 0"

definition ranksLeft :: "QRound \<Rightarrow> Net \<Rightarrow> nat" where
  "ranksLeft R s = (\<Sum>i < size_of R. 3 - rank (cState (ntCores s ! i)))"

definition pending :: "QRound \<Rightarrow> Net \<Rightarrow> (nat \<times> QBFTMsg) set" where
  "pending R s = {(i, raw). i < size_of R \<and> raw \<in> set (ntPool s) \<and> raw \<notin> set (ntGot s ! i)}"

lemma finite_pending: "finite (pending R s)"
  by (rule finite_subset [of _ "{..<size_of R} \<times> set (ntPool s)"]) (auto simp: pending_def)

lemma rank_le: "rank x \<le> 3"
  by (cases x) simp_all

text \<open>A delivery either moves a core on or leaves fewer messages to deliver.\<close>

lemma deliver_measure:
  assumes i: "i < size_of R" "length (ntCores s) = size_of R" "length (ntGot s) = size_of R"
    and s': "s' = \<lparr>ntCores = (ntCores s)[i := c'], ntDecs = d, ntPool = ntPool s @ out, ntGot = (ntGot s)[i := ntGot s ! i @ [raw]]\<rparr>"
    and more: "rank (cState (ntCores s ! i)) < rank (cState c') \<or>
      cState c' = cState (ntCores s ! i) \<and> out = [] \<and> (i, raw) \<in> pending R s"
  shows "(s', s) \<in> measures [ranksLeft R, \<lambda>s. card (pending R s)]"
proof -
  have nth: "ntCores s' ! k = (if k = i then c' else ntCores s ! k)" if "k < size_of R" for k using i that by (simp add: s')
  from more show ?thesis
  proof
    assume r: "rank (cState (ntCores s ! i)) < rank (cState c')"
    have "ranksLeft R s' < ranksLeft R s" unfolding ranksLeft_def
    proof (rule sum_strict_mono_ex1)
      show "\<forall>k \<in> {..<size_of R}. 3 - rank (cState (ntCores s' ! k)) \<le> 3 - rank (cState (ntCores s ! k))" using r by (auto simp: nth)
      show "\<exists>k \<in> {..<size_of R}. 3 - rank (cState (ntCores s' ! k)) < 3 - rank (cState (ntCores s ! k))"
        using r i(1) rank_le [of "cState c'"] by (intro bexI [of _ i]) (auto simp: nth)
    qed simp
    then show ?thesis by simp
  next
    assume same: "cState c' = cState (ntCores s ! i) \<and> out = [] \<and> (i, raw) \<in> pending R s"
    have "ranksLeft R s' = ranksLeft R s" unfolding ranksLeft_def using same by (intro sum.cong) (simp_all add: nth)
    moreover have "pending R s' \<subseteq> pending R s - {(i, raw)}" using same i by (auto simp: pending_def s' nth_list_update split: if_split_asm)
    then have "pending R s' \<subset> pending R s" using same by blast
    then have "card (pending R s') < card (pending R s)" by (rule psubset_card_mono [OF finite_pending])
    ultimately show ?thesis by simp
  qed
qed

lemma pool_msgs_received:
  assumes g: "good_round R p" and I: "net_inv R p B s" and raw: "raw \<in> set (ntPool s)"
  shows "\<exists>m. incomingOf (qrG R) raw = Ok m"
proof -
  have p: "p < size_of R" using g by (simp add: good_round_def)
  from I raw have "raw = proposalOf R p \<or> (\<exists>j < size_of R. raw = prepareOf R j \<or> raw = commitOf R j)"
    unfolding net_inv_def by auto
  then show ?thesis using sentMsg(2) [OF g p] sentMsg(2) [OF g] by blast
qed

lemma net_progress:
  assumes g: "good_round R p" and I: "net_inv R p B s" and nq: "\<not> quiet R s"
  shows "\<exists>i raw s'. i < size_of R \<and> raw \<in> set (ntPool s) \<and> (cState (ntCores s ! i) = stateNew \<longrightarrow> raw = hd (ntPool s)) \<and>
    netDeliver R i raw s = Some s' \<and> (s', s) \<in> measures [ranksLeft R, \<lambda>s. card (pending R s)]"
proof (cases "\<exists>i < size_of R. ntCores s ! i = core0 R i")
  case True
  then obtain i where i: "i < size_of R" "ntCores s ! i = core0 R i" by blast
  from proposal_accepted [OF g i(1), of "qrOrd R"] obtain m where m: "incomingOf (qrG R) (proposalOf R p) = Ok m"
    "HandleMsg (qrG R) (qrK R) (qrOrd R) (core0 R i) m = Ok (preparedCore R i, [DBroadcast MsgPrepare (prepareData R)])" by blast
  let ?s = "\<lparr>ntCores = (ntCores s)[i := preparedCore R i], ntDecs = (ntDecs s)[i := ntDecs s ! i @ [DBroadcast MsgPrepare (prepareData R)]],
     ntPool = ntPool s @ signOut (qrG R) (qrKeys R ! i) [DBroadcast MsgPrepare (prepareData R)], ntGot = (ntGot s)[i := ntGot s ! i @ [proposalOf R p]]\<rparr>"
  have "netDeliver R i (proposalOf R p) s = Some ?s" using m i(2) by (simp add: netDeliver_def)
  moreover have "(?s, s) \<in> measures [ranksLeft R, \<lambda>s. card (pending R s)]"
    by (rule deliver_measure [OF i(1) _ _ HOL.refl]) (use I i(2) in \<open>simp_all add: net_inv_def preparedCore_def\<close>)
  moreover have "proposalOf R p \<in> set (ntPool s)" "proposalOf R p = hd (ntPool s)" using I by (auto simp: net_inv_def)
  ultimately show ?thesis using i(1) by blast
next
  case False
  from nq obtain i raw where i: "i < size_of R" and raw: "raw \<in> set (ntPool s)" "raw \<notin> set (ntGot s ! i)" unfolding quiet_def by blast
  have a: "active R i (ntCores s ! i)" using I i False by (auto simp: net_inv_def core_inv_def Let_def)
  obtain m where m: "incomingOf (qrG R) raw = Ok m" using pool_msgs_received [OF g I raw(1)] by blast
  from active_step [OF g i a, of m] obtain c' ds where
    h: "HandleMsg (qrG R) (qrK R) (qrOrd R) (ntCores s ! i) m = Ok (c', ds)" and d: "decides R i (ntCores s ! i) c' ds" by blast
  let ?s = "\<lparr>ntCores = (ntCores s)[i := c'], ntDecs = (ntDecs s)[i := ntDecs s ! i @ ds],
     ntPool = ntPool s @ signOut (qrG R) (qrKeys R ! i) ds, ntGot = (ntGot s)[i := ntGot s ! i @ [raw]]\<rparr>"
  have "netDeliver R i raw s = Some ?s" using m h by (simp add: netDeliver_def)
  moreover have "(?s, s) \<in> measures [ranksLeft R, \<lambda>s. card (pending R s)]"
  proof (rule deliver_measure [OF i _ _ HOL.refl])
    have "(i, raw) \<in> pending R s" using i raw by (simp add: pending_def)
    moreover have "rank (cState (ntCores s ! i)) < 3" if "cState (ntCores s ! i) \<noteq> stateCommitted"
      using that by (cases "cState (ntCores s ! i)") simp_all
    ultimately show "rank (cState (ntCores s ! i)) < rank (cState c') \<or>
      cState c' = cState (ntCores s ! i) \<and> signOut (qrG R) (qrKeys R ! i) ds = [] \<and> (i, raw) \<in> pending R s"
      using d unfolding decides_def by auto
  qed (use I in \<open>simp_all add: net_inv_def\<close>)
  moreover have "cState (ntCores s ! i) \<noteq> stateNew" using a by (auto simp: active_def)
  ultimately show ?thesis using i raw(1) by blast
qed

lemma net_steps_mono: "net_steps R A s0 s \<Longrightarrow> A \<subseteq> B \<Longrightarrow> net_steps R B s0 s"
  by (induction rule: net_steps.induct) (auto intro: net_steps.intros)

lemma net_steps_trans: "net_steps R B t u \<Longrightarrow> net_steps R B s t \<Longrightarrow> net_steps R B s u"
  by (induction rule: net_steps.induct) (auto intro: net_steps.intros)

lemma net_completes:
  assumes g: "good_round R p" and I: "net_inv R p B s"
  shows "\<exists>s'. net_steps R {} s s' \<and> quiet R s'"
  using I
proof (induction s rule: wf_induct_rule [OF wf_measures [of "[ranksLeft R, \<lambda>s. card (pending R s)]"]])
  case (1 s)
  show ?case
  proof (cases "quiet R s")
    case True
    then show ?thesis using net_steps.refl by blast
  next
    case False
    from net_progress [OF g 1(2) False] obtain i raw s1 where s1: "i < size_of R" "raw \<in> set (ntPool s)"
      "cState (ntCores s ! i) = stateNew \<Longrightarrow> raw = hd (ntPool s)" "netDeliver R i raw s = Some s1"
      "(s1, s) \<in> measures [ranksLeft R, \<lambda>s. card (pending R s)]" by blast
    have "net_inv R p B s1" using net_inv_step [OF g 1(2) s1(1) _ s1(3,4)] s1(2) by blast
    from 1(1) [OF s1(5) this] obtain s' where s': "net_steps R {} s1 s'" "quiet R s'" by blast
    have "net_steps R {} s s1" using net_steps.step [OF net_steps.refl s1(1) _ s1(3,4)] s1(2) by blast
    then show ?thesis using s' net_steps_trans by blast
  qed
qed

end
