(* ===== verification/Network_Properties.thy ===== *)
theory Network_Properties
  imports Qbft_Network Qbft_Properties
begin

text \<open>
  Progress of a QBFT round across the network of correct validators, for the cores wired by the node
  (\<^verbatim>\<open>node/qbft_loop.go\<close>, \<^verbatim>\<open>qbft/core/core.go\<close>).
\<close>

section \<open>A demonstration round\<close>

text \<open>Four validators of which three take part, the second one proposing.\<close>

definition demoRound :: QRound where
  "demoRound = \<lparr>qrG = demoGeth, qrC = demoIstanbul, qrK = demoRlp, qrOrd = (\<lambda>xs. xs), qrEngine = demoQEngine,
     qrSnap = demoQSnap, qrParent = demoHeader, qrSeq = 1, qrRound = 0, qrKeys = map demoAddr [1, 2, 3],
     qrHeader = demoSealed, qrPayload = [7], qrRCC = []\<rparr>"

lemma demo_good_round: "good_round demoRound 1"
proof -
  have addr: "copy_fixed 20 (demoAddr k) = demoAddr k" for k by (simp add: demoAddr_def copy_fixed_def)
  have v: "demoAddr k \<in> Validators demoQSnap" if "k \<in> {1, 2, 3}" for k
    using that by (auto simp: demoQSnap_def newSnapshot_q_def)
  have "codec_ok (cHeader demoRlp) {demoSealed}"
    by (simp add: codec_ok_def demoRlp_def putHeader_def getHeader_def demoSealed_def demoUnsealed_def)
  moreover have "codec_ok (cProposal demoRlp) {\<lparr>Sequence = 1, Round = 0, propHeader = b, PayloadJSON = [7], propRCC = []\<rparr> | b. True}"
    using getBytes_put [of _ "[]"] by (auto simp: codec_ok_def demoRlp_def putProposal_def getProposal_def)
  moreover have "codec_ok (cPrepare demoRlp) {\<lparr>Sequence = 1, Round = 0, prepBlockHash = b\<rparr> | b. True}"
    by (auto simp: codec_ok_def demoRlp_def putPrepare_def getPrepare_def)
  moreover have "codec_ok (cCommit demoRlp) {\<lparr>Sequence = 1, Round = 0, commBlockHash = b, CommitSeal = s\<rparr> | b s. True}"
    using getBytes_put [of _ "[]"] by (auto simp: codec_ok_def demoRlp_def putCommit_def getCommit_def)
  moreover have "\<forall>t d. \<exists>b. rlpList demoGeth [RUint t, RBytes d] = Some b" "\<And>k x. \<exists>sig. Sign demoGeth x k = Some sig"
    by (simp_all add: demoGeth_def)
  moreover have "distinct (map (key_address demoGeth) (map demoAddr [1, 2, 3]))" by (simp add: addr) code_simp
  ultimately show ?thesis
    using demoIstanbul_ok demo_order demo_proposal_ok demo_ecdsa_ok v
    by (simp add: good_round_def demoRound_def addr demoQSnap_card Quorum_def)
qed

section \<open>Progress\<close>

text \<open>
  C5. A round with a valid proposal finishes, in whatever order its messages travel. Let the correct validators be
  enough for a quorum and one of them propose, and let faulty ones send them anything; messages may be duplicated and
  reordered, a core only sees the PROPOSAL first and no timer fires. Then from every state reached, whatever was
  handled so far, finitely many deliveries of the messages still under way lead to a state where nothing is left to
  deliver. Whenever nothing is left, some correct core has committed a block of the proposal; and if no
  COMMIT came from a faulty validator, every correct core has, and its header passes \<^verbatim>\<open>VerifyHeader\<close> as the next node
  will check it. No message makes a core panic on the way.
\<close>

theorem qbft_network_commits:
  assumes "good_round R p" and "net_steps R B (netInit R p) s"
  shows "(\<exists>s'. net_steps R {} s s' \<and> quiet R s') \<and>
    (quiet R s \<longrightarrow> (\<exists>i < size_of R. cState (ntCores s ! i) = stateCommitted)) \<and>
    (quiet R s \<longrightarrow> (\<forall>raw \<in> B. qmType raw \<noteq> MsgCommit) \<longrightarrow>
       (\<forall>i < size_of R. cState (ntCores s ! i) = stateCommitted \<and>
          (\<exists>h. DCommitBlock (Some h) (qrPayload R) \<in> set (ntDecs s ! i) \<and>
             VerifyHeader_q (qrG R) (qrC R) (qrEngine R) (qrSnap R) h (Some (qrParent R)) = Ok ())))"
proof (intro conjI impI allI)
  have I: "net_inv R p B s" by (rule net_inv_steps [OF assms net_inv_init [OF assms(1)]])
  show "\<exists>s'. net_steps R {} s s' \<and> quiet R s'" by (rule net_completes [OF assms(1) I])
  show "\<exists>i < size_of R. cState (ntCores s ! i) = stateCommitted" if "quiet R s"
    by (rule quiet_some_committed [OF assms(1) I that])
  fix i assume q: "quiet R s" and B: "\<forall>raw \<in> B. qmType raw \<noteq> MsgCommit" and i: "i < size_of R"
  show com: "cState (ntCores s ! i) = stateCommitted" by (rule quiet_all_committed [OF assms(1) I q B i])
  then obtain h where h: "DCommitBlock (Some h) (qrPayload R) \<in> set (ntDecs s ! i)"
    using quiet_active(2) [OF I q i] unfolding has_sent_def by blast
  from committed_block_verifies [OF assms(1) I B i h quiet_active(1) [OF I q i]]
  show "\<exists>h. DCommitBlock (Some h) (qrPayload R) \<in> set (ntDecs s ! i) \<and>
      VerifyHeader_q (qrG R) (qrC R) (qrEngine R) (qrSnap R) h (Some (qrParent R)) = Ok ()" using h by blast
qed

theorem qbft_network_commits_witness:
  "\<exists>s. net_steps demoRound {} (netInit demoRound 1) s \<and> (\<forall>i < 3. cState (ntCores s ! i) = stateCommitted)"
proof -
  have n: "size_of demoRound = 3" by (simp add: demoRound_def)
  obtain s where s: "net_steps demoRound {} (netInit demoRound 1) s" "quiet demoRound s"
    using qbft_network_commits [OF demo_good_round net_steps.refl] by blast
  have "\<forall>i < size_of demoRound. cState (ntCores s ! i) = stateCommitted"
    using qbft_network_commits [OF demo_good_round s(1)] s(2) by blast
  then show ?thesis using s(1) n by auto
qed

end
