(* ===== verification/Clique_Heap.thy ===== *)
theory Clique_Heap
  imports Clique_Snapshot
begin

text \<open>
  The Clique snapshot in memory: \<^verbatim>\<open>clique/snapshot.go\<close> with its pointers. A snapshot is a struct whose maps are references,
  whose \<^verbatim>\<open>Votes\<close> is a slice of pointers, and which the node's cache, its head and the HTTP server share. \<^verbatim>\<open>copy\<close>
  and \<^verbatim>\<open>apply\<close> are modelled with every write they make: to map objects, to the struct, to the array behind the slice
  (deleting a vote moves the rest down in place, appending writes behind the last element or into a new array). The
  result is that \<^verbatim>\<open>apply\<close> computes the snapshot of \<open>Clique_Snapshot\<close> and writes to nothing that existed before.
\<close>

section \<open>Memory\<close>

text \<open>The struct; a slice is an array and a length, nil is \<^const>\<open>None\<close>. The capacity is the length of the array.\<close>

record HSnapshot =
  hsNumber :: u64
  hsHash :: hash
  hsSigners :: nat
  hsRecents :: nat
  hsVotes :: "(nat \<times> nat) option"
  hsTally :: nat

text \<open>One address space; addresses from \<open>hpNext\<close> on are free. No pointer dangles in Go, so memory is total.\<close>

record Heap =
  hpNext :: nat
  hpSnaps :: "nat \<Rightarrow> HSnapshot"
  hpSets :: "nat \<Rightarrow> address set"
  hpRecents :: "nat \<Rightarrow> (u64 \<times> address) list"
  hpTallies :: "nat \<Rightarrow> (address \<rightharpoonup> Tally)"
  hpArrays :: "nat \<Rightarrow> nat list"
  hpVotes :: "nat \<Rightarrow> Vote"

definition newSet :: "address set \<Rightarrow> Heap \<Rightarrow> nat \<times> Heap" where
  "newSet x H = (hpNext H, H\<lparr>hpSets := (hpSets H)(hpNext H := x), hpNext := Suc (hpNext H)\<rparr>)"

definition newRecents :: "(u64 \<times> address) list \<Rightarrow> Heap \<Rightarrow> nat \<times> Heap" where
  "newRecents x H = (hpNext H, H\<lparr>hpRecents := (hpRecents H)(hpNext H := x), hpNext := Suc (hpNext H)\<rparr>)"

definition newTally :: "(address \<rightharpoonup> Tally) \<Rightarrow> Heap \<Rightarrow> nat \<times> Heap" where
  "newTally x H = (hpNext H, H\<lparr>hpTallies := (hpTallies H)(hpNext H := x), hpNext := Suc (hpNext H)\<rparr>)"

definition newArray :: "nat list \<Rightarrow> Heap \<Rightarrow> nat \<times> Heap" where
  "newArray x H = (hpNext H, H\<lparr>hpArrays := (hpArrays H)(hpNext H := x), hpNext := Suc (hpNext H)\<rparr>)"

definition newVote :: "Vote \<Rightarrow> Heap \<Rightarrow> nat \<times> Heap" where
  "newVote x H = (hpNext H, H\<lparr>hpVotes := (hpVotes H)(hpNext H := x), hpNext := Suc (hpNext H)\<rparr>)"

definition newSnap :: "HSnapshot \<Rightarrow> Heap \<Rightarrow> nat \<times> Heap" where
  "newSnap x H = (hpNext H, H\<lparr>hpSnaps := (hpSnaps H)(hpNext H := x), hpNext := Suc (hpNext H)\<rparr>)"

lemmas new_defs = newSet_def newRecents_def newTally_def newArray_def newVote_def newSnap_def

text \<open>What a snapshot pointer stands for.\<close>

definition votePtrs :: "Heap \<Rightarrow> nat \<Rightarrow> nat list" where
  "votePtrs H p = (case hsVotes (hpSnaps H p) of None \<Rightarrow> [] | Some (a, n) \<Rightarrow> take n (hpArrays H a))"

definition absSnap :: "Heap \<Rightarrow> nat \<Rightarrow> Snapshot" where
  "absSnap H p = (let s = hpSnaps H p in
     \<lparr>snNumber = hsNumber s, snHash = hsHash s, Signers = hpSets H (hsSigners s), Recents = hpRecents H (hsRecents s),
      Votes = map (hpVotes H) (votePtrs H p), TallyOf = hpTallies H (hsTally s)\<rparr>)"

section \<open>Creating and copying\<close>

definition hNewSnapshot :: "Heap \<Rightarrow> u64 \<Rightarrow> hash \<Rightarrow> address list \<Rightarrow> nat \<times> Heap" where
  "hNewSnapshot H number hash signers =
     (let (sg, H1) = newSet (set signers) H;
          (rc, H2) = newRecents [] H1;
          (tl, H3) = newTally Map.empty H2
      in newSnap \<lparr>hsNumber = number, hsHash = hash, hsSigners = sg, hsRecents = rc, hsVotes = None, hsTally = tl\<rparr> H3)"

fun copyVotes :: "nat list \<Rightarrow> Heap \<Rightarrow> nat list \<times> Heap" where
  "copyVotes [] H = ([], H)"
| "copyVotes (v # vs) H =
     (let (q, H1) = newVote (hpVotes H v) H; (qs, H2) = copyVotes vs H1 in (q # qs, H2))"

definition copySnap :: "Heap \<Rightarrow> nat \<Rightarrow> nat \<times> Heap" where
  "copySnap H s =
     (let x = hpSnaps H s;
          (sg, H1) = newSet (hpSets H (hsSigners x)) H;
          (rc, H2) = newRecents (hpRecents H (hsRecents x)) H1;
          (tl, H3) = newTally (hpTallies H (hsTally x)) H2;
          (vs, H4) = (case hsVotes x of
                        None \<Rightarrow> (None, H3)
                      | Some (a, n) \<Rightarrow>
                          let (qs, H') = copyVotes (take n (hpArrays H3 a)) H3; (b, H'') = newArray qs H' in (Some (b, n), H''))
      in newSnap \<lparr>hsNumber = hsNumber x, hsHash = hsHash x, hsSigners = sg, hsRecents = rc, hsVotes = vs, hsTally = tl\<rparr> H4)"

section \<open>Writes through a snapshot pointer\<close>

definition setSnap :: "Heap \<Rightarrow> nat \<Rightarrow> HSnapshot \<Rightarrow> Heap" where
  "setSnap H p x = H\<lparr>hpSnaps := (hpSnaps H)(p := x)\<rparr>"

definition setSigners :: "Heap \<Rightarrow> nat \<Rightarrow> address set \<Rightarrow> Heap" where
  "setSigners H p x = H\<lparr>hpSets := (hpSets H)(hsSigners (hpSnaps H p) := x)\<rparr>"

definition setRecents :: "Heap \<Rightarrow> nat \<Rightarrow> (u64 \<times> address) list \<Rightarrow> Heap" where
  "setRecents H p x = H\<lparr>hpRecents := (hpRecents H)(hsRecents (hpSnaps H p) := x)\<rparr>"

definition setTally :: "Heap \<Rightarrow> nat \<Rightarrow> address \<Rightarrow> Tally option \<Rightarrow> Heap" where
  "setTally H p a t =
     (let m = hsTally (hpSnaps H p) in H\<lparr>hpTallies := (hpTallies H)(m := (hpTallies H m)(a := t))\<rparr>)"

definition hCast :: "Heap \<Rightarrow> nat \<Rightarrow> address \<Rightarrow> bool \<Rightarrow> Heap" where
  "hCast H p address authorize =
     (case hpTallies H (hsTally (hpSnaps H p)) address of
        None \<Rightarrow> setTally H p address (Some \<lparr>tAuthorize = authorize, tVotes = 1\<rparr>)
      | Some t \<Rightarrow>
          if tAuthorize t \<noteq> authorize
          then setTally H p address (Some \<lparr>tAuthorize = authorize, tVotes = 1\<rparr>)
          else setTally H p address (Some \<lparr>tAuthorize = authorize, tVotes = tVotes t + 1\<rparr>))"

definition hUncast :: "Heap \<Rightarrow> nat \<Rightarrow> address \<Rightarrow> bool \<Rightarrow> Heap" where
  "hUncast H p address authorize =
     (case hpTallies H (hsTally (hpSnaps H p)) address of
        None \<Rightarrow> H
      | Some t \<Rightarrow>
          if tAuthorize t \<noteq> authorize then H
          else if tVotes t > 1 then setTally H p address (Some \<lparr>tAuthorize = authorize, tVotes = tVotes t - 1\<rparr>)
          else setTally H p address None)"

text \<open>\<^verbatim>\<open>snap.Votes = append(snap.Votes[:i], snap.Votes[i+1:]...)\<close>: there is room, so the elements move down in the same array.\<close>

definition deleteVote :: "Heap \<Rightarrow> nat \<Rightarrow> nat \<Rightarrow> Heap" where
  "deleteVote H p i =
     (case hsVotes (hpSnaps H p) of
        None \<Rightarrow> H
      | Some (a, n) \<Rightarrow>
          let xs = hpArrays H a;
              H1 = H\<lparr>hpArrays := (hpArrays H)(a := take i xs @ drop (Suc i) (take n xs) @ drop (n - 1) xs)\<rparr>
          in setSnap H1 p ((hpSnaps H1 p)\<lparr>hsVotes := Some (a, n - 1)\<rparr>))"

text \<open>
  \<^verbatim>\<open>snap.Votes = append(snap.Votes, v)\<close>: in place if the capacity allows it, otherwise in a new array; \<open>grow\<close> is how many
  spare places the runtime gives an array of this length.
\<close>

definition appendVote :: "(nat \<Rightarrow> nat) \<Rightarrow> Heap \<Rightarrow> nat \<Rightarrow> nat \<Rightarrow> Heap" where
  "appendVote grow H p q =
     (let (a, n, xs) = (case hsVotes (hpSnaps H p) of None \<Rightarrow> (0, 0, []) | Some (a, n) \<Rightarrow> (a, n, hpArrays H a)) in
      if n < length xs
      then let H1 = H\<lparr>hpArrays := (hpArrays H)(a := xs[n := q])\<rparr>
           in setSnap H1 p ((hpSnaps H1 p)\<lparr>hsVotes := Some (a, Suc n)\<rparr>)
      else let (b, H1) = newArray (take n xs @ [q] @ replicate (grow (Suc n)) 0) H
           in setSnap H1 p ((hpSnaps H1 p)\<lparr>hsVotes := Some (b, Suc n)\<rparr>))"

section \<open>Applying headers\<close>

text \<open>The three loops over the votes. The first ranges over the slice it found; the others read the slice at each turn.\<close>

fun hDropPrevious :: "Heap \<Rightarrow> nat \<Rightarrow> address \<Rightarrow> address \<Rightarrow> nat \<Rightarrow> nat list \<Rightarrow> Heap" where
  "hDropPrevious H p signer candidate i [] = H"
| "hDropPrevious H p signer candidate i (q # qs) =
     (let v = hpVotes H q in
      if Signer v = signer \<and> Address v = candidate
      then deleteVote (hUncast H p candidate (Authorize v)) p i
      else hDropPrevious H p signer candidate (Suc i) qs)"

partial_function (option) hDropVotesBy :: "Heap \<Rightarrow> nat \<Rightarrow> address \<Rightarrow> nat \<Rightarrow> Heap option" where
  [code]: "hDropVotesBy H p candidate i =
     (if i < length (votePtrs H p)
      then let v = hpVotes H (votePtrs H p ! i) in
        if Signer v = candidate
        then hDropVotesBy (deleteVote (hUncast H p (Address v) (Authorize v)) p i) p candidate i
        else hDropVotesBy H p candidate (Suc i)
      else Some H)"

partial_function (option) hDropVotesFor :: "Heap \<Rightarrow> nat \<Rightarrow> address \<Rightarrow> nat \<Rightarrow> Heap option" where
  [code]: "hDropVotesFor H p candidate i =
     (if i < length (votePtrs H p)
      then if Address (hpVotes H (votePtrs H p ! i)) = candidate
        then hDropVotesFor (deleteVote H p i) p candidate i
        else hDropVotesFor H p candidate (Suc i)
      else Some H)"

definition hResolveVote :: "Heap \<Rightarrow> nat \<Rightarrow> address \<Rightarrow> bool \<Rightarrow> Heap option" where
  "hResolveVote H p candidate authorize =
     Option.bind
       (if authorize then Some (setSigners H p (insert candidate (hpSets H (hsSigners (hpSnaps H p)))))
        else let H1 = setSigners H p (hpSets H (hsSigners (hpSnaps H p)) - {candidate});
                 H2 = setRecents H1 p (filter (\<lambda>(blk, addr). addr \<noteq> candidate) (hpRecents H1 (hsRecents (hpSnaps H1 p))))
             in hDropVotesBy H2 p candidate 0)
       (\<lambda>H3. map_option (\<lambda>H4. setTally H4 p candidate None) (hDropVotesFor H3 p candidate 0))"

definition hCastVote :: "(nat \<Rightarrow> nat) \<Rightarrow> Heap \<Rightarrow> nat \<Rightarrow> address \<Rightarrow> u64 \<Rightarrow> address \<Rightarrow> bool \<Rightarrow> Heap option" where
  "hCastVote grow H p signer number candidate authorize =
     (let H1 = hDropPrevious H p signer candidate 0 (votePtrs H p);
          isSigner = candidate \<in> hpSets H1 (hsSigners (hpSnaps H1 p)) in
      if (authorize \<and> \<not> isSigner) \<or> (\<not> authorize \<and> isSigner) then
        let (q, H2) = newVote \<lparr>Signer = signer, Block = number, Address = candidate, Authorize = authorize\<rparr> H1;
            H3 = hCast (appendVote grow H2 p q) p candidate authorize;
            tallied = (case hpTallies H3 (hsTally (hpSnaps H3 p)) candidate of None \<Rightarrow> 0 | Some t \<Rightarrow> tVotes t)
        in if tallied > card (hpSets H3 (hsSigners (hpSnaps H3 p))) div 2 then hResolveVote H3 p candidate authorize
           else Some H3
      else Some H1)"

definition hEpochReset :: "Heap \<Rightarrow> nat \<Rightarrow> header \<Rightarrow> (clique_error, Heap) result" where
  "hEpochReset H p h =
     rbind (slice (int extraVanity) (int (length (Extra h)) - int extraSeal) (Extra h)) (\<lambda>signerData.
       let (sg, H1) = newSet (set (addrs_of signerData)) H;
           H2 = setSnap H1 p ((hpSnaps H1 p)\<lparr>hsSigners := sg, hsVotes := None\<rparr>);
           (tl, H3) = newTally Map.empty H2
       in Ok (setSnap H3 p ((hpSnaps H3 p)\<lparr>hsTally := tl\<rparr>)))"

definition hEvict :: "Heap \<Rightarrow> nat \<Rightarrow> u64 \<Rightarrow> Heap" where
  "hEvict H p number =
     (let limit = of_nat (card (hpSets H (hsSigners (hpSnaps H p))) div 2 + 1) in
      if number \<ge> limit then setRecents H p (AList.delete (number - limit) (hpRecents H (hsRecents (hpSnaps H p)))) else H)"

text \<open>An early return leaves the memory as it is then; the result carries no snapshot.\<close>

definition hApplyHeader ::
    "(nat \<Rightarrow> nat) \<Rightarrow> geth \<Rightarrow> u64 \<Rightarrow> nat \<Rightarrow> Heap \<Rightarrow> header \<Rightarrow> (Heap \<times> (clique_error, unit) result) option" where
  "hApplyHeader grow G epoch p H h =
     (case number_of h of
        Err e \<Rightarrow> Some (H, Err e)
      | Panic \<Rightarrow> Some (H, Panic)
      | Ok number \<Rightarrow>
          if epoch = 0 then Some (H, Panic)
          else (case (if number mod epoch = 0 then hEpochReset H p h else Ok H) of
              Err e \<Rightarrow> Some (H, Err e)
            | Panic \<Rightarrow> Some (H, Panic)
            | Ok H1 \<Rightarrow>
                let H2 = hEvict H1 p number in
                (case SignerFromHeader G h of
                   Err e \<Rightarrow> Some (H2, Err e)
                 | Panic \<Rightarrow> Some (H2, Panic)
                 | Ok signer \<Rightarrow>
                     if signer \<notin> hpSets H2 (hsSigners (hpSnaps H2 p)) then Some (H2, Err ErrUnauthorizedSigner)
                     else if list_ex (\<lambda>(_, recent). recent = signer) (hpRecents H2 (hsRecents (hpSnaps H2 p)))
                     then Some (H2, Err ErrRecentlySigned)
                     else
                       let H3 = setRecents H2 p (AList.update number signer (hpRecents H2 (hsRecents (hpSnaps H2 p)))) in
                       map_option (\<lambda>H4. (setSnap H4 p ((hpSnaps H4 p)\<lparr>hsNumber := number, hsHash := hdrHash G h\<rparr>), Ok ()))
                         (case headerVote epoch number h of
                            None \<Rightarrow> Some H3
                          | Some (candidate, authorize) \<Rightarrow> hCastVote grow H3 p signer number candidate authorize))))"

fun hApplyLoop ::
    "(nat \<Rightarrow> nat) \<Rightarrow> geth \<Rightarrow> u64 \<Rightarrow> nat \<Rightarrow> Heap \<Rightarrow> header list \<Rightarrow> (Heap \<times> (clique_error, unit) result) option" where
  "hApplyLoop grow G epoch p H [] = Some (H, Ok ())"
| "hApplyLoop grow G epoch p H (h # hs) =
     (case hApplyHeader grow G epoch p H h of
        Some (H1, Ok _) \<Rightarrow> hApplyLoop grow G epoch p H1 hs
      | r \<Rightarrow> r)"

definition hApply ::
    "(nat \<Rightarrow> nat) \<Rightarrow> geth \<Rightarrow> u64 \<Rightarrow> Heap \<Rightarrow> nat \<Rightarrow> header list \<Rightarrow> (Heap \<times> (clique_error, nat) result) option" where
  "hApply grow G epoch H s headers =
     (case headers of
        [] \<Rightarrow> Some (H, Ok s)
      | h # hs \<Rightarrow>
          (case rbind (number_of h) (\<lambda>n0. if n0 \<noteq> hsNumber (hpSnaps H s) + 1 then Err ErrNotNext else contiguous n0 hs) of
             Err e \<Rightarrow> Some (H, Err e)
           | Panic \<Rightarrow> Some (H, Panic)
           | Ok _ \<Rightarrow>
               let (p, H1) = copySnap H s in
               map_option (\<lambda>(H2, r). (H2, rbind r (\<lambda>_. Ok p))) (hApplyLoop grow G epoch p H1 headers)))"

section \<open>Ownership\<close>

text \<open>
  Everything reached from the pointer is allocated, and the objects that are written lie at or above \<open>b\<close>. With
  \<open>b = 0\<close> this says that the pointer is a snapshot.
\<close>

definition own :: "nat \<Rightarrow> Heap \<Rightarrow> nat \<Rightarrow> bool" where
  "own b H p \<longleftrightarrow> (let s = hpSnaps H p in
     p \<in> {b..<hpNext H} \<and> hsSigners s \<in> {b..<hpNext H} \<and> hsRecents s \<in> {b..<hpNext H} \<and> hsTally s \<in> {b..<hpNext H} \<and>
     (\<forall>a n. hsVotes s = Some (a, n) \<longrightarrow> a \<in> {b..<hpNext H} \<and> n \<le> length (hpArrays H a)) \<and>
     (\<forall>q \<in> set (votePtrs H p). q < hpNext H))"

definition preserved :: "nat \<Rightarrow> Heap \<Rightarrow> Heap \<Rightarrow> bool" where
  "preserved b H H' \<longleftrightarrow> hpNext H \<le> hpNext H' \<and>
     (\<forall>q < b. hpSnaps H' q = hpSnaps H q \<and> hpSets H' q = hpSets H q \<and> hpRecents H' q = hpRecents H q \<and>
        hpTallies H' q = hpTallies H q \<and> hpArrays H' q = hpArrays H q \<and> hpVotes H' q = hpVotes H q)"

lemma preserved_refl [simp]: "preserved b H H"
  by (simp add: preserved_def)

lemma preserved_trans: "preserved b H H1 \<Longrightarrow> preserved b H1 H2 \<Longrightarrow> preserved b H H2"
  by (simp add: preserved_def)

lemma preserved_mono: "preserved b H H' \<Longrightarrow> c \<le> b \<Longrightarrow> preserved c H H'"
  by (simp add: preserved_def)

text \<open>A snapshot below the bound is still there, with the same contents.\<close>

lemma preserved_snapshot:
  assumes "preserved (hpNext H) H H'" and "own 0 H q"
  shows "absSnap H' q = absSnap H q \<and> own 0 H' q"
proof -
  have o: "q < hpNext H" "hsSigners (hpSnaps H q) < hpNext H" "hsRecents (hpSnaps H q) < hpNext H" "hsTally (hpSnaps H q) < hpNext H"
    "\<And>a n. hsVotes (hpSnaps H q) = Some (a, n) \<Longrightarrow> a < hpNext H \<and> n \<le> length (hpArrays H a)"
    "\<And>v. v \<in> set (votePtrs H q) \<Longrightarrow> v < hpNext H"
    using assms(2) by (auto simp: own_def Let_def)
  note pr = assms(1) [unfolded preserved_def]
  have s: "hpSnaps H' q = hpSnaps H q" using pr o(1) by blast
  have v: "votePtrs H' q = votePtrs H q" using pr o(5) by (auto simp: votePtrs_def s split: option.split)
  have vs: "map (hpVotes H') (votePtrs H q) = map (hpVotes H) (votePtrs H q)" using pr o(6) by (intro map_cong) auto
  have abs: "absSnap H' q = absSnap H q" using pr o(2-4) by (simp add: absSnap_def Let_def s v vs)
  have nx: "x < hpNext H \<Longrightarrow> x < hpNext H'" for x using pr by simp
  have "\<forall>x \<in> set (votePtrs H q). x < hpNext H'" using o(6) nx by blast
  moreover have "a < hpNext H' \<and> n \<le> length (hpArrays H' a)" if "hsVotes (hpSnaps H q) = Some (a, n)" for a n
    using o(5) [OF that] nx pr by simp
  ultimately have "own 0 H' q" using o(1-4) nx unfolding own_def Let_def s v by simp
  with abs show ?thesis by blast
qed

text \<open>One step: the pointer stays owned and stands for \<open>t\<close>, and nothing below the bound is written.\<close>

definition stands :: "nat \<Rightarrow> Heap \<Rightarrow> nat \<Rightarrow> Heap \<Rightarrow> Snapshot \<Rightarrow> bool" where
  "stands b H p H' t \<longleftrightarrow> own b H' p \<and> absSnap H' p = t \<and> preserved b H H'"

lemma stands_refl: "own b H p \<Longrightarrow> stands b H p H (absSnap H p)"
  by (simp add: stands_def)

lemma stands_trans: "stands b H p H1 t \<Longrightarrow> stands b H1 p H2 u \<Longrightarrow> stands b H p H2 u"
  by (auto simp: stands_def intro: preserved_trans)

section \<open>Single writes\<close>

lemma votePtrs_cong:
  "hsVotes (hpSnaps H' p) = hsVotes (hpSnaps H p) \<Longrightarrow> hpArrays H' = hpArrays H \<Longrightarrow> votePtrs H' p = votePtrs H p"
  by (simp add: votePtrs_def split: option.split)

lemma setTally_stands:
  assumes "own b H p"
  shows "stands b H p (setTally H p a t) ((absSnap H p)\<lparr>TallyOf := (TallyOf (absSnap H p))(a := t)\<rparr>)"
proof -
  have v: "votePtrs (setTally H p a t) p = votePtrs H p" by (rule votePtrs_cong) (simp_all add: setTally_def Let_def)
  then have "own b (setTally H p a t) p" using assms unfolding own_def Let_def by (simp add: setTally_def Let_def)
  moreover have "preserved b H (setTally H p a t)" using assms by (simp add: preserved_def setTally_def own_def Let_def)
  moreover have "absSnap (setTally H p a t) p = (absSnap H p)\<lparr>TallyOf := (TallyOf (absSnap H p))(a := t)\<rparr>"
    using v by (simp add: absSnap_def Let_def setTally_def)
  ultimately show ?thesis by (simp add: stands_def)
qed

lemma setSigners_stands:
  assumes "own b H p"
  shows "stands b H p (setSigners H p x) ((absSnap H p)\<lparr>Signers := x\<rparr>)"
proof -
  have v: "votePtrs (setSigners H p x) p = votePtrs H p" by (rule votePtrs_cong) (simp_all add: setSigners_def)
  then have "own b (setSigners H p x) p" using assms unfolding own_def Let_def by (simp add: setSigners_def)
  moreover have "preserved b H (setSigners H p x)" using assms by (simp add: preserved_def setSigners_def own_def Let_def)
  moreover have "absSnap (setSigners H p x) p = (absSnap H p)\<lparr>Signers := x\<rparr>"
    using v by (simp add: absSnap_def Let_def setSigners_def)
  ultimately show ?thesis by (simp add: stands_def)
qed

lemma setRecents_stands:
  assumes "own b H p"
  shows "stands b H p (setRecents H p x) ((absSnap H p)\<lparr>Recents := x\<rparr>)"
proof -
  have v: "votePtrs (setRecents H p x) p = votePtrs H p" by (rule votePtrs_cong) (simp_all add: setRecents_def)
  then have "own b (setRecents H p x) p" using assms unfolding own_def Let_def by (simp add: setRecents_def)
  moreover have "preserved b H (setRecents H p x)" using assms by (simp add: preserved_def setRecents_def own_def Let_def)
  moreover have "absSnap (setRecents H p x) p = (absSnap H p)\<lparr>Recents := x\<rparr>"
    using v by (simp add: absSnap_def Let_def setRecents_def)
  ultimately show ?thesis by (simp add: stands_def)
qed

lemma setPosition_stands:
  assumes "own b H p"
  shows "stands b H p (setSnap H p ((hpSnaps H p)\<lparr>hsNumber := n, hsHash := x\<rparr>)) ((absSnap H p)\<lparr>snNumber := n, snHash := x\<rparr>)"
proof -
  let ?H = "setSnap H p ((hpSnaps H p)\<lparr>hsNumber := n, hsHash := x\<rparr>)"
  have v: "votePtrs ?H p = votePtrs H p" by (rule votePtrs_cong) (simp_all add: setSnap_def)
  then have "own b ?H p" using assms unfolding own_def Let_def by (simp add: setSnap_def)
  moreover have "preserved b H ?H" using assms by (simp add: preserved_def setSnap_def own_def Let_def)
  moreover have "absSnap ?H p = (absSnap H p)\<lparr>snNumber := n, snHash := x\<rparr>" using v by (simp add: absSnap_def Let_def setSnap_def)
  ultimately show ?thesis by (simp add: stands_def)
qed

lemma absSnap_sel [simp]:
  "TallyOf (absSnap H p) = hpTallies H (hsTally (hpSnaps H p))" "Signers (absSnap H p) = hpSets H (hsSigners (hpSnaps H p))"
  "Recents (absSnap H p) = hpRecents H (hsRecents (hpSnaps H p))" "Votes (absSnap H p) = map (hpVotes H) (votePtrs H p)"
  "snNumber (absSnap H p) = hsNumber (hpSnaps H p)"
  by (simp_all add: absSnap_def Let_def)

lemma hCast_stands: "own b H p \<Longrightarrow> stands b H p (hCast H p a x) (cast (absSnap H p) a x)"
  using setTally_stands [of b H p a] by (simp add: hCast_def cast_def split: option.split)

lemma hUncast_stands: "own b H p \<Longrightarrow> stands b H p (hUncast H p a x) (uncast (absSnap H p) a x)"
  using setTally_stands [of b H p a] stands_refl [of b H p] by (simp add: hUncast_def uncast_def split: option.split)

lemma hUncast_votes: "votePtrs (hUncast H p a x) p = votePtrs H p" "hpVotes (hUncast H p a x) = hpVotes H"
proof -
  have "hsVotes (hpSnaps (hUncast H p a x) p) = hsVotes (hpSnaps H p)" "hpArrays (hUncast H p a x) = hpArrays H"
    "hpVotes (hUncast H p a x) = hpVotes H"
    by (simp_all add: hUncast_def setTally_def Let_def split: option.split)
  then show "votePtrs (hUncast H p a x) p = votePtrs H p" "hpVotes (hUncast H p a x) = hpVotes H"
    using votePtrs_cong by blast+
qed

text \<open>The votes after one is deleted in place or appended, wherever the array is.\<close>

lemma take_delete: "i < n \<Longrightarrow> n \<le> length xs \<Longrightarrow>
  take (n - 1) (take i xs @ drop (Suc i) (take n xs) @ drop (n - 1) xs) = take i (take n xs) @ drop (Suc i) (take n xs)"
  by (cases "n = Suc i") (auto simp: min_def)

lemma deleteVote_stands:
  assumes o: "own b H p" and i: "i < length (votePtrs H p)"
  shows "stands b H p (deleteVote H p i) ((absSnap H p)\<lparr>Votes := take i (Votes (absSnap H p)) @ drop (Suc i) (Votes (absSnap H p))\<rparr>)"
    and "votePtrs (deleteVote H p i) p = take i (votePtrs H p) @ drop (Suc i) (votePtrs H p)"
    and "hpVotes (deleteVote H p i) = hpVotes H"
proof -
  from i obtain a n where an: "hsVotes (hpSnaps H p) = Some (a, n)" by (auto simp: votePtrs_def split: option.split_asm)
  let ?xs = "hpArrays H a"
  have n: "n \<le> length ?xs" "b \<le> a" "a < hpNext H" using o an by (simp_all add: own_def Let_def)
  have in': "i < n" using i an n(1) by (simp add: votePtrs_def)
  define ys where "ys = take i ?xs @ drop (Suc i) (take n ?xs) @ drop (n - 1) ?xs"
  have H': "deleteVote H p i = setSnap (H\<lparr>hpArrays := (hpArrays H)(a := ys)\<rparr>) p ((hpSnaps H p)\<lparr>hsVotes := Some (a, n - 1)\<rparr>)"
    by (simp add: deleteVote_def an Let_def ys_def)
  have "votePtrs (deleteVote H p i) p = take (n - 1) ys" by (simp add: H' votePtrs_def setSnap_def)
  also have "\<dots> = take i (votePtrs H p) @ drop (Suc i) (votePtrs H p)" using take_delete [OF in' n(1)] by (simp add: votePtrs_def an ys_def)
  finally show v: "votePtrs (deleteVote H p i) p = take i (votePtrs H p) @ drop (Suc i) (votePtrs H p)" .
  show hv: "hpVotes (deleteVote H p i) = hpVotes H" by (simp add: H' setSnap_def)
  have "\<forall>q \<in> set (votePtrs (deleteVote H p i) p). q < hpNext H"
    using o unfolding v own_def Let_def by (auto dest: in_set_takeD in_set_dropD)
  moreover have "n - 1 \<le> length ys" using n(1) in' by (auto simp: min_def ys_def)
  ultimately have "own b (deleteVote H p i) p" using o n(2,3) unfolding own_def Let_def by (simp add: H' setSnap_def)
  moreover have "preserved b H (deleteVote H p i)" using o n(2) by (simp add: preserved_def H' setSnap_def own_def Let_def)
  moreover have "absSnap (deleteVote H p i) p = (absSnap H p)\<lparr>Votes := take i (Votes (absSnap H p)) @ drop (Suc i) (Votes (absSnap H p))\<rparr>"
    unfolding absSnap_def Let_def v hv by (simp add: H' setSnap_def take_map drop_map)
  ultimately show "stands b H p (deleteVote H p i) ((absSnap H p)\<lparr>Votes := take i (Votes (absSnap H p)) @ drop (Suc i) (Votes (absSnap H p))\<rparr>)"
    by (simp add: stands_def)
qed

lemma newVote_stands:
  assumes o: "own b H p" and n: "newVote v H = (q, H')"
  shows "stands b H p H' (absSnap H p)" and "q < hpNext H'" and "hpVotes H' q = v" and "votePtrs H' p = votePtrs H p"
proof -
  have H': "q = hpNext H" "H' = H\<lparr>hpVotes := (hpVotes H)(q := v), hpNext := Suc q\<rparr>" using n by (auto simp: newVote_def)
  show v: "votePtrs H' p = votePtrs H p" by (rule votePtrs_cong) (simp_all add: H'(2))
  have "map (hpVotes H') (votePtrs H p) = map (hpVotes H) (votePtrs H p)"
    using o by (intro map_cong) (auto simp: H' own_def Let_def)
  then have "absSnap H' p = absSnap H p" unfolding absSnap_def Let_def v by (simp add: H'(2))
  moreover have "own b H' p" using o unfolding own_def Let_def v by (auto simp: H')
  moreover have "preserved b H H'" using o by (simp add: preserved_def H' own_def Let_def)
  ultimately show "stands b H p H' (absSnap H p)" by (simp add: stands_def)
  show "q < hpNext H'" "hpVotes H' q = v" by (simp_all add: H')
qed

lemma appendVote_stands:
  assumes o: "own b H p" and q: "q < hpNext H"
  shows "stands b H p (appendVote grow H p q) ((absSnap H p)\<lparr>Votes := Votes (absSnap H p) @ [hpVotes H q]\<rparr>)"
proof -
  obtain a n xs where an: "(case hsVotes (hpSnaps H p) of None \<Rightarrow> (0, 0, []) | Some (a, n) \<Rightarrow> (a, n, hpArrays H a)) = (a, n, xs)"
    by (rule prod_cases3)
  have ptrs: "votePtrs H p = take n xs \<and> n \<le> length xs"
  proof (cases "hsVotes (hpSnaps H p)")
    case None
    then show ?thesis using an by (simp add: votePtrs_def)
  next
    case (Some x)
    then show ?thesis using an o by (cases x) (simp add: votePtrs_def own_def Let_def)
  qed
  then have le: "n \<le> length xs" by blast
  note ptrs = ptrs [THEN conjunct1]
  have "own b (appendVote grow H p q) p \<and> votePtrs (appendVote grow H p q) p = take n xs @ [q] \<and> preserved b H (appendVote grow H p q) \<and>
      hpVotes (appendVote grow H p q) = hpVotes H \<and> (\<exists>vs. hpSnaps (appendVote grow H p q) p = (hpSnaps H p)\<lparr>hsVotes := vs\<rparr>) \<and>
      hpSets (appendVote grow H p q) = hpSets H \<and> hpRecents (appendVote grow H p q) = hpRecents H \<and>
      hpTallies (appendVote grow H p q) = hpTallies H"
  proof (cases "n < length xs")
    case True
    then have some: "hsVotes (hpSnaps H p) = Some (a, n)" "xs = hpArrays H a"
      using an by (cases "hsVotes (hpSnaps H p)"; simp split: prod.split_asm)+
    let ?H = "setSnap (H\<lparr>hpArrays := (hpArrays H)(a := xs[n := q])\<rparr>) p ((hpSnaps H p)\<lparr>hsVotes := Some (a, Suc n)\<rparr>)"
    have H': "appendVote grow H p q = ?H" using True unfolding appendVote_def an by (simp add: Let_def)
    have v: "votePtrs ?H p = take n xs @ [q]" using True by (simp add: votePtrs_def setSnap_def take_Suc_conv_app_nth)
    have "own b ?H p" using o q True some(1) some(2) [symmetric] ptrs unfolding own_def Let_def v by (simp add: setSnap_def)
    moreover have "preserved b H ?H" using o some(1) by (simp add: preserved_def setSnap_def own_def Let_def)
    moreover have "hpSnaps ?H p = (hpSnaps H p)\<lparr>hsVotes := Some (a, Suc n)\<rparr>" by (simp add: setSnap_def)
    moreover have "hpVotes ?H = hpVotes H" "hpSets ?H = hpSets H" "hpRecents ?H = hpRecents H" "hpTallies ?H = hpTallies H"
      by (simp_all add: setSnap_def)
    ultimately show ?thesis unfolding H' using v by blast
  next
    case False
    then have n: "n = length xs" using le by simp
    let ?H1 = "H\<lparr>hpArrays := (hpArrays H)(hpNext H := xs @ [q] @ replicate (grow (Suc n)) 0), hpNext := Suc (hpNext H)\<rparr>"
    let ?H = "setSnap ?H1 p ((hpSnaps H p)\<lparr>hsVotes := Some (hpNext H, Suc n)\<rparr>)"
    have H': "appendVote grow H p q = ?H" using False n unfolding appendVote_def an by (simp add: Let_def newArray_def)
    have v: "votePtrs ?H p = take n xs @ [q]" using n by (simp add: votePtrs_def setSnap_def)
    have "\<forall>x \<in> set (take n xs @ [q]). x < Suc (hpNext H)" using o q ptrs by (auto simp: own_def Let_def)
    then have "own b ?H p" using o n unfolding own_def Let_def v by (simp add: setSnap_def)
    moreover have "preserved b H ?H" using o by (simp add: preserved_def setSnap_def own_def Let_def)
    moreover have "hpSnaps ?H p = (hpSnaps H p)\<lparr>hsVotes := Some (hpNext H, Suc n)\<rparr>" by (simp add: setSnap_def)
    moreover have "hpVotes ?H = hpVotes H" "hpSets ?H = hpSets H" "hpRecents ?H = hpRecents H" "hpTallies ?H = hpTallies H"
      by (simp_all add: setSnap_def)
    ultimately show ?thesis unfolding H' using v by blast
  qed
  then obtain vs where f: "own b (appendVote grow H p q) p" "votePtrs (appendVote grow H p q) p = take n xs @ [q]"
    "preserved b H (appendVote grow H p q)" "hpVotes (appendVote grow H p q) = hpVotes H"
    "hpSnaps (appendVote grow H p q) p = (hpSnaps H p)\<lparr>hsVotes := vs\<rparr>" "hpSets (appendVote grow H p q) = hpSets H"
    "hpRecents (appendVote grow H p q) = hpRecents H" "hpTallies (appendVote grow H p q) = hpTallies H" by blast
  have "absSnap (appendVote grow H p q) p = (absSnap H p)\<lparr>Votes := Votes (absSnap H p) @ [hpVotes H q]\<rparr>"
    by (simp add: absSnap_def Let_def f ptrs)
  with f(1,3) show ?thesis by (simp add: stands_def)
qed

section \<open>The loops over the votes\<close>

lemma uncast_Votes [simp]: "uncast (s\<lparr>Votes := x\<rparr>) a b = (uncast s a b)\<lparr>Votes := x\<rparr>"
  by (simp add: uncast_def split: option.split)

lemma dropVotesBy_Votes: "dropVotesBy (s\<lparr>Votes := x\<rparr>) c ps vs = dropVotesBy s c ps vs"
  by (induction vs arbitrary: s ps) simp_all

text \<open>Uncasting and deleting one vote.\<close>

lemma removeVote_stands:
  assumes o: "own b H p" and v: "votePtrs H p = pre @ q # qs"
  shows "stands b H p (deleteVote (hUncast H p a x) p (length pre)) ((uncast (absSnap H p) a x)\<lparr>Votes := map (hpVotes H) (pre @ qs)\<rparr>)"
    and "votePtrs (deleteVote (hUncast H p a x) p (length pre)) p = pre @ qs"
    and "hpVotes (deleteVote (hUncast H p a x) p (length pre)) = hpVotes H"
proof -
  let ?H = "hUncast H p a x"
  note u = hUncast_stands [OF o, of a x]
  have o1: "own b ?H p" and abs: "absSnap ?H p = uncast (absSnap H p) a x" using u by (simp_all add: stands_def)
  have i: "length pre < length (votePtrs ?H p)" by (simp add: hUncast_votes v)
  note d = deleteVote_stands [OF o1 i]
  have "Votes (absSnap ?H p) = map (hpVotes H) (pre @ q # qs)" by (simp add: hUncast_votes v)
  then have "stands b ?H p (deleteVote ?H p (length pre)) ((uncast (absSnap H p) a x)\<lparr>Votes := map (hpVotes H) (pre @ qs)\<rparr>)"
    using d(1) unfolding abs by simp
  then show "stands b H p (deleteVote ?H p (length pre)) ((uncast (absSnap H p) a x)\<lparr>Votes := map (hpVotes H) (pre @ qs)\<rparr>)"
    by (rule stands_trans [OF u])
  show "votePtrs (deleteVote ?H p (length pre)) p = pre @ qs" using d(2) by (simp add: hUncast_votes v)
  show "hpVotes (deleteVote ?H p (length pre)) = hpVotes H" using d(3) by (simp add: hUncast_votes)
qed

lemma hDropPrevious_stands:
  assumes o: "own b H p" and v: "votePtrs H p = pre @ qs"
  shows "stands b H p (hDropPrevious H p signer c (length pre) qs)
    (dropPrevious (absSnap H p) signer c (rev (map (hpVotes H) pre)) (map (hpVotes H) qs))"
  using v
proof (induction qs arbitrary: pre)
  case Nil
  then show ?case using stands_refl [OF o] by simp
next
  case (Cons q qs)
  have "stands b H p (hDropPrevious H p signer c (length (pre @ [q])) qs)
    (dropPrevious (absSnap H p) signer c (rev (map (hpVotes H) (pre @ [q]))) (map (hpVotes H) qs))"
    by (rule Cons.IH) (simp add: Cons.prems)
  then show ?case using removeVote_stands(1) [OF o Cons.prems] by (simp add: Let_def rev_map)
qed

lemma hDropVotesBy_stands:
  assumes "own b H p" and "votePtrs H p = pre @ qs"
  shows "\<exists>H'. hDropVotesBy H p c (length pre) = Some H' \<and>
    stands b H p H' (dropVotesBy (absSnap H p) c (rev (map (hpVotes H) pre)) (map (hpVotes H) qs))"
  using assms
proof (induction qs arbitrary: H pre)
  case Nil
  have e: "(absSnap H p)\<lparr>Votes := map (hpVotes H) pre\<rparr> = absSnap H p" using Nil by simp
  have "stands b H p H ((absSnap H p)\<lparr>Votes := map (hpVotes H) pre\<rparr>)" unfolding e by (rule stands_refl [OF Nil(1)])
  then show ?case using Nil(2) by (subst hDropVotesBy.simps) (simp add: rev_map)
next
  case (Cons q qs)
  let ?v = "hpVotes H q"
  have unfold: "hDropVotesBy H p c (length pre) =
      (if Signer ?v = c then hDropVotesBy (deleteVote (hUncast H p (Address ?v) (Authorize ?v)) p (length pre)) p c (length pre)
       else hDropVotesBy H p c (length (pre @ [q])))"
    by (subst hDropVotesBy.simps) (simp add: Cons.prems(2) Let_def)
  show ?case
  proof (cases "Signer ?v = c")
    case True
    let ?H = "deleteVote (hUncast H p (Address ?v) (Authorize ?v)) p (length pre)"
    note r = removeVote_stands [OF Cons.prems, of "Address ?v" "Authorize ?v"]
    from r(1) have o: "own b ?H p" and abs: "absSnap ?H p = (uncast (absSnap H p) (Address ?v) (Authorize ?v))\<lparr>Votes := map (hpVotes H) (pre @ qs)\<rparr>"
      by (simp_all add: stands_def)
    from Cons.IH [OF o r(2)] obtain H' where "hDropVotesBy ?H p c (length pre) = Some H'"
      and "stands b ?H p H' (dropVotesBy (uncast (absSnap H p) (Address ?v) (Authorize ?v)) c (rev (map (hpVotes H) pre)) (map (hpVotes H) qs))"
      unfolding r(3) abs dropVotesBy_Votes by blast
    then show ?thesis using True stands_trans [OF r(1)] unfolding unfold by simp
  next
    case False
    have "\<exists>H'. hDropVotesBy H p c (length (pre @ [q])) = Some H' \<and>
      stands b H p H' (dropVotesBy (absSnap H p) c (rev (map (hpVotes H) (pre @ [q]))) (map (hpVotes H) qs))"
      by (rule Cons.IH) (simp_all add: Cons.prems)
    then show ?thesis using False unfolding unfold by simp
  qed
qed

lemma hDropVotesFor_stands:
  assumes "own b H p" and "votePtrs H p = pre @ qs"
  shows "\<exists>H'. hDropVotesFor H p c (length pre) = Some H' \<and>
    stands b H p H' ((absSnap H p)\<lparr>Votes := map (hpVotes H) pre @ filter (\<lambda>v. Address v \<noteq> c) (map (hpVotes H) qs)\<rparr>)"
  using assms
proof (induction qs arbitrary: H pre)
  case Nil
  have e: "(absSnap H p)\<lparr>Votes := map (hpVotes H) pre\<rparr> = absSnap H p" using Nil by simp
  have "stands b H p H ((absSnap H p)\<lparr>Votes := map (hpVotes H) pre\<rparr>)" unfolding e by (rule stands_refl [OF Nil(1)])
  then show ?case using Nil(2) by (subst hDropVotesFor.simps) (simp)
next
  case (Cons q qs)
  have unfold: "hDropVotesFor H p c (length pre) =
      (if Address (hpVotes H q) = c then hDropVotesFor (deleteVote H p (length pre)) p c (length pre)
       else hDropVotesFor H p c (length (pre @ [q])))"
    by (subst hDropVotesFor.simps) (simp add: Cons.prems(2))
  show ?case
  proof (cases "Address (hpVotes H q) = c")
    case True
    let ?H = "deleteVote H p (length pre)"
    have i: "length pre < length (votePtrs H p)" by (simp add: Cons.prems(2))
    note d = deleteVote_stands [OF Cons.prems(1) i]
    have v: "votePtrs ?H p = pre @ qs" using d(2) by (simp add: Cons.prems(2))
    from d(1) have o: "own b ?H p" and abs: "absSnap ?H p = (absSnap H p)\<lparr>Votes := map (hpVotes H) (pre @ qs)\<rparr>"
      by (simp_all add: stands_def Cons.prems(2))
    from Cons.IH [OF o v] obtain H' where "hDropVotesFor ?H p c (length pre) = Some H'"
      and "stands b ?H p H' ((absSnap H p)\<lparr>Votes := map (hpVotes H) pre @ filter (\<lambda>v. Address v \<noteq> c) (map (hpVotes H) qs)\<rparr>)"
      unfolding d(3) abs by auto
    then show ?thesis using True stands_trans [OF d(1)] unfolding unfold by simp
  next
    case False
    have "\<exists>H'. hDropVotesFor H p c (length (pre @ [q])) = Some H' \<and>
      stands b H p H' ((absSnap H p)\<lparr>Votes := map (hpVotes H) (pre @ [q]) @ filter (\<lambda>v. Address v \<noteq> c) (map (hpVotes H) qs)\<rparr>)"
      by (rule Cons.IH) (simp_all add: Cons.prems)
    then show ?thesis using False unfolding unfold by simp
  qed
qed

section \<open>Applying one header\<close>

text \<open>An operation that returns stands for the operation on snapshots.\<close>

definition refines :: "nat \<Rightarrow> Heap \<Rightarrow> nat \<Rightarrow> Heap option \<Rightarrow> Snapshot \<Rightarrow> bool" where
  "refines b H p r t \<longleftrightarrow> (\<exists>H'. r = Some H' \<and> stands b H p H' t)"

lemma refinesI: "stands b H p H' t \<Longrightarrow> refines b H p (Some H') t"
  by (simp add: refines_def)

lemma refines_bind:
  assumes "refines b H p r t" and "\<And>H'. own b H' p \<Longrightarrow> absSnap H' p = t \<Longrightarrow> refines b H' p (f H') u"
  shows "refines b H p (Option.bind r f) u"
proof -
  from assms(1) obtain H' where H': "r = Some H'" "stands b H p H' t" unfolding refines_def by blast
  then have "refines b H' p (f H') u" using assms(2) by (simp add: stands_def)
  then show ?thesis using H' stands_trans unfolding refines_def by fastforce
qed

lemma refines_after: "stands b H p H1 s \<Longrightarrow> refines b H1 p r t \<Longrightarrow> refines b H p r t"
  using stands_trans unfolding refines_def by blast

lemma standsD: "stands b H p H' t \<Longrightarrow> own b H' p" "stands b H p H' t \<Longrightarrow> absSnap H' p = t"
  by (simp_all add: stands_def)

lemma hResolveVote_refines:
  assumes o: "own b H p"
  shows "refines b H p (hResolveVote H p c x) (resolveVote (absSnap H p) c x)"
proof -
  let ?t = "if x then (absSnap H p)\<lparr>Signers := insert c (Signers (absSnap H p))\<rparr>
    else let s1 = (absSnap H p)\<lparr>Signers := Signers (absSnap H p) - {c}, Recents := filter (\<lambda>(blk, addr). addr \<noteq> c) (Recents (absSnap H p))\<rparr>
         in dropVotesBy s1 c [] (Votes s1)"
  have first: "refines b H p (if x then Some (setSigners H p (insert c (hpSets H (hsSigners (hpSnaps H p)))))
        else let H1 = setSigners H p (hpSets H (hsSigners (hpSnaps H p)) - {c});
                 H2 = setRecents H1 p (filter (\<lambda>(blk, addr). addr \<noteq> c) (hpRecents H1 (hsRecents (hpSnaps H1 p))))
             in hDropVotesBy H2 p c 0) ?t"
  proof (cases x)
    case True
    then show ?thesis using setSigners_stands [OF o, of "insert c (Signers (absSnap H p))"] by (simp add: refinesI)
  next
    case False
    let ?H1 = "setSigners H p (Signers (absSnap H p) - {c})"
    let ?H2 = "setRecents ?H1 p (filter (\<lambda>(blk, addr). addr \<noteq> c) (Recents (absSnap ?H1 p)))"
    note s1 = setSigners_stands [OF o, of "Signers (absSnap H p) - {c}"]
    note s2 = setRecents_stands [OF standsD(1) [OF s1], of "filter (\<lambda>(blk, addr). addr \<noteq> c) (Recents (absSnap ?H1 p))"]
    note o2 = standsD(1) [OF s2]
    have abs: "absSnap ?H2 p = (absSnap H p)\<lparr>Signers := Signers (absSnap H p) - {c}, Recents := filter (\<lambda>(blk, addr). addr \<noteq> c) (Recents (absSnap H p))\<rparr>"
      by (rule trans [OF standsD(2) [OF s2]]) (simp only: standsD(2) [OF s1], simp)
    from hDropVotesBy_stands [OF o2, of "[]" "votePtrs ?H2 p" c]
    have "refines b ?H2 p (hDropVotesBy ?H2 p c 0) (dropVotesBy (absSnap ?H2 p) c [] (Votes (absSnap ?H2 p)))"
      by (simp add: refines_def)
    then have "refines b H p (hDropVotesBy ?H2 p c 0) (dropVotesBy (absSnap ?H2 p) c [] (Votes (absSnap ?H2 p)))"
      using refines_after stands_trans [OF s1 s2] by blast
    then show ?thesis using False unfolding abs by (simp add: Let_def del: absSnap_sel add: absSnap_sel [symmetric])
  qed
  have second: "refines b H' p (map_option (\<lambda>H4. setTally H4 p c None) (hDropVotesFor H' p c 0)) (dropVotesFor ?t c)"
    if H': "own b H' p" "absSnap H' p = ?t" for H'
  proof -
    from hDropVotesFor_stands [OF H'(1), of "[]" "votePtrs H' p" c] obtain H4 where h: "hDropVotesFor H' p c 0 = Some H4"
      and s4: "stands b H' p H4 ((absSnap H' p)\<lparr>Votes := filter (\<lambda>v. Address v \<noteq> c) (Votes (absSnap H' p))\<rparr>)" by auto
    note s5 = setTally_stands [OF standsD(1) [OF s4], of c None]
    have "stands b H' p (setTally H4 p c None) (dropVotesFor (absSnap H' p) c)"
      using stands_trans [OF s4 s5] unfolding standsD(2) [OF s4] by (simp add: dropVotesFor_def del: absSnap_sel)
    then show ?thesis unfolding h H'(2) by (simp add: refines_def)
  qed
  show ?thesis unfolding hResolveVote_def resolveVote_def by (rule refines_bind [OF first second])
qed

lemma hCastVote_refines:
  assumes o: "own b H p"
  shows "refines b H p (hCastVote grow H p signer number c x) (castVote (absSnap H p) signer number c x)"
proof -
  let ?H1 = "hDropPrevious H p signer c 0 (votePtrs H p)"
  let ?s1 = "dropPrevious (absSnap H p) signer c [] (Votes (absSnap H p))"
  let ?v = "\<lparr>Signer = signer, Block = number, Address = c, Authorize = x\<rparr>"
  have s1: "stands b H p ?H1 ?s1" using hDropPrevious_stands [OF o, of "[]" "votePtrs H p"] by simp
  have vv: "validVote ?s1 c x \<longleftrightarrow> x \<and> c \<notin> hpSets ?H1 (hsSigners (hpSnaps ?H1 p)) \<or> \<not> x \<and> c \<in> hpSets ?H1 (hsSigners (hpSnaps ?H1 p))"
    unfolding validVote_def standsD(2) [OF s1, symmetric] by (simp add: Let_def)
  show ?thesis
  proof (cases "validVote ?s1 c x")
    case False
    have "hCastVote grow H p signer number c x = Some ?H1"
      unfolding hCastVote_def Let_def by (rule if_not_P) (use False vv in blast)
    moreover have "castVote (absSnap H p) signer number c x = ?s1" unfolding castVote_def Let_def by (rule if_not_P [OF False])
    ultimately show ?thesis using s1 by (simp add: refinesI del: absSnap_sel)
  next
    case True
    obtain q H2 where n: "newVote ?v ?H1 = (q, H2)" by (cases "newVote ?v ?H1") auto
    note s2 = newVote_stands [OF standsD(1) [OF s1] n]
    note s3 = appendVote_stands [OF standsD(1) [OF s2(1)] s2(2), of grow]
    note s4 = hCast_stands [OF standsD(1) [OF s3], of c x]
    let ?H4 = "hCast (appendVote grow H2 p q) p c x"
    let ?s2 = "cast (?s1\<lparr>Votes := Votes ?s1 @ [?v]\<rparr>) c x"
    have abs: "absSnap ?H4 p = ?s2"
      unfolding standsD(2) [OF s4] standsD(2) [OF s3] standsD(2) [OF s2(1)] s2(3) standsD(2) [OF s1] ..
    have o4: "own b ?H4 p" by (rule standsD(1) [OF s4])
    have st: "stands b H p ?H4 ?s2" using stands_trans [OF s1 stands_trans [OF s2(1) stands_trans [OF s3 s4]]] abs unfolding stands_def by simp
    have tal: "hpTallies ?H4 (hsTally (hpSnaps ?H4 p)) = TallyOf ?s2" "hpSets ?H4 (hsSigners (hpSnaps ?H4 p)) = Signers ?s2"
      unfolding abs [symmetric] by simp_all
    have h: "hCastVote grow H p signer number c x =
        (if (case TallyOf ?s2 c of None \<Rightarrow> 0 | Some t \<Rightarrow> tVotes t) > card (Signers ?s2) div 2 then hResolveVote ?H4 p c x else Some ?H4)"
      using True vv unfolding hCastVote_def Let_def n prod.case tal by simp
    have g: "castVote (absSnap H p) signer number c x =
        (if (case TallyOf ?s2 c of None \<Rightarrow> 0 | Some t \<Rightarrow> tVotes t) > card (Signers ?s2) div 2 then resolveVote ?s2 c x else ?s2)"
      using True unfolding castVote_def Let_def by (simp del: absSnap_sel)
    show ?thesis unfolding h g using refines_after [OF st] hResolveVote_refines [OF o4, of c x] st unfolding abs
      by (simp add: refinesI del: absSnap_sel)
  qed
qed

lemma hEpochReset_stands:
  assumes o: "own b H p"
  shows "case epochReset (absSnap H p) h of Ok t \<Rightarrow> \<exists>H'. hEpochReset H p h = Ok H' \<and> stands b H p H' t
    | Err e \<Rightarrow> hEpochReset H p h = Err e | Panic \<Rightarrow> hEpochReset H p h = Panic"
proof (cases "slice (int extraVanity) (int (length (Extra h)) - int extraSeal) (Extra h) :: (clique_error, bytes) result")
  case (Ok d)
  let ?H = "\<lparr>hpNext = Suc (Suc (hpNext H)), hpSnaps = (hpSnaps H)(p := (hpSnaps H p)\<lparr>hsSigners := hpNext H, hsVotes := None, hsTally := Suc (hpNext H)\<rparr>),
     hpSets = (hpSets H)(hpNext H := set (addrs_of d)), hpRecents = hpRecents H,
     hpTallies = (hpTallies H)(Suc (hpNext H) := Map.empty), hpArrays = hpArrays H, hpVotes = hpVotes H\<rparr>"
  have "hEpochReset H p h = Ok ?H" using Ok by (simp add: hEpochReset_def new_defs setSnap_def Let_def)
  moreover have "stands b H p ?H ((absSnap H p)\<lparr>Signers := set (addrs_of d), Votes := [], TallyOf := Map.empty\<rparr>)"
  proof -
    have v: "votePtrs ?H p = []" by (simp add: votePtrs_def)
    have "own b ?H p" using o unfolding own_def Let_def v by auto
    moreover have "preserved b H ?H" using o by (auto simp: preserved_def own_def Let_def)
    ultimately show ?thesis using v by (simp add: stands_def absSnap_def Let_def)
  qed
  ultimately show ?thesis using Ok by (simp add: epochReset_def)
next
  case (Err e)
  then show ?thesis by (simp add: epochReset_def hEpochReset_def)
next
  case Panic
  then show ?thesis by (simp add: epochReset_def hEpochReset_def)
qed

lemma hEvict_stands: "own b H p \<Longrightarrow> stands b H p (hEvict H p n) (evictRecent (absSnap H p) n)"
  using setRecents_stands [of b H p] stands_refl [of b H p] by (simp add: hEvict_def evictRecent_def limitOf_def Let_def)

section \<open>Applying headers\<close>

text \<open>A call refines a call on snapshots: same outcome, same snapshot on success, nothing written below the bound.\<close>

definition call_refines ::
    "nat \<Rightarrow> Heap \<Rightarrow> nat \<Rightarrow> (Heap \<times> (clique_error, unit) result) option \<Rightarrow> (clique_error, Snapshot) result \<Rightarrow> bool" where
  "call_refines b H p r s \<longleftrightarrow> (\<exists>H'. preserved b H H' \<and>
     (case s of Ok t \<Rightarrow> r = Some (H', Ok ()) \<and> stands b H p H' t | Err e \<Rightarrow> r = Some (H', Err e) | Panic \<Rightarrow> r = Some (H', Panic)))"

lemma call_refinesI:
  "stands b H p H' t \<Longrightarrow> call_refines b H p (Some (H', Ok ())) (Ok t)"
  "preserved b H H' \<Longrightarrow> call_refines b H p (Some (H', Err e)) (Err e)"
  "preserved b H H' \<Longrightarrow> call_refines b H p (Some (H', Panic)) Panic"
  by (auto simp: call_refines_def stands_def)

lemma call_refines_after: "stands b H p H1 s \<Longrightarrow> call_refines b H1 p r t \<Longrightarrow> call_refines b H p r t"
  unfolding call_refines_def stands_def by (cases t) (auto intro: preserved_trans)

text \<open>The part after the eviction: the signer is recovered, checked and recorded, then the vote is processed.\<close>

lemma signAndVote_refines:
  assumes o: "own b H p"
  shows "call_refines b H p
    (case SignerFromHeader G h of
       Err e \<Rightarrow> Some (H, Err e)
     | Panic \<Rightarrow> Some (H, Panic)
     | Ok signer \<Rightarrow>
         if signer \<notin> hpSets H (hsSigners (hpSnaps H p)) then Some (H, Err ErrUnauthorizedSigner)
         else if list_ex (\<lambda>(_, recent). recent = signer) (hpRecents H (hsRecents (hpSnaps H p))) then Some (H, Err ErrRecentlySigned)
         else
           let H3 = setRecents H p (AList.update number signer (hpRecents H (hsRecents (hpSnaps H p)))) in
           map_option (\<lambda>H4. (setSnap H4 p ((hpSnaps H4 p)\<lparr>hsNumber := number, hsHash := hdrHash G h\<rparr>), Ok ()))
             (case headerVote epoch number h of
                None \<Rightarrow> Some H3
              | Some (candidate, authorize) \<Rightarrow> hCastVote grow H3 p signer number candidate authorize))
    (rbind (SignerFromHeader G h) (\<lambda>signer.
       if \<not> IsAuthorized (absSnap H p) signer then Err ErrUnauthorizedSigner
       else if list_ex (\<lambda>(_, recent). recent = signer) (Recents (absSnap H p)) then Err ErrRecentlySigned
       else
         let s3 = (absSnap H p)\<lparr>Recents := AList.update number signer (Recents (absSnap H p))\<rparr>;
             s4 = (case headerVote epoch number h of
                     None \<Rightarrow> s3
                   | Some (candidate, authorize) \<Rightarrow> castVote s3 signer number candidate authorize)
         in Ok (s4\<lparr>snNumber := number, snHash := hdrHash G h\<rparr>)))"
proof (cases "SignerFromHeader G h")
  case (Ok signer)
  let ?H3 = "setRecents H p (AList.update number signer (Recents (absSnap H p)))"
  let ?s3 = "(absSnap H p)\<lparr>Recents := AList.update number signer (Recents (absSnap H p))\<rparr>"
  have s3: "stands b H p ?H3 ?s3" by (rule setRecents_stands [OF o])
  have o3: "own b ?H3 p" and abs3: "absSnap ?H3 p = ?s3" using s3 by (simp_all add: stands_def)
  have vote: "refines b ?H3 p
      (case headerVote epoch number h of None \<Rightarrow> Some ?H3 | Some (c, x) \<Rightarrow> hCastVote grow ?H3 p signer number c x)
      (case headerVote epoch number h of None \<Rightarrow> ?s3 | Some (c, x) \<Rightarrow> castVote ?s3 signer number c x)"
    using refinesI [OF stands_refl [OF o3]] hCastVote_refines [OF o3, where grow = grow and signer = signer and number = number] unfolding abs3
    by (simp del: absSnap_sel split: option.split prod.split)
  then obtain H4 where h4: "(case headerVote epoch number h of None \<Rightarrow> Some ?H3 | Some (c, x) \<Rightarrow> hCastVote grow ?H3 p signer number c x) = Some H4"
    and s4: "stands b ?H3 p H4 (case headerVote epoch number h of None \<Rightarrow> ?s3 | Some (c, x) \<Rightarrow> castVote ?s3 signer number c x)"
    unfolding refines_def by blast
  note s5 = setPosition_stands [OF standsD(1) [OF s4], where n = number and x = "hdrHash G h"]
  have fin: "stands b H p (setSnap H4 p ((hpSnaps H4 p)\<lparr>hsNumber := number, hsHash := hdrHash G h\<rparr>))
     ((case headerVote epoch number h of None \<Rightarrow> ?s3 | Some (c, x) \<Rightarrow> castVote ?s3 signer number c x)\<lparr>snNumber := number, snHash := hdrHash G h\<rparr>)"
    using stands_trans [OF s3 stands_trans [OF s4 s5]] unfolding standsD(2) [OF s4] .
  show ?thesis
    unfolding Ok result.case rbind.simps IsAuthorized_def Let_def absSnap_sel(2,3) [symmetric] h4 option.map
    using call_refinesI(1) [OF fin] call_refinesI(2) [of b H H p] by (simp del: absSnap_sel)
qed (simp_all add: call_refinesI)

lemma hApplyHeader_refines:
  assumes o: "own b H p"
  shows "call_refines b H p (hApplyHeader grow G epoch p H h) (applyHeader G epoch (absSnap H p) h)"
proof (cases "hnum h")
  case None
  then have nb: "number_of h = (Panic :: (clique_error, u64) result)" by (simp add: hnum_def number_of_def)
  show ?thesis unfolding hApplyHeader_def applyHeader_def nb by (simp add: call_refinesI)
next
  case (Some number)
  then have nb: "number_of h = (Ok number :: (clique_error, u64) result)" by simp
  show ?thesis
  proof (cases "epoch = 0")
    case True
    then show ?thesis unfolding hApplyHeader_def applyHeader_def nb by (simp add: call_refinesI)
  next
    case ep: False
    let ?s = "if number mod epoch = 0 then epochReset (absSnap H p) h else Ok (absSnap H p)"
    let ?r = "if number mod epoch = 0 then hEpochReset H p h else Ok H"
    have reset: "case ?s of Ok t \<Rightarrow> \<exists>H'. ?r = Ok H' \<and> stands b H p H' t | Err e \<Rightarrow> ?r = Err e | Panic \<Rightarrow> ?r = Panic"
      using hEpochReset_stands [OF o, of h] stands_refl [OF o] by simp
    note def = hApplyHeader_def applyHeader_def nb result.case rbind.simps if_not_P [OF ep]
    show ?thesis
    proof (cases ?s)
      case (Err e)
      then have "?r = Err e" using reset by simp
      then show ?thesis unfolding def Err by (simp add: call_refinesI)
    next
      case Panic
      then have "?r = Panic" using reset by simp
      then show ?thesis unfolding def Panic by (simp add: call_refinesI)
    next
      case (Ok s1)
      with reset obtain H1 where H1: "?r = Ok H1" "stands b H p H1 s1" by auto
      have s2: "stands b H p (hEvict H1 p number) (evictRecent s1 number)"
        using stands_trans [OF H1(2) hEvict_stands [OF standsD(1) [OF H1(2)]]] unfolding standsD(2) [OF H1(2)] .
      from call_refines_after [OF s2 signAndVote_refines [OF standsD(1) [OF s2], where G = G and h = h and number = number and epoch = epoch and grow = grow]]
      show ?thesis unfolding def Ok H1(1) Let_def standsD(2) [OF s2] .
    qed
  qed
qed

lemma hApplyLoop_refines:
  assumes "own b H p"
  shows "call_refines b H p (hApplyLoop grow G epoch p H hs) (rfold (applyHeader G epoch) (absSnap H p) hs)"
  using assms
proof (induction hs arbitrary: H)
  case Nil
  then show ?case by (simp add: call_refinesI stands_refl)
next
  case (Cons h hs)
  note c = hApplyHeader_refines [OF Cons.prems, of grow G epoch h]
  show ?case
  proof (cases "applyHeader G epoch (absSnap H p) h")
    case (Ok t)
    with c obtain H' where H': "hApplyHeader grow G epoch p H h = Some (H', Ok ())" "stands b H p H' t"
      unfolding call_refines_def by auto
    have "call_refines b H' p (hApplyLoop grow G epoch p H' hs) (rfold (applyHeader G epoch) t hs)"
      using Cons.IH [OF standsD(1) [OF H'(2)]] unfolding standsD(2) [OF H'(2)] .
    then show ?thesis using call_refines_after [OF H'(2)] H'(1) Ok by simp
  next
    case (Err e)
    with c obtain H' where "hApplyHeader grow G epoch p H h = Some (H', Err e)" "preserved b H H'" unfolding call_refines_def by auto
    then show ?thesis using Err by (simp add: call_refinesI)
  next
    case Panic
    with c obtain H' where "hApplyHeader grow G epoch p H h = Some (H', Panic)" "preserved b H H'" unfolding call_refines_def by auto
    then show ?thesis using Panic by (simp add: call_refinesI)
  qed
qed

lemma copyVotes_fresh:
  assumes "copyVotes vs H = (qs, H')" and "\<forall>v \<in> set vs. v < hpNext H"
  shows "length qs = length vs \<and> map (hpVotes H') qs = map (hpVotes H) vs \<and> (\<forall>q \<in> set qs. q < hpNext H') \<and>
    hpNext H \<le> hpNext H' \<and> hpSnaps H' = hpSnaps H \<and> hpSets H' = hpSets H \<and> hpRecents H' = hpRecents H \<and> hpTallies H' = hpTallies H \<and>
    hpArrays H' = hpArrays H \<and> (\<forall>q < hpNext H. hpVotes H' q = hpVotes H q)"
  using assms
proof (induction vs arbitrary: H qs)
  case Nil
  then show ?case by simp
next
  case (Cons v vs)
  let ?H1 = "H\<lparr>hpVotes := (hpVotes H)(hpNext H := hpVotes H v), hpNext := Suc (hpNext H)\<rparr>"
  from Cons.prems(1) obtain rs where rs: "copyVotes vs ?H1 = (rs, H')" "qs = hpNext H # rs"
    by (auto simp: newVote_def Let_def split: prod.split_asm)
  have lt: "\<forall>v \<in> set vs. v < hpNext ?H1" using Cons.prems(2) by auto
  note IH = Cons.IH [OF rs(1) lt]
  have "map (hpVotes ?H1) vs = map (hpVotes H) vs" using Cons.prems(2) by (intro map_cong) auto
  moreover have "hpVotes H' (hpNext H) = hpVotes H v" "hpNext H < hpNext H'" using IH by auto
  moreover have "\<forall>q < hpNext H. hpVotes H' q = hpVotes H q" using IH by auto
  ultimately show ?case using IH rs(2) by simp
qed

lemma copySnap_stands:
  assumes o: "own 0 H s" and c: "copySnap H s = (p, H')"
  shows "own (hpNext H) H' p \<and> absSnap H' p = absSnap H s \<and> preserved (hpNext H) H H'"
proof -
  let ?x = "hpSnaps H s" and ?n = "hpNext H"
  let ?H3 = "H\<lparr>hpSets := (hpSets H)(?n := hpSets H (hsSigners ?x)), hpRecents := (hpRecents H)(Suc ?n := hpRecents H (hsRecents ?x)),
     hpTallies := (hpTallies H)(Suc (Suc ?n) := hpTallies H (hsTally ?x)), hpNext := Suc (Suc (Suc ?n))\<rparr>"
  let ?snap = "\<lambda>vs. \<lparr>hsNumber = hsNumber ?x, hsHash = hsHash ?x, hsSigners = ?n, hsRecents = Suc ?n, hsVotes = vs, hsTally = Suc (Suc ?n)\<rparr>"
  show ?thesis
  proof (cases "hsVotes ?x")
    case None
    have H': "p = Suc (Suc (Suc ?n))" "H' = ?H3\<lparr>hpSnaps := (hpSnaps H)(Suc (Suc (Suc ?n)) := ?snap None), hpNext := Suc (Suc (Suc (Suc ?n)))\<rparr>"
      using c None by (auto simp: copySnap_def new_defs Let_def)
    have v: "votePtrs H' p = []" "votePtrs H s = []" using None by (simp_all add: votePtrs_def H')
    show ?thesis using None unfolding own_def preserved_def absSnap_def Let_def v by (simp add: H')
  next
    case (Some an)
    obtain a n where an: "hsVotes ?x = Some (a, n)" using Some by (cases an) simp
    obtain qs H4 where q: "copyVotes (take n (hpArrays H a)) ?H3 = (qs, H4)" by (cases "copyVotes (take n (hpArrays H a)) ?H3")
    have ptrs: "votePtrs H s = take n (hpArrays H a)" by (simp add: votePtrs_def an)
    have len: "n \<le> length (hpArrays H a)" and lt: "\<forall>v \<in> set (take n (hpArrays H a)). v < hpNext ?H3"
      using o an ptrs by (auto simp: own_def Let_def)
    note cv = copyVotes_fresh [OF q lt]
    let ?m = "hpNext H4"
    have H': "p = Suc ?m" "H' = H4\<lparr>hpArrays := (hpArrays H)(?m := qs), hpSnaps := (hpSnaps H)(Suc ?m := ?snap (Some (?m, n))), hpNext := Suc (Suc ?m)\<rparr>"
      using c an q cv by (auto simp: copySnap_def new_defs Let_def)
    have v: "votePtrs H' p = qs" using cv len by (simp add: votePtrs_def H')
    have m: "Suc (Suc (Suc ?n)) \<le> ?m" using cv by simp
    have "own ?n H' p" using cv len m unfolding own_def Let_def v by (auto simp: H')
    moreover have "preserved ?n H H'" using cv m by (auto simp: preserved_def H')
    moreover have "absSnap H' p = absSnap H s" using cv m unfolding absSnap_def Let_def v ptrs by (simp add: H')
    ultimately show ?thesis by blast
  qed
qed

text \<open>The whole call: what it computes, and that it writes to nothing that was there.\<close>

lemma hApply_refines:
  assumes o: "own 0 H s"
  shows "\<exists>H'. preserved (hpNext H) H H' \<and>
    (case apply_snapshot G epoch (absSnap H s) hs of
       Ok t \<Rightarrow> \<exists>p. hApply grow G epoch H s hs = Some (H', Ok p) \<and> own 0 H' p \<and> absSnap H' p = t \<and> (if hs = [] then p = s else hpNext H \<le> p)
     | Err e \<Rightarrow> hApply grow G epoch H s hs = Some (H', Err e)
     | Panic \<Rightarrow> hApply grow G epoch H s hs = Some (H', Panic))"
proof (cases hs)
  case Nil
  then show ?thesis using o by (intro exI [of _ H]) (simp add: hApply_def apply_snapshot_def)
next
  case (Cons h hs')
  let ?chk = "rbind (number_of h) (\<lambda>n0. if n0 \<noteq> hsNumber (hpSnaps H s) + 1 then Err ErrNotNext else contiguous n0 hs')
    :: (clique_error, unit) result"
  have ap: "apply_snapshot G epoch (absSnap H s) hs = rbind ?chk (\<lambda>_. rfold (applyHeader G epoch) (absSnap H s) hs)"
    unfolding Cons apply_snapshot_def list.case absSnap_sel(5) rbind_assoc by (rule rbind_cong) (simp_all add: rbind_assoc)
  show ?thesis
  proof (cases ?chk)
    case (Err e)
    have "hApply grow G epoch H s hs = Some (H, Err e)" unfolding hApply_def Cons list.case Err by simp
    then show ?thesis unfolding ap Err by (intro exI [of _ H]) simp
  next
    case Panic
    have "hApply grow G epoch H s hs = Some (H, Panic)" unfolding hApply_def Cons list.case Panic by simp
    then show ?thesis unfolding ap Panic by (intro exI [of _ H]) simp
  next
    case (Ok u)
    obtain p H1 where c: "copySnap H s = (p, H1)" by (cases "copySnap H s")
    from copySnap_stands [OF o c] have o1: "own (hpNext H) H1 p" and abs: "absSnap H1 p = absSnap H s"
      and pr: "preserved (hpNext H) H H1" by simp_all
    have h: "hApply grow G epoch H s hs = map_option (\<lambda>(H2, r). (H2, rbind r (\<lambda>_. Ok p))) (hApplyLoop grow G epoch p H1 hs)"
      unfolding hApply_def Cons list.case Ok result.case c Let_def prod.case ..
    have np: "hpNext H \<le> p" "hs \<noteq> []" using o1 Cons by (simp_all add: own_def Let_def)
    have o0: "own 0 H2 p" if "own (hpNext H) H2 p" for H2 using that by (simp add: own_def Let_def)
    from hApplyLoop_refines [OF o1, of grow G epoch hs] show ?thesis
      unfolding ap Ok rbind.simps h abs call_refines_def
      using preserved_trans [OF pr] np o0 standsD
      by (cases "rfold (applyHeader G epoch) (absSnap H s) hs") fastforce+
  qed
qed

section \<open>Snapshots as values\<close>

text \<open>
  What the node does with snapshots, in any order: it creates them, and applies headers to any it holds, in its cache, as
  its head, or in the hands of a request. The specification keeps a list of values, the program a list of pointers into
  one memory; a failed call adds nothing.
\<close>

datatype snap_call = CallNew u64 hash "address list" | CallApply nat "header list"

fun specCall :: "geth \<Rightarrow> u64 \<Rightarrow> Snapshot list \<Rightarrow> snap_call \<Rightarrow> Snapshot list" where
  "specCall G epoch ss (CallNew n h as) = ss @ [newSnapshot n h as]"
| "specCall G epoch ss (CallApply i hs) =
     (if i < length ss then (case apply_snapshot G epoch (ss ! i) hs of Ok t \<Rightarrow> ss @ [t] | _ \<Rightarrow> ss) else ss)"

fun heapCall :: "(nat \<Rightarrow> nat) \<Rightarrow> geth \<Rightarrow> u64 \<Rightarrow> Heap \<times> nat list \<Rightarrow> snap_call \<Rightarrow> (Heap \<times> nat list) option" where
  "heapCall grow G epoch (H, ps) (CallNew n h as) = (let (p, H') = hNewSnapshot H n h as in Some (H', ps @ [p]))"
| "heapCall grow G epoch (H, ps) (CallApply i hs) =
     (if i < length ps
      then (case hApply grow G epoch H (ps ! i) hs of
              None \<Rightarrow> None
            | Some (H', Ok p) \<Rightarrow> Some (H', ps @ [p])
            | Some (H', _) \<Rightarrow> Some (H', ps))
      else Some (H, ps))"

fun heapCalls :: "(nat \<Rightarrow> nat) \<Rightarrow> geth \<Rightarrow> u64 \<Rightarrow> Heap \<times> nat list \<Rightarrow> snap_call list \<Rightarrow> (Heap \<times> nat list) option" where
  "heapCalls grow G epoch st [] = Some st"
| "heapCalls grow G epoch st (c # cs) = Option.bind (heapCall grow G epoch st c) (\<lambda>st'. heapCalls grow G epoch st' cs)"

lemma hNewSnapshot_stands:
  assumes "hNewSnapshot H n h as = (p, H')"
  shows "own (hpNext H) H' p \<and> absSnap H' p = newSnapshot n h as \<and> preserved (hpNext H) H H'"
proof -
  let ?n = "hpNext H"
  have H': "p = Suc (Suc (Suc ?n))" "H' = H\<lparr>hpSets := (hpSets H)(?n := set as), hpRecents := (hpRecents H)(Suc ?n := []),
     hpTallies := (hpTallies H)(Suc (Suc ?n) := Map.empty),
     hpSnaps := (hpSnaps H)(Suc (Suc (Suc ?n)) := \<lparr>hsNumber = n, hsHash = h, hsSigners = ?n, hsRecents = Suc ?n, hsVotes = None, hsTally = Suc (Suc ?n)\<rparr>),
     hpNext := Suc (Suc (Suc (Suc ?n)))\<rparr>"
    using assms by (auto simp: hNewSnapshot_def new_defs Let_def)
  have v: "votePtrs H' p = []" by (simp add: votePtrs_def H')
  show ?thesis unfolding own_def preserved_def absSnap_def Let_def v newSnapshot_def by (simp add: H')
qed

text \<open>The pointers held stand for the values held.\<close>

definition held :: "Heap \<Rightarrow> nat list \<Rightarrow> Snapshot list \<Rightarrow> bool" where
  "held H ps ss \<longleftrightarrow> (\<forall>p \<in> set ps. own 0 H p) \<and> map (absSnap H) ps = ss"

lemma held_preserved:
  assumes "held H ps ss" and "preserved (hpNext H) H H'"
  shows "held H' ps ss"
  using assms preserved_snapshot [OF assms(2)] by (auto simp: held_def)

lemma held_snoc: "held H ps ss \<Longrightarrow> own 0 H p \<Longrightarrow> held H (ps @ [p]) (ss @ [absSnap H p])"
  by (simp add: held_def)

lemma own_weaken: "own b H p \<Longrightarrow> own 0 H p"
  by (simp add: own_def Let_def)

lemma heapCall_refines:
  assumes h: "held H ps ss"
  shows "\<exists>H' ps'. heapCall grow G epoch (H, ps) c = Some (H', ps') \<and> held H' ps' (specCall G epoch ss c)"
proof (cases c)
  case (CallNew n x as)
  obtain p H' where p: "hNewSnapshot H n x as = (p, H')" by (cases "hNewSnapshot H n x as")
  note s = hNewSnapshot_stands [OF p]
  have "held H' (ps @ [p]) (ss @ [newSnapshot n x as])"
    using held_snoc [OF held_preserved [OF h], of H' p] s own_weaken by metis
  then show ?thesis using p by (simp add: CallNew)
next
  case (CallApply i hs)
  have len: "length ss = length ps" using h by (auto simp: held_def)
  show ?thesis
  proof (cases "i < length ps")
    case False
    then show ?thesis using h len by (simp add: CallApply)
  next
    case True
    have o: "own 0 H (ps ! i)" and abs: "absSnap H (ps ! i) = ss ! i" using h True by (auto simp: held_def)
    from hApply_refines [OF o, where G = G and epoch = epoch and hs = hs and grow = grow] obtain H' where pr: "preserved (hpNext H) H H'"
      and r: "case apply_snapshot G epoch (ss ! i) hs of
         Ok t \<Rightarrow> \<exists>p. hApply grow G epoch H (ps ! i) hs = Some (H', Ok p) \<and> own 0 H' p \<and> absSnap H' p = t \<and> (if hs = [] then p = ps ! i else hpNext H \<le> p)
       | Err e \<Rightarrow> hApply grow G epoch H (ps ! i) hs = Some (H', Err e) | Panic \<Rightarrow> hApply grow G epoch H (ps ! i) hs = Some (H', Panic)"
      unfolding abs by blast
    note h' = held_preserved [OF h pr]
    show ?thesis
    proof (cases "apply_snapshot G epoch (ss ! i) hs")
      case (Ok t)
      with r obtain p where "hApply grow G epoch H (ps ! i) hs = Some (H', Ok p)" "own 0 H' p" "absSnap H' p = t" by auto
      then show ?thesis using True len Ok held_snoc [OF h', of p] by (simp add: CallApply)
    next
      case (Err e)
      then show ?thesis using r True len h' by (simp add: CallApply)
    next
      case Panic
      then show ?thesis using r True len h' by (simp add: CallApply)
    qed
  qed
qed

lemma heapCalls_refines:
  assumes "held H ps ss"
  shows "\<exists>H' ps'. heapCalls grow G epoch (H, ps) cs = Some (H', ps') \<and> held H' ps' (foldl (specCall G epoch) ss cs)"
  using assms
proof (induction cs arbitrary: H ps ss)
  case Nil
  then show ?case by simp
next
  case (Cons c cs)
  from heapCall_refines [OF Cons.prems] obtain H1 ps1 where "heapCall grow G epoch (H, ps) c = Some (H1, ps1)"
    "held H1 ps1 (specCall G epoch ss c)" by blast
  then show ?case using Cons.IH by fastforce
qed

text \<open>
  C10. Snapshots behave as values. Whatever snapshots the program creates and whichever of them it applies headers to, in
  any order and number, over one memory with shared structs, maps, arrays and votes, every call returns, and in the end each
  pointer it holds stands for exactly the snapshot the functional replay gives: no call changes a snapshot that another part
  of the program still holds. In particular \<^verbatim>\<open>copy\<close> is deep enough for the in-place deletions and appends of \<^verbatim>\<open>apply\<close>.
\<close>

theorem clique_snapshots_are_values:
  "\<exists>H' ps. heapCalls grow G epoch (H, []) calls = Some (H', ps) \<and>
     map (absSnap H') ps = foldl (specCall G epoch) [] calls"
proof -
  have "held H [] []" by (simp add: held_def)
  from heapCalls_refines [OF this, where grow = grow and G = G and epoch = epoch and cs = calls] show ?thesis unfolding held_def by blast
qed

end
