(* ===== verification/Rpc_Server.thy ===== *)
theory Rpc_Server
  imports Node_Config Json
begin

text \<open>
  The HTTP server around the handlers: \<^verbatim>\<open>rpc/server.go\<close>, the JSON forms of \<^verbatim>\<open>rpc/types.go\<close> and \<^verbatim>\<open>headSnapshot\<close> of
  \<^verbatim>\<open>rpc/clique_handlers.go\<close>. The chi router and its recovery middleware are parameters: which route, if any, a request matches
  and with which path parameters, and the answers the router gives itself.
\<close>

section \<open>Requests and responses\<close>

record request =
  rqMethod :: string
  rqPath :: string
  rqBody :: "bytes option"

record http_response =
  hrStatus :: nat
  hrHeaders :: "(string \<times> string) list"
  hrBody :: string

definition writeJSON :: "nat \<Rightarrow> json \<Rightarrow> http_response" where
  "writeJSON status v = \<lparr>hrStatus = status, hrHeaders = [(''Content-Type'', ''application/json'')], hrBody = encodeJSON v\<rparr>"

text \<open>The JSON form of each response type, in the order and with the names of the struct tags.\<close>

definition identityJSON :: "NodeIdentity \<Rightarrow> json" where
  "identityJSON x = JObject [(''peer_id'', JString (niPeerID x)), (''enr'', JString (niENR x)),
     (''p2p_addresses'', JArray (map JString (niP2PAddresses x)))]"

definition peerJSON :: "PeerInfo \<Rightarrow> json" where
  "peerJSON x = JObject [(''peer_id'', JString (piPeerID x)), (''address'', JString (piAddress x)),
     (''direction'', JString (piDirection x)), (''state'', JString (piState x))]"

definition syncingJSON :: "SyncStatus \<Rightarrow> json" where
  "syncingJSON x = JObject [(''head_slot'', JString (ssHeadSlot x)), (''sync_distance'', JString (ssSyncDistance x)),
     (''is_syncing'', JBool (ssIsSyncing x))]"

definition headJSON :: "HeadInfo \<Rightarrow> json" where
  "headJSON x = JObject [(''number'', JString (hiNumber x)), (''hash'', JString (hiHash x)), (''signer'', JString (hiSigner x)),
     (''timestamp'', JString (hiTimestamp x)), (''total_difficulty'', JString (hiTotalDifficulty x))]"

definition validatorsJSON :: "ValidatorsInfo \<Rightarrow> json" where
  "validatorsJSON x = JObject [(''signers'', JArray (map JString (viSigners x))), (''count'', JInt (int (viCount x)))]"

definition blockJSON :: "BlockInfo \<Rightarrow> json" where
  "blockJSON x = JObject [(''number'', JString (biNumber x)), (''hash'', JString (biHash x)), (''parent_hash'', JString (biParentHash x)),
     (''timestamp'', JString (biTimestamp x)), (''difficulty'', JString (biDifficulty x)), (''signer'', JString (biSigner x)),
     (''extra'', JString (biExtra x))]"

definition voteJSON :: "VoteInfo \<Rightarrow> json" where
  "voteJSON x = JObject [(''signer'', JString (voSigner x)), (''address'', JString (voAddress x)),
     (''authorize'', JBool (voAuthorize x)), (''block'', JString (voBlock x))]"

definition dataJSON :: "json \<Rightarrow> json" where
  "dataJSON v = JObject [(''data'', v)]"

fun bodyJSON :: "body \<Rightarrow> json option" where
  "bodyJSON BEmpty = None"
| "bodyJSON (BError code msg) = Some (JObject [(''code'', JInt (int code)), (''message'', JString msg)])"
| "bodyJSON (BIdentity x) = Some (dataJSON (identityJSON x))"
| "bodyJSON (BPeers ps n) = Some (JObject [(''data'', JArray (map peerJSON ps)), (''meta'', JObject [(''count'', JInt (int n))])])"
| "bodyJSON (BSyncing x) = Some (dataJSON (syncingJSON x))"
| "bodyJSON (BHead x) = Some (dataJSON (headJSON x))"
| "bodyJSON (BValidators x) = Some (dataJSON (validatorsJSON x))"
| "bodyJSON (BBlock x) = Some (dataJSON (blockJSON x))"
| "bodyJSON (BVotes vs) = Some (dataJSON (JArray (map voteJSON vs)))"
| "bodyJSON (BStatus s) = Some (dataJSON (JObject [(''status'', JString s)]))"

text \<open>A handler without a body only writes the status.\<close>

definition respond :: "response \<Rightarrow> http_response" where
  "respond r = (case bodyJSON (snd r) of
     None \<Rightarrow> \<lparr>hrStatus = fst r, hrHeaders = [], hrBody = []\<rparr>
   | Some v \<Rightarrow> writeJSON (fst r) v)"

section \<open>The server\<close>

text \<open>What the server was wired to, read at the time of a request. A nil provider gives no snapshot.\<close>

record 's Wiring =
  wiP2P :: P2PNode
  wiChain :: Store
  wiSnap :: "(unit \<Rightarrow> 's option) option"
  wiSignerList :: "'s \<Rightarrow> address list"
  wiPendingVotes :: "'s \<Rightarrow> VoteRecord list"

definition headSnapshot :: "'s Wiring \<Rightarrow> 's option" where
  "headSnapshot w = (case wiSnap w of None \<Rightarrow> None | Some f \<Rightarrow> f ())"

datatype handler =
    HNodeIdentity | HNodePeers | HNodeHealth | HNodeSyncing | HCliqueHead | HCliqueValidators | HCliqueBlock | HCliqueVotes | HCliqueVote

definition buildRouter :: "(string \<times> string \<times> handler) list" where
  "buildRouter =
     [(''GET'', ''/eth/v1/node/identity'', HNodeIdentity),
      (''GET'', ''/eth/v1/node/peers'', HNodePeers),
      (''GET'', ''/eth/v1/node/health'', HNodeHealth),
      (''GET'', ''/eth/v1/node/syncing'', HNodeSyncing),
      (''GET'', ''/clique/v1/head'', HCliqueHead),
      (''GET'', ''/clique/v1/validators'', HCliqueValidators),
      (''GET'', ''/clique/v1/blocks/{number}'', HCliqueBlock),
      (''GET'', ''/clique/v1/votes'', HCliqueVotes),
      (''POST'', ''/clique/v1/vote'', HCliqueVote)]"

record HTTPServer =
  hsAddr :: string
  hsReadTimeout :: int
  hsWriteTimeout :: int
  hsRoutes :: "(string \<times> string \<times> handler) list"
  hsState :: Server

definition New_rpc :: "RPCConfig \<Rightarrow> HTTPServer" where
  "New_rpc c = \<lparr>hsAddr = rcListenAddr c, hsReadTimeout = rcReadTimeout c, hsWriteTimeout = rcWriteTimeout c,
     hsRoutes = buildRouter, hsState = \<lparr>pendingVote = None\<rparr>\<rparr>"

text \<open>How \<^verbatim>\<open>ListenAndServe\<close> ends: without error, closed by \<^verbatim>\<open>Shutdown\<close>, or with another error.\<close>

datatype listen_end = ListenNil | ListenClosed | ListenFailed

definition Start_rpc :: "listen_end \<Rightarrow> (unit, unit) result" where
  "Start_rpc e = (if e = ListenFailed then Err () else Ok ())"

text \<open>\<^verbatim>\<open>Stop\<close> hands on how the graceful shutdown of the library's server ended.\<close>

definition Stop_rpc :: "(unit, unit) result \<Rightarrow> (unit, unit) result" where
  "Stop_rpc ended = ended"

section \<open>Serving a request\<close>

text \<open>The parameters of the router.\<close>

datatype routing = Route nat "(string \<times> string) list" | NoRoute | NotAllowed

record chiLib =
  chMatch :: "(string \<times> string) list \<Rightarrow> string \<Rightarrow> string \<Rightarrow> routing"  \<comment> \<open>methods and patterns, method and path of the request\<close>
  chNotFound :: http_response
  chNotAllowed :: http_response
  chRecovered :: http_response                                     \<comment> \<open>\<^verbatim>\<open>middleware.Recoverer\<close> after a panic\<close>

definition URLParam :: "(string \<times> string) list \<Rightarrow> string \<Rightarrow> string" where
  "URLParam ps k = (case map_of ps k of None \<Rightarrow> [] | Some v \<Rightarrow> v)"

definition runHandler ::
    "rpcLib \<Rightarrow> geth \<Rightarrow> 's Wiring \<Rightarrow> Server \<Rightarrow> handler \<Rightarrow> (string \<times> string) list \<Rightarrow> request \<Rightarrow> Server \<times> (unit, response) result" where
  "runHandler L G w s h ps rq =
     (case h of
        HNodeIdentity \<Rightarrow> (s, handleNodeIdentity (wiP2P w))
      | HNodePeers \<Rightarrow> (s, handleNodePeers (wiP2P w))
      | HNodeHealth \<Rightarrow> (s, handleNodeHealth (wiP2P w) (wiChain w))
      | HNodeSyncing \<Rightarrow> (s, handleNodeSyncing (wiChain w))
      | HCliqueHead \<Rightarrow> (s, handleCliqueHead L G (wiChain w))
      | HCliqueValidators \<Rightarrow> (s, handleCliqueValidators G (wiSignerList w) (headSnapshot w))
      | HCliqueBlock \<Rightarrow> (s, handleCliqueBlock L G (wiChain w) (URLParam ps ''number''))
      | HCliqueVotes \<Rightarrow> (s, handleCliqueVotes G (wiPendingVotes w) (headSnapshot w))
      | HCliqueVote \<Rightarrow> handleCliqueVote L s (rqBody rq))"

text \<open>\<^verbatim>\<open>requestLogger\<close> writes a log line and calls the next handler with the same request.\<close>

definition serveHTTP ::
    "chiLib \<Rightarrow> rpcLib \<Rightarrow> geth \<Rightarrow> 's Wiring \<Rightarrow> HTTPServer \<Rightarrow> request \<Rightarrow> HTTPServer \<times> http_response" where
  "serveHTTP M L G w srv rq =
     (case chMatch M (map (\<lambda>(m, p, _). (m, p)) (hsRoutes srv)) (rqMethod rq) (rqPath rq) of
        NoRoute \<Rightarrow> (srv, chNotFound M)
      | NotAllowed \<Rightarrow> (srv, chNotAllowed M)
      | Route i ps \<Rightarrow>
          let (s, r) = runHandler L G w (hsState srv) (snd (snd (hsRoutes srv ! i))) ps rq in
          (srv\<lparr>hsState := s\<rparr>, (case r of Ok x \<Rightarrow> respond x | _ \<Rightarrow> chRecovered M)))"

text \<open>
  What the router documents: a route matches if the method is the same and the path has the segments of the pattern, where
  a name in braces stands for one non-empty segment.
\<close>

fun segments :: "string \<Rightarrow> string list" where
  "segments [] = [[]]"
| "segments (c # cs) = (if c = CHR ''/'' then [] # segments cs
     else (case segments cs of [] \<Rightarrow> [[c]] | x # xs \<Rightarrow> (c # x) # xs))"

definition isParam :: "string \<Rightarrow> bool" where
  "isParam p \<longleftrightarrow> 2 \<le> length p \<and> hd p = CHR ''{'' \<and> last p = CHR ''}''"

fun matchSegments :: "string list \<Rightarrow> string list \<Rightarrow> (string \<times> string) list option" where
  "matchSegments [] [] = Some []"
| "matchSegments (p # ps) (x # xs) =
     (if isParam p then (if x = [] then None else map_option (Cons (butlast (tl p), x)) (matchSegments ps xs))
      else if p = x then matchSegments ps xs else None)"
| "matchSegments _ _ = None"

definition matchPattern :: "string \<Rightarrow> string \<Rightarrow> (string \<times> string) list option" where
  "matchPattern pat t = matchSegments (segments pat) (segments t)"

definition chi_ok :: "chiLib \<Rightarrow> bool" where
  "chi_ok M \<longleftrightarrow> (\<forall>m t i ps. let rs = map (\<lambda>(m, p, _). (m, p)) buildRouter in
     chMatch M rs m t = Route i ps \<longleftrightarrow> i < length rs \<and> fst (rs ! i) = m \<and> matchPattern (snd (rs ! i)) t = Some ps)"

end
