(* ===== verification/Server_Properties.thy ===== *)
theory Server_Properties
  imports Rpc_Server Producer_Properties
begin

text \<open>The property of the HTTP server, from the request line to the JSON text of the answer.\<close>

section \<open>Paths\<close>

fun joinSegments :: "string list \<Rightarrow> string" where
  "joinSegments [] = []"
| "joinSegments [x] = x"
| "joinSegments (x # xs) = x @ CHR ''/'' # joinSegments xs"

lemma segments_nonempty [simp]: "segments t \<noteq> []"
  by (induction t) (auto split: list.split)

lemma join_segments: "joinSegments (segments t) = t"
proof (induction t)
  case Nil
  show ?case by simp
next
  case (Cons c t)
  obtain x xs where x: "segments t = x # xs" using segments_nonempty [of t] by (cases "segments t") auto
  have "joinSegments (segments t) = t" by (rule Cons.IH)
  then show ?case unfolding x by (cases xs) (simp_all add: x)
qed

lemma segments_inj: "segments s = segments t \<longleftrightarrow> s = t"
  by (metis join_segments)

lemma segments_append: "segments (a @ CHR ''/'' # b) = segments a @ segments b"
proof (induction a)
  case Nil
  show ?case by simp
next
  case (Cons c a)
  then show ?case using segments_nonempty [of a] by (cases "segments a") auto
qed

lemma segments_plain: "CHR ''/'' \<notin> set t \<Longrightarrow> segments t = [t]"
  by (induction t) auto

lemma matchSegments_static:
  "\<forall>p \<in> set ps. \<not> isParam p \<Longrightarrow> matchSegments ps xs = Some r \<longleftrightarrow> xs = ps \<and> r = []"
  by (induction ps xs arbitrary: r rule: matchSegments.induct) auto

lemma matchPattern_static:
  assumes "\<forall>p \<in> set (segments pat). \<not> isParam p"
  shows "matchPattern pat t = Some r \<longleftrightarrow> t = pat \<and> r = []"
  using matchSegments_static [OF assms] by (simp add: matchPattern_def segments_inj)

lemma matchPattern_block:
  "matchPattern ''/clique/v1/blocks/{number}'' t = Some r \<longleftrightarrow>
     (\<exists>x. x \<noteq> [] \<and> segments t = ['''', ''clique'', ''v1'', ''blocks'', x] \<and> r = [(''number'', x)])"
proof -
  have "matchSegments ['''', ''clique'', ''v1'', ''blocks'', ''{number}''] xs = Some r \<longleftrightarrow>
      (\<exists>x. x \<noteq> [] \<and> xs = ['''', ''clique'', ''v1'', ''blocks'', x] \<and> r = [(''number'', x)])" for xs
    by (cases xs; cases "tl xs"; cases "tl (tl xs)"; cases "tl (tl (tl xs))"; cases "tl (tl (tl (tl xs)))"; cases "tl (tl (tl (tl (tl xs))))")
       (auto simp: isParam_def)
  then show ?thesis by (simp add: matchPattern_def)
qed

text \<open>The route of each request, by method and path.\<close>

definition staticPaths :: "string list" where
  "staticPaths = [''/eth/v1/node/identity'', ''/eth/v1/node/peers'', ''/eth/v1/node/health'', ''/eth/v1/node/syncing'',
     ''/clique/v1/head'', ''/clique/v1/validators'', ''/clique/v1/votes'', ''/clique/v1/vote'']"

lemma staticPaths_plain: "pat \<in> set staticPaths \<Longrightarrow> \<forall>p \<in> set (segments pat). \<not> isParam p"
  by (auto simp: staticPaths_def isParam_def)

abbreviation routeTable :: "(string \<times> string) list" where
  "routeTable \<equiv> map (\<lambda>(m, p, _). (m, p)) buildRouter"

lemma routeTable_length: "length routeTable = 9"
  by (simp add: buildRouter_def)

lemma chi_okD:
  assumes "chi_ok M"
  shows "chMatch M routeTable m t = Route i ps \<longleftrightarrow> i < 9 \<and> fst (routeTable ! i) = m \<and> matchPattern (snd (routeTable ! i)) t = Some ps"
  using assms unfolding chi_ok_def Let_def routeTable_length by blast

lemma route_vote:
  assumes "chi_ok M" and "chMatch M routeTable m t = Route i ps" and "snd (snd (buildRouter ! i)) = HCliqueVote"
  shows "m = ''POST'' \<and> t = ''/clique/v1/vote''"
proof -
  from assms(1,2) have i: "i < 9" "fst (routeTable ! i) = m" "matchPattern (snd (routeTable ! i)) t = Some ps" by (simp_all add: chi_okD)
  have "i \<in> {0, 1, 2, 3, 4, 5, 6, 7, 8}" using i(1) by auto
  then have "i = 8" using assms(3) by (auto simp: buildRouter_def)
  then have "m = ''POST''" "matchPattern ''/clique/v1/vote'' t = Some ps" using i(2,3) by (auto simp: buildRouter_def)
  then show ?thesis using matchPattern_static [OF staticPaths_plain, of "''/clique/v1/vote''"] by (simp add: staticPaths_def)
qed

lemma route_block:
  assumes "chi_ok M" and "x \<noteq> []" and "CHR ''/'' \<notin> set x"
  shows "chMatch M routeTable ''GET'' (''/clique/v1/blocks/'' @ x) = Route 6 [(''number'', x)]"
proof -
  have "segments (''/clique/v1/blocks/'' @ x) = ['''', ''clique'', ''v1'', ''blocks'', x]"
    using segments_append [of "''/clique/v1/blocks''" x] segments_plain [OF assms(3)] by simp
  then have "matchPattern ''/clique/v1/blocks/{number}'' (''/clique/v1/blocks/'' @ x) = Some [(''number'', x)]"
    unfolding matchPattern_block using assms(2) by blast
  moreover have "fst (routeTable ! 6) = ''GET''" "snd (routeTable ! 6) = ''/clique/v1/blocks/{number}''" by (simp_all add: buildRouter_def)
  ultimately show ?thesis using assms(1) by (simp add: chi_okD)
qed

section \<open>Answers\<close>

lemma respond_reads: "bodyJSON (snd r) = Some v \<Longrightarrow> readJSON (hrBody (respond r)) = Some (cleanJSON v, newline)"
  by (simp add: respond_def writeJSON_def readJSON_encode)

lemma respond_status: "hrStatus (respond r) = fst r"
  by (simp add: respond_def writeJSON_def split: option.split)

text \<open>Only the vote endpoint changes the state of the server.\<close>

lemma serve_reads_only:
  assumes "chi_ok M" and "hsRoutes srv = buildRouter" and "rqMethod rq \<noteq> ''POST'' \<or> rqPath rq \<noteq> ''/clique/v1/vote''"
  shows "fst (serveHTTP M L G w srv rq) = srv"
proof (cases "chMatch M routeTable (rqMethod rq) (rqPath rq)")
  case (Route i ps)
  have "snd (snd (buildRouter ! i)) \<noteq> HCliqueVote" using route_vote [OF assms(1) Route] assms(3) by blast
  then have "fst (runHandler L G w (hsState srv) (snd (snd (buildRouter ! i))) ps rq) = hsState srv"
    by (cases "snd (snd (buildRouter ! i))") (simp_all add: runHandler_def)
  then obtain r where "runHandler L G w (hsState srv) (snd (snd (buildRouter ! i))) ps rq = (hsState srv, r)"
    by (cases "runHandler L G w (hsState srv) (snd (snd (buildRouter ! i))) ps rq") simp
  then show ?thesis using Route assms(2) by (simp add: serveHTTP_def)
qed (simp_all add: serveHTTP_def assms(2))

text \<open>Every answer the program writes is empty or one JSON value.\<close>

lemma serve_answers_json:
  "snd (serveHTTP M L G w srv rq) \<in> {chNotFound M, chNotAllowed M, chRecovered M} \<or> hrBody (snd (serveHTTP M L G w srv rq)) = [] \<or>
   (\<exists>v. readJSON (hrBody (snd (serveHTTP M L G w srv rq))) = Some (v, newline))"
proof -
  have r: "hrBody (respond x) = [] \<or> (\<exists>v. readJSON (hrBody (respond x)) = Some (v, newline))" for x
    using respond_reads [of x] by (cases "bodyJSON (snd x)") (auto simp: respond_def)
  show ?thesis
  proof (cases "chMatch M (map (\<lambda>(m, p, _). (m, p)) (hsRoutes srv)) (rqMethod rq) (rqPath rq)")
    case (Route i ps)
    let ?h = "runHandler L G w (hsState srv) (snd (snd (hsRoutes srv ! i))) ps rq"
    have "snd (serveHTTP M L G w srv rq) = (case snd ?h of Ok x \<Rightarrow> respond x | _ \<Rightarrow> chRecovered M)"
      using Route by (simp add: serveHTTP_def Let_def split: prod.split)
    then show ?thesis using r by (cases "snd ?h") simp_all
  qed (simp_all add: serveHTTP_def)
qed

lemma serve_block:
  assumes "chi_ok M" and "hsRoutes srv = buildRouter" and "rqMethod rq = ''GET''" and "rqPath rq = ''/clique/v1/blocks/'' @ decimal k"
    and "handleCliqueBlock L G (wiChain w) (decimal k) = (Ok x :: (unit, response) result)"
  shows "snd (serveHTTP M L G w srv rq) = respond x"
proof -
  have "CHR ''/'' \<notin> set (decimal k)" using digits_decimal [of "CHR ''/''" k] by (auto simp: isDigit_def)
  from route_block [OF assms(1) decimal_nonempty this] have
    m: "chMatch M routeTable ''GET'' (''/clique/v1/blocks/'' @ decimal k) = Route 6 [(''number'', decimal k)]" .
  have h: "snd (snd (buildRouter ! 6)) = HCliqueBlock" by (simp add: buildRouter_def)
  have "URLParam [(''number'', decimal k)] ''number'' = decimal k" by (simp add: URLParam_def)
  then have "runHandler L G w (hsState srv) HCliqueBlock [(''number'', decimal k)] rq = (hsState srv, Ok x)"
    unfolding runHandler_def handler.case using assms(5) by simp
  then show ?thesis unfolding serveHTTP_def assms(2-4) m routing.case h by simp
qed

text \<open>An answer with the block of a number, and one without.\<close>

definition answersBlock :: "rpcLib \<Rightarrow> geth \<Rightarrow> http_response \<Rightarrow> nat \<Rightarrow> header \<Rightarrow> bool" where
  "answersBlock L G r k h \<longleftrightarrow>
     hrStatus r = 200 \<and>
     (\<exists>v. readJSON (hrBody r) = Some (dataJSON (JObject v), newline) \<and>
        map_of v ''number'' = Some (JString (decimal k)) \<and> map_of v ''hash'' = Some (JString (hashHex L (hdrHash G h))) \<and>
        map_of v ''parent_hash'' = Some (JString (hashHex L (ParentHash h))))"

definition answersMissing :: "http_response \<Rightarrow> nat \<Rightarrow> bool" where
  "answersMissing r k \<longleftrightarrow>
     hrStatus r = 404 \<and>
     readJSON (hrBody r) = Some (JObject [(''code'', JInt 404), (''message'', JString (''block '' @ decimal k @ '' not found''))], newline)"

lemma map_of_clean: "list_all (ascii \<circ> fst) kvs \<Longrightarrow> map_of (map cleanField kvs) k = map_option cleanJSON (map_of kvs k)"
  by (induction kvs) (auto simp: cleaned_ascii)

lemma respond_data:
  assumes "bodyJSON (snd r) = Some (dataJSON (JObject kvs))"
  shows "readJSON (hrBody (respond r)) = Some (dataJSON (JObject (map cleanField kvs)), newline)"
proof -
  have "cleaned ''data'' = ''data''" by (rule cleaned_ascii) (simp add: within_def)
  then have "cleanJSON (dataJSON (JObject kvs)) = dataJSON (JObject (map cleanField kvs))"
    unfolding dataJSON_def cleanJSON.simps list.map prod.case by (simp only:)
  then show ?thesis using respond_reads [OF assms] by (simp only:)
qed

definition blockFields :: "BlockInfo \<Rightarrow> (string \<times> json) list" where
  "blockFields b = (case blockJSON b of JObject kvs \<Rightarrow> kvs | _ \<Rightarrow> [])"

lemma blockFields:
  "blockJSON b = JObject (blockFields b)" "list_all (ascii \<circ> fst) (blockFields b)"
  "map_of (blockFields b) ''number'' = Some (JString (biNumber b))" "map_of (blockFields b) ''hash'' = Some (JString (biHash b))"
  "map_of (blockFields b) ''parent_hash'' = Some (JString (biParentHash b))"
  by (simp_all add: blockFields_def blockJSON_def within_def)

lemma respond_block:
  assumes "biNumber b = decimal k" "biHash b = hashHex L (hdrHash G h)" "biParentHash b = hashHex L (ParentHash h)" "\<forall>x. ascii (hashHex L x)"
  shows "answersBlock L G (respond (200, BBlock b)) k h"
proof -
  have "readJSON (hrBody (respond (200, BBlock b))) = Some (dataJSON (JObject (map cleanField (blockFields b))), newline)"
    by (rule respond_data) (simp only: snd_conv bodyJSON.simps blockFields(1))
  moreover have "cleaned (decimal k) = decimal k" "cleaned (hashHex L x) = hashHex L x" for x
    using assms(4) by (simp_all add: cleaned_ascii ascii_decimal)
  ultimately have "\<exists>v. readJSON (hrBody (respond (200, BBlock b))) = Some (dataJSON (JObject v), newline) \<and>
      map_of v ''number'' = Some (JString (decimal k)) \<and> map_of v ''hash'' = Some (JString (hashHex L (hdrHash G h))) \<and>
      map_of v ''parent_hash'' = Some (JString (hashHex L (ParentHash h)))"
    by (intro exI [of _ "map cleanField (blockFields b)"] conjI)
       (simp_all only: map_of_clean [OF blockFields(2)] blockFields(3-5) assms(1-3) option.map cleanJSON.simps)
  then show ?thesis unfolding answersBlock_def respond_status fst_conv by (intro conjI refl)
qed

lemma respond_missing: "answersMissing (respond (404, BError 404 (''block '' @ decimal k @ '' not found''))) k"
proof -
  have "asciiJSON (JObject [(''code'', JInt 404), (''message'', JString (''block '' @ decimal k @ '' not found''))])"
    by (simp add: ascii_decimal within_def)
  from cleanJSON_ascii [OF this] show ?thesis
    unfolding answersMissing_def respond_status fst_conv using respond_reads [of "(404, BError 404 (''block '' @ decimal k @ '' not found''))"]
    by (simp only: snd_conv bodyJSON.simps of_nat_numeral)
qed

text \<open>
  C30. The HTTP server answers with the canonical chain. On the store of any consistently numbered history, a GET of the
  decimal form of a 64-bit number below \<^verbatim>\<open>/clique/v1/blocks/\<close> is routed to the block handler and answered from one list of
  headers, the chain of parents from genesis to the head that the canonical index holds: up to the head with status 200 and
  a JSON text that reads back with the number, hash and parent hash of the canonical block of that number, and beyond the
  head with status 404 and a JSON error. Whatever is requested, only a POST of a vote changes the server, and every text the
  program writes is empty or one JSON value, also when the message quotes the path of the request.
\<close>

theorem rpc_serves_canonical_chain:
  assumes "chi_ok M" and "hsRoutes srv = buildRouter" and "consistent G gen (set (headersOf xs))"
    and "addBlocks G H P (SetDB (New_store G gen epoch) db) xs = Some s"
    and "\<forall>xs. rlpList G xs \<noteq> None" and "wiChain w = s" and "\<forall>x. ascii (hashHex L x)"
  shows "(\<exists>R. canonicalChain G gen s R \<and>
           (\<forall>(n :: u64) rq. rqMethod rq = ''GET'' \<longrightarrow> rqPath rq = ''/clique/v1/blocks/'' @ decimal (unat n) \<longrightarrow>
              (let r = snd (serveHTTP M L G w srv rq) in
               if unat n < length R then answersBlock L G r (unat n) (R ! unat n) else answersMissing r (unat n)))) \<and>
    (\<forall>rq. rqMethod rq \<noteq> ''POST'' \<or> rqPath rq \<noteq> ''/clique/v1/vote'' \<longrightarrow> fst (serveHTTP M L G w srv rq) = srv) \<and>
    (\<forall>rq. let r = snd (serveHTTP M L G w srv rq) in
       r \<in> {chNotFound M, chNotAllowed M, chRecovered M} \<or> hrBody r = [] \<or> (\<exists>v. readJSON (hrBody r) = Some (v, newline)))"
proof (intro conjI)
  from rpc_block_endpoint [OF assms(3,4,5), where L = L and 'e = unit] obtain R where R: "canonicalChain G gen s R"
    "\<And>n :: u64. if unat n < length R
      then \<exists>b. handleCliqueBlock L G s (decimal (unat n)) = (Ok (200, BBlock b) :: (unit, response) result) \<and>
        biNumber b = decimal (unat n) \<and> ParseUint (biNumber b) = Some n \<and>
        biHash b = hashHex L (hdrHash G (R ! unat n)) \<and> biParentHash b = hashHex L (ParentHash (R ! unat n))
      else handleCliqueBlock L G s (decimal (unat n)) =
        (Ok (404, BError 404 (''block '' @ decimal (unat n) @ '' not found'')) :: (unit, response) result)" by blast
  have "let r = snd (serveHTTP M L G w srv rq) in
      if unat n < length R then answersBlock L G r (unat n) (R ! unat n) else answersMissing r (unat n)"
    if rq: "rqMethod rq = ''GET''" "rqPath rq = ''/clique/v1/blocks/'' @ decimal (unat n)" for n :: u64 and rq
  proof (cases "unat n < length R")
    case True
    with R(2) [of n] obtain b where b: "handleCliqueBlock L G s (decimal (unat n)) = (Ok (200, BBlock b) :: (unit, response) result)"
      "biNumber b = decimal (unat n)" "biHash b = hashHex L (hdrHash G (R ! unat n))" "biParentHash b = hashHex L (ParentHash (R ! unat n))"
      by auto
    have "snd (serveHTTP M L G w srv rq) = respond (200, BBlock b)" by (rule serve_block [OF assms(1,2) rq]) (simp only: assms(6) b(1))
    then show ?thesis using True respond_block [OF b(2-4) assms(7)] by simp
  next
    case False
    let ?e = "BError 404 (''block '' @ decimal (unat n) @ '' not found'')"
    have "snd (serveHTTP M L G w srv rq) = respond (404, ?e)" by (rule serve_block [OF assms(1,2) rq]) (use R(2) [of n] False in \<open>simp only: assms(6) if_False\<close>)
    then show ?thesis using False respond_missing [of "unat n"] by (simp only: Let_def if_False)
  qed
  then show "\<exists>R. canonicalChain G gen s R \<and>
     (\<forall>(n :: u64) rq. rqMethod rq = ''GET'' \<longrightarrow> rqPath rq = ''/clique/v1/blocks/'' @ decimal (unat n) \<longrightarrow>
        (let r = snd (serveHTTP M L G w srv rq) in
         if unat n < length R then answersBlock L G r (unat n) (R ! unat n) else answersMissing r (unat n)))"
    using R(1) by blast
  show "\<forall>rq. rqMethod rq \<noteq> ''POST'' \<or> rqPath rq \<noteq> ''/clique/v1/vote'' \<longrightarrow> fst (serveHTTP M L G w srv rq) = srv"
    using serve_reads_only [OF assms(1,2)] by blast
  show "\<forall>rq. let r = snd (serveHTTP M L G w srv rq) in
     r \<in> {chNotFound M, chNotAllowed M, chRecovered M} \<or> hrBody r = [] \<or> (\<exists>v. readJSON (hrBody r) = Some (v, newline))"
    unfolding Let_def using serve_answers_json by blast
qed

text \<open>A router that tries the routes in order.\<close>

definition demoChi :: chiLib where
  "demoChi = \<lparr>chMatch = (\<lambda>rs m t. case find (\<lambda>i. fst (rs ! i) = m \<and> matchPattern (snd (rs ! i)) t \<noteq> None) [0..<length rs] of
       None \<Rightarrow> NoRoute | Some i \<Rightarrow> Route i (the (matchPattern (snd (rs ! i)) t))),
     chNotFound = \<lparr>hrStatus = 404, hrHeaders = [], hrBody = ''404 page not found''\<rparr>,
     chNotAllowed = \<lparr>hrStatus = 405, hrHeaders = [], hrBody = []\<rparr>,
     chRecovered = \<lparr>hrStatus = 500, hrHeaders = [], hrBody = []\<rparr>\<rparr>"

lemma blocks_not_static:
  assumes "matchPattern ''/clique/v1/blocks/{number}'' t \<noteq> None"
  shows "t \<notin> set staticPaths"
proof
  have l: "list_all (\<lambda>p. matchPattern ''/clique/v1/blocks/{number}'' p = None) staticPaths" by code_simp
  assume "t \<in> set staticPaths"
  then have "matchPattern ''/clique/v1/blocks/{number}'' t = None" by (rule bspec [OF l [unfolded list_all_iff]])
  with assms show False by (rule notE)
qed

lemma static_matches: "p \<in> set staticPaths \<Longrightarrow> matchPattern p t \<noteq> None \<Longrightarrow> p = t"
  by (metis matchPattern_static staticPaths_plain option.exhaust)

lemma patterns: "distinct (map snd routeTable)" "set (map snd routeTable) = insert ''/clique/v1/blocks/{number}'' (set staticPaths)"
  by (code_simp, auto simp: buildRouter_def staticPaths_def)

lemma patterns_apart:
  assumes "p \<in> insert ''/clique/v1/blocks/{number}'' (set staticPaths)" and "q \<in> insert ''/clique/v1/blocks/{number}'' (set staticPaths)"
    and "matchPattern p t \<noteq> None" and "matchPattern q t \<noteq> None"
  shows "p = q"
proof (cases "t \<in> set staticPaths")
  case True
  then have "\<not> matchPattern ''/clique/v1/blocks/{number}'' t \<noteq> None" using blocks_not_static by blast
  then show ?thesis using assms static_matches [of p t] static_matches [of q t] by (elim insertE) simp_all
next
  case False
  then show ?thesis using assms static_matches [of p t] static_matches [of q t] by (elim insertE) simp_all
qed

lemma routes_apart:
  assumes "i < 9" and "j < 9" and "matchPattern (snd (routeTable ! i)) t \<noteq> None" and "matchPattern (snd (routeTable ! j)) t \<noteq> None"
  shows "i = j"
proof -
  have n: "map snd routeTable ! k = snd (routeTable ! k) \<and> snd (routeTable ! k) \<in> set (map snd routeTable)" if "k < 9" for k
    using that nth_mem [of k routeTable] by (simp only: routeTable_length nth_map set_map imageI)
  then have "snd (routeTable ! i) = snd (routeTable ! j)"
    using patterns_apart [OF _ _ assms(3,4)] assms(1,2) unfolding patterns(2) by blast
  then have "map snd routeTable ! i = map snd routeTable ! j" using n assms(1,2) by (simp only:)
  then show ?thesis using nth_eq_iff_index_eq [OF patterns(1)] assms(1,2) by (simp only: length_map routeTable_length [unfolded length_map])
qed

lemma find_upt_unique:
  assumes "\<And>i j. i < n \<Longrightarrow> j < n \<Longrightarrow> P i \<Longrightarrow> P j \<Longrightarrow> i = j"
  shows "find P [0..<n] = Some i \<longleftrightarrow> i < n \<and> P i"
proof (cases "find P [0..<n]")
  case None
  then have "\<not> (\<exists>x \<in> set [0..<n]. P x)" by (simp add: find_None_iff)
  then show ?thesis using None by auto
next
  case (Some j)
  then have "j < n" "P j" by (auto simp: find_Some_iff)
  then show ?thesis using Some assms by auto
qed

lemma demoChi_ok: "chi_ok demoChi"
proof -
  have "chMatch demoChi routeTable m t = Route i ps \<longleftrightarrow> i < 9 \<and> fst (routeTable ! i) = m \<and> matchPattern (snd (routeTable ! i)) t = Some ps" for m t i ps
  proof -
    let ?P = "\<lambda>i. fst (routeTable ! i) = m \<and> matchPattern (snd (routeTable ! i)) t \<noteq> None"
    have f: "find ?P [0..<9] = Some k \<longleftrightarrow> k < 9 \<and> ?P k" for k by (rule find_upt_unique) (use routes_apart in blast)
    have "chMatch demoChi routeTable m t =
        (case find ?P [0..<9] of None \<Rightarrow> NoRoute | Some i \<Rightarrow> Route i (the (matchPattern (snd (routeTable ! i)) t)))"
      unfolding demoChi_def chiLib.simps routeTable_length ..
    also have "\<dots> = Route i ps \<longleftrightarrow> find ?P [0..<9] = Some i \<and> the (matchPattern (snd (routeTable ! i)) t) = ps"
      by (cases "find ?P [0..<9]") auto
    also have "\<dots> \<longleftrightarrow> i < 9 \<and> fst (routeTable ! i) = m \<and> matchPattern (snd (routeTable ! i)) t = Some ps"
      unfolding f by (cases "matchPattern (snd (routeTable ! i)) t") simp_all
    finally show ?thesis .
  qed
  then show ?thesis unfolding chi_ok_def Let_def routeTable_length by blast
qed

definition demoServer :: HTTPServer where
  "demoServer = New_rpc \<lparr>rcListenAddr = ''127.0.0.1:5052'', rcReadTimeout = 30, rcWriteTimeout = 30\<rparr>"

definition demoWiring :: "Store \<Rightarrow> unit Wiring" where
  "demoWiring s = \<lparr>wiP2P = \<lparr>pnPeerID = ''16Uiu2'', pnAddrs = [], pnPeers = []\<rparr>, wiChain = s, wiSnap = None,
     wiSignerList = (\<lambda>_. []), wiPendingVotes = (\<lambda>_. [])\<rparr>"

definition demoGet :: request where
  "demoGet = \<lparr>rqMethod = ''GET'', rqPath = ''/clique/v1/blocks/3'', rqBody = None\<rparr>"

theorem rpc_serves_canonical_chain_witness:
  "\<exists>s h. fcStore (fcOld @ fcNew) = Some s \<and> GetByNumber s 3 = Some h \<and>
     answersBlock ppLib demoGeth (snd (serveHTTP demoChi ppLib demoGeth (demoWiring s) demoServer demoGet)) 3 h"
proof -
  have "SetDB (New_store demoGeth fcGenesis 1) None = New_store demoGeth fcGenesis 1"
    by (simp add: SetDB_def New_store_def Let_def)
  then obtain s where s: "fcStore (fcOld @ fcNew) = Some s"
      "addBlocks demoGeth fcH fcP (SetDB (New_store demoGeth fcGenesis 1) None) (map fcRec (fcOld @ fcNew)) = Some s"
    using history_inv [OF fc_consistent subset_refl, of fcH fcP 1 None] by (metis fcStore_def)
  have h: "hsRoutes demoServer = buildRouter" "\<forall>xs. rlpList demoGeth xs \<noteq> None" "wiChain (demoWiring s) = s" "\<forall>x. ascii (hashHex ppLib x)"
    by (simp_all add: demoServer_def New_rpc_def demoGeth_def demoWiring_def ppLib_def ascii_hexBytes)
  have three: "unat (3 :: u64) = 3" "decimal 3 = ''3''" by code_simp+
  have rq: "rqMethod demoGet = ''GET''" "rqPath demoGet = ''/clique/v1/blocks/'' @ decimal (unat (3 :: u64))"
    unfolding three by (simp_all add: demoGet_def)
  have "map_option (\<lambda>s. map_option TxHash (GetByNumber s 3)) (fcStore (fcOld @ fcNew)) = Some (Some [13])" by code_simp
  then obtain x where x: "GetByNumber s 3 = Some x" using s(1) by auto
  from rpc_serves_canonical_chain [OF demoChi_ok h(1) fc_consistent s(2) h(2,3,4), THEN conjunct1]
  obtain R where R: "canonicalChain demoGeth fcGenesis s R"
    "\<forall>(n :: u64) rq. rqMethod rq = ''GET'' \<longrightarrow> rqPath rq = ''/clique/v1/blocks/'' @ decimal (unat n) \<longrightarrow>
      (let r = snd (serveHTTP demoChi ppLib demoGeth (demoWiring s) demoServer rq) in
       if unat n < length R then answersBlock ppLib demoGeth r (unat n) (R ! unat n) else answersMissing r (unat n))"
    by (elim exE conjE)
  have "GetByNumber s 3 = (if unat (3 :: u64) < length R then Some (R ! unat (3 :: u64)) else None)"
    using R(1) unfolding canonicalChain_def by blast
  then have "3 < length R" "R ! 3 = x" using x unfolding three(1) by (simp_all split: if_splits)
  then show ?thesis using R(2) [rule_format, OF rq] s(1) x unfolding three(1) Let_def by (intro exI conjI) simp_all
qed

end
