(* ===== verification/Command.thy ===== *)
theory Command
  imports Config_Properties
begin

text \<open>
  The command \<^verbatim>\<open>cmd/clique-node/main.go\<close>: from the flags to the exit status. The flag parser of the cli library has produced the
  flags, and \<open>start\<close> is what \<^verbatim>\<open>Start\<close> of the node returns once its context is cancelled or it fails.
\<close>

datatype run_error = RunLoad load_error | RunInit boot_error | RunStart start_error

text \<open>What \<^verbatim>\<open>node.New\<close> returns once the database has been replayed; \<^const>\<open>None\<close> if the replay does not end.\<close>

fun initResult :: "AnyNode \<Rightarrow> (boot_error, AnyNode) result option" where
  "initResult (CliqueNode e b) =
     map_option (\<lambda>x. case x of Booted n c pid \<Rightarrow> Ok (CliqueNode e b) | BootFailed err \<Rightarrow> Err err | BootPanic \<Rightarrow> Panic) b"
| "initResult (QBFTNode e b) =
     map_option (\<lambda>x. case x of Booted n c pid \<Rightarrow> Ok (QBFTNode e b) | BootFailed err \<Rightarrow> Err err | BootPanic \<Rightarrow> Panic) b"

definition runNode ::
    "Env \<Rightarrow> IstanbulExtra codec \<Rightarrow> (os_call \<Rightarrow> bool) \<Rightarrow> World \<Rightarrow> Flags \<Rightarrow> (ClientConfig \<Rightarrow> AnyNode \<Rightarrow> (start_error, unit) result)
      \<Rightarrow> (run_error, unit) result option" where
  "runNode V C os W fl start =
     (case runConfig W fl of
        Err e \<Rightarrow> Some (Err (RunLoad e))
      | Panic \<Rightarrow> Some Panic
      | Ok conf \<Rightarrow>
          (case New_node V C os W conf of
             Err e \<Rightarrow> Some (Err (RunInit e))
           | Panic \<Rightarrow> Some Panic
           | Ok node \<Rightarrow>
               map_option (\<lambda>r. case r of
                   Err e \<Rightarrow> Err (RunInit e)
                 | Panic \<Rightarrow> Panic
                 | Ok n \<Rightarrow> (case start conf n of Ok _ \<Rightarrow> Ok () | Err e \<Rightarrow> Err (RunStart e) | Panic \<Rightarrow> Panic)) (initResult node)))"

text \<open>The exit status: 1 after an error, 2 when the Go runtime ends the process.\<close>

definition main_exit :: "(run_error, unit) result \<Rightarrow> nat" where
  "main_exit r = (case r of Ok _ \<Rightarrow> 0 | Err _ \<Rightarrow> 1 | Panic \<Rightarrow> 2)"

lemma initResult_Ok: "initResult node = Some (Ok n) \<Longrightarrow>
  n = node \<and> ((\<exists>e m c pid. node = CliqueNode e (Some (Booted m c pid))) \<or> (\<exists>e m c pid. node = QBFTNode e (Some (Booted m c pid))))"
proof (induction node rule: initResult.induct)
  case (1 e b)
  then obtain x where "b = Some x" by (cases b) simp_all
  with 1 show ?case by (cases x) auto
next
  case (2 e b)
  then obtain x where "b = Some x" by (cases b) simp_all
  with 2 show ?case by (cases x) auto
qed

text \<open>
  The command succeeds only with a valid configuration and a completely built node that started and was stopped without
  error; every failure of loading or building ends it before anything is started.
\<close>

lemma command_succeeds:
  assumes "runNode V C os W fl start = Some r" and "main_exit r = 0"
  shows "\<exists>conf n. runConfig W fl = Ok conf \<and> Validate conf = Ok () \<and> New_node V C os W conf = Ok n \<and> initResult n = Some (Ok n) \<and>
    start conf n = Ok ()"
proof -
  have "r = Ok ()" using assms(2) by (cases r) (simp_all add: main_exit_def)
  with assms(1) obtain conf where conf: "runConfig W fl = Ok conf" by (cases "runConfig W fl") (simp_all add: runNode_def)
  with assms(1) \<open>r = Ok ()\<close> obtain node where node: "New_node V C os W conf = Ok node"
    by (cases "New_node V C os W conf") (simp_all add: runNode_def)
  obtain z where z: "initResult node = Some z" using assms(1) conf node by (cases "initResult node") (simp_all add: runNode_def)
  have step: "(case z of Err e \<Rightarrow> Err (RunInit e) | Panic \<Rightarrow> Panic
      | Ok n \<Rightarrow> (case start conf n of Ok _ \<Rightarrow> Ok () | Err e \<Rightarrow> Err (RunStart e) | Panic \<Rightarrow> Panic)) = Ok ()"
    using assms(1) \<open>r = Ok ()\<close> unfolding runNode_def conf node z result.case option.map option.inject by simp
  then obtain n where "z = Ok n" "start conf n = Ok ()" by (cases z) (auto split: result.splits)
  with conf node z have run: "runConfig W fl = Ok conf" "New_node V C os W conf = Ok node" "initResult node = Some (Ok n)" "start conf n = Ok ()"
    by simp_all
  have "n = node" using initResult_Ok [OF run(3)] by blast
  then show ?thesis using run runConfig_valid [OF conf] by blast
qed

lemma command_fails_early:
  assumes "\<And>conf. runConfig W fl \<noteq> Ok conf"
  shows "runNode V C os W fl start = runNode V C os W fl start'"
  using assms by (simp add: runNode_def split: result.split)

end
