(* ===== verification/Numbering.thy ===== *)
theory Numbering
  imports Producer_Properties
begin

text \<open>
  The numbers of headers, over the engines, the store and the node: none of them compares a number with the parent's, and what a
  node does with a block that skips one.
\<close>

section \<open>Numbers that are not checked\<close>

lemma collectHeaders_gap:
  assumes "GetByNumber s m = None" "i \<le> m" "m \<le> num"
  shows "collectHeaders s i num acc = Some None"
  using assms
proof (induction "unat (m - i)" arbitrary: i acc)
  case 0
  then have "m = i" by (simp add: unat_eq_0)
  then show ?case using 0 by (subst collectHeaders.simps) simp
next
  case (Suc x)
  show ?case
  proof (cases "GetByNumber s i")
    case None
    then show ?thesis using Suc.prems by (subst collectHeaders.simps) simp
  next
    case (Some h)
    then have lt: "i < m" using Suc.prems by (cases "i = m") auto
    then have "i + 1 \<le> m" by (rule inc_le)
    moreover have "unat (m - (i + 1)) = x"
    proof -
      have "m - i \<noteq> 0" using Suc.hyps(2) by auto
      then have "unat (m - i - 1) = unat (m - i) - 1" by (rule unat_minus_one)
      then show ?thesis using Suc.hyps(2) by (simp add: algebra_simps)
    qed
    ultimately have "collectHeaders s (i + 1) num (acc @ [h]) = Some None" using Suc.hyps(1) Suc.prems by simp
    then show ?thesis using Some Suc.prems by (subst collectHeaders.simps) simp
  qed
qed

lemma baseSnapshot_keeps:
  "\<exists>n' r. baseSnapshot E n es = Some (n', r) \<and> nStor n' = nStor n \<and> nHeadSnap n' = nHeadSnap n \<and> nSyncing n' = nSyncing n"
  by (cases "opNewCheckpointSnapshot E (the (GetByNumber (nStor n) es))") (auto simp: baseSnapshot_def split: option.split)

text \<open>With a number missing between the epoch boundary and a header, there is no snapshot at that header.\<close>

lemma computeSnapshot_gap:
  fixes E :: "('s, 'e) EngineOps"
  assumes "hnum h = Some k" "opBlockNumber E (nHeadSnap n) + 1 \<noteq> k" "opEpoch E \<noteq> 0"
    and "k div opEpoch E * opEpoch E < m" "m \<le> k" "GetByNumber (nStor n) m = None"
  shows "\<exists>n' r. computeSnapshot E n h = Some (n', r) \<and> \<not> is_ok r \<and> nStor n' = nStor n \<and> nHeadSnap n' = nHeadSnap n \<and> nSyncing n' = nSyncing n"
proof -
  let ?es = "k div opEpoch E * opEpoch E"
  obtain n1 r where b: "baseSnapshot E n ?es = Some (n1, r)" "nStor n1 = nStor n" "nHeadSnap n1 = nHeadSnap n" "nSyncing n1 = nSyncing n"
    using baseSnapshot_keeps by blast
  have "?es + 1 \<le> m" using assms(4) by (rule inc_le)
  then have c: "collectHeaders (nStor n) (?es + 1) k [] = Some None" using collectHeaders_gap [OF assms(6) _ assms(5)] by blast
  have "computeSnapshot E n h = nbind (baseSnapshot E n ?es) (\<lambda>n base. replayFrom E n base ?es k)"
    using assms(1-3) by (simp add: computeSnapshot_def Let_def)
  also have "\<dots> = (case r of Ok base \<Rightarrow> Some (n1, Err NErrBlockMissing) | Err e \<Rightarrow> Some (n1, Err e) | Panic \<Rightarrow> Some (n1, Panic))"
    unfolding b(1) by (cases r) (simp_all add: replayFrom_def b(2) c)
  finally show ?thesis using b(2-4) by (cases r) auto
qed

lemma deliverHead_gap:
  fixes E :: "('s, 'e) EngineOps"
  assumes "hnum h = Some k" "opBlockNumber E (nHeadSnap n) + 1 \<noteq> k" "opEpoch E \<noteq> 0"
    and "k div opEpoch E * opEpoch E < m" "m \<le> k" "GetByNumber (nStor n) m = None"
  shows "\<exists>n' r. deliverHead V E n h k blk = Some (n', r) \<and> \<not> is_ok r \<and> nStor n' = nStor n \<and> nHeadSnap n' = nHeadSnap n \<and> nSyncing n' = nSyncing n"
proof -
  obtain n' r where c: "computeSnapshot E n h = Some (n', r)" "\<not> is_ok r" "nStor n' = nStor n" "nHeadSnap n' = nHeadSnap n" "nSyncing n' = nSyncing n"
    using computeSnapshot_gap [OF assms] by blast
  then show ?thesis by (cases r) (auto simp: deliverHead_def split: option.split)
qed

lemma AddBlock_unnumbered:
  assumes "stHead s = Some e" "stBlocks s (ehash G e) = Some e" "ParentHash h = ehash G e"
    and "hnum h = Some k" "Difficulty h = Some d" "0 < d" "stBlocks s (hdrHash G h) = None"
  shows "\<exists>s'. AddBlock G H P io s h el pj = Some (s', Ok (True, 0)) \<and> Head s' = Some h \<and> GetByHash s' (hdrHash G h) = Some h \<and>
    stNumbers s' = (stNumbers s)(k \<mapsto> hdrHash G h)"
proof -
  obtain z where z: "Number h = Some z" using assms(4) by (auto simp: hnum_def)
  have "hdrHash G h \<noteq> ehash G e" using assms(2,7) by auto
  then show ?thesis using assms z
    by (auto simp: AddBlock_def setHead_def storeBlock_def updateSafeFinalized_def Let_def number_of_hnum Head_def GetByHash_def)
qed

text \<open>
  C31. A header's number is never compared with its parent's. Neither engine's verdict depends on the number of the
  parent. Let a node with its snapshot at its head \<open>p\<close>, numbered \<open>j\<close>, receive a block that extends \<open>p\<close>, verifies in the snapshot
  there, and carries a number \<open>k > j + 1\<close> of the same epoch. Then \<^verbatim>\<open>handleBlock\<close> stores it and makes it the head, leaves the
  number \<open>j + 1\<close> without a canonical block, and fails; and from then on the node refuses every block on its new head,
  whatever it holds, because the snapshot there cannot be computed. One authorized signer can so give a node a head that
  it cannot extend.
\<close>

theorem node_number_gap_stalls:
  fixes n :: "'s Node" and E :: "('s, 'e) EngineOps"
  assumes "\<not> nSyncing n" and "stHead (nStor n) = Some e" and "stBlocks (nStor n) (ehash (evG V) e) = Some e"
    and "hnum (beHeader e) = Some j" and "opBlockNumber E (nHeadSnap n) = j" and "stNumbers (nStor n) (j + 1) = None"
    and "computeSnapshotAt (evG V) E n (beHeader e) = Some (n, Ok snap)"
    and "dec (evH V) (cbHeader blk) = Some h" and "ParentHash h = ehash (evG V) e" and "stBlocks (nStor n) (hdrHash (evG V) h) = None"
    and "hnum h = Some k" and "j < k" and "k \<noteq> j + 1" and "opEpoch E \<noteq> 0" and "k div opEpoch E * opEpoch E \<le> j"
    and "Difficulty h = Some d" and "0 < d" and "opVerifyHeader E snap h (Some (beHeader e)) = Ok ()"
  shows "(\<forall>G c s hd p x. VerifyHeader G c s hd (Some (p\<lparr>Number := x\<rparr>)) = VerifyHeader G c s hd (Some p)) \<and>
    (\<forall>G C q s hd p x. VerifyHeader_q G C q s hd (Some (p\<lparr>Number := x\<rparr>)) = VerifyHeader_q G C q s hd (Some p) \<and>
       VerifyProposal G C q s hd (Some (p\<lparr>Number := x\<rparr>)) = VerifyProposal G C q s hd (Some p)) \<and>
    (\<exists>n' r. handleBlock V E n blk = Some (n', r) \<and> \<not> is_ok r \<and> Head (nStor n') = Some h \<and>
       GetByNumber (nStor n') (j + 1) = None \<and> nHeadSnap n' = nHeadSnap n \<and>
       (\<forall>blk2 h2. dec (evH V) (cbHeader blk2) = Some h2 \<and> ParentHash h2 = hdrHash (evG V) h \<and> hnum h2 \<noteq> None \<longrightarrow>
          (\<exists>n2 r2. handleBlock V E n' blk2 = Some (n2, r2) \<and> \<not> is_ok r2 \<and> nStor n2 = nStor n')))"
proof (intro conjI)
  have time: "Time (p\<lparr>Number := x\<rparr>) = Time p" for p :: header and x by simp
  show "\<forall>G c s hd p x. VerifyHeader G c s hd (Some (p\<lparr>Number := x\<rparr>)) = VerifyHeader G c s hd (Some p)"
    unfolding VerifyHeader_def option.case time by (intro allI refl)
  show "\<forall>G C q s hd p x. VerifyHeader_q G C q s hd (Some (p\<lparr>Number := x\<rparr>)) = VerifyHeader_q G C q s hd (Some p) \<and>
      VerifyProposal G C q s hd (Some (p\<lparr>Number := x\<rparr>)) = VerifyProposal G C q s hd (Some p)"
    unfolding VerifyHeader_q_def VerifyProposal_def tooEarly_def option.case time by (intro allI conjI refl)
  have "unat k < 2 ^ 64" using unsigned_less [of k, where 'a = nat] by simp
  then have "unat (j + 1) = unat j + 1" using assms(12) by (simp add: word_less_nat_alt unat_word_ariths)
  then have jk: "j < j + 1" "j + 1 \<le> k" using inc_le [OF assms(12)] by (simp_all add: word_less_nat_alt)
  have es: "k div opEpoch E * opEpoch E < j + 1" using assms(15) jk(1) by (rule le_less_trans)
  have k0: "k \<noteq> 0" using assms(12) by auto
  obtain s' where s': "AddBlock (evG V) (evH V) (evP V) (evIO V) (nStor n) h (cbExecutionPayloadHash blk) (cbPayloadJSON blk) = Some (s', Ok (True, 0))"
    "Head s' = Some h" "GetByHash s' (hdrHash (evG V) h) = Some h" "stNumbers s' = (stNumbers (nStor n))(k \<mapsto> hdrHash (evG V) h)"
    using AddBlock_unnumbered [OF assms(2,3,9,11,16,17,10)] by blast
  have gap: "GetByNumber s' (j + 1) = None" using s'(4) assms(6,13) by (simp add: GetByNumber_def)
  obtain n' r where d: "deliverHead V E (n\<lparr>nStor := s'\<rparr>) h k blk = Some (n', r)" "\<not> is_ok r" "nStor n' = s'" "nHeadSnap n' = nHeadSnap n" "\<not> nSyncing n'"
    using deliverHead_gap [OF assms(11) _ assms(14) es jk(2), of "n\<lparr>nStor := s'\<rparr>" V blk] assms(1,5,13) gap by auto
  have "GetByHash (nStor n) (ParentHash h) = Some (beHeader e)" using assms(3,9) by (simp add: GetByHash_def)
  then have run: "handleBlock V E n blk = Some (n', r)"
    unfolding handleBlock_def assms(8) option.case assms(11) using assms(1,7,18) s'(1) d(1) by (simp add: addToStore_def)
  have "\<exists>n2 r2. handleBlock V E n' blk2 = Some (n2, r2) \<and> \<not> is_ok r2 \<and> nStor n2 = nStor n'"
    if b: "dec (evH V) (cbHeader blk2) = Some h2" "ParentHash h2 = hdrHash (evG V) h" "hnum h2 = Some i" for blk2 h2 i
  proof -
    have "opBlockNumber E (nHeadSnap n') \<noteq> k" using d(4) assms(5,12) by auto
    then have "computeSnapshotAt (evG V) E n' h = computeSnapshot E n' h" using assms(11) k0 by (simp add: computeSnapshotAt_def)
    moreover obtain n2 r2 where c: "computeSnapshot E n' h = Some (n2, r2)" "\<not> is_ok r2" "nStor n2 = nStor n'"
      using computeSnapshot_gap [OF assms(11) _ assms(14) es jk(2), of n'] assms(5,13) d(3,4) gap by auto
    moreover have "GetByHash (nStor n') (ParentHash h2) = Some h" using b(2) d(3) s'(3) by simp
    ultimately show ?thesis unfolding handleBlock_def b(1) option.case b(3) using d(5) by (cases r2) simp_all
  qed
  then show "\<exists>n' r. handleBlock V E n blk = Some (n', r) \<and> \<not> is_ok r \<and> Head (nStor n') = Some h \<and>
       GetByNumber (nStor n') (j + 1) = None \<and> nHeadSnap n' = nHeadSnap n \<and>
       (\<forall>blk2 h2. dec (evH V) (cbHeader blk2) = Some h2 \<and> ParentHash h2 = hdrHash (evG V) h \<and> hnum h2 \<noteq> None \<longrightarrow>
          (\<exists>n2 r2. handleBlock V E n' blk2 = Some (n2, r2) \<and> \<not> is_ok r2 \<and> nStor n2 = nStor n'))"
    using run d s'(2) gap by (intro exI [of _ n'] exI [of _ r] conjI) auto
qed

text \<open>A Clique network with epochs of ten blocks, and a block on genesis that its signer numbered 3.\<close>

definition gapOps :: "(Snapshot, clique_error) EngineOps" where
  "gapOps = cliqueOps ndG (New 0 10)"

definition gapBlock :: header where "gapBlock = ndSealed (ndHeader 4 0 3 2 False) 2"
definition gapChild :: header where "gapChild = ndSealed (ndHeader 5 4 4 2 False) 1"

definition gapDec :: "bytes \<Rightarrow> header option" where
  "gapDec bs = find (\<lambda>h. TxHash h = bs) [gapBlock, gapChild]"

definition gapEnv :: Env where
  "gapEnv = ndEnv\<lparr>evH := \<lparr>enc = ndEncHeader, dec = gapDec\<rparr>\<rparr>"

theorem node_number_gap_stalls_witness:
  "\<exists>n n' r n2 r2. newNode gapOps ndG ndGenesis 1 None = Ok n \<and> handleBlock gapEnv gapOps n (ndWire gapBlock) = Some (n', r) \<and> \<not> is_ok r \<and>
     Head (nStor n') = Some gapBlock \<and> GetByNumber (nStor n') 1 = None \<and>
     handleBlock gapEnv gapOps n' (ndWire gapChild) = Some (n2, r2) \<and> \<not> is_ok r2 \<and> nStor n2 = nStor n'"
proof -
  have "is_ok (NewGenesisSnapshot ndG ndGenesis)" by code_simp
  then obtain snap where snap: "NewGenesisSnapshot ndG ndGenesis = Ok snap" by (auto simp: is_ok_iff)
  then obtain n where n: "newNode gapOps ndG ndGenesis 1 None = Ok n" "nGenesisSnap n = snap" "nHeadSnap n = snap" "\<not> nSyncing n"
    "nStor n = New_store ndG ndGenesis (opEpoch gapOps)"
    by (simp add: newNode_def gapOps_def cliqueOps_def)
  have num: "hnum ndGenesis = Some 0" "hnum gapBlock = Some 3" "hnum gapChild = Some 4" "Difficulty gapBlock = Some 2"
    "ParentHash gapBlock = hdrHash ndG ndGenesis" "ParentHash gapChild = hdrHash ndG gapBlock" "hdrHash ndG gapBlock \<noteq> hdrHash ndG ndGenesis"
    "gapDec (cbHeader (ndWire gapBlock)) = Some gapBlock" "gapDec (cbHeader (ndWire gapChild)) = Some gapChild"
    by code_simp+
  have "map_option snNumber (okVal (NewGenesisSnapshot ndG ndGenesis)) = Some 0" by code_simp
  then have s0: "opBlockNumber gapOps snap = 0" unfolding snap by (simp add: gapOps_def cliqueOps_def)
  have "rbind (NewGenesisSnapshot ndG ndGenesis) (\<lambda>snap. VerifyHeader ndG (New 0 10) snap gapBlock (Some ndGenesis)) = Ok ()" by code_simp
  then have ver: "opVerifyHeader gapOps snap gapBlock (Some ndGenesis) = Ok ()" unfolding snap by (simp add: gapOps_def cliqueOps_def)
  have ep: "opEpoch gapOps = 10" by (simp add: gapOps_def cliqueOps_def New_def)
  have ev: "evG gapEnv = ndG" "dec (evH gapEnv) = gapDec" by (simp_all add: gapEnv_def ndEnv_def)
  let ?e = "genesisEntry ndGenesis"
  have st: "stHead (nStor n) = Some ?e" "stBlocks (nStor n) (ehash (evG gapEnv) ?e) = Some ?e" "stNumbers (nStor n) (0 + 1) = None"
    "stBlocks (nStor n) (hdrHash (evG gapEnv) gapBlock) = None" "beHeader ?e = ndGenesis"
    using num(7) unfolding n(5) ev by (simp_all add: New_store_def Let_def genesisEntry_def)
  have at: "computeSnapshotAt (evG gapEnv) gapOps n (beHeader ?e) = Some (n, Ok snap)"
    using num(1) n(2) unfolding st(5) by (simp add: computeSnapshotAt_def)
  have "\<exists>n' r. handleBlock gapEnv gapOps n (ndWire gapBlock) = Some (n', r) \<and> \<not> is_ok r \<and> Head (nStor n') = Some gapBlock \<and>
      GetByNumber (nStor n') (0 + 1) = None \<and> nHeadSnap n' = nHeadSnap n \<and>
      (\<forall>blk2 h2. dec (evH gapEnv) (cbHeader blk2) = Some h2 \<and> ParentHash h2 = hdrHash (evG gapEnv) gapBlock \<and> hnum h2 \<noteq> None \<longrightarrow>
         (\<exists>n2 r2. handleBlock gapEnv gapOps n' blk2 = Some (n2, r2) \<and> \<not> is_ok r2 \<and> nStor n2 = nStor n'))"
    by (rule node_number_gap_stalls [where k = 3 and d = 2 and snap = snap and e = ?e, THEN conjunct2, THEN conjunct2])
       (use n s0 st at num ep ver in \<open>simp_all add: ev\<close>)
  then show ?thesis using n(1) num(3,6,9) unfolding ev by auto
qed

end
