(* ===== verification/Spec2Isabelle.thy ===== *)
theory Spec2Isabelle
  imports Clique_Properties Qbft_Properties Forkchoice_Properties Node_Properties Sync_Properties Producer_Properties Loop_Properties
    P2p_Properties Engine_Properties Config_Properties Setup_Properties Network_Properties Clique_Heap Server_Properties Command Numbering
begin

text \<open>
  \<^bold>\<open>A consensus client for proof-of-authority Ethereum networks.\<close> The program keeps a chain of sealed block headers
  beside an execution client. Two consensus mechanisms implement one interface: Clique (EIP-225), where signers
  take turns and a majority votes signers in and out, and QBFT, where a block is final once more than two thirds
  of the validators have sealed it. A fork choice store holds the block tree and its heaviest chain, an
  append-only file keeps it over restarts, the node verifies and imports blocks that arrive by gossip or by a sync
  session, the producer (Clique) or the protocol loop (QBFT) makes new ones, an HTTP server reports the state
  and accepts votes, and an Engine API client drives the execution client.

  \<^bold>\<open>Theories and sources\<close> (paths below \<^verbatim>\<open>src/internal\<close> unless they start with \<^verbatim>\<open>cmd\<close> or \<^verbatim>\<open>scripts\<close>):

  \<^item> \<open>Prelude\<close>: Go's integers as words, byte slices, and the result of a call: \<open>Ok\<close> value, \<open>Err\<close> error, or \<open>Panic\<close>.
    \<open>Geth\<close>: the header type and, as the record \<open>geth\<close>, what go-ethereum computes (hashes, RLP, ECDSA).
  \<^item> \<open>Consensus\<close>: \<^verbatim>\<open>consensus/consensus.go\<close>, the contracts of a snapshot and of an engine as locales.
  \<^item> \<open>Clique_Snapshot\<close>, \<open>Clique_Engine\<close>: \<^verbatim>\<open>consensus/clique\<close> (snapshot, vote, seal, clique, api).
    \<open>Clique_Heap\<close>: the same snapshots with their pointers, shared maps and backing arrays in an explicit memory.
  \<^item> \<open>Qbft_Extra\<close>, \<open>Qbft_Engine\<close>: \<^verbatim>\<open>consensus/qbft\<close> (extra, engine, snapshot). \<open>Qbft_Core\<close>: \<^verbatim>\<open>consensus/qbft/core\<close>, with runs and
    their invariants in \<open>Qbft_Core_Inv\<close>, agreement in \<open>Qbft_Agreement\<close> and progress in \<open>Qbft_Liveness\<close>;
    \<open>Qbft_Network\<close>: the cores of several nodes and the messages between them.
  \<^item> \<open>ChainDB\<close>, \<open>Forkchoice\<close>: \<^verbatim>\<open>forkchoice/db.go\<close> and \<^verbatim>\<open>store.go\<close>, with the store invariant in \<open>Forkchoice_Inv\<close> and
    histories and restarts in \<open>Forkchoice_Hist\<close>.
  \<^item> \<open>Node_Chain\<close>: \<^verbatim>\<open>node/node.go\<close> (state, snapshot cache), \<^verbatim>\<open>block_processor.go\<close>, \<^verbatim>\<open>sync.go\<close>. \<open>Node_Producer\<close>: \<^verbatim>\<open>node/block_producer.go\<close>.
    \<open>Node_Qbft\<close> and \<open>Node_Loop\<close>: \<^verbatim>\<open>node/qbft_loop.go\<close>, the wiring of the core and the loop itself.
  \<^item> \<open>Rpc\<close>: the handlers of \<^verbatim>\<open>rpc\<close>; \<open>Rpc_Server\<close>: \<^verbatim>\<open>rpc/server.go\<close> around them; \<open>Json\<close>: the part of \<^verbatim>\<open>encoding/json\<close> the program
    writes with, compact and indented, escapes and the replacement of invalid UTF-8 included, and a reader as its reference. \<open>P2p\<close>: \<^verbatim>\<open>p2p\<close>. \<open>Engine_Client\<close>: \<^verbatim>\<open>engine\<close>.
  \<^item> \<open>Node_Config\<close>: \<^verbatim>\<open>config/config.go\<close>, \<^verbatim>\<open>log/log.go\<close>, the configuration part of \<^verbatim>\<open>cmd/clique-node/main.go\<close>, and \<^verbatim>\<open>New\<close>, \<^verbatim>\<open>Start\<close>, \<^verbatim>\<open>shutdown\<close> of \<^verbatim>\<open>node/node.go\<close>.
    \<open>Command\<close>: the rest of \<^verbatim>\<open>main.go\<close>, up to the exit status.
  \<^item> \<open>Setup\<close>: \<^verbatim>\<open>scripts/demo/init/main.go\<close>.
  \<^item> The theories \<open>\<dots>_Properties\<close> hold the properties of these parts and the instances their witnesses evaluate;
    \<open>Numbering\<close> holds one that spans the engines, the store and the node.

  \<^bold>\<open>How the model relates to the code.\<close> A struct is a record with the same fields, an operation a function that
  returns the updated state, with one branch for every early return, error and run-time panic. A Go map is
  a partial function, or an association list where iteration order shows. Integers keep their width: block
  numbers and times are 64-bit words that wrap, durations are signed 64-bit nanoseconds with the saturation of
  package \<^verbatim>\<open>time\<close>. Mutexes are not modelled: a handler is one step, and concurrency is the order of whole handlers. The
  code does not enforce this everywhere: \<^verbatim>\<open>handleBlock\<close> only tests the sync lock and releases it at once, so a sync may start
  while a block is being handled, and the snapshots have a lock of their own; such interleavings inside a handler
  are not modelled. Where two goroutines meet in one function (the round loop
  with its channel and timer, the polling of the execution client) what happens is an explicit list of events. The
  answers of the execution client are one function per call of a handler: within one handler it answers the same call in the same
  way, except in the polling loop, whose answers are events.
  What the client calls outside its sources is an argument: hashing and signatures, the codecs (RLP, JSON, TOML), the
  execution client's answers, libp2p's streams and gossip, HTTP, files and failing writes, clock readings and
  random jitter. Properties name what they assume of them, for example that decoding inverts encoding, and each has
  a witness in which the assumptions hold for concrete functions.

  \<^bold>\<open>Numbering.\<close> The properties of the store and of what is served from it are about histories whose headers are numbered
  consistently, each one more than its parent (\<open>consistent\<close>). The code relies on this and does not check it: neither engine
  nor the store compares a number with the parent's. What then happens is \<open>node_number_gap_stalls\<close>.

  \<^bold>\<open>Loops.\<close> Loops over lists are structural. The walks along parent links, \<^verbatim>\<open>BlocksInRange\<close>, the collection of headers for
  a snapshot and the rounds of an instance may run for ever in the source and are partial functions with value
  \<^const>\<open>None\<close> when they do; that they return is proved where it holds (\<open>forkchoice_common_ancestor\<close>,
  \<open>forkchoice_refines_heaviest_chain\<close>, \<open>node_sync_converges\<close>) and that they do not is proved where it does not
  (\<open>forkchoice_blocks_in_range\<close> for the largest bound, \<open>qbft_echo_deadlock\<close>). No definition uses fuel; a sync session
  consumes one answer of the peer per turn, and the convergence theorem gives a number of answers that suffices.

  \<^bold>\<open>What is shown.\<close>

  \<^item> \<^emph>\<open>Clique\<close>: replay keeps the snapshot well-formed and the incremental tally equal to a recount; outside epoch
    boundaries only a majority of distinct signers changes the set; header verification is exactly a
    declarative predicate; signers keep their distance; batches replay like single headers; with the sharing of Go's
    maps, slices and pointers made explicit, every snapshot the client holds keeps the value the functional replay gives. Two defects: a
    signer whose recent entry is stale after a removal is locked out, and the signer list of an epoch header is not checked.
  \<^item> \<^emph>\<open>QBFT\<close>: a header the core commits passes the engine's verification if the counted COMMITs carry seals and the node's own
    proposals are valid; two cores that commit in one view share more
    than a third of the validators; one COMMIT and one block per run; in a network where
    enough validators are correct and each sees the PROPOSAL first, every correct core commits once the messages have
    arrived, in whatever order; a round-change certificate is accepted by every core of the new round. The protocol loop returns only what a run of
    the core decided. Two defects: a COMMIT for the zero hash panics after a timeout, and the echo of a broadcast can block
    the loop for good.
  \<^item> \<^emph>\<open>Store and database\<close>: every consistently numbered history ends in the tree and head of the heaviest-chain
    specification; the number index is the chain of the head; the file refines a list of records under partial writes;
    a restart, also after a crash in the middle of a write, rebuilds the store.
  \<^item> \<^emph>\<open>Node\<close>: only headers verified against the snapshot at their stored parent reach the store, by gossip and over a whole sync
    session with its resets; a sync request is
    answered with the canonical headers after the requester's head, or with a reset; a fresh node that syncs with an honest peer
    over the sync exchange ends at the peer's head if every response fits its limit; a published Clique block verifies at every peer with the same snapshot; the in-turn signer is
    scheduled first; a posted vote is cast once. A node built from a loaded configuration stays well-typed through every
    interleaving of its handlers. Defects: a restart forgets the recent signers, one peer can erase the chain, a QBFT validator
    also runs the Clique producer, and a block that skips a number becomes a head the node cannot extend.
  \<^item> \<^emph>\<open>Network, engine, server, set-up\<close>: framing survives streams that break off; both ends of a handshake agree; a sync response over the limit stalls the sync; every Engine API request carries
    its own identifier and a token at most 50 seconds old; the HTTP server answers a block
    request with the JSON text of the canonical block, and only a posted vote changes it; the secrets and keys of the set-up
    program are read back by the client, and its indented genesis text reads back as the genesis document.

  \<^bold>\<open>Interfaces.\<close> Contracts shared by several parts are locales, interpreted on the model: \<open>consensus_snapshot\<close> and
  \<open>consensus_engine\<close> by both mechanisms, \<open>bft_engine\<close> by the QBFT engine, \<open>quorum_sets\<close> by the seals and by the votes of QBFT, \<open>block_log\<close> by the chain
  database, \<open>message_channel\<close> by the framed streams, \<open>node_predicate\<close> and its extension \<open>loop_predicate\<close> by the typing
  invariant of the node.

  \<^bold>\<open>Not modelled.\<close> The chi router with its recovery middleware and the listener of the HTTP server, the mDNS service and the
  libp2p host behind their parameters (a gossip subscription is the list of messages it yields; whom a message reaches and
  how often is up to gossipsub), the zerolog writer, the cli library and the signal context, the fields of an execution payload
  the client only passes on, and a failing random source in the set-up program. They are calls of libraries without logic
  of this program. Trimming and lower-casing of text are modelled on ASCII.
\<close>

text \<open>
  Shutting down releases what starting acquired: once the host has started, \<^verbatim>\<open>shutdown\<close> cancels both subscriptions, closes mDNS
  exactly if it was enabled, and closes the libp2p host and, if one is attached, the database; no production timer is left.
\<close>

lemma shutdown_releases:
  assumes "Start_host L enableMDNS boots h = (h', Ok peers)"
  shows "shutdown h' p = (p\<lparr>pdTimer := None\<rparr>,
    [StopRPC, CancelBlocks, CancelQBFT] @ (if enableMDNS then [CloseMDNS] else []) @ [CloseLibp2p] @
    (if stDb (nStor (pdNode p)) = None then [] else [CloseDB]))"
  using assms by (auto simp: Start_host_def shutdown_def Close_host_def Let_def split: if_splits)

end
